(* ===== verification/Go_Prelude.thy ===== *)
theory Go_Prelude
  imports Main "HOL-Library.Word" "HOL-Library.Char_ord" "HOL-Library.List_Lexorder"
    "HOL-Library.Multiset"
begin

text \<open>
  What the Go sources use of the language and of its standard library, shared by every
  component: results of fallible calls, loops that stop at the first error, the
  \<^verbatim>\<open>strings\<close> and \<^verbatim>\<open>strconv\<close> operations on byte strings, \<^verbatim>\<open>uint64\<close> arithmetic, map
  reads with a zero default, and the contract of \<^verbatim>\<open>sort.Slice\<close> as a locale.
  Strings are byte lists; white space is the ASCII white space of \<^verbatim>\<open>strings.Fields\<close> and
  \<^verbatim>\<open>strings.TrimSpace\<close> (the Unicode spaces above U+007F are not recognised here).
\<close>

type_synonym u64 = "64 word"

section \<open>Fallible calls\<close>

definition rbind :: "'e + 'a \<Rightarrow> ('a \<Rightarrow> 'e + 'b) \<Rightarrow> 'e + 'b" where
  "rbind m f = (case m of Inl e \<Rightarrow> Inl e | Inr x \<Rightarrow> f x)"

definition require :: "bool \<Rightarrow> 'e \<Rightarrow> 'e + unit" where
  "require b e = (if b then Inr () else Inl e)"

lemma rbind_simps [simp]:
  "rbind (Inl e) f = Inl e" "rbind (Inr x) f = f x"
  by (simp_all add: rbind_def)

lemma rbind_eq_Inr [simp]: "rbind m f = Inr y \<longleftrightarrow> (\<exists>x. m = Inr x \<and> f x = Inr y)"
  by (cases m) auto

lemma rbind_InrE:
  "rbind m f = Inr y \<Longrightarrow> (\<And>x. m = Inr x \<Longrightarrow> f x = Inr y \<Longrightarrow> P) \<Longrightarrow> P"
  by (auto simp: rbind_def split: sum.splits)

lemma rbind_eq_Inl: "rbind m f = Inl e \<longleftrightarrow> m = Inl e \<or> (\<exists>x. m = Inr x \<and> f x = Inl e)"
  by (cases m) auto

lemma require_eq_Inr [simp]: "require b e = Inr u \<longleftrightarrow> b"
  by (simp add: require_def)

lemma require_True [simp]: "b \<Longrightarrow> require b e = Inr ()"
  by (simp add: require_def)

lemma require_False [simp]: "\<not> b \<Longrightarrow> require b e = Inl e"
  by (simp add: require_def)

text \<open>A \<^verbatim>\<open>for range\<close> loop whose body may return an error, over an accumulator.\<close>

fun each :: "('s \<Rightarrow> 'a \<Rightarrow> 'e + 's) \<Rightarrow> 's \<Rightarrow> 'a list \<Rightarrow> 'e + 's" where
  "each f s [] = Inr s"
| "each f s (x # xs) = rbind (f s x) (\<lambda>t. each f t xs)"

lemma each_append: "each f s (xs @ ys) = rbind (each f s xs) (\<lambda>t. each f t ys)"
proof (induction xs arbitrary: s)
  case (Cons x xs)
  then show ?case by (cases "f s x") auto
qed simp

text \<open>The invariant rule of such a loop: \<open>P\<close> relates the elements done to the state.\<close>

lemma each_invariant:
  assumes "each f s xs = Inr t" and "P [] s"
    and step: "\<And>pre x u v. P pre u \<Longrightarrow> x \<in> set xs \<Longrightarrow> f u x = Inr v \<Longrightarrow> P (pre @ [x]) v"
  shows "P xs t"
proof -
  have "P (pre @ ys) t" if "each f u ys = Inr t" "P pre u" "set ys \<subseteq> set xs" for pre u ys
    using that
  proof (induction ys arbitrary: pre u)
    case Nil
    then show ?case by simp
  next
    case (Cons y ys)
    from Cons.prems(1) obtain v where v: "f u y = Inr v" and rest: "each f v ys = Inr t"
      by auto
    have "P (pre @ [y]) v" using step Cons.prems(2,3) v by auto
    from Cons.IH [OF rest this] Cons.prems(3) show ?case by simp
  qed
  from this [of s xs "[]"] assms(1,2) show ?thesis by simp
qed

text \<open>Mapping a fallible function over a slice, stopping at the first error.\<close>

fun rmap :: "('a \<Rightarrow> 'e + 'b) \<Rightarrow> 'a list \<Rightarrow> 'e + 'b list" where
  "rmap f [] = Inr []"
| "rmap f (x # xs) = rbind (f x) (\<lambda>y. rbind (rmap f xs) (\<lambda>ys. Inr (y # ys)))"

lemma rmap_Inr_iff: "rmap f xs = Inr ys \<longleftrightarrow> list_all2 (\<lambda>x y. f x = Inr y) xs ys"
  by (induction xs arbitrary: ys) (auto simp: list_all2_Cons1)

lemma rmap_length: "rmap f xs = Inr ys \<Longrightarrow> length ys = length xs"
  by (simp add: rmap_Inr_iff list_all2_lengthD)

section \<open>Byte strings\<close>

definition is_space :: "char \<Rightarrow> bool" where
  "is_space c \<longleftrightarrow> c \<in> {CHR '' '', CHR 0x09, CHR 0x0A, CHR 0x0B, CHR 0x0C, CHR 0x0D}"

definition trim_left :: "(char \<Rightarrow> bool) \<Rightarrow> string \<Rightarrow> string" where
  "trim_left p s = dropWhile p s"

definition trim_right :: "(char \<Rightarrow> bool) \<Rightarrow> string \<Rightarrow> string" where
  "trim_right p s = rev (dropWhile p (rev s))"

definition trim_space :: "string \<Rightarrow> string" where
  "trim_space s = trim_right is_space (trim_left is_space s)"

definition has_prefix :: "string \<Rightarrow> string \<Rightarrow> bool" where
  "has_prefix s p \<longleftrightarrow> take (length p) s = p"

definition has_suffix :: "string \<Rightarrow> string \<Rightarrow> bool" where
  "has_suffix s p \<longleftrightarrow> has_prefix (rev s) (rev p)"

definition trim_prefix :: "string \<Rightarrow> string \<Rightarrow> string" where
  "trim_prefix s p = (if has_prefix s p then drop (length p) s else s)"

text \<open>\<^verbatim>\<open>strings.Cut\<close> at a single byte.\<close>

definition cut :: "char \<Rightarrow> string \<Rightarrow> string \<times> string \<times> bool" where
  "cut c s = (if c \<in> set s
    then (takeWhile (\<lambda>x. x \<noteq> c) s, tl (dropWhile (\<lambda>x. x \<noteq> c) s), True)
    else (s, [], False))"

text \<open>\<^verbatim>\<open>strings.Fields\<close>: the maximal runs of bytes that are not white space;
  \<^verbatim>\<open>strings.Split\<close> at a single byte keeps the empty pieces.\<close>

fun fields_acc :: "(char \<Rightarrow> bool) \<Rightarrow> string \<Rightarrow> string \<Rightarrow> string list" where
  "fields_acc p cur [] = (if cur = [] then [] else [rev cur])"
| "fields_acc p cur (c # cs) =
     (if p c then (if cur = [] then [] else [rev cur]) @ fields_acc p [] cs
      else fields_acc p (c # cur) cs)"

definition go_fields :: "string \<Rightarrow> string list" where
  "go_fields s = fields_acc is_space [] s"

fun split_acc :: "char \<Rightarrow> string \<Rightarrow> string \<Rightarrow> string list" where
  "split_acc d cur [] = [rev cur]"
| "split_acc d cur (c # cs) =
     (if c = d then rev cur # split_acc d [] cs else split_acc d (c # cur) cs)"

definition go_split :: "char \<Rightarrow> string \<Rightarrow> string list" where
  "go_split d s = split_acc d [] s"

fun join_with :: "string \<Rightarrow> string list \<Rightarrow> string" where
  "join_with sep [] = []"
| "join_with sep [x] = x"
| "join_with sep (x # y # zs) = x @ sep @ join_with sep (y # zs)"

lemma split_acc_no: "d \<notin> set s \<Longrightarrow> split_acc d cur s = [rev cur @ s]"
  by (induction s arbitrary: cur) auto

lemma split_acc_sep: "d \<notin> set s \<Longrightarrow> split_acc d cur (s @ d # rest) = (rev cur @ s) # split_acc d [] rest"
  by (induction s arbitrary: cur) auto

lemma join_Cons: "xs \<noteq> [] \<Longrightarrow> join_with sep (x # xs) = x @ sep @ join_with sep xs"
  by (cases xs) auto

lemma split_join:
  "xs \<noteq> [] \<Longrightarrow> \<forall>x \<in> set xs. d \<notin> set x \<Longrightarrow> go_split d (join_with [d] xs) = xs"
proof (induction xs)
  case (Cons x xs)
  then show ?case
    by (cases "xs = []") (simp_all add: go_split_def split_acc_no split_acc_sep join_Cons)
qed simp

lemma split_pieces: "x \<in> set (split_acc d cur s) \<Longrightarrow> d \<notin> set cur \<Longrightarrow> d \<notin> set x"
proof (induction s arbitrary: cur)
  case (Cons c s)
  show ?case
  proof (cases "c = d")
    case True
    with Cons.prems Cons.IH [of "[]"] show ?thesis by auto
  next
    case False
    with Cons.prems Cons.IH [of "c # cur"] show ?thesis by auto
  qed
qed simp

lemma go_split_clean: "x \<in> set (go_split d s) \<Longrightarrow> d \<notin> set x"
  using split_pieces [of x d "[]" s] by (simp add: go_split_def)

lemma go_split_nonempty [simp]: "go_split d s \<noteq> []"
proof -
  have "split_acc d cur s \<noteq> []" for cur by (induction s arbitrary: cur) auto
  then show ?thesis by (simp add: go_split_def)
qed

definition is_lower :: "char \<Rightarrow> bool" where
  "is_lower c \<longleftrightarrow> CHR ''a'' \<le> c \<and> c \<le> CHR ''z''"

definition is_upper :: "char \<Rightarrow> bool" where
  "is_upper c \<longleftrightarrow> CHR ''A'' \<le> c \<and> c \<le> CHR ''Z''"

definition is_digit :: "char \<Rightarrow> bool" where
  "is_digit c \<longleftrightarrow> CHR ''0'' \<le> c \<and> c \<le> CHR ''9''"

text \<open>\<^verbatim>\<open>strings.ToUpper\<close> and \<^verbatim>\<open>strings.ToLower\<close> on ASCII bytes.\<close>

definition upper_char :: "char \<Rightarrow> char" where
  "upper_char c = (if is_lower c then char_of (of_char c - (32::nat)) else c)"

definition lower_char :: "char \<Rightarrow> char" where
  "lower_char c = (if is_upper c then char_of (of_char c + (32::nat)) else c)"

definition replace_char :: "char \<Rightarrow> char \<Rightarrow> string \<Rightarrow> string" where
  "replace_char a b s = map (\<lambda>c. if c = a then b else c) s"

section \<open>strconv\<close>

definition digit_val :: "char \<Rightarrow> nat" where
  "digit_val c = of_char c - 48"

definition digit_char :: "nat \<Rightarrow> char" where
  "digit_char d = char_of (48 + d)"

definition digits_val :: "string \<Rightarrow> nat" where
  "digits_val s = foldl (\<lambda>acc c. 10 * acc + digit_val c) 0 s"

definition parse_nat :: "string \<Rightarrow> nat option" where
  "parse_nat s = (if s \<noteq> [] \<and> list_all is_digit s then Some (digits_val s) else None)"

text \<open>\<^verbatim>\<open>strconv.ParseUint(s, 10, 64)\<close>: decimal digits only, at most \<open>2 ^ 64 - 1\<close>.\<close>

definition parse_uint64 :: "string \<Rightarrow> u64 option" where
  "parse_uint64 s = (case parse_nat s of
      None \<Rightarrow> None
    | Some n \<Rightarrow> (if n < 2 ^ 64 then Some (of_nat n) else None))"

text \<open>\<^verbatim>\<open>strconv.Atoi\<close>: an optional sign, decimal digits, the range of \<^verbatim>\<open>int64\<close>.\<close>

definition atoi :: "string \<Rightarrow> int option" where
  "atoi s = (let neg = has_prefix s ''-'';
                 body = (if neg \<or> has_prefix s ''+'' then tl s else s)
    in case parse_nat body of
      None \<Rightarrow> None
    | Some n \<Rightarrow> (if neg then (if n \<le> 2 ^ 63 then Some (- int n) else None)
                 else (if n < 2 ^ 63 then Some (int n) else None)))"

fun itoa_nat :: "nat \<Rightarrow> string" where
  "itoa_nat n = (if n < 10 then [digit_char n] else itoa_nat (n div 10) @ [digit_char (n mod 10)])"

declare itoa_nat.simps [simp del]

definition itoa :: "int \<Rightarrow> string" where
  "itoa i = (if i < 0 then CHR ''-'' # itoa_nat (nat (- i)) else itoa_nat (nat i))"

lemma of_char_digit: "d < 10 \<Longrightarrow> of_char (digit_char d) = 48 + d"
  by (simp add: digit_char_def)

lemma is_digit_of_char: "is_digit c \<longleftrightarrow> 48 \<le> (of_char c :: nat) \<and> (of_char c :: nat) \<le> 57"
  by (simp add: is_digit_def less_eq_char_def)

lemma is_digit_digit_char [simp]: "d < 10 \<Longrightarrow> is_digit (digit_char d)"
  by (simp add: is_digit_of_char of_char_digit)

lemma digit_val_digit_char [simp]: "d < 10 \<Longrightarrow> digit_val (digit_char d) = d"
  by (simp add: digit_val_def of_char_digit)

lemma itoa_nat_digits: "itoa_nat n \<noteq> [] \<and> list_all is_digit (itoa_nat n)"
proof (induction n rule: itoa_nat.induct)
  case (1 n)
  then show ?case by (cases "n < 10") (simp_all add: itoa_nat.simps [of n])
qed

lemma digits_val_itoa_nat: "digits_val (itoa_nat n) = n"
proof (induction n rule: itoa_nat.induct)
  case (1 n)
  then show ?case
    by (cases "n < 10") (simp_all add: itoa_nat.simps [of n] digits_val_def)
qed

lemma parse_itoa_nat [simp]: "parse_nat (itoa_nat n) = Some n"
  using itoa_nat_digits [of n] by (simp add: parse_nat_def digits_val_itoa_nat)

lemma itoa_nat_inject [simp]: "itoa_nat a = itoa_nat b \<longleftrightarrow> a = b"
  by (metis parse_itoa_nat option.inject)

section \<open>Unsigned 64-bit arithmetic\<close>

abbreviation max_u64 :: nat where
  "max_u64 \<equiv> 2 ^ 64 - 1"

lemma unat_u64_less: "unat (x :: u64) < 2 ^ 64"
  using unsigned_less [of x, where ?'a = nat] by simp

lemma unat_u64_add_exact:
  "unat (a :: u64) + unat b < 2 ^ 64 \<Longrightarrow> unat (a + b) = unat a + unat b"
  by (simp add: unat_word_ariths)

lemma unat_u64_mult_exact:
  "unat (a :: u64) * unat b < 2 ^ 64 \<Longrightarrow> unat (a * b) = unat a * unat b"
  by (simp add: unat_word_ariths)

lemma unat_u64_sub_exact: "(b :: u64) \<le> a \<Longrightarrow> unat (a - b) = unat a - unat b"
  by (simp add: unat_sub)

section \<open>Maps\<close>

text \<open>A Go map read yields the zero value for an absent key.\<close>

definition read_str :: "('k \<rightharpoonup> string) \<Rightarrow> 'k \<Rightarrow> string" where
  "read_str m k = (case m k of None \<Rightarrow> [] | Some v \<Rightarrow> v)"

definition read_nat :: "('k \<rightharpoonup> nat) \<Rightarrow> 'k \<Rightarrow> nat" where
  "read_nat m k = (case m k of None \<Rightarrow> 0 | Some v \<Rightarrow> v)"

lemma read_nat_upd [simp]: "read_nat (m(k \<mapsto> v)) c = (if c = k then v else read_nat m c)"
  and read_nat_empty [simp]: "read_nat Map.empty c = 0"
  by (simp_all add: read_nat_def)

lemma read_str_upd [simp]: "read_str (m(k \<mapsto> v)) c = (if c = k then v else read_str m c)"
  and read_str_empty [simp]: "read_str Map.empty c = []"
  by (simp_all add: read_str_def)

definition index_by :: "('a \<Rightarrow> 'k) \<Rightarrow> ('a \<Rightarrow> 'v) \<Rightarrow> 'a list \<Rightarrow> 'k \<rightharpoonup> 'v" where
  "index_by key val xs = foldl (\<lambda>m x. m(key x \<mapsto> val x)) Map.empty xs"

lemma index_by_snoc [simp]: "index_by key val (xs @ [x]) = (index_by key val xs)(key x \<mapsto> val x)"
  by (simp add: index_by_def)

lemma index_by_Nil [simp]: "index_by key val [] = Map.empty"
  by (simp add: index_by_def)

lemma dom_index_by: "dom (index_by key val xs) = key ` set xs"
proof (induction xs rule: rev_induct)
  case (snoc x xs)
  have "dom (index_by key val (xs @ [x])) = insert (key x) (dom (index_by key val xs))"
    by simp
  with snoc show ?case by (simp del: index_by_snoc)
qed simp

lemma index_by_Some:
  "index_by key val xs k = Some v \<Longrightarrow> \<exists>x \<in> set xs. key x = k \<and> val x = v"
  by (induction xs rule: rev_induct) (auto split: if_splits)

lemma index_by_lookup:
  "distinct (map key xs) \<Longrightarrow> x \<in> set xs \<Longrightarrow> index_by key val xs (key x) = Some (val x)"
proof (induction xs rule: rev_induct)
  case (snoc y xs)
  then show ?case by (cases "x = y") (auto simp: image_iff)
qed simp

lemma index_by_None: "index_by key val xs k = None \<longleftrightarrow> k \<notin> key ` set xs"
  using dom_index_by [of key val xs] by auto

text \<open>First occurrences in order: how the sources collect distinct names with a seen-set.\<close>

fun first_seen :: "'a list \<Rightarrow> 'a list \<Rightarrow> 'a list" where
  "first_seen seen [] = []"
| "first_seen seen (x # xs) =
     (if x \<in> set seen then first_seen seen xs else x # first_seen (x # seen) xs)"

lemma set_first_seen: "set (first_seen seen xs) = set xs - set seen"
  by (induction seen xs rule: first_seen.induct) auto

lemma distinct_first_seen: "distinct (first_seen seen xs)"
  by (induction seen xs rule: first_seen.induct) (auto simp: set_first_seen)

section \<open>The contract of sort.Slice\<close>

text \<open>
  \<^verbatim>\<open>sort.Slice\<close> promises a permutation that is ordered by the given \<^verbatim>\<open>less\<close>, when \<^verbatim>\<open>less\<close>
  is a strict weak order; it does not say which one of several. The model is an insertion
  sort; \<open>sort_unique\<close> shows that where \<^verbatim>\<open>less\<close> separates the elements, every result that
  meets the contract is the model's.
\<close>

fun insort_by :: "('a \<Rightarrow> 'a \<Rightarrow> bool) \<Rightarrow> 'a \<Rightarrow> 'a list \<Rightarrow> 'a list" where
  "insort_by lt x [] = [x]"
| "insort_by lt x (y # ys) = (if lt y x then y # insort_by lt x ys else x # y # ys)"

definition go_sort :: "('a \<Rightarrow> 'a \<Rightarrow> bool) \<Rightarrow> 'a list \<Rightarrow> 'a list" where
  "go_sort lt xs = foldr (insort_by lt) xs []"

lemma mset_insort_by [simp]: "mset (insort_by lt x xs) = add_mset x (mset xs)"
  by (induction xs) auto

lemma mset_go_sort [simp]: "mset (go_sort lt xs) = mset xs"
  by (induction xs) (auto simp: go_sort_def)

lemma set_go_sort [simp]: "set (go_sort lt xs) = set xs"
  by (metis mset_go_sort set_mset_mset)

lemma length_go_sort [simp]: "length (go_sort lt xs) = length xs"
  by (metis mset_go_sort size_mset)

lemma distinct_go_sort [simp]: "distinct (go_sort lt xs) \<longleftrightarrow> distinct xs"
  by (metis mset_go_sort mset_eq_imp_distinct_iff)

lemma distinct_map_go_sort [simp]: "distinct (map f (go_sort lt xs)) \<longleftrightarrow> distinct (map f xs)"
  by (metis mset_go_sort mset_eq_imp_distinct_iff mset_map)

text \<open>
  The order is only compared on different elements: \<^verbatim>\<open>SortChains\<close> answers true for a pair
  of equal names \<^verbatim>\<open>main\<close>, which a list of distinct names never asks.
\<close>

locale go_less =
  fixes lt :: "'a \<Rightarrow> 'a \<Rightarrow> bool"
  assumes asym: "a \<noteq> b \<Longrightarrow> lt a b \<Longrightarrow> \<not> lt b a"
    and negtrans: "lt a c \<Longrightarrow> lt a b \<or> lt b c"
begin

lemma sorted_insort:
  "sorted_wrt (\<lambda>a b. a \<noteq> b \<longrightarrow> \<not> lt b a) xs \<Longrightarrow>
   sorted_wrt (\<lambda>a b. a \<noteq> b \<longrightarrow> \<not> lt b a) (insort_by lt x xs)"
proof (induction xs)
  case (Cons y ys)
  have in_set: "z \<in> set (insort_by lt x ys) \<Longrightarrow> z = x \<or> z \<in> set ys" for z
    by (metis mset_insort_by set_mset_add_mset_insert set_mset_mset insert_iff)
  show ?case
  proof (cases "lt y x")
    case True
    with Cons asym in_set show ?thesis by fastforce
  next
    case False
    with Cons.prems negtrans show ?thesis by fastforce
  qed
qed simp

lemma sorted_go_sort: "sorted_wrt (\<lambda>a b. a \<noteq> b \<longrightarrow> \<not> lt b a) (go_sort lt xs)"
  by (induction xs) (auto simp: go_sort_def sorted_insort)

lemma sorted_perm_eq:
  "mset xs = mset ys \<Longrightarrow> sorted_wrt (\<lambda>a b. a \<noteq> b \<longrightarrow> \<not> lt b a) xs
   \<Longrightarrow> sorted_wrt (\<lambda>a b. a \<noteq> b \<longrightarrow> \<not> lt b a) ys
   \<Longrightarrow> (\<And>a b. a \<in> set xs \<Longrightarrow> b \<in> set xs \<Longrightarrow> a \<noteq> b \<Longrightarrow> lt a b \<or> lt b a) \<Longrightarrow> xs = ys"
proof (induction xs arbitrary: ys)
  case (Cons x xs)
  from Cons.prems(1) obtain y zs where ys: "ys = y # zs" by (cases ys) auto
  have sets: "set (x # xs) = set ys" using Cons.prems(1) by (metis set_mset_mset)
  have "x = y"
  proof (rule ccontr)
    assume "x \<noteq> y"
    then have "x \<in> set zs" "y \<in> set xs" using sets ys by auto
    then have "\<not> lt x y" "\<not> lt y x" using Cons.prems(2,3) ys \<open>x \<noteq> y\<close> by auto
    moreover have "y \<in> set (x # xs)" using sets ys by auto
    ultimately show False using Cons.prems(4) [of x y] \<open>x \<noteq> y\<close> by auto
  qed
  with Cons.prems ys have "xs = zs" by (intro Cons.IH) auto
  with \<open>x = y\<close> ys show ?case by simp
qed simp

lemma sort_unique:
  assumes "mset ys = mset xs" and "sorted_wrt (\<lambda>a b. a \<noteq> b \<longrightarrow> \<not> lt b a) ys"
    and "\<And>a b. a \<in> set xs \<Longrightarrow> b \<in> set xs \<Longrightarrow> a \<noteq> b \<Longrightarrow> lt a b \<or> lt b a"
  shows "ys = go_sort lt xs"
proof (rule sorted_perm_eq)
  have "set ys = set xs" using assms(1) by (metis set_mset_mset)
  then show "\<And>a b. a \<in> set ys \<Longrightarrow> b \<in> set ys \<Longrightarrow> a \<noteq> b \<Longrightarrow> lt a b \<or> lt b a"
    using assms(3) by blast
qed (use assms sorted_go_sort in auto)

end

text \<open>Evaluation of the string operations on literals, by the simplifier.\<close>

text \<open>\<^verbatim>\<open>strings.Contains\<close>.\<close>

definition contains :: "string \<Rightarrow> string \<Rightarrow> bool" where
  "contains s part \<longleftrightarrow> list_ex (\<lambda>k. has_prefix (drop k s) part) [0..<Suc (length s)]"

lemmas go_eval = go_fields_def go_split_def is_space_def cut_def atoi_def has_prefix_def
  has_suffix_def trim_prefix_def trim_space_def trim_left_def trim_right_def parse_nat_def
  parse_uint64_def digits_val_def digit_val_def is_digit_def is_lower_def is_upper_def
  less_eq_char_def less_char_def upper_char_def lower_char_def replace_char_def
  itoa_def itoa_nat.simps digit_char_def char_of_def bit_iff_odd read_str_def read_nat_def go_sort_def require_def

lemmas go_sort_facts = mset_go_sort set_go_sort length_go_sort distinct_go_sort

end
