(* ===== verification/Config.thy ===== *)
theory Config
  imports Go_Prelude
begin

text \<open>
  The operator's two input files, \<^verbatim>\<open>internal/config/config.go\<close>: the settings of \<^verbatim>\<open>.env\<close>
  (\<^verbatim>\<open>load_environment\<close>, \<^verbatim>\<open>load_fleet_environment\<close>) and the inventory \<^verbatim>\<open>nodes.ini\<close>
  (\<^verbatim>\<open>load_nodes\<close>, a line parser followed by the structural rules). The dotenv reader is a
  third-party package: the definitions take the key/value list it returns. \<^verbatim>\<open>url.Parse\<close> and
  \<^verbatim>\<open>os.Stat\<close> are arguments. The warnings the loader prints are values.
  The lemmas characterise what a loaded inventory is; \<open>inventory_ok\<close> is that contract.
\<close>

section \<open>Roles, nodes and chain names\<close>

datatype role =
    RoleValidator | RoleRPC | RolePChain | RoleArchive
  | RoleOracleValidator | RoleOracleRPC | RoleOther string

definition role_of_string :: "string \<Rightarrow> role" where
  "role_of_string s =
    (if s = ''validator'' then RoleValidator
     else if s = ''rpc'' then RoleRPC
     else if s = ''pchain'' then RolePChain
     else if s = ''archive'' then RoleArchive
     else if s = ''oracle-validator'' then RoleOracleValidator
     else if s = ''oracle-rpc'' then RoleOracleRPC
     else RoleOther s)"

definition main_chain :: string where "main_chain = ''main''"

definition oracle_chain :: string where "oracle_chain = ''oracle''"

record node =
  Number :: int
  Host :: string
  Role :: role
  DC :: string
  Chain :: string
  Weight :: u64

definition chain_name_char :: "char \<Rightarrow> bool" where
  "chain_name_char c \<longleftrightarrow> is_lower c \<or> is_digit c \<or> c = CHR ''-''"

definition valid_chain_name :: "string \<Rightarrow> bool" where
  "valid_chain_name s \<longleftrightarrow> 1 \<le> length s \<and> length s \<le> 20 \<and> list_all chain_name_char s"

definition chain_less :: "string \<Rightarrow> string \<Rightarrow> bool" where
  "chain_less a b = (if a = main_chain \<or> b = main_chain then a = main_chain else a < b)"

definition sort_chains :: "string list \<Rightarrow> string list" where
  "sort_chains names = go_sort chain_less names"

definition chains_of :: "node list \<Rightarrow> string list" where
  "chains_of nodes = sort_chains (first_seen [] (filter (\<lambda>c. c \<noteq> []) (map Chain nodes)))"

definition effective_chain :: "role \<Rightarrow> string \<Rightarrow> string" where
  "effective_chain r chain =
    (if chain \<noteq> [] then chain
     else case r of
       RoleOracleValidator \<Rightarrow> oracle_chain
     | RoleOracleRPC \<Rightarrow> oracle_chain
     | RolePChain \<Rightarrow> []
     | _ \<Rightarrow> main_chain)"

section \<open>Errors\<close>

datatype line_error =
    TooFewFields
  | BadNodeNumber string
  | DuplicateNodeNumber int nat
  | ExpectedKeyValue string
  | UnknownNodeField string
  | DuplicateNodeField string
  | MissingHost
  | BadRole string
  | BadChainName string
  | ChainOnPChain
  | LegacyRoleChain string
  | ReservedChain string
  | WeightOnRole string
  | BadWeight string

datatype config_error =
    ReadFailed
  | MissingField string
  | BadNetwork string
  | BadPChainAPI string
  | PChainAPIQuery
  | UnknownFields "string list"
  | KeyHasPrefix
  | KeyNotHex
  | KeyIsZero
  | SSHKeyUnavailable string
  | SSHKeyIsDirectory string
  | BadSystemInstall string
  | SystemInstallWith string
  | AtLine nat line_error
  | LineTooLong
  | PChainCount nat
  | NoValidator string
  | NoOracleRPC string
  | MixedWeights string "int list" "int list"

section \<open>The environment file\<close>

record environment =
  Network :: string
  PChainAPI :: string
  FundingPrivateKey :: string
  SSHUser :: string
  SSHKeyPath :: string

record network_environment =
  net_Network :: string
  net_PChainAPI :: string

record fleet_environment =
  fleet_Network :: string
  fleet_SSHUser :: string
  fleet_SSHKeyPath :: string
  RemoteDir :: string
  RemoteDataDir :: string
  SystemInstall :: bool

text \<open>The parts of a \<^verbatim>\<open>url.URL\<close> the loaders read.\<close>

record parsed_url =
  url_Scheme :: string
  url_Host :: string
  url_RawQuery :: string

definition parse_network_environment ::
  "(string \<Rightarrow> parsed_url option) \<Rightarrow> (string \<rightharpoonup> string) \<Rightarrow> config_error + network_environment" where
  "parse_network_environment parse_url values =
    (let network = trim_space (read_str values ''NETWORK'');
         api = trim_space (read_str values ''PCHAIN_API'')
     in if network = [] then Inl (MissingField ''NETWORK'')
        else if network \<noteq> ''fuji'' \<and> network \<noteq> ''mainnet'' then Inl (BadNetwork network)
        else if api = [] then Inl (MissingField ''PCHAIN_API'')
        else case parse_url api of
            None \<Rightarrow> Inl (BadPChainAPI api)
          | Some u \<Rightarrow>
              if url_Host u = [] \<or> (url_Scheme u \<noteq> ''http'' \<and> url_Scheme u \<noteq> ''https'')
              then Inl (BadPChainAPI api)
              else if url_RawQuery u \<noteq> [] then Inl PChainAPIQuery
              else Inr \<lparr>net_Network = network, net_PChainAPI = api\<rparr>)"

definition allowed_fields :: "string list" where
  "allowed_fields = [''NETWORK'', ''PCHAIN_API'', ''FUNDING_PRIVATE_KEY'', ''SSH_USER'',
    ''SSH_KEY_PATH'', ''REMOTE_DIR'', ''REMOTE_DATA_DIR'', ''SYSTEM_INSTALL'',
    ''PCHAIN_API_TOKEN'']"

definition validate_environment_fields :: "(string \<times> string) list \<Rightarrow> config_error + unit" where
  "validate_environment_fields kvs =
    (let unknown = filter (\<lambda>k. k \<notin> set allowed_fields) (map fst kvs)
     in if unknown \<noteq> [] then Inl (UnknownFields (sort unknown)) else Inr ())"

definition required_field :: "(string \<rightharpoonup> string) \<Rightarrow> string \<Rightarrow> config_error + string" where
  "required_field values key =
    (let v = trim_space (read_str values key)
     in if v = [] then Inl (MissingField key) else Inr v)"

definition hex_digit :: "char \<Rightarrow> nat option" where
  "hex_digit c = (if is_digit c then Some (of_char c - 48)
    else if CHR ''a'' \<le> c \<and> c \<le> CHR ''f'' then Some (of_char c - 87)
    else if CHR ''A'' \<le> c \<and> c \<le> CHR ''F'' then Some (of_char c - 55)
    else None)"

fun hex_decode :: "string \<Rightarrow> nat list option" where
  "hex_decode [] = Some []"
| "hex_decode [c] = None"
| "hex_decode (a # b # cs) =
    (case (hex_digit a, hex_digit b, hex_decode cs) of
      (Some x, Some y, Some bs) \<Rightarrow> Some ((16 * x + y) # bs)
    | _ \<Rightarrow> None)"

text \<open>\<^verbatim>\<open>LoadEnvironment\<close> after the read: \<open>read\<close> is what the dotenv reader returned.\<close>

definition load_environment ::
  "(string \<Rightarrow> parsed_url option) \<Rightarrow> (string \<times> string) list option \<Rightarrow> config_error + environment" where
  "load_environment parse_url read = (case read of None \<Rightarrow> Inl ReadFailed | Some kvs \<Rightarrow>
    (let values = map_of kvs in
     rbind (parse_network_environment parse_url values) (\<lambda>net.
     rbind (validate_environment_fields kvs) (\<lambda>_.
     rbind (required_field values ''FUNDING_PRIVATE_KEY'') (\<lambda>key.
       if has_prefix key ''0x'' then Inl KeyHasPrefix
       else case hex_decode key of
           None \<Rightarrow> Inl KeyNotHex
         | Some bytes \<Rightarrow>
             if length bytes \<noteq> 32 then Inl KeyNotHex
             else if list_all (\<lambda>b. b = 0) bytes then Inl KeyIsZero
             else Inr \<lparr>Network = net_Network net, PChainAPI = net_PChainAPI net,
                       FundingPrivateKey = key,
                       SSHUser = trim_space (read_str values ''SSH_USER''),
                       SSHKeyPath = trim_space (read_str values ''SSH_KEY_PATH'')\<rparr>)))))"

text \<open>\<^verbatim>\<open>LoadFleetEnvironment\<close>: \<open>stat\<close> answers whether the path exists and is a directory.\<close>

definition load_fleet_environment ::
  "(string \<Rightarrow> parsed_url option) \<Rightarrow> (string \<Rightarrow> bool option) \<Rightarrow> (string \<times> string) list option
   \<Rightarrow> config_error + fleet_environment" where
  "load_fleet_environment parse_url stat read = (case read of None \<Rightarrow> Inl ReadFailed | Some kvs \<Rightarrow>
    (let values = map_of kvs in
     rbind (validate_environment_fields kvs) (\<lambda>_.
     rbind (parse_network_environment parse_url values) (\<lambda>net.
     rbind (required_field values ''SSH_USER'') (\<lambda>user.
     rbind (required_field values ''SSH_KEY_PATH'') (\<lambda>key.
     rbind (case stat key of
              None \<Rightarrow> Inl (SSHKeyUnavailable key)
            | Some isDir \<Rightarrow> if isDir then Inl (SSHKeyIsDirectory key) else Inr ()) (\<lambda>_.
     let dir = trim_space (read_str values ''REMOTE_DIR'');
         data = trim_space (read_str values ''REMOTE_DATA_DIR'');
         sys = trim_space (read_str values ''SYSTEM_INSTALL'')
     in if sys \<noteq> [] \<and> sys \<noteq> ''false'' \<and> sys \<noteq> ''true''
        then Inl (BadSystemInstall (read_str values ''SYSTEM_INSTALL''))
        else if sys = ''true'' \<and> dir \<noteq> [] then Inl (SystemInstallWith ''REMOTE_DIR'')
        else if sys = ''true'' \<and> data \<noteq> [] then Inl (SystemInstallWith ''REMOTE_DATA_DIR'')
        else Inr \<lparr>fleet_Network = net_Network net, fleet_SSHUser = user,
                  fleet_SSHKeyPath = key, RemoteDir = dir, RemoteDataDir = data,
                  SystemInstall = (sys = ''true'')\<rparr>)))))))"

definition load_network_environment ::
  "(string \<Rightarrow> parsed_url option) \<Rightarrow> (string \<times> string) list option
   \<Rightarrow> config_error + network_environment" where
  "load_network_environment parse_url read = (case read of None \<Rightarrow> Inl ReadFailed
    | Some kvs \<Rightarrow> parse_network_environment parse_url (map_of kvs))"

section \<open>The inventory file\<close>

text \<open>
  \<^verbatim>\<open>bufio.Scanner\<close> with \<^verbatim>\<open>ScanLines\<close> and a buffer of 1 MiB: lines without their end mark,
  one trailing carriage return dropped, no empty last line; a line that fills the buffer
  stops the scan with an error after the lines before it. The result is the scanned lines
  and whether the scan stopped so.
\<close>

definition max_line :: nat where "max_line = 1024 * 1024"

definition raw_lines :: "string \<Rightarrow> string list" where
  "raw_lines content = (let ls = go_split (CHR 0x0A) content
     in if last ls = [] then butlast ls else ls)"

definition drop_cr :: "string \<Rightarrow> string" where
  "drop_cr l = (if l \<noteq> [] \<and> last l = CHR 0x0D then butlast l else l)"

definition scan_lines :: "string \<Rightarrow> string list \<times> bool" where
  "scan_lines content = (let ls = raw_lines content;
      ok = takeWhile (\<lambda>l. length l < max_line) ls
    in (map drop_cr ok, length ok < length ls))"

definition add_field :: "nat \<Rightarrow> (string \<rightharpoonup> string) \<Rightarrow> string \<Rightarrow> config_error + (string \<rightharpoonup> string)" where
  "add_field ln values field =
    (let (key, val, ok) = cut (CHR ''='') field
     in if \<not> ok \<or> key = [] \<or> val = [] then Inl (AtLine ln (ExpectedKeyValue field))
        else if key \<noteq> ''host'' \<and> key \<noteq> ''role'' \<and> key \<noteq> ''dc'' \<and> key \<noteq> ''chain'' \<and> key \<noteq> ''weight''
          then Inl (AtLine ln (UnknownNodeField key))
        else if values key \<noteq> None then Inl (AtLine ln (DuplicateNodeField key))
        else Inr (values(key \<mapsto> val)))"

definition resolve_role :: "nat \<Rightarrow> role \<Rightarrow> string \<Rightarrow> config_error + role \<times> string" where
  "resolve_role ln r chain = (case r of
      RolePChain \<Rightarrow> if chain \<noteq> [] then Inl (AtLine ln ChainOnPChain) else Inr (RolePChain, chain)
    | RoleOracleValidator \<Rightarrow>
        if chain \<noteq> [] \<and> chain \<noteq> oracle_chain then Inl (AtLine ln (LegacyRoleChain chain))
        else Inr (RoleValidator, oracle_chain)
    | RoleOracleRPC \<Rightarrow>
        if chain \<noteq> [] \<and> chain \<noteq> oracle_chain then Inl (AtLine ln (LegacyRoleChain chain))
        else Inr (RoleRPC, oracle_chain)
    | _ \<Rightarrow>
        let c = (if chain = [] then main_chain else chain)
        in if c = ''management'' \<or> c = ''default'' then Inl (AtLine ln (ReservedChain c)) else Inr (r, c))"

definition parse_weight :: "nat \<Rightarrow> role \<Rightarrow> (string \<rightharpoonup> string) \<Rightarrow> config_error + u64" where
  "parse_weight ln r values = (case values ''weight'' of
      None \<Rightarrow> Inr 0
    | Some raw \<Rightarrow>
        if r \<noteq> RoleValidator then Inl (AtLine ln (WeightOnRole (read_str values ''role'')))
        else case parse_uint64 raw of
            None \<Rightarrow> Inl (AtLine ln (BadWeight raw))
          | Some w \<Rightarrow> if w = 0 then Inl (AtLine ln (BadWeight raw)) else Inr w)"

definition known_role :: "role \<Rightarrow> bool" where
  "known_role r = (case r of RoleOther _ \<Rightarrow> False | _ \<Rightarrow> True)"

text \<open>The body of the scan loop after the fields of a line are known.\<close>

definition build_node :: "nat \<Rightarrow> int \<Rightarrow> (string \<rightharpoonup> string) \<Rightarrow> config_error + node" where
  "build_node ln number values =
    (let host = read_str values ''host'';
         r = role_of_string (read_str values ''role'');
         chain = read_str values ''chain''
     in if host = [] then Inl (AtLine ln MissingHost)
        else if \<not> known_role r then Inl (AtLine ln (BadRole (read_str values ''role'')))
        else if chain \<noteq> [] \<and> \<not> valid_chain_name chain then Inl (AtLine ln (BadChainName chain))
        else rbind (resolve_role ln r chain) (\<lambda>(r', chain').
             rbind (parse_weight ln r' values) (\<lambda>w.
               Inr \<lparr>Number = number, Host = host, Role = r', DC = read_str values ''dc'',
                    Chain = chain', Weight = w\<rparr>)))"

record scan_state =
  line_number :: nat
  seen_numbers :: "int \<rightharpoonup> nat"
  scanned :: "node list"

definition strip_comment :: "string \<Rightarrow> string" where
  "strip_comment line = takeWhile (\<lambda>c. c \<noteq> CHR ''#'') line"

definition scan_node :: "scan_state \<Rightarrow> string \<Rightarrow> config_error + scan_state" where
  "scan_node st line =
    (let ln = line_number st;
         fields = go_fields (strip_comment line);
         next = st\<lparr>line_number := ln + 1\<rparr>
     in if length fields = 0 then Inr next
        else if length fields < 3 then Inl (AtLine ln TooFewFields)
        else case atoi (hd fields) of
            None \<Rightarrow> Inl (AtLine ln (BadNodeNumber (hd fields)))
          | Some number \<Rightarrow>
              if number \<le> 0 then Inl (AtLine ln (BadNodeNumber (hd fields)))
              else case seen_numbers st number of
                  Some prev \<Rightarrow> Inl (AtLine ln (DuplicateNodeNumber number prev))
                | None \<Rightarrow>
                    rbind (each (add_field ln) Map.empty (tl fields)) (\<lambda>values.
                    rbind (build_node ln number values) (\<lambda>n.
                      Inr (next\<lparr>seen_numbers := (seen_numbers st)(number \<mapsto> ln),
                                 scanned := scanned st @ [n]\<rparr>))))"

section \<open>The structural rules\<close>

record chain_shape =
  validators :: nat
  rpcs :: nat
  archives :: nat

definition no_shape :: chain_shape where
  "no_shape = \<lparr>validators = 0, rpcs = 0, archives = 0\<rparr>"

definition shape_of :: "(string \<rightharpoonup> chain_shape) \<Rightarrow> string \<Rightarrow> chain_shape" where
  "shape_of shapes chain = (case shapes chain of None \<Rightarrow> no_shape | Some sh \<Rightarrow> sh)"

definition tally :: "nat \<times> (string \<rightharpoonup> chain_shape) \<Rightarrow> node \<Rightarrow> nat \<times> (string \<rightharpoonup> chain_shape)" where
  "tally acc n = (let (pchains, shapes) = acc; sh = shape_of shapes (Chain n) in case Role n of
      RoleValidator \<Rightarrow> (pchains, shapes(Chain n \<mapsto> sh\<lparr>validators := validators sh + 1\<rparr>))
    | RoleRPC \<Rightarrow> (pchains, shapes(Chain n \<mapsto> sh\<lparr>rpcs := rpcs sh + 1\<rparr>))
    | RolePChain \<Rightarrow> (pchains + 1, shapes)
    | RoleArchive \<Rightarrow> (pchains, shapes(Chain n \<mapsto> sh\<lparr>archives := archives sh + 1\<rparr>))
    | _ \<Rightarrow> acc)"

datatype shape_warning = FewValidators string nat | NoRPC string | SingleArchive string

definition check_shape ::
  "(string \<rightharpoonup> chain_shape) \<Rightarrow> shape_warning list \<Rightarrow> string \<Rightarrow> config_error + shape_warning list" where
  "check_shape shapes ws chain = (let sh = shape_of shapes chain
     in if validators sh = 0 then Inl (NoValidator chain)
        else if chain = oracle_chain then
          (if rpcs sh < 1 then Inl (NoOracleRPC chain) else Inr ws)
        else Inr (ws @ (if validators sh < 4 then [FewValidators chain (validators sh)] else [])
                     @ (if rpcs sh < 1 then [NoRPC chain] else [])
                     @ (if archives sh = 1 then [SingleArchive chain] else [])))"

definition check_shapes :: "node list \<Rightarrow> config_error + shape_warning list" where
  "check_shapes nodes = (let (pchains, shapes) = foldl tally (0, Map.empty) nodes
     in if pchains \<noteq> 1 then Inl (PChainCount pchains)
        else each (check_shape shapes) [] (chains_of nodes))"

text \<open>The two maps of \<^verbatim>\<open>validateWeightConsistency\<close>, read at one chain.\<close>

definition weight_numbers :: "bool \<Rightarrow> node list \<Rightarrow> string \<Rightarrow> int list" where
  "weight_numbers explicit nodes chain = map Number
     (filter (\<lambda>n. Role n = RoleValidator \<and> Chain n = chain \<and> (Weight n > 0) = explicit) nodes)"

definition check_weights :: "node list \<Rightarrow> unit \<Rightarrow> string \<Rightarrow> config_error + unit" where
  "check_weights nodes u chain =
    (let explicit = weight_numbers True nodes chain; defaulted = weight_numbers False nodes chain
     in if explicit = [] \<or> defaulted = [] then Inr ()
        else Inl (MixedWeights chain explicit defaulted))"

definition validate_weight_consistency :: "node list \<Rightarrow> config_error + unit" where
  "validate_weight_consistency nodes = each (check_weights nodes) () (chains_of nodes)"

definition join_numbers :: "int list \<Rightarrow> string" where
  "join_numbers ns = join_with '', '' (map itoa ns)"

definition number_less :: "node \<Rightarrow> node \<Rightarrow> bool" where
  "number_less a b \<longleftrightarrow> Number a < Number b"

definition load_nodes :: "string option \<Rightarrow> config_error + node list" where
  "load_nodes read = (case read of None \<Rightarrow> Inl ReadFailed | Some content \<Rightarrow>
    (let (ls, too_long) = scan_lines content in
     rbind (each scan_node \<lparr>line_number = 1, seen_numbers = Map.empty, scanned = []\<rparr> ls) (\<lambda>st.
     rbind (require (\<not> too_long) LineTooLong) (\<lambda>_.
     rbind (check_shapes (scanned st)) (\<lambda>warnings.
     let nodes = go_sort number_less (scanned st) in
     rbind (validate_weight_consistency nodes) (\<lambda>_. Inr nodes))))))"

definition load_files ::
  "(string \<Rightarrow> parsed_url option) \<Rightarrow> (string \<times> string) list option \<Rightarrow> string option
   \<Rightarrow> config_error + environment \<times> node list" where
  "load_files parse_url env nodes =
    rbind (load_environment parse_url env) (\<lambda>e. rbind (load_nodes nodes) (\<lambda>ns. Inr (e, ns)))"

section \<open>The contract of a loaded inventory\<close>

definition l1_chain :: "string \<Rightarrow> bool" where
  "l1_chain c \<longleftrightarrow> valid_chain_name c \<and> c \<noteq> ''management'' \<and> c \<noteq> ''default''"

definition node_ok :: "node \<Rightarrow> bool" where
  "node_ok n \<longleftrightarrow> 0 < Number n \<and> Host n \<noteq> [] \<and>
    (Role n = RolePChain \<and> Chain n = [] \<and> Weight n = 0 \<or>
     Role n = RoleValidator \<and> l1_chain (Chain n) \<or>
     (Role n = RoleRPC \<or> Role n = RoleArchive) \<and> l1_chain (Chain n) \<and> Weight n = 0)"

definition chain_ok :: "node list \<Rightarrow> string \<Rightarrow> bool" where
  "chain_ok nodes c \<longleftrightarrow>
    (\<exists>n \<in> set nodes. Role n = RoleValidator \<and> Chain n = c) \<and>
    (c = oracle_chain \<longrightarrow> (\<exists>n \<in> set nodes. Role n = RoleRPC \<and> Chain n = c)) \<and>
    (weight_numbers True nodes c = [] \<or> weight_numbers False nodes c = [])"

definition inventory_ok :: "node list \<Rightarrow> bool" where
  "inventory_ok nodes \<longleftrightarrow> sorted_wrt (<) (map Number nodes) \<and> list_all node_ok nodes \<and>
    length (filter (\<lambda>n. Role n = RolePChain) nodes) = 1 \<and>
    (\<forall>c \<in> set (chains_of nodes). chain_ok nodes c)"

section \<open>Chain order\<close>

lemma chain_less_asym: "a \<noteq> b \<Longrightarrow> chain_less a b \<Longrightarrow> \<not> chain_less b a"
  by (auto simp: chain_less_def split: if_splits)

lemma chain_less_total: "a \<noteq> b \<Longrightarrow> chain_less a b \<or> chain_less b a"
  by (auto simp: chain_less_def)

interpretation chain_order: go_less chain_less
proof
  show "chain_less a c \<Longrightarrow> chain_less a b \<or> chain_less b c" for a b c
    by (auto simp: chain_less_def split: if_splits)
qed (rule chain_less_asym)

lemma set_chains_of: "set (chains_of nodes) = Chain ` set nodes - {[]}"
  by (auto simp: chains_of_def sort_chains_def set_first_seen)

lemma distinct_chains_of: "distinct (chains_of nodes)"
  by (simp add: chains_of_def sort_chains_def distinct_first_seen)

text \<open>
  The same order as a class: chain names ranked with \<^verbatim>\<open>main\<close> below every other name, so that
  the sorted lists of the library apply.
\<close>

datatype chain_rank = Rank (ranked_name: string)

instantiation chain_rank :: linorder
begin

definition less_chain_rank :: "chain_rank \<Rightarrow> chain_rank \<Rightarrow> bool" where
  "less_chain_rank a b \<longleftrightarrow> ranked_name a \<noteq> ranked_name b \<and> chain_less (ranked_name a) (ranked_name b)"

definition less_eq_chain_rank :: "chain_rank \<Rightarrow> chain_rank \<Rightarrow> bool" where
  "less_eq_chain_rank a b \<longleftrightarrow> ranked_name a = ranked_name b \<or> chain_less (ranked_name a) (ranked_name b)"

instance
proof
  fix x y z :: chain_rank
  show "(x < y) = (x \<le> y \<and> \<not> y \<le> x)"
    using chain_less_asym [of "ranked_name x" "ranked_name y"]
    unfolding less_chain_rank_def less_eq_chain_rank_def by metis
  show "x \<le> x" by (simp add: less_eq_chain_rank_def)
  show "x \<le> y \<Longrightarrow> y \<le> z \<Longrightarrow> x \<le> z"
    unfolding less_eq_chain_rank_def chain_less_def by (auto split: if_splits)
  show "x \<le> y \<Longrightarrow> y \<le> x \<Longrightarrow> x = y"
    using chain_less_asym [of "ranked_name x" "ranked_name y"]
    unfolding less_eq_chain_rank_def by (metis chain_rank.expand)
  show "x \<le> y \<or> y \<le> x" using chain_less_total unfolding less_eq_chain_rank_def by blast
qed

end

lemma sorted_sort_chains: "sorted (map Rank (sort_chains names))"
proof -
  have "sorted_wrt (\<lambda>a b. Rank a \<le> Rank b) (sort_chains names)"
    unfolding sort_chains_def
    by (rule sorted_wrt_mono_rel [OF _ chain_order.sorted_go_sort])
       (use chain_less_total in \<open>auto simp: less_eq_chain_rank_def\<close>)
  then show ?thesis by (simp add: sorted_wrt_map)
qed

section \<open>What the loader guarantees\<close>

lemma oracle_l1_chain [simp]: "l1_chain oracle_chain" and main_l1_chain [simp]: "l1_chain main_chain"
  by (simp_all add: l1_chain_def oracle_chain_def main_chain_def valid_chain_name_def
      chain_name_char_def is_lower_def less_eq_char_def)

lemma l1_chain_nonempty [simp]: "l1_chain c \<Longrightarrow> c \<noteq> []"
  by (auto simp: l1_chain_def valid_chain_name_def)

lemma chain_names_nonempty [simp]: "main_chain \<noteq> []" "oracle_chain \<noteq> []"
  by (simp_all add: main_chain_def oracle_chain_def)

lemma resolve_role_ok:
  assumes "resolve_role ln r chain = Inr (r', c)" "known_role r" "chain = [] \<or> valid_chain_name chain"
  shows "r' = RolePChain \<and> c = [] \<or> (r' = RoleValidator \<or> r' = RoleRPC \<or> r' = RoleArchive) \<and> l1_chain c"
proof (cases "r = RoleValidator \<or> r = RoleRPC \<or> r = RoleArchive")
  case True
  define d where "d = (if chain = [] then main_chain else chain)"
  from True have "resolve_role ln r chain =
      (if d = ''management'' \<or> d = ''default'' then Inl (AtLine ln (ReservedChain d)) else Inr (r, d))"
    unfolding resolve_role_def d_def Let_def by (elim disjE) (simp_all only: role.case)
  with assms(1) have "r' = r" "c = d" "d \<noteq> ''management''" "d \<noteq> ''default''"
    by (simp_all split: if_splits)
  moreover have "valid_chain_name d"
    using assms(3) main_l1_chain by (auto simp: d_def l1_chain_def)
  ultimately show ?thesis using True by (simp add: l1_chain_def)
next
  case False
  with assms show ?thesis
    by (cases r) (auto simp: resolve_role_def known_role_def split: if_splits)
qed

lemma parse_weight_ok:
  "parse_weight ln r values = Inr w \<Longrightarrow> r \<noteq> RoleValidator \<Longrightarrow> w = 0"
  by (auto simp: parse_weight_def split: option.splits if_splits)

lemma build_node_ok:
  assumes "build_node ln number values = Inr n" "0 < number"
  shows "node_ok n \<and> Number n = number"
proof -
  define chain where "chain = read_str values ''chain''"
  define r where "r = role_of_string (read_str values ''role'')"
  from assms(1) obtain r' c w where
    rc: "resolve_role ln r chain = Inr (r', c)" and w: "parse_weight ln r' values = Inr w"
    and n: "n = \<lparr>Number = number, Host = read_str values ''host'', Role = r',
                 DC = read_str values ''dc'', Chain = c, Weight = w\<rparr>"
    and g: "read_str values ''host'' \<noteq> []" "known_role r" "chain = [] \<or> valid_chain_name chain"
    by (auto simp: build_node_def Let_def chain_def r_def split: if_splits)
  show ?thesis using resolve_role_ok [OF rc g(2,3)] parse_weight_ok [OF w] n g assms(2)
    by (auto simp: node_ok_def)
qed

definition scan_ok :: "scan_state \<Rightarrow> bool" where
  "scan_ok st \<longleftrightarrow> list_all node_ok (scanned st) \<and> distinct (map Number (scanned st)) \<and>
    dom (seen_numbers st) = Number ` set (scanned st)"

lemma scan_node_cases:
  assumes "scan_node st line = Inr st'"
  obtains (blank) "st' = st\<lparr>line_number := line_number st + 1\<rparr>"
  | (node) number vs n where
      "length (go_fields (strip_comment line)) \<ge> 3"
      "atoi (hd (go_fields (strip_comment line))) = Some number" "0 < number"
      "seen_numbers st number = None"
      "each (add_field (line_number st)) Map.empty (tl (go_fields (strip_comment line))) = Inr vs"
      "build_node (line_number st) number vs = Inr n"
      "st' = st\<lparr>line_number := line_number st + 1,
        seen_numbers := (seen_numbers st)(number \<mapsto> line_number st), scanned := scanned st @ [n]\<rparr>"
  using assms unfolding scan_node_def Let_def
  by (auto split: if_splits option.splits)

lemma scan_node_ok: "scan_ok st \<Longrightarrow> scan_node st line = Inr st' \<Longrightarrow> scan_ok st'"
proof (erule scan_node_cases)
  assume "scan_ok st" "st' = st\<lparr>line_number := line_number st + 1\<rparr>"
  then show ?thesis by (simp add: scan_ok_def)
next
  fix number vs n
  assume ok: "scan_ok st" and new: "seen_numbers st number = None" and pos: "0 < number"
    and n: "build_node (line_number st) number vs = Inr n"
    and st': "st' = st\<lparr>line_number := line_number st + 1,
        seen_numbers := (seen_numbers st)(number \<mapsto> line_number st), scanned := scanned st @ [n]\<rparr>"
  have "number \<notin> Number ` set (scanned st)" using ok new by (auto simp: scan_ok_def)
  with build_node_ok [OF n pos] ok show ?thesis by (simp add: scan_ok_def st')
qed

lemma scan_all_ok:
  assumes "each scan_node \<lparr>line_number = 1, seen_numbers = Map.empty, scanned = []\<rparr> ls = Inr st"
  shows "scan_ok st"
proof (rule each_invariant [OF assms, where P = "\<lambda>_. scan_ok"])
  show "scan_ok \<lparr>line_number = 1, seen_numbers = Map.empty, scanned = []\<rparr>"
    by (simp add: scan_ok_def)
qed (rule scan_node_ok)

text \<open>What the counting pass computes.\<close>

definition role_count :: "node list \<Rightarrow> string \<Rightarrow> role \<Rightarrow> nat" where
  "role_count nodes c r = length (filter (\<lambda>n. Role n = r \<and> Chain n = c) nodes)"

lemma shape_of_upd [simp]:
  "shape_of (m(c \<mapsto> sh)) d = (if d = c then sh else shape_of m d)"
  by (simp add: shape_of_def)

lemma role_count_snoc [simp]:
  "role_count (nodes @ [n]) c r = role_count nodes c r + (if Role n = r \<and> Chain n = c then 1 else 0)"
  by (simp add: role_count_def)

lemma tally_counts:
  "foldl tally (0, Map.empty) nodes = (k, shapes) \<Longrightarrow>
   k = length (filter (\<lambda>n. Role n = RolePChain) nodes) \<and>
   shape_of shapes c = \<lparr>validators = role_count nodes c RoleValidator,
     rpcs = role_count nodes c RoleRPC, archives = role_count nodes c RoleArchive\<rparr>"
proof (induction nodes arbitrary: k shapes rule: rev_induct)
  case Nil
  then show ?case by (auto simp: shape_of_def no_shape_def role_count_def)
next
  case (snoc n nodes)
  obtain k' sh' where acc: "foldl tally (0, Map.empty) nodes = (k', sh')" by fastforce
  from snoc.prems acc have step: "tally (k', sh') n = (k, shapes)" by simp
  from snoc.IH [OF acc] have k': "k' = length (filter (\<lambda>n. Role n = RolePChain) nodes)"
    and sh': "shape_of sh' c = \<lparr>validators = role_count nodes c RoleValidator,
      rpcs = role_count nodes c RoleRPC, archives = role_count nodes c RoleArchive\<rparr>" by auto
  show ?case using step k' sh'
    by (cases "Role n"; cases "Chain n = c") (auto simp: tally_def Let_def)
qed

lemma role_count_pos: "role_count nodes c r \<noteq> 0 \<longleftrightarrow> (\<exists>n \<in> set nodes. Role n = r \<and> Chain n = c)"
  by (auto simp: role_count_def filter_empty_conv)

lemma each_all:
  assumes "each f s xs = Inr t" "x \<in> set xs"
  shows "\<exists>u v. f u x = Inr v"
  using assms by (induction xs arbitrary: s) auto

lemma check_shapes_ok:
  assumes "check_shapes nodes = Inr ws"
  shows "length (filter (\<lambda>n. Role n = RolePChain) nodes) = 1"
    and "c \<in> set (chains_of nodes) \<Longrightarrow> \<exists>n \<in> set nodes. Role n = RoleValidator \<and> Chain n = c"
    and "c \<in> set (chains_of nodes) \<Longrightarrow> c = oracle_chain \<Longrightarrow>
         \<exists>n \<in> set nodes. Role n = RoleRPC \<and> Chain n = c"
proof -
  obtain k shapes where acc: "foldl tally (0, Map.empty) nodes = (k, shapes)" by fastforce
  from assms acc have k: "k = 1" and run: "each (check_shape shapes) [] (chains_of nodes) = Inr ws"
    by (auto simp: check_shapes_def Let_def split: if_splits)
  note counts = tally_counts [OF acc]
  from k counts show "length (filter (\<lambda>n. Role n = RolePChain) nodes) = 1" by simp
  { assume "c \<in> set (chains_of nodes)"
    with each_all [OF run] obtain u v where "check_shape shapes u c = Inr v" by blast
    with counts [of c] have "role_count nodes c RoleValidator \<noteq> 0"
      "c = oracle_chain \<longrightarrow> role_count nodes c RoleRPC \<noteq> 0"
      by (auto simp: check_shape_def Let_def split: if_splits)
    then have "(\<exists>n \<in> set nodes. Role n = RoleValidator \<and> Chain n = c) \<and>
      (c = oracle_chain \<longrightarrow> (\<exists>n \<in> set nodes. Role n = RoleRPC \<and> Chain n = c))"
      by (simp only: role_count_pos) }
  then show "c \<in> set (chains_of nodes) \<Longrightarrow> \<exists>n \<in> set nodes. Role n = RoleValidator \<and> Chain n = c"
    "c \<in> set (chains_of nodes) \<Longrightarrow> c = oracle_chain \<Longrightarrow>
      \<exists>n \<in> set nodes. Role n = RoleRPC \<and> Chain n = c" by blast+
qed

interpretation number_order: go_less number_less
  by unfold_locales (auto simp: number_less_def)

lemma validate_weight_ok:
  "validate_weight_consistency nodes = Inr u \<Longrightarrow> c \<in> set (chains_of nodes) \<Longrightarrow>
   weight_numbers True nodes c = [] \<or> weight_numbers False nodes c = []"
  using each_all [of "check_weights nodes" "()" "chains_of nodes" u c]
  by (auto simp: validate_weight_consistency_def check_weights_def Let_def split: if_splits)

lemma sorted_numbers:
  assumes "distinct (map Number ns)"
  shows "sorted_wrt (<) (map Number (go_sort number_less ns))"
proof -
  have "sorted_wrt (\<lambda>a b. Number a \<le> Number b) (go_sort number_less ns)"
    by (rule sorted_wrt_mono_rel [OF _ number_order.sorted_go_sort])
       (auto simp: number_less_def)
  then have "sorted (map Number (go_sort number_less ns))" by (simp add: sorted_wrt_map)
  with assms show ?thesis by (simp add: strict_sorted_iff)
qed

lemma load_nodes_ok:
  assumes "load_nodes read = Inr nodes"
  shows "inventory_ok nodes"
proof -
  obtain st ws where st: "scan_ok st" and sh: "check_shapes (scanned st) = Inr ws"
    and ns: "nodes = go_sort number_less (scanned st)"
    and w: "validate_weight_consistency nodes = Inr ()"
    using assms scan_all_ok
    by (auto simp: load_nodes_def Let_def split: option.splits prod.splits)
  have chains: "set (chains_of nodes) = set (chains_of (scanned st))"
    by (simp add: ns set_chains_of)
  have "length (filter (\<lambda>n. Role n = RolePChain) nodes) = 1"
    using check_shapes_ok(1) [OF sh] unfolding ns
    by (metis mset_filter mset_go_sort size_mset)
  moreover have "chain_ok nodes c" if "c \<in> set (chains_of nodes)" for c
    using that check_shapes_ok(2,3) [OF sh, of c] validate_weight_ok [OF w that]
    unfolding chains by (auto simp: chain_ok_def ns)
  moreover have "list_all node_ok nodes" "distinct (map Number (scanned st))"
    using st by (auto simp: ns scan_ok_def list_all_iff)
  ultimately show ?thesis by (auto simp: inventory_ok_def ns sorted_numbers)
qed

text \<open>C38: every inventory the loader accepts has positive, unique node numbers in ascending
  order, exactly one P-chain node, only the four real roles, an admissible chain on every L1
  node, a validator on every declared chain and an rpc node on the oracle chain, weights on
  validators only, and on all validators of a chain or on none.\<close>

theorem load_nodes_inventory:
  assumes "load_nodes read = Inr nodes"
  shows "inventory_ok nodes"
  using assms by (rule load_nodes_ok)

section \<open>An example inventory\<close>

definition sample_inventory :: string where
  "sample_inventory = ''# lab'' @ [CHR 0x0A] @ ''2 host=b role=validator dc=x'' @ [CHR 0x0A]
     @ ''1 host=a role=pchain  # shared'' @ [CHR 0x0A, CHR 0x0A] @ ''3 host=b role=rpc'' @ [CHR 0x0A]
     @ ''4 host=c role=oracle-validator'' @ [CHR 0x0A] @ ''5 host=c role=rpc chain=oracle'' @ [CHR 0x0A]
     @ ''6 host=d role=validator''"

definition sample_nodes :: "node list" where
  "sample_nodes =
    [\<lparr>Number = 1, Host = ''a'', Role = RolePChain, DC = [], Chain = [], Weight = 0\<rparr>,
     \<lparr>Number = 2, Host = ''b'', Role = RoleValidator, DC = ''x'', Chain = ''main'', Weight = 0\<rparr>,
     \<lparr>Number = 3, Host = ''b'', Role = RoleRPC, DC = [], Chain = ''main'', Weight = 0\<rparr>,
     \<lparr>Number = 4, Host = ''c'', Role = RoleValidator, DC = [], Chain = ''oracle'', Weight = 0\<rparr>,
     \<lparr>Number = 5, Host = ''c'', Role = RoleRPC, DC = [], Chain = ''oracle'', Weight = 0\<rparr>,
     \<lparr>Number = 6, Host = ''d'', Role = RoleValidator, DC = [], Chain = ''main'', Weight = 0\<rparr>]"

lemmas config_eval = go_eval load_nodes_def scan_lines_def raw_lines_def max_line_def drop_cr_def
  scan_node_def strip_comment_def add_field_def build_node_def role_of_string_def known_role_def
  resolve_role_def parse_weight_def valid_chain_name_def chain_name_char_def main_chain_def
  oracle_chain_def check_shapes_def tally_def shape_of_def no_shape_def check_shape_def
  chains_of_def sort_chains_def chain_less_def validate_weight_consistency_def check_weights_def
  weight_numbers_def number_less_def

lemma sample_loaded: "load_nodes (Some sample_inventory) = Inr sample_nodes"
  by (simp add: sample_inventory_def sample_nodes_def config_eval)

theorem load_nodes_inventory_witness: "inventory_ok sample_nodes"
  by (rule load_nodes_inventory [OF sample_loaded])

end
