(* ===== verification/Identity.thy ===== *)
theory Identity
  imports Config
begin

text \<open>
  Identity names and key generation, \<^verbatim>\<open>internal/identity/identity.go\<close>. \<open>identity_name\<close> and
  \<open>identity_index\<close> are the two directions of the letter numbering (a, ..., z, aa, ...);
  the locale \<open>numbering\<close> is the contract its users rely on, interpreted here on the two
  functions. \<open>generate\<close> creates the identities of an inventory in a file system of
  directories and files; certificates and BLS keys are third-party, so the key material
  made for a directory is an argument.
\<close>

section \<open>Names and indexes\<close>

definition letter_at :: "nat \<Rightarrow> char" where
  "letter_at d = char_of (97 + d)"

function name_loop :: "nat \<Rightarrow> string \<Rightarrow> string" where
  "name_loop index name =
    (let name' = letter_at (index mod 26) # name
     in if index div 26 = 0 then name' else name_loop (index div 26 - 1) name')"
  by auto
termination by (relation "measure fst") (auto simp: less_Suc_eq_le div_le_mono intro: le_less_trans)

declare name_loop.simps [simp del]

definition identity_name :: "nat \<Rightarrow> string" where
  "identity_name index = name_loop index []"

datatype index_error = NotLowercase string | TooLong string

definition max_int :: nat where "max_int = 2 ^ 63 - 1"

definition letter_value :: "char \<Rightarrow> nat" where
  "letter_value c = of_char c - 96"

fun index_loop :: "string \<Rightarrow> nat \<Rightarrow> string \<Rightarrow> index_error + nat" where
  "index_loop name index [] = Inr index"
| "index_loop name index (c # cs) =
     (if \<not> is_lower c then Inl (NotLowercase name)
      else if index > (max_int - letter_value c) div 26 then Inl (TooLong name)
      else index_loop name (index * 26 + letter_value c) cs)"

definition identity_index :: "string \<Rightarrow> index_error + nat" where
  "identity_index name = (if name = [] then Inl (NotLowercase name)
     else rbind (index_loop name 0 name) (\<lambda>index. Inr (index - 1)))"

subsection \<open>The bijective numeral behind both\<close>

definition letters_value :: "nat \<Rightarrow> string \<Rightarrow> nat" where
  "letters_value acc s = foldl (\<lambda>v c. v * 26 + letter_value c) acc s"

lemma letters_value_simps [simp]:
  "letters_value acc [] = acc"
  "letters_value acc (c # cs) = letters_value (acc * 26 + letter_value c) cs"
  "letters_value acc (s @ [d]) = letters_value acc s * 26 + letter_value d"
  by (simp_all add: letters_value_def)

lemma letters_value_ge: "acc \<le> letters_value acc s"
proof (induction s arbitrary: acc)
  case (Cons c s)
  from Cons [of "acc * 26 + letter_value c"] show ?case by simp
qed simp

lemma is_lower_of_char: "is_lower c \<longleftrightarrow> 97 \<le> (of_char c :: nat) \<and> (of_char c :: nat) \<le> 122"
  by (simp add: is_lower_def less_eq_char_def)

lemma letter_value_bounds: "is_lower c \<Longrightarrow> 1 \<le> letter_value c \<and> letter_value c \<le> 26"
  unfolding is_lower_of_char letter_value_def by linarith

lemma letter_facts [simp]:
  "d < 26 \<Longrightarrow> is_lower (letter_at d)" "d < 26 \<Longrightarrow> letter_value (letter_at d) = d + 1"
  by (simp_all add: is_lower_of_char letter_value_def letter_at_def)

lemma letter_of_value: "is_lower c \<Longrightarrow> letter_at (letter_value c - 1) = c"
  by (simp add: is_lower_of_char letter_value_def letter_at_def)

lemma name_loop_append: "name_loop i acc = name_loop i [] @ acc"
proof (induction i arbitrary: acc rule: less_induct)
  case (less i)
  show ?case
  proof (cases "i div 26 = 0")
    case True
    then show ?thesis by (simp add: name_loop.simps [of i])
  next
    case False
    then have lt: "i div 26 - 1 < i" by (metis div_less_dividend less_imp_diff_less
      div_0 gr0I one_less_numeral_iff semiring_norm(76))
    from less [OF lt, of "letter_at (i mod 26) # acc"] less [OF lt, of "[letter_at (i mod 26)]"] False
    show ?thesis by (simp add: name_loop.simps [of i])
  qed
qed

lemma identity_name_step:
  "identity_name i = (if i < 26 then [letter_at i]
     else identity_name (i div 26 - 1) @ [letter_at (i mod 26)])"
  using name_loop_append [of "i div 26 - 1" "[letter_at (i mod 26)]"]
  by (simp add: identity_name_def name_loop.simps [of i] Let_def div_eq_0_iff)

lemma identity_name_value:
  "identity_name i \<noteq> [] \<and> list_all is_lower (identity_name i) \<and> letters_value 0 (identity_name i) = i + 1"
proof (induction i rule: less_induct)
  case (less i)
  show ?case
  proof (cases "i < 26")
    case True
    then show ?thesis by (simp add: identity_name_step [of i])
  next
    case False
    then have "i div 26 \<ge> 1" "i div 26 - 1 < i" by auto
    with less [of "i div 26 - 1"] False show ?thesis
      by (subst (1 2 3) identity_name_step) (simp add: mult.commute)
  qed
qed

lemma letters_value_pos: "s \<noteq> [] \<Longrightarrow> list_all is_lower s \<Longrightarrow> 1 \<le> letters_value 0 s"
  by (induction s rule: rev_induct) (auto dest: letter_value_bounds intro: trans_le_add2)

lemma identity_name_of_value:
  "s \<noteq> [] \<Longrightarrow> list_all is_lower s \<Longrightarrow> identity_name (letters_value 0 s - 1) = s"
proof (induction s rule: rev_induct)
  case (snoc c t)
  let ?v = "letters_value 0 t" and ?d = "letter_value c"
  have d: "1 \<le> ?d" "?d \<le> 26" "letter_at (?d - 1) = c" and t: "list_all is_lower t"
    using snoc.prems letter_value_bounds letter_of_value by auto
  have val: "letters_value 0 (t @ [c]) - 1 = ?v * 26 + (?d - 1)" using d by simp
  have "?d - 1 < 26" using d by linarith
  then have parts: "(?v * 26 + (?d - 1)) div 26 = ?v" "(?v * 26 + (?d - 1)) mod 26 = ?d - 1"
    by (simp_all del: diff_Suc_1' One_nat_def)
  show ?case
  proof (cases "t = []")
    case True
    with d show ?thesis by (simp add: identity_name_step)
  next
    case False
    with letters_value_pos t have "1 \<le> ?v" by blast
    with snoc.IH False t parts d(3) show ?thesis
      unfolding val by (subst identity_name_step) simp
  qed
qed simp

lemma index_loop_spec:
  "index_loop name acc s = Inr v \<longleftrightarrow>
   list_all is_lower s \<and> v = letters_value acc s \<and> (s = [] \<or> letters_value acc s \<le> max_int)"
proof (induction s arbitrary: acc)
  case (Cons c cs)
  show ?case
  proof (cases "is_lower c")
    case True
    with letter_value_bounds have b: "letter_value c \<le> 26" by blast
    have "acc > (max_int - letter_value c) div 26 \<longleftrightarrow> acc * 26 + letter_value c > max_int"
      using b unfolding max_int_def by (simp add: div_less_iff_less_mult) linarith
    moreover have "acc * 26 + letter_value c \<le> letters_value (acc * 26 + letter_value c) cs"
      by (rule letters_value_ge)
    ultimately show ?thesis using True Cons.IH [of "acc * 26 + letter_value c"] by auto
  qed auto
qed auto

lemma identity_index_spec:
  "identity_index s = Inr i \<longleftrightarrow>
   s \<noteq> [] \<and> list_all is_lower s \<and> letters_value 0 s \<le> max_int \<and> i = letters_value 0 s - 1"
  by (auto simp: identity_index_def index_loop_spec)

subsection \<open>The numbering contract\<close>

locale numbering =
  fixes name_at :: "nat \<Rightarrow> string" and index_of :: "string \<Rightarrow> 'e + nat" and bound :: nat
  assumes index_name: "i < bound \<Longrightarrow> index_of (name_at i) = Inr i"
    and name_index: "index_of s = Inr i \<Longrightarrow> name_at i = s \<and> i < bound"
begin

lemma name_eq_iff: "i < bound \<Longrightarrow> j < bound \<Longrightarrow> name_at i = name_at j \<longleftrightarrow> i = j"
  using index_name by (metis sum.inject(2))

lemma index_inj: "index_of s = Inr i \<Longrightarrow> index_of t = Inr i \<Longrightarrow> s = t"
  using name_index by metis

lemma names_distinct: "n \<le> bound \<Longrightarrow> distinct (map name_at [0..<n])"
  by (auto simp: distinct_map inj_on_def name_eq_iff)

text \<open>In a list named in order, the entry an index points at is the one with that name.\<close>

lemma named_at:
  assumes "map f xs = map name_at [0..<length xs]" "index_of s = Inr i" "i < length xs"
  shows "f (xs ! i) = s"
proof -
  have "f (xs ! i) = map f xs ! i" using assms(3) by simp
  also have "\<dots> = name_at i" using assms(1,3) by simp
  finally show ?thesis using name_index [OF assms(2)] by simp
qed

lemma named_unique:
  assumes "map f xs = map name_at [0..<length xs]" "length xs \<le> bound"
  shows "distinct (map f xs)"
  using names_distinct assms by simp

end

interpretation letters: numbering identity_name identity_index max_int
proof
  show "identity_index (identity_name i) = Inr i" if "i < max_int" for i
    using that identity_name_value [of i] by (simp add: identity_index_spec)
  show "identity_name i = s \<and> i < max_int" if "identity_index s = Inr i" for s i
  proof -
    from that have s: "s \<noteq> []" "list_all is_lower s" "letters_value 0 s \<le> max_int"
      "i = letters_value 0 s - 1" by (auto simp: identity_index_spec)
    with letters_value_pos [of s] identity_name_of_value [of s] show ?thesis by auto
  qed
qed

text \<open>for every identity number the code can hold, reading back the name it is given yields
  the number, and conversely a name that is read as a number is the name of that number: the
  letters are a bijection, with no two names for one identity.\<close>

theorem identity_name_index:
  assumes "i < max_int"
  shows "identity_index (identity_name i) = Inr i \<and>
    (identity_index s = Inr i \<longleftrightarrow> s = identity_name i)"
  using assms letters.index_name letters.name_index by auto

theorem identity_name_index_witness:
  "identity_index (identity_name 27) = Inr 27 \<and> identity_index ''ab'' = Inr 27"
proof -
  have "identity_name 27 = ''ab''" by (simp add: identity_name_step letter_at_def char_of_eq_iff)
  with identity_name_index [of 27 "''ab''"] show ?thesis by (simp add: max_int_def)
qed

section \<open>Key generation\<close>

text \<open>A file system: paths to entries. \<^verbatim>\<open>os.Mkdir\<close> refuses an existing path.\<close>

type_synonym path = "string list"

datatype entry = Dir | File string

type_synonym file_system = "path \<rightharpoonup> entry"

datatype keygen_error =
    DirectoryExists path
  | NoDirectory path
  | CertificateUnreadable path
  | BadCommittee nat
  | OutputExists path

definition mkdir :: "file_system \<Rightarrow> path \<Rightarrow> keygen_error + file_system" where
  "mkdir fs p = (if fs p \<noteq> None then Inl (DirectoryExists p)
     else if fs (butlast p) \<noteq> Some Dir then Inl (NoDirectory p)
     else Inr (fs(p \<mapsto> Dir)))"

definition write_file :: "file_system \<Rightarrow> path \<Rightarrow> string \<Rightarrow> keygen_error + file_system" where
  "write_file fs p c = (if fs (butlast p) \<noteq> Some Dir \<or> fs p = Some Dir then Inl (NoDirectory p)
     else Inr (fs(p \<mapsto> File c)))"

record ('id, 'pop) identity =
  id_Name :: string
  id_NodeNumber :: int
  id_Role :: role
  id_Chain :: string
  id_Directory :: path
  id_NodeID :: 'id
  id_Proof :: "'pop option"

record ('id, 'pop) identity_set =
  set_Nodes :: "('id, 'pop) identity list"
  set_Manager :: "('id, 'pop) identity list"

text \<open>What the key libraries produce for a directory: certificate and keys with the proof of
  possession. Reading the node ID out of a certificate is \<open>cert_id\<close>.\<close>

record 'pop key_material =
  cert_pem :: string
  key_pem :: string
  signer_key :: string
  pop_of :: 'pop

definition load_node_id :: "(string \<Rightarrow> 'id option) \<Rightarrow> file_system \<Rightarrow> path \<Rightarrow> keygen_error + 'id" where
  "load_node_id cert_id fs p = (case fs p of
      Some (File pem) \<Rightarrow> (case cert_id pem of None \<Rightarrow> Inl (CertificateUnreadable p) | Some i \<Rightarrow> Inr i)
    | _ \<Rightarrow> Inl (NoDirectory p))"

definition generate_one ::
  "(string \<Rightarrow> 'id option) \<Rightarrow> (path \<Rightarrow> 'pop key_material) \<Rightarrow> file_system \<Rightarrow> path \<Rightarrow> string \<Rightarrow> int
   \<Rightarrow> role \<Rightarrow> bool \<Rightarrow> keygen_error + file_system \<times> ('id, 'pop) identity" where
  "generate_one cert_id fresh fs dir name number r withBLS =
    rbind (mkdir fs dir) (\<lambda>fs.
    rbind (write_file fs (dir @ [''staker.crt'']) (cert_pem (fresh dir))) (\<lambda>fs.
    rbind (write_file fs (dir @ [''staker.key'']) (key_pem (fresh dir))) (\<lambda>fs.
    rbind (load_node_id cert_id fs (dir @ [''staker.crt''])) (\<lambda>nodeID.
    let generated = \<lparr>id_Name = name, id_NodeNumber = number, id_Role = r, id_Chain = [],
                     id_Directory = dir, id_NodeID = nodeID, id_Proof = None\<rparr>
    in if \<not> withBLS then Inr (fs, generated)
       else rbind (write_file fs (dir @ [''signer.key'']) (signer_key (fresh dir))) (\<lambda>fs.
         Inr (fs, generated\<lparr>id_Proof := Some (pop_of (fresh dir))\<rparr>))))))"

text \<open>One pass of each loop of \<^verbatim>\<open>Generate\<close>; the index is the number of identities so far.\<close>

definition generate_node ::
  "(string \<Rightarrow> 'id option) \<Rightarrow> (path \<Rightarrow> 'pop key_material) \<Rightarrow> path
   \<Rightarrow> file_system \<times> ('id, 'pop) identity list \<Rightarrow> node
   \<Rightarrow> keygen_error + file_system \<times> ('id, 'pop) identity list" where
  "generate_node cert_id fresh root acc n = (let (fs, done_so_far) = acc;
      name = identity_name (length done_so_far); dir = root @ [''identities'', name]
    in rbind (generate_one cert_id fresh fs dir name (Number n) (Role n) (Role n = RoleValidator))
         (\<lambda>(fs', g). Inr (fs', done_so_far @ [g\<lparr>id_Chain := effective_chain (Role n) (Chain n)\<rparr>])))"

definition generate_manager ::
  "(string \<Rightarrow> 'id option) \<Rightarrow> (path \<Rightarrow> 'pop key_material) \<Rightarrow> path
   \<Rightarrow> file_system \<times> ('id, 'pop) identity list \<Rightarrow> nat
   \<Rightarrow> keygen_error + file_system \<times> ('id, 'pop) identity list" where
  "generate_manager cert_id fresh root acc i = (let (fs, done_so_far) = acc;
      name = identity_name i; dir = root @ [''manager'', name]
    in rbind (generate_one cert_id fresh fs dir name 0 RoleValidator True)
         (\<lambda>(fs', g). Inr (fs', done_so_far @ [g])))"

definition generate ::
  "(string \<Rightarrow> 'id option) \<Rightarrow> (path \<Rightarrow> 'pop key_material) \<Rightarrow> file_system \<Rightarrow> path \<Rightarrow> node list \<Rightarrow> nat
   \<Rightarrow> keygen_error + file_system \<times> ('id, 'pop) identity_set" where
  "generate cert_id fresh fs root nodes committee =
    rbind (mkdir fs (root @ [''identities''])) (\<lambda>fs.
    rbind (mkdir fs (root @ [''manager''])) (\<lambda>fs.
    rbind (each (generate_node cert_id fresh root) (fs, []) nodes) (\<lambda>(fs, ns).
    rbind (each (generate_manager cert_id fresh root) (fs, []) [0..<committee]) (\<lambda>(fs, ms).
      Inr (fs, \<lparr>set_Nodes = ns, set_Manager = ms\<rparr>)))))"

subsection \<open>What is generated\<close>

lemma generate_one_result:
  assumes "generate_one cert_id fresh fs dir name number r withBLS = Inr (fs', g)"
  shows "id_Name g = name \<and> id_NodeNumber g = number \<and> id_Role g = r \<and> id_Directory g = dir
    \<and> id_Proof g = (if withBLS then Some (pop_of (fresh dir)) else None)
    \<and> cert_id (cert_pem (fresh dir)) = Some (id_NodeID g)"
  using assms
  by (auto simp: generate_one_def Let_def load_node_id_def write_file_def
      split: if_splits option.splits entry.splits)

text \<open>Each step keeps every entry that was there: directories are fresh, and a file is only
  written inside one.\<close>

definition closed_fs :: "file_system \<Rightarrow> bool" where
  "closed_fs fs \<longleftrightarrow> (\<forall>p x. fs (p @ [x]) \<noteq> None \<longrightarrow> fs p \<noteq> None)"

lemma closed_below: "closed_fs fs \<Longrightarrow> fs p = None \<Longrightarrow> fs (p @ [x]) = None"
  unfolding closed_fs_def by blast

lemma closed_update: "closed_fs fs \<Longrightarrow> fs p = Some e \<Longrightarrow> closed_fs (fs(p @ [x] \<mapsto> e'))"
  by (auto simp: closed_fs_def)

lemma mkdir_ext:
  assumes "mkdir fs p = Inr fs'" "closed_fs fs" "p \<noteq> []"
  shows "fs \<subseteq>\<^sub>m fs' \<and> closed_fs fs' \<and> fs' p = Some Dir \<and> fs p = None"
proof -
  from assms(3) obtain q x where p: "p = q @ [x]" by (metis rev_exhaust)
  from assms(1) have "fs q = Some Dir" "fs p = None" "fs' = fs(p \<mapsto> Dir)"
    by (auto simp: mkdir_def p split: if_splits)
  with assms(2) p show ?thesis by (auto simp: map_le_def intro: closed_update)
qed

lemma write_fresh:
  assumes "write_file fs (p @ [x]) c = Inr fs'" "closed_fs fs" "fs0 \<subseteq>\<^sub>m fs" "fs0 (p @ [x]) = None"
  shows "fs0 \<subseteq>\<^sub>m fs' \<and> closed_fs fs' \<and> fs' p = Some Dir"
proof -
  from assms(1) have "fs p = Some Dir" and fs': "fs' = fs(p @ [x] \<mapsto> File c)"
    by (auto simp: write_file_def split: if_splits)
  with assms(2) have "closed_fs fs'" "fs' p = Some Dir" by (auto intro: closed_update)
  moreover have "fs0 \<subseteq>\<^sub>m fs'"
    using assms(3,4) by (auto simp: fs' map_le_def dom_def)
  ultimately show ?thesis by blast
qed

lemma generate_one_ext:
  assumes "generate_one cert_id fresh fs dir name number r withBLS = Inr (fs', g)"
    and "closed_fs fs" "dir \<noteq> []"
  shows "fs \<subseteq>\<^sub>m fs' \<and> closed_fs fs'"
proof -
  from assms(1) obtain f1 f2 f3 where steps: "mkdir fs dir = Inr f1"
    "write_file f1 (dir @ [''staker.crt'']) (cert_pem (fresh dir)) = Inr f2"
    "write_file f2 (dir @ [''staker.key'']) (key_pem (fresh dir)) = Inr f3"
    and last: "fs' = f3 \<or> write_file f3 (dir @ [''signer.key'']) (signer_key (fresh dir)) = Inr fs'"
    by (auto simp: generate_one_def Let_def split: if_splits)
  have d: "fs \<subseteq>\<^sub>m f1" "closed_fs f1" "fs dir = None"
    using mkdir_ext [OF steps(1) assms(2,3)] by auto
  note new = closed_below [OF assms(2) d(3)]
  from write_fresh [OF steps(2) d(2,1) new] have f2: "fs \<subseteq>\<^sub>m f2" "closed_fs f2" by auto
  from write_fresh [OF steps(3) f2(2,1) new] have f3: "fs \<subseteq>\<^sub>m f3" "closed_fs f3" by auto
  from last write_fresh [OF _ f3(2,1) new] f3 show ?thesis by auto
qed

text \<open>The identity made for the node at position \<open>i\<close>.\<close>

definition made_from :: "(path \<Rightarrow> 'pop key_material) \<Rightarrow> nat \<Rightarrow> node \<Rightarrow> ('id, 'pop) identity \<Rightarrow> bool" where
  "made_from fresh i n g \<longleftrightarrow> id_Name g = identity_name i \<and> id_NodeNumber g = Number n \<and>
    id_Role g = Role n \<and> id_Chain g = effective_chain (Role n) (Chain n) \<and>
    id_Proof g = (if Role n = RoleValidator then Some (pop_of (fresh (id_Directory g))) else None)"

definition made_in :: "(string \<Rightarrow> 'id option) \<Rightarrow> (path \<Rightarrow> 'pop key_material) \<Rightarrow> path \<Rightarrow> ('id, 'pop) identity \<Rightarrow> bool" where
  "made_in cert_id fresh dir g \<longleftrightarrow> id_Directory g = dir @ [id_Name g] \<and>
    cert_id (cert_pem (fresh (id_Directory g))) = Some (id_NodeID g)"

lemma generate_nodes_result:
  assumes "each (generate_node cert_id fresh root) (fs, []) nodes = Inr (fs', ns)" "closed_fs fs"
  shows "length ns = length nodes \<and> (\<forall>i < length nodes. made_from fresh i (nodes ! i) (ns ! i)) \<and>
    (\<forall>g \<in> set ns. made_in cert_id fresh (root @ [''identities'']) g) \<and> fs \<subseteq>\<^sub>m fs' \<and> closed_fs fs'"
proof -
  let ?P = "\<lambda>pre (f, gs). length gs = length pre \<and>
    (\<forall>i < length pre. made_from fresh i (pre ! i) (gs ! i)) \<and>
    (\<forall>g \<in> set gs. made_in cert_id fresh (root @ [''identities'']) g) \<and> fs \<subseteq>\<^sub>m f \<and> closed_fs f"
  have "?P nodes (fs', ns)"
  proof (rule each_invariant [OF assms(1)])
    show "?P [] (fs, [])" using assms(2) by simp
  next
    fix pre x u v
    assume P: "?P pre u" and step: "generate_node cert_id fresh root u x = Inr v"
    obtain f gs where u: "u = (f, gs)" by fastforce
    let ?dir = "root @ [''identities'', identity_name (length gs)]"
    from step u obtain f' g where
      one: "generate_one cert_id fresh f ?dir (identity_name (length gs)) (Number x) (Role x)
              (Role x = RoleValidator) = Inr (f', g)"
      and v: "v = (f', gs @ [g\<lparr>id_Chain := effective_chain (Role x) (Chain x)\<rparr>])"
      by (auto simp: generate_node_def Let_def)
    have "f \<subseteq>\<^sub>m f' \<and> closed_fs f'" using generate_one_ext [OF one] P u by simp
    moreover have "made_from fresh (length gs) x (g\<lparr>id_Chain := effective_chain (Role x) (Chain x)\<rparr>)"
      "made_in cert_id fresh (root @ [''identities'']) (g\<lparr>id_Chain := effective_chain (Role x) (Chain x)\<rparr>)"
      using generate_one_result [OF one] by (simp_all add: made_from_def made_in_def)
    ultimately show "?P (pre @ [x]) v"
      using P u v by (auto simp: nth_append less_Suc_eq intro: map_le_trans)
  qed
  then show ?thesis by simp
qed

lemma generate_managers_result:
  assumes "each (generate_manager cert_id fresh root) (fs, []) [0..<k] = Inr (fs', ms)" "closed_fs fs"
  shows "map id_Name ms = map identity_name [0..<k] \<and>
    (\<forall>g \<in> set ms. id_Proof g = Some (pop_of (fresh (id_Directory g)))) \<and>
    (\<forall>g \<in> set ms. made_in cert_id fresh (root @ [''manager'']) g) \<and> fs \<subseteq>\<^sub>m fs' \<and> closed_fs fs'"
proof -
  let ?P = "\<lambda>pre (f, gs). map id_Name gs = map identity_name pre \<and>
    (\<forall>g \<in> set gs. id_Proof g = Some (pop_of (fresh (id_Directory g)))) \<and>
    (\<forall>g \<in> set gs. made_in cert_id fresh (root @ [''manager'']) g) \<and> fs \<subseteq>\<^sub>m f \<and> closed_fs f"
  have "?P [0..<k] (fs', ms)"
  proof (rule each_invariant [OF assms(1)])
    show "?P [] (fs, [])" using assms(2) by simp
  next
    fix pre x u v
    assume P: "?P pre u" and step: "generate_manager cert_id fresh root u x = Inr v"
    obtain f gs where u: "u = (f, gs)" by fastforce
    from step u obtain f' g where
      one: "generate_one cert_id fresh f (root @ [''manager'', identity_name x]) (identity_name x) 0
              RoleValidator True = Inr (f', g)" and v: "v = (f', gs @ [g])"
      by (auto simp: generate_manager_def Let_def)
    have "f \<subseteq>\<^sub>m f' \<and> closed_fs f'" using generate_one_ext [OF one] P u by simp
    then show "?P (pre @ [x]) v"
      using P u v generate_one_result [OF one] by (auto simp: made_in_def intro: map_le_trans)
  qed
  then show ?thesis by simp
qed

lemma generate_result:
  assumes "generate cert_id fresh fs root nodes k = Inr (fs', s)" "closed_fs fs"
  shows "length (set_Nodes s) = length nodes"
    and "i < length nodes \<Longrightarrow> made_from fresh i (nodes ! i) (set_Nodes s ! i)"
    and "map id_Name (set_Manager s) = map identity_name [0..<k]"
    and "g \<in> set (set_Manager s) \<Longrightarrow> id_Proof g = Some (pop_of (fresh (id_Directory g)))"
    and "fs \<subseteq>\<^sub>m fs'"
    and "g \<in> set (set_Nodes s) \<Longrightarrow> made_in cert_id fresh (root @ [''identities'']) g"
    and "g \<in> set (set_Manager s) \<Longrightarrow> made_in cert_id fresh (root @ [''manager'']) g"
    and "closed_fs fs'"
proof -
  from assms(1) obtain f1 f2 f3 where steps: "mkdir fs (root @ [''identities'']) = Inr f1"
    "mkdir f1 (root @ [''manager'']) = Inr f2"
    "each (generate_node cert_id fresh root) (f2, []) nodes = Inr (f3, set_Nodes s)"
    "each (generate_manager cert_id fresh root) (f3, []) [0..<k] = Inr (fs', set_Manager s)"
    by (auto simp: generate_def)
  from mkdir_ext [OF steps(1) assms(2)] have a: "fs \<subseteq>\<^sub>m f1" "closed_fs f1" by auto
  from mkdir_ext [OF steps(2) a(2)] have b: "f1 \<subseteq>\<^sub>m f2" "closed_fs f2" by auto
  note c = generate_nodes_result [OF steps(3) b(2)]
  note d = generate_managers_result [OF steps(4)]
  show "length (set_Nodes s) = length nodes"
    "i < length nodes \<Longrightarrow> made_from fresh i (nodes ! i) (set_Nodes s ! i)"
    "g \<in> set (set_Nodes s) \<Longrightarrow> made_in cert_id fresh (root @ [''identities'']) g" using c by auto
  show "map id_Name (set_Manager s) = map identity_name [0..<k]"
    "g \<in> set (set_Manager s) \<Longrightarrow> id_Proof g = Some (pop_of (fresh (id_Directory g)))"
    "g \<in> set (set_Manager s) \<Longrightarrow> made_in cert_id fresh (root @ [''manager'']) g" "closed_fs fs'"
    using c d by auto
  show "fs \<subseteq>\<^sub>m fs'" using a b c d by (meson map_le_trans)
qed

subsection \<open>Generation succeeds on a fresh directory\<close>

lemma generate_one_total:
  assumes "closed_fs fs" "fs parent = Some Dir" "fs (parent @ [x]) = None"
    and cert: "\<And>d. cert_id (cert_pem (fresh d)) \<noteq> None"
  shows "\<exists>fs' g. generate_one cert_id fresh fs (parent @ [x]) name number r b = Inr (fs', g) \<and>
    (\<forall>y. y \<noteq> x \<longrightarrow> fs' (parent @ [y]) = fs (parent @ [y])) \<and> fs' parent = Some Dir"
proof -
  from cert obtain i where i: "cert_id (cert_pem (fresh (parent @ [x]))) = Some i" by blast
  have none: "fs (parent @ [x, f]) = None" for f
    using closed_below [OF assms(1,3), of f] by simp
  show ?thesis
    by (cases b) (simp_all add: generate_one_def mkdir_def write_file_def load_node_id_def assms(2,3)
      none i butlast_append Let_def del: rbind_eq_Inr)
qed

lemma generate_nodes_total:
  assumes "closed_fs fs" "fs (root @ [''identities'']) = Some Dir" "length gs + length nodes \<le> max_int"
    and "\<forall>i \<ge> length gs. i < max_int \<longrightarrow> fs (root @ [''identities'', identity_name i]) = None"
    and cert: "\<And>d. cert_id (cert_pem (fresh d)) \<noteq> None"
  shows "\<exists>v. each (generate_node cert_id fresh root) (fs, gs) nodes = Inr v"
  using assms(1-4)
proof (induction nodes arbitrary: fs gs)
  case (Cons n nodes)
  let ?name = "identity_name (length gs)"
  have "fs ((root @ [''identities'']) @ [?name]) = None" using Cons.prems(3,4) by simp
  from generate_one_total [where cert_id = cert_id and fresh = fresh, OF Cons.prems(1,2) this cert,
      of ?name "Number n" "Role n" "Role n = RoleValidator"]
  obtain f g where one: "generate_one cert_id fresh fs (root @ [''identities'', ?name]) ?name (Number n)
      (Role n) (Role n = RoleValidator) = Inr (f, g)"
    and same: "\<And>y. y \<noteq> ?name \<Longrightarrow> f (root @ [''identities'', y]) = fs (root @ [''identities'', y])"
    and dir: "f (root @ [''identities'']) = Some Dir" by auto
  let ?gs = "gs @ [g\<lparr>id_Chain := effective_chain (Role n) (Chain n)\<rparr>]"
  have "\<exists>v. each (generate_node cert_id fresh root) (f, ?gs) nodes = Inr v"
  proof (rule Cons.IH)
    show "closed_fs f" using generate_one_ext [OF one Cons.prems(1)] by simp
    show "\<forall>i \<ge> length ?gs. i < max_int \<longrightarrow> f (root @ [''identities'', identity_name i]) = None"
    proof (intro allI impI)
      fix i assume i: "length ?gs \<le> i" "i < max_int"
      with letters.name_eq_iff [of i "length gs"] have "identity_name i \<noteq> ?name" by auto
      with same i Cons.prems(4) show "f (root @ [''identities'', identity_name i]) = None" by simp
    qed
  qed (use dir Cons.prems(3) in simp_all)
  moreover have "generate_node cert_id fresh root (fs, gs) n = Inr (f, ?gs)"
    by (simp add: generate_node_def one Let_def)
  ultimately show ?case by (simp del: rbind_eq_Inr)
qed simp

text \<open>The node identities write nothing outside their directory.\<close>

lemma generate_one_outside:
  assumes "generate_one cert_id fresh fs dir name number r b = Inr (fs', g)" "take (length dir) p \<noteq> dir"
  shows "fs' p = fs p"
proof -
  have "p \<noteq> dir" "\<And>x. p \<noteq> dir @ [x]" using assms(2) by auto
  with assms(1) show ?thesis
    by (auto simp: generate_one_def mkdir_def write_file_def Let_def split: if_splits)
qed

lemma generate_nodes_outside:
  assumes "each (generate_node cert_id fresh root) (fs, []) nodes = Inr (fs', ns)"
  shows "fs' (root @ [''manager'', x]) = fs (root @ [''manager'', x])"
proof -
  let ?p = "root @ [''manager'', x]"
  have "(\<lambda>_ v. fst v ?p = fs ?p) nodes (fs', ns)"
  proof (rule each_invariant [OF assms])
    fix pre x u v assume "fst u ?p = fs ?p" "generate_node cert_id fresh root u x = Inr v"
    then show "fst v ?p = fs ?p"
      by (cases u) (auto simp: generate_node_def Let_def dest!: generate_one_outside [where p = ?p])
  qed simp
  then show ?thesis by simp
qed

lemma generate_managers_total:
  assumes "closed_fs fs" "fs (root @ [''manager'']) = Some Dir" "j + m \<le> max_int"
    and "\<forall>i \<ge> j. i < max_int \<longrightarrow> fs (root @ [''manager'', identity_name i]) = None"
    and cert: "\<And>d. cert_id (cert_pem (fresh d)) \<noteq> None"
  shows "\<exists>v. each (generate_manager cert_id fresh root) (fs, gs) [j..<j + m] = Inr v"
  using assms(1-4)
proof (induction m arbitrary: j fs gs)
  case (Suc m)
  have "fs ((root @ [''manager'']) @ [identity_name j]) = None" using Suc.prems(3,4) by simp
  from generate_one_total [where cert_id = cert_id and fresh = fresh, OF Suc.prems(1,2) this cert,
      of "identity_name j" 0 RoleValidator True]
  obtain f g where one: "generate_one cert_id fresh fs (root @ [''manager'', identity_name j])
      (identity_name j) 0 RoleValidator True = Inr (f, g)"
    and same: "\<And>y. y \<noteq> identity_name j \<Longrightarrow> f (root @ [''manager'', y]) = fs (root @ [''manager'', y])"
    and dir: "f (root @ [''manager'']) = Some Dir" by auto
  have "\<exists>v. each (generate_manager cert_id fresh root) (f, gs @ [g]) [Suc j..<Suc j + m] = Inr v"
  proof (rule Suc.IH)
    show "closed_fs f" using generate_one_ext [OF one Suc.prems(1)] by simp
    show "\<forall>i \<ge> Suc j. i < max_int \<longrightarrow> f (root @ [''manager'', identity_name i]) = None"
    proof (intro allI impI)
      fix i assume i: "Suc j \<le> i" "i < max_int"
      with letters.name_eq_iff [of i j] have "identity_name i \<noteq> identity_name j" by auto
      with same i Suc.prems(4) show "f (root @ [''manager'', identity_name i]) = None" by simp
    qed
  qed (use dir Suc.prems(3) in simp_all)
  moreover have "[j..<j + Suc m] = j # [Suc j..<Suc j + m]" by (simp add: upt_conv_Cons del: upt_Suc)
  moreover have "generate_manager cert_id fresh root (fs, gs) j = Inr (f, gs @ [g])"
    by (simp add: generate_manager_def one Let_def)
  ultimately show ?case by (simp del: rbind_eq_Inr upt_Suc)
qed simp

lemma generate_total:
  assumes fs: "closed_fs fs" "fs root = Some Dir"
    and new: "fs (root @ [''identities'']) = None" "fs (root @ [''manager'']) = None"
    and size: "length nodes \<le> max_int" "k \<le> max_int"
    and cert: "\<And>d. cert_id (cert_pem (fresh d)) \<noteq> None"
  shows "\<exists>fs' s. generate cert_id fresh fs root nodes k = Inr (fs', s)"
proof -
  let ?i = "root @ [''identities'']" and ?m = "root @ [''manager'']"
  define f1 where "f1 = fs(?i \<mapsto> Dir)"
  define f2 where "f2 = f1(?m \<mapsto> Dir)"
  have steps: "mkdir fs ?i = Inr f1" "mkdir f1 ?m = Inr f2"
    using fs new by (auto simp: mkdir_def f1_def f2_def)
  have c1: "closed_fs f1" using mkdir_ext [OF steps(1) fs(1)] by simp
  then have c2: "closed_fs f2" using mkdir_ext [OF steps(2)] by simp
  have below: "f2 (root @ [a, x]) = None" if "a \<in> {''identities'', ''manager''}" for a x
    using that closed_below [OF fs(1) new(1)] closed_below [OF fs(1) new(2)]
    by (auto simp: f1_def f2_def)
  obtain v where v: "each (generate_node cert_id fresh root) (f2, []) nodes = Inr v"
    using generate_nodes_total [where cert_id = cert_id and fresh = fresh and gs = "[]", OF c2 _ _ _ cert]
      size(1) below by (fastforce simp: f1_def f2_def)
  obtain f3 ns where [simp]: "v = (f3, ns)" by fastforce
  note r = generate_nodes_result [OF v [simplified] c2]
  have "f3 ?m = Some Dir" using r by (auto simp: f2_def map_le_def dom_def)
  moreover have "f3 (root @ [''manager'', x]) = None" for x
    using generate_nodes_outside [OF v [simplified]] below by simp
  ultimately obtain w where "each (generate_manager cert_id fresh root) (f3, []) [0..<k] = Inr w"
    using generate_managers_total [where cert_id = cert_id and fresh = fresh and j = 0 and gs = "[]"
      and m = k and fs = f3 and root = root, OF _ _ _ _ cert] r size(2) by auto
  with steps v show ?thesis
    by (cases w) (simp add: generate_def del: rbind_eq_Inr)
qed

end
