(* ===== verification/Manifest.thy ===== *)
theory Manifest
  imports Identity
begin

text \<open>
  The public manifest \<^verbatim>\<open>public.json\<close>, \<^verbatim>\<open>internal/creation/public.go\<close>, and the key generation
  command that writes it, \<^verbatim>\<open>internal/keygen/keygen.go\<close>: \<open>new_public\<close> derives it from the
  generated identities and the inventory (with the weight ladder), \<open>validate_public\<close> is the
  check every reader applies, \<open>load_public\<close> normalises old records first.
  Node ID text, proofs of possession and EVM addresses belong to the platform libraries;
  the record \<open>platform\<close> carries what the code calls of them.
\<close>

section \<open>Data\<close>

record ('id, 'pop) platform =
  id_string :: "'id \<Rightarrow> string"
  id_parse :: "string \<Rightarrow> 'id option"
  pop_verify :: "'pop \<Rightarrow> bool"
  is_hex_address :: "string \<Rightarrow> bool"

record 'pop public_node =
  pn_Identity :: string
  pn_Node :: int
  pn_Role :: role
  pn_Chain :: string
  pn_NodeID :: string
  pn_Weight :: u64
  pn_ExplicitWeight :: bool
  pn_Signer :: "'pop option"

record 'pop public_manager =
  pm_Identity :: string
  pm_NodeID :: string
  pm_Weight :: u64
  pm_Signer :: "'pop option"

record 'pop public =
  GenesisAddress :: string
  FeederAddress :: string
  Nodes :: "'pop public_node list"
  Managers :: "'pop public_manager list"

definition high_validator_count :: nat where "high_validator_count = 3"
definition high_weight :: u64 where "high_weight = 100000"
definition low_weight :: u64 where "low_weight = 1000"
definition manager_weight :: u64 where "manager_weight = 1000"
definition oracle_weight :: u64 where "oracle_weight = 1000"

definition chain_name :: "'pop public_node \<Rightarrow> string" where
  "chain_name n = effective_chain (pn_Role n) (pn_Chain n)"

datatype manifest_error =
    BadGenesisAddress
  | BadFeederAddress
  | NoNodes
  | MixedManifestWeights string "string list" "string list"
  | WrongIdentity nat string
  | NodeOrder
  | BadNodeID string
  | DuplicateNodeID string
  | BadManifestChain string
  | PChainWithChain string
  | ReservedManifestChain string
  | WrongWeight string u64
  | SignerRequired string
  | SignerInvalid string
  | SignerForbidden string
  | ExplicitForbidden string
  | UnknownRole string
  | PChainNodes nat
  | ChainWithoutValidator string
  | OracleWithoutRPC
  | ManagerCount nat
  | BadJSON

section \<open>Writing the manifest\<close>

definition explicit_weights :: "node list \<Rightarrow> int \<rightharpoonup> u64" where
  "explicit_weights nodes = index_by Number Weight (filter (\<lambda>n. Weight n > 0) nodes)"

definition ladder_weight :: "(string \<rightharpoonup> nat) \<Rightarrow> string \<Rightarrow> u64" where
  "ladder_weight index chain =
    (if read_nat index chain < high_validator_count then high_weight else low_weight)"

definition bump :: "(string \<rightharpoonup> nat) \<Rightarrow> string \<Rightarrow> (string \<rightharpoonup> nat)" where
  "bump m k = m(k \<mapsto> read_nat m k + 1)"

definition public_of_identity ::
  "('id, 'pop) platform \<Rightarrow> (int \<rightharpoonup> u64) \<Rightarrow> (string \<rightharpoonup> nat) \<times> 'pop public_node list
   \<Rightarrow> ('id, 'pop) identity \<Rightarrow> (string \<rightharpoonup> nat) \<times> 'pop public_node list" where
  "public_of_identity env explicit acc g = (let (index, out) = acc;
      chain = effective_chain (id_Role g) (id_Chain g);
      base = \<lparr>pn_Identity = id_Name g, pn_Node = id_NodeNumber g, pn_Role = id_Role g,
        pn_Chain = (if chain \<noteq> effective_chain (id_Role g) [] then chain else []),
        pn_NodeID = id_string env (id_NodeID g), pn_Weight = 0, pn_ExplicitWeight = False,
        pn_Signer = id_Proof g\<rparr>;
      (index', weighted) =
        (if id_Role g = RoleValidator then
           (if chain = oracle_chain then (index, base\<lparr>pn_Weight := oracle_weight\<rparr>)
            else (bump index chain, base\<lparr>pn_Weight := ladder_weight index chain\<rparr>))
         else (index, base));
      final = (case explicit (id_NodeNumber g) of
          None \<Rightarrow> weighted
        | Some w \<Rightarrow> weighted\<lparr>pn_Weight := w, pn_ExplicitWeight := True\<rparr>)
    in (index', out @ [final]))"

definition public_of_manager :: "('id, 'pop) platform \<Rightarrow> ('id, 'pop) identity \<Rightarrow> 'pop public_manager" where
  "public_of_manager env g = \<lparr>pm_Identity = id_Name g, pm_NodeID = id_string env (id_NodeID g),
     pm_Weight = manager_weight, pm_Signer = id_Proof g\<rparr>"

definition new_public ::
  "('id, 'pop) platform \<Rightarrow> ('id, 'pop) identity_set \<Rightarrow> node list \<Rightarrow> string \<Rightarrow> string \<Rightarrow> 'pop public" where
  "new_public env s nodes genesis feeder =
    \<lparr>GenesisAddress = genesis, FeederAddress = feeder,
     Nodes = snd (foldl (public_of_identity env (explicit_weights nodes)) (Map.empty, []) (set_Nodes s)),
     Managers = map (public_of_manager env) (set_Manager s)\<rparr>"

section \<open>The check\<close>

definition public_chains :: "'pop public \<Rightarrow> string list" where
  "public_chains p = sort_chains (first_seen [] (filter (\<lambda>c. c \<noteq> []) (map chain_name (Nodes p))))"

definition weight_identities :: "bool \<Rightarrow> 'pop public \<Rightarrow> string \<Rightarrow> string list" where
  "weight_identities explicit p chain = map pn_Identity
     (filter (\<lambda>n. pn_Role n = RoleValidator \<and> chain_name n = chain \<and> pn_ExplicitWeight n = explicit)
       (Nodes p))"

definition check_public_weights :: "'pop public \<Rightarrow> unit \<Rightarrow> string \<Rightarrow> manifest_error + unit" where
  "check_public_weights p u chain =
    (let explicit = weight_identities True p chain; defaulted = weight_identities False p chain
     in if explicit = [] \<or> defaulted = [] then Inr ()
        else Inl (MixedManifestWeights chain explicit defaulted))"

definition public_weight_consistency :: "'pop public \<Rightarrow> manifest_error + unit" where
  "public_weight_consistency p = each (check_public_weights p) () (public_chains p)"

record 'id check_state =
  next_index :: nat
  seen_ids :: "'id set"
  ladder_index :: "string \<rightharpoonup> nat"
  validators_by_chain :: "string \<rightharpoonup> nat"
  rpcs_by_chain :: "string \<rightharpoonup> nat"
  pchain_count :: nat
  previous_node :: int

definition check_id :: "('id, 'pop) platform \<Rightarrow> 'id set \<Rightarrow> string \<Rightarrow> string \<Rightarrow> manifest_error + 'id" where
  "check_id env seen name text = (case id_parse env text of
      None \<Rightarrow> Inl (BadNodeID name)
    | Some i \<Rightarrow> if i \<in> seen then Inl (DuplicateNodeID text) else Inr i)"

definition check_signer :: "('id, 'pop) platform \<Rightarrow> string \<Rightarrow> 'pop option \<Rightarrow> manifest_error + unit" where
  "check_signer env name signer = (case signer of
      None \<Rightarrow> Inl (SignerRequired name)
    | Some pop \<Rightarrow> if pop_verify env pop then Inr () else Inl (SignerInvalid name))"

definition check_node_chain :: "'pop public_node \<Rightarrow> manifest_error + unit" where
  "check_node_chain n =
    (if pn_Chain n = [] then Inr ()
     else if \<not> valid_chain_name (pn_Chain n) then Inl (BadManifestChain (pn_Chain n))
     else if pn_Role n = RolePChain then Inl (PChainWithChain (pn_Identity n))
     else if pn_Chain n = ''management'' then Inl (ReservedManifestChain (pn_Chain n))
     else Inr ())"

text \<open>The weight rule of a validator: the expected weight when the weight is a default one.\<close>

definition check_validator_weight :: "(string \<rightharpoonup> nat) \<Rightarrow> 'pop public_node \<Rightarrow> manifest_error + (string \<rightharpoonup> nat)" where
  "check_validator_weight ladder n = (let chain = chain_name n in
     if pn_ExplicitWeight n then
       (if pn_Weight n = 0 then Inl (WrongWeight (pn_Identity n) 0) else Inr ladder)
     else if chain = oracle_chain then
       (if pn_Weight n \<noteq> oracle_weight then Inl (WrongWeight (pn_Identity n) (pn_Weight n)) else Inr ladder)
     else if pn_Weight n \<noteq> ladder_weight ladder chain
       then Inl (WrongWeight (pn_Identity n) (pn_Weight n))
       else Inr (bump ladder chain))"

definition check_public_role ::
  "('id, 'pop) platform \<Rightarrow> 'id check_state \<Rightarrow> 'pop public_node \<Rightarrow> manifest_error + 'id check_state" where
  "check_public_role env st n = (case pn_Role n of
      RoleValidator \<Rightarrow>
        rbind (check_validator_weight (ladder_index st) n) (\<lambda>ladder.
        rbind (check_signer env (pn_Identity n) (pn_Signer n)) (\<lambda>_.
          Inr (st\<lparr>ladder_index := ladder,
                  validators_by_chain := bump (validators_by_chain st) (chain_name n)\<rparr>)))
    | RoleOracleValidator \<Rightarrow> Inl (UnknownRole (pn_Identity n))
    | RoleOracleRPC \<Rightarrow> Inl (UnknownRole (pn_Identity n))
    | RoleOther _ \<Rightarrow> Inl (UnknownRole (pn_Identity n))
    | r \<Rightarrow>
        if pn_Weight n \<noteq> 0 then Inl (WrongWeight (pn_Identity n) (pn_Weight n))
        else if pn_ExplicitWeight n then Inl (ExplicitForbidden (pn_Identity n))
        else if pn_Signer n \<noteq> None then Inl (SignerForbidden (pn_Identity n))
        else if r = RoleRPC then Inr (st\<lparr>rpcs_by_chain := bump (rpcs_by_chain st) (chain_name n)\<rparr>)
        else if r = RolePChain then Inr (st\<lparr>pchain_count := pchain_count st + 1\<rparr>)
        else Inr st)"

definition check_public_node ::
  "('id, 'pop) platform \<Rightarrow> 'id check_state \<Rightarrow> 'pop public_node \<Rightarrow> manifest_error + 'id check_state" where
  "check_public_node env st n =
    (let expected = identity_name (next_index st)
     in if pn_Identity n \<noteq> expected then Inl (WrongIdentity (next_index st) (pn_Identity n))
        else if pn_Node n \<le> previous_node st then Inl NodeOrder
        else rbind (check_id env (seen_ids st) (pn_Identity n) (pn_NodeID n)) (\<lambda>nodeID.
             rbind (check_node_chain n) (\<lambda>_.
               check_public_role env
                 (st\<lparr>next_index := next_index st + 1, previous_node := pn_Node n,
                     seen_ids := insert nodeID (seen_ids st)\<rparr>) n)))"

definition check_public_manager ::
  "('id, 'pop) platform \<Rightarrow> nat \<times> 'id set \<Rightarrow> 'pop public_manager \<Rightarrow> manifest_error + nat \<times> 'id set" where
  "check_public_manager env acc m = (let (i, seen) = acc
    in if pm_Identity m \<noteq> identity_name i then Inl (WrongIdentity i (pm_Identity m))
       else rbind (check_id env seen (pm_Identity m) (pm_NodeID m)) (\<lambda>nodeID.
         if pm_Weight m \<noteq> manager_weight then Inl (WrongWeight (pm_Identity m) (pm_Weight m))
         else rbind (check_signer env (pm_Identity m) (pm_Signer m)) (\<lambda>_.
           Inr (i + 1, insert nodeID seen))))"

definition check_start :: "'id check_state" where
  "check_start = \<lparr>next_index = 0, seen_ids = {}, ladder_index = Map.empty,
     validators_by_chain = Map.empty, rpcs_by_chain = Map.empty, pchain_count = 0, previous_node = 0\<rparr>"

definition check_has_validator :: "(string \<rightharpoonup> nat) \<Rightarrow> unit \<Rightarrow> string \<Rightarrow> manifest_error + unit" where
  "check_has_validator counts u chain =
    (if read_nat counts chain = 0 then Inl (ChainWithoutValidator chain) else Inr ())"

definition validate_public :: "('id, 'pop) platform \<Rightarrow> 'pop public \<Rightarrow> manifest_error + unit" where
  "validate_public env p =
    (if \<not> is_hex_address env (GenesisAddress p) then Inl BadGenesisAddress
     else if \<not> is_hex_address env (FeederAddress p) then Inl BadFeederAddress
     else if Nodes p = [] then Inl NoNodes
     else rbind (public_weight_consistency p) (\<lambda>_.
          rbind (each (check_public_node env) check_start (Nodes p)) (\<lambda>st.
          if pchain_count st \<noteq> 1 then Inl (PChainNodes (pchain_count st))
          else rbind (each (check_has_validator (validators_by_chain st)) () (public_chains p)) (\<lambda>_.
          if read_nat (validators_by_chain st) oracle_chain > 0 \<and>
             read_nat (rpcs_by_chain st) oracle_chain < 1 then Inl OracleWithoutRPC
          else if length (Managers p) \<noteq> 1 \<and> length (Managers p) \<noteq> 4
            then Inl (ManagerCount (length (Managers p)))
          else rbind (each (check_public_manager env) (0, seen_ids st) (Managers p)) (\<lambda>_. Inr ())))))"

section \<open>Reading the manifest\<close>

text \<open>\<open>decode\<close> is the strict JSON decoder: it fails on unknown fields and trailing values.\<close>

definition normalize_node :: "'pop public_node \<Rightarrow> 'pop public_node" where
  "normalize_node n = (case pn_Role n of
      RoleOracleValidator \<Rightarrow> n\<lparr>pn_Role := RoleValidator, pn_Chain := oracle_chain\<rparr>
    | RoleOracleRPC \<Rightarrow> n\<lparr>pn_Role := RoleRPC, pn_Chain := oracle_chain\<rparr>
    | _ \<Rightarrow> n)"

definition load_public ::
  "('id, 'pop) platform \<Rightarrow> (string \<Rightarrow> 'pop public option) \<Rightarrow> string \<Rightarrow> manifest_error + 'pop public" where
  "load_public env decode contents = (case decode contents of
      None \<Rightarrow> Inl BadJSON
    | Some p \<Rightarrow> (let p' = p\<lparr>Nodes := map normalize_node (Nodes p)\<rparr>
        in rbind (validate_public env p') (\<lambda>_. Inr p')))"

definition has_oracle :: "'pop public \<Rightarrow> bool" where
  "has_oracle p = list_ex (\<lambda>n. pn_Role n = RoleValidator \<and> chain_name n = oracle_chain) (Nodes p)"

definition public_identity ::
  "('id, 'pop) platform \<Rightarrow> 'pop public_node \<Rightarrow> manifest_error + ('id, 'pop) identity" where
  "public_identity env n = (case id_parse env (pn_NodeID n) of
      None \<Rightarrow> Inl (BadNodeID (pn_Identity n))
    | Some i \<Rightarrow> Inr \<lparr>id_Name = pn_Identity n, id_NodeNumber = pn_Node n, id_Role = pn_Role n,
        id_Chain = chain_name n, id_Directory = [], id_NodeID = i, id_Proof = pn_Signer n\<rparr>)"

definition manager_identity ::
  "('id, 'pop) platform \<Rightarrow> 'pop public_manager \<Rightarrow> manifest_error + ('id, 'pop) identity" where
  "manager_identity env m = (case id_parse env (pm_NodeID m) of
      None \<Rightarrow> Inl (BadNodeID (pm_Identity m))
    | Some i \<Rightarrow> Inr \<lparr>id_Name = pm_Identity m, id_NodeNumber = 0, id_Role = RoleValidator,
        id_Chain = [], id_Directory = [], id_NodeID = i, id_Proof = pm_Signer m\<rparr>)"

definition public_identity_set ::
  "('id, 'pop) platform \<Rightarrow> 'pop public \<Rightarrow> manifest_error + ('id, 'pop) identity_set" where
  "public_identity_set env p =
    rbind (rmap (public_identity env) (Nodes p)) (\<lambda>ns.
    rbind (rmap (manager_identity env) (Managers p)) (\<lambda>ms.
      Inr \<lparr>set_Nodes = ns, set_Manager = ms\<rparr>))"

section \<open>The manifest of a loaded inventory\<close>

lemma effective_chain_idem [simp]: "effective_chain r (effective_chain r c) = effective_chain r c"
  by (cases r) (simp_all add: effective_chain_def)

lemma effective_chain_node_ok: "node_ok n \<Longrightarrow> effective_chain (Role n) (Chain n) = Chain n"
  by (auto simp: node_ok_def effective_chain_def)

lemma effective_chain_default: "effective_chain r (if effective_chain r c \<noteq> effective_chain r [] then effective_chain r c else []) = effective_chain r c"
  by (auto simp: effective_chain_def)

lemma read_nat_bump [simp]: "read_nat (bump m k) c = read_nat m c + (if c = k then 1 else 0)"
  by (simp add: bump_def)

text \<open>The manifest entry of a node, given the ladder positions taken before it.\<close>

definition entry_of :: "('id, 'pop) platform \<Rightarrow> (string \<rightharpoonup> nat) \<Rightarrow> node \<Rightarrow> ('id, 'pop) identity \<Rightarrow> 'pop public_node" where
  "entry_of env index n g = \<lparr>pn_Identity = id_Name g, pn_Node = Number n, pn_Role = Role n,
     pn_Chain = (if Chain n \<noteq> effective_chain (Role n) [] then Chain n else []),
     pn_NodeID = id_string env (id_NodeID g),
     pn_Weight = (if Weight n > 0 then Weight n
        else if Role n \<noteq> RoleValidator then 0
        else if Chain n = oracle_chain then oracle_weight else ladder_weight index (Chain n)),
     pn_ExplicitWeight = (Weight n > 0), pn_Signer = id_Proof g\<rparr>"

definition next_ladder :: "(string \<rightharpoonup> nat) \<Rightarrow> node \<Rightarrow> (string \<rightharpoonup> nat)" where
  "next_ladder index n = (if Role n = RoleValidator \<and> Chain n \<noteq> oracle_chain then bump index (Chain n) else index)"

fun entries :: "('id, 'pop) platform \<Rightarrow> (string \<rightharpoonup> nat) \<Rightarrow> node list \<Rightarrow> ('id, 'pop) identity list \<Rightarrow> 'pop public_node list" where
  "entries env index (n # ns) (g # gs) = entry_of env index n g # entries env (next_ladder index n) ns gs"
| "entries env index _ _ = []"

lemma chain_name_entry [simp]: "node_ok n \<Longrightarrow> chain_name (entry_of env index n g) = Chain n"
  by (auto simp: entry_of_def chain_name_def node_ok_def effective_chain_def)

lemma public_of_identity_entry:
  assumes "made_from fresh i n g" "node_ok n" "ex (Number n) = (if Weight n > 0 then Some (Weight n) else None)"
  shows "public_of_identity env ex (index, out) g = (next_ladder index n, out @ [entry_of env index n g])"
  using assms(1,3) effective_chain_node_ok [OF assms(2)] assms(2)
  by (auto simp: public_of_identity_def Let_def made_from_def entry_of_def next_ladder_def node_ok_def)

lemma foldl_entries:
  assumes "list_all2 (\<lambda>n g. \<exists>i. made_from fresh i n g) ns gs" "\<forall>n \<in> set ns. node_ok n"
    "\<forall>n \<in> set ns. ex (Number n) = (if Weight n > 0 then Some (Weight n) else None)"
  shows "snd (foldl (public_of_identity env ex) (index, out) gs) = out @ entries env index ns gs"
  using assms
proof (induction arbitrary: index out rule: list_all2_induct)
  case (Cons n ns g gs)
  then obtain i where "made_from fresh i n g" by blast
  from public_of_identity_entry [OF this, of ex env index out] Cons show ?case by simp
qed simp


definition node_step :: "'id check_state \<Rightarrow> node \<times> ('id, 'pop) identity \<Rightarrow> 'id check_state" where
  "node_step st ng = (let (n, g) = ng in st\<lparr>next_index := next_index st + 1,
     previous_node := Number n, seen_ids := insert (id_NodeID g) (seen_ids st),
     ladder_index := (if Role n = RoleValidator \<and> Chain n \<noteq> oracle_chain \<and> Weight n = 0
        then bump (ladder_index st) (Chain n) else ladder_index st),
     validators_by_chain := (if Role n = RoleValidator
        then bump (validators_by_chain st) (Chain n) else validators_by_chain st),
     rpcs_by_chain := (if Role n = RoleRPC
        then bump (rpcs_by_chain st) (Chain n) else rpcs_by_chain st),
     pchain_count := pchain_count st + (if Role n = RolePChain then 1 else 0)\<rparr>)"

lemma l1_chain_names: "l1_chain c \<Longrightarrow> c \<noteq> [] \<and> c \<noteq> ''management'' \<and> valid_chain_name c"
  by (auto simp: l1_chain_def valid_chain_name_def)

lemma check_entry:
  assumes "made_from fresh (next_index st) n g" "node_ok n" "previous_node st < Number n"
    and "id_parse env (id_string env (id_NodeID g)) = Some (id_NodeID g)" "id_NodeID g \<notin> seen_ids st"
    and "\<And>pop. id_Proof g = Some pop \<Longrightarrow> pop_verify env pop"
    and "Role n = RoleValidator \<Longrightarrow> Weight n = 0 \<Longrightarrow>
      read_nat index (Chain n) = read_nat (ladder_index st) (Chain n)"
  shows "check_public_node env st (entry_of env index n g) = Inr (node_step st (n, g))"
proof -
  let ?p = "entry_of env index n g" and ?st = "st\<lparr>next_index := next_index st + 1,
    previous_node := Number n, seen_ids := insert (id_NodeID g) (seen_ids st)\<rparr>"
  have name: "chain_name ?p = Chain n" using assms(2) by simp
  have chain: "check_node_chain ?p = Inr ()"
    using assms(2) l1_chain_names [of "Chain n"]
    by (auto simp: check_node_chain_def entry_of_def node_ok_def)
  have proof_of: "id_Proof g = (if Role n = RoleValidator then Some (pop_of (fresh (id_Directory g))) else None)"
    and gname: "id_Name g = identity_name (next_index st)"
    using assms(1) by (auto simp: made_from_def)
  have role: "check_public_role env ?st ?p = Inr (node_step st (n, g))"
  proof (cases "Role n = RoleValidator")
    case True
    have "check_validator_weight (ladder_index st) ?p =
        Inr (if Chain n \<noteq> oracle_chain \<and> Weight n = 0 then bump (ladder_index st) (Chain n) else ladder_index st)"
      using True assms(7) name
      by (auto simp: check_validator_weight_def entry_of_def ladder_weight_def Let_def word_gt_0)
    moreover have "check_signer env (pn_Identity ?p) (pn_Signer ?p) = Inr ()"
      using True proof_of assms(6) by (simp add: check_signer_def entry_of_def)
    ultimately show ?thesis using True name
      by (simp add: check_public_role_def node_step_def entry_of_def)
  next
    case False
    with assms(2) have "Role n = RolePChain \<or> Role n = RoleRPC \<or> Role n = RoleArchive" "Weight n = 0"
      by (auto simp: node_ok_def)
    moreover have "pn_Role ?p = Role n" "pn_Signer ?p = None"
      and "Weight n = 0 \<Longrightarrow> pn_Weight ?p = 0 \<and> \<not> pn_ExplicitWeight ?p"
      using False proof_of by (simp_all add: entry_of_def)
    ultimately show ?thesis using False name
      by (elim disjE) (simp_all add: check_public_role_def node_step_def)
  qed
  show ?thesis
    using assms(3-5) chain role gname
    by (simp add: check_public_node_def check_id_def entry_of_def)
qed

fun made_all :: "(path \<Rightarrow> 'pop key_material) \<Rightarrow> nat \<Rightarrow> node list \<Rightarrow> ('id, 'pop) identity list \<Rightarrow> bool" where
  "made_all fresh i [] [] \<longleftrightarrow> True"
| "made_all fresh i (n # ns) (g # gs) \<longleftrightarrow> made_from fresh i n g \<and> made_all fresh (Suc i) ns gs"
| "made_all fresh i _ _ \<longleftrightarrow> False"

lemma made_all_nth:
  "length gs = length ns \<Longrightarrow> (\<And>j. j < length ns \<Longrightarrow> made_from fresh (i + j) (ns ! j) (gs ! j)) \<Longrightarrow>
   made_all fresh i ns gs"
proof (induction ns gs arbitrary: i rule: list_induct2')
  case (4 n ns g gs)
  have "made_all fresh (Suc i) ns gs"
    by (rule "4.IH") (use "4.prems" "4.prems"(2) [of "Suc _"] in auto)
  with "4.prems"(2) [of 0] show ?case by simp
qed auto

lemma check_entries:
  assumes "made_all fresh (next_index st) ns gs" "\<forall>n \<in> set ns. node_ok n"
    and "sorted_wrt (<) (previous_node st # map Number ns)"
    and "\<forall>g \<in> set gs. id_parse env (id_string env (id_NodeID g)) = Some (id_NodeID g)"
    and "distinct (map id_NodeID gs)" "\<forall>g \<in> set gs. id_NodeID g \<notin> seen_ids st"
    and "\<forall>g \<in> set gs. \<forall>pop. id_Proof g = Some pop \<longrightarrow> pop_verify env pop"
    and "\<forall>n \<in> set ns. Role n = RoleValidator \<longrightarrow> Weight n = 0 \<longrightarrow>
      Chain n \<in> defaulted"
    and "\<forall>n \<in> set ns. Role n = RoleValidator \<longrightarrow> Chain n \<in> defaulted \<longrightarrow> Weight n = 0"
    and "\<forall>c \<in> defaulted. read_nat index c = read_nat (ladder_index st) c"
  shows "each (check_public_node env) st (entries env index ns gs) = Inr (foldl node_step st (zip ns gs))"
  using assms
proof (induction ns arbitrary: st gs index)
  case (Cons n ns)
  from Cons.prems(1) obtain g gs' where gs: "gs = g # gs'"
    by (cases gs) auto
  have first: "check_public_node env st (entry_of env index n g) = Inr (node_step st (n, g))"
    using Cons.prems gs by (intro check_entry [where fresh = fresh]) auto
  have "each (check_public_node env) (node_step st (n, g)) (entries env (next_ladder index n) ns gs') =
      Inr (foldl node_step (node_step st (n, g)) (zip ns gs'))"
  proof (rule Cons.IH)
    show "made_all fresh (next_index (node_step st (n, g))) ns gs'"
      "sorted_wrt (<) (previous_node (node_step st (n, g)) # map Number ns)"
      using Cons.prems(1,3) gs by (simp_all add: node_step_def)
    show "\<forall>h \<in> set gs'. id_NodeID h \<notin> seen_ids (node_step st (n, g))"
    proof
      fix h assume h: "h \<in> set gs'"
      then have "id_NodeID h \<in> id_NodeID ` set gs'" by simp
      with Cons.prems(5) gs have "id_NodeID h \<noteq> id_NodeID g" by auto
      with h Cons.prems(6) gs show "id_NodeID h \<notin> seen_ids (node_step st (n, g))"
        by (simp add: node_step_def)
    qed
    show "\<forall>c \<in> defaulted. read_nat (next_ladder index n) c = read_nat (ladder_index (node_step st (n, g))) c"
      using Cons.prems(9,10) by (auto simp: node_step_def next_ladder_def)
  qed (use Cons.prems gs in simp_all)
  with first show ?case by (simp add: gs)
qed simp


lemma foldl_node_step:
  assumes "length gs = length ns"
  shows "seen_ids (foldl node_step st (zip ns gs)) = seen_ids st \<union> id_NodeID ` set gs"
    and "pchain_count (foldl node_step st (zip ns gs)) =
      pchain_count st + length (filter (\<lambda>n. Role n = RolePChain) ns)"
    and "read_nat (validators_by_chain (foldl node_step st (zip ns gs))) c =
      read_nat (validators_by_chain st) c + role_count ns c RoleValidator"
    and "read_nat (rpcs_by_chain (foldl node_step st (zip ns gs))) c =
      read_nat (rpcs_by_chain st) c + role_count ns c RoleRPC"
  using assms
  by (induction ns gs arbitrary: st rule: list_induct2')
     (auto simp: node_step_def role_count_def)

lemma entries_chain_names:
  "length gs = length ns \<Longrightarrow> \<forall>n \<in> set ns. node_ok n \<Longrightarrow>
   map chain_name (entries env index ns gs) = map Chain ns"
  by (induction ns gs arbitrary: index rule: list_induct2') auto

lemma entries_from:
  "pn \<in> set (entries env index ns gs) \<Longrightarrow> \<forall>n \<in> set ns. node_ok n \<Longrightarrow>
   \<exists>n \<in> set ns. pn_Role pn = Role n \<and> chain_name pn = Chain n \<and> pn_ExplicitWeight pn = (Weight n > 0)"
proof (induction ns gs arbitrary: index rule: list_induct2')
  case (4 n ns g gs)
  have "pn_Role (entry_of env index n g) = Role n"
    "pn_ExplicitWeight (entry_of env index n g) = (Weight n > 0)" by (simp_all add: entry_of_def)
  with 4 show ?case by fastforce
qed auto

lemma explicit_weights_of:
  assumes "distinct (map Number nodes)" "n \<in> set nodes"
  shows "explicit_weights nodes (Number n) = (if Weight n > 0 then Some (Weight n) else None)"
proof (cases "Weight n > 0")
  case True
  have "distinct (map Number (filter (\<lambda>n. Weight n > 0) nodes))"
    using assms(1) by (simp add: distinct_map_filter)
  from index_by_lookup [OF this, of n Weight] True assms(2) show ?thesis
    by (simp add: explicit_weights_def)
next
  case False
  then have "Number n \<notin> Number ` set (filter (\<lambda>n. Weight n > 0) nodes)"
    using assms by (auto simp: distinct_map inj_on_def)
  with False show ?thesis by (simp add: explicit_weights_def index_by_None)
qed

lemma check_managers:
  assumes "map id_Name gs = map identity_name [i..<i + length gs]"
    and "\<forall>g \<in> set gs. id_parse env (id_string env (id_NodeID g)) = Some (id_NodeID g)"
    and "distinct (map id_NodeID gs)" "\<forall>g \<in> set gs. id_NodeID g \<notin> seen"
    and "\<forall>g \<in> set gs. \<exists>pop. id_Proof g = Some pop \<and> pop_verify env pop"
  shows "\<exists>v. each (check_public_manager env) (i, seen) (map (public_of_manager env) gs) = Inr v"
  using assms
proof (induction gs arbitrary: i seen)
  case (Cons g gs)
  from Cons.prems(1) have name: "id_Name g = identity_name i"
    and rest: "map id_Name gs = map identity_name [Suc i..<Suc i + length gs]"
    by (simp_all add: upt_conv_Cons del: upt_Suc)
  have "check_public_manager env (i, seen) (public_of_manager env g) = Inr (Suc i, insert (id_NodeID g) seen)"
    using Cons.prems name
    by (auto simp: check_public_manager_def public_of_manager_def check_id_def check_signer_def)
  moreover have "\<exists>v. each (check_public_manager env) (Suc i, insert (id_NodeID g) seen)
      (map (public_of_manager env) gs) = Inr v"
  proof (rule Cons.IH [OF rest])
    show "\<forall>h \<in> set gs. id_NodeID h \<notin> insert (id_NodeID g) seen"
    proof
      fix h assume h: "h \<in> set gs"
      then have "id_NodeID h \<in> id_NodeID ` set gs" by simp
      with Cons.prems(3) have "id_NodeID h \<noteq> id_NodeID g" by auto
      with Cons.prems(4) h show "id_NodeID h \<notin> insert (id_NodeID g) seen" by simp
    qed
  qed (use Cons.prems in simp_all)
  ultimately show ?case by simp
qed simp

lemma each_unit_ok: "(\<And>x. x \<in> set xs \<Longrightarrow> f () x = Inr ()) \<Longrightarrow> each f () xs = Inr ()"
  by (induction xs) auto

definition keys_ok :: "('id, 'pop) platform \<Rightarrow> ('id, 'pop) identity_set \<Rightarrow> bool" where
  "keys_ok env s \<longleftrightarrow> distinct (map id_NodeID (set_Nodes s @ set_Manager s)) \<and>
    (\<forall>g \<in> set (set_Nodes s @ set_Manager s).
      id_parse env (id_string env (id_NodeID g)) = Some (id_NodeID g) \<and>
      (\<forall>pop. id_Proof g = Some pop \<longrightarrow> pop_verify env pop))"

lemma inventory_ok_defaulted:
  assumes "inventory_ok nodes" "n \<in> set nodes" "Role n = RoleValidator"
  shows "Weight n = 0 \<longleftrightarrow> weight_numbers True nodes (Chain n) = []"
proof -
  from assms have "Chain n \<noteq> []" by (auto simp: inventory_ok_def list_all_iff node_ok_def)
  with assms have "chain_ok nodes (Chain n)" by (auto simp: inventory_ok_def set_chains_of)
  then consider "weight_numbers True nodes (Chain n) = []" | "weight_numbers False nodes (Chain n) = []"
    by (auto simp: chain_ok_def)
  then show ?thesis
    using assms(2,3) by cases (auto simp: weight_numbers_def filter_empty_conv word_gt_0)
qed


lemma new_public_nodes:
  assumes "inventory_ok nodes" "generate cert_id fresh fs root nodes k = Inr (fs', s)" "closed_fs fs"
  shows "Nodes (new_public env s nodes genesis feeder) = entries env Map.empty nodes (set_Nodes s)"
    and "public_chains (new_public env s nodes genesis feeder) = chains_of nodes"
proof -
  note made = generate_result [OF assms(2,3)]
  have ok: "\<forall>n \<in> set nodes. node_ok n" and "sorted_wrt (<) (map Number nodes)"
    using assms(1) by (simp_all add: inventory_ok_def list_all_iff)
  then have "distinct (map Number nodes)" by (simp add: strict_sorted_iff)
  note ex = explicit_weights_of [OF this]
  have "list_all2 (\<lambda>n g. \<exists>i. made_from fresh i n g) nodes (set_Nodes s)"
    using made(1,2) by (auto simp: list_all2_conv_all_nth)
  from foldl_entries [OF this ok, of "explicit_weights nodes" env Map.empty "[]"] ex
  show "Nodes (new_public env s nodes genesis feeder) = entries env Map.empty nodes (set_Nodes s)"
    by (simp add: new_public_def)
  with entries_chain_names [OF made(1) ok]
  show "public_chains (new_public env s nodes genesis feeder) = chains_of nodes"
    by (simp add: public_chains_def chains_of_def)
qed

lemma new_public_weights:
  assumes "inventory_ok nodes" "generate cert_id fresh fs root nodes k = Inr (fs', s)" "closed_fs fs"
  shows "public_weight_consistency (new_public env s nodes genesis feeder) = Inr ()"
  unfolding public_weight_consistency_def new_public_nodes(2) [OF assms]
proof (rule each_unit_ok)
  let ?p = "new_public env s nodes genesis feeder"
  have ok: "\<forall>n \<in> set nodes. node_ok n" using assms(1) by (simp add: inventory_ok_def list_all_iff)
  fix c assume "c \<in> set (chains_of nodes)"
  then have c: "weight_numbers True nodes c = [] \<or> weight_numbers False nodes c = []"
    using assms(1) by (auto simp: inventory_ok_def chain_ok_def)
  have "weight_identities b ?p c = []" if "weight_numbers b nodes c = []" for b
    using that entries_from [OF _ ok]
    by (fastforce simp: weight_identities_def weight_numbers_def new_public_nodes(1) [OF assms]
        filter_empty_conv)
  with c show "check_public_weights ?p () c = Inr ()" by (auto simp: check_public_weights_def Let_def)
qed

lemma new_public_check_nodes:
  assumes "inventory_ok nodes" "generate cert_id fresh fs root nodes k = Inr (fs', s)" "closed_fs fs"
    and "keys_ok env s"
  shows "each (check_public_node env) check_start (Nodes (new_public env s nodes genesis feeder)) =
    Inr (foldl node_step check_start (zip nodes (set_Nodes s)))"
  unfolding new_public_nodes(1) [OF assms(1-3)]
proof (rule check_entries [where defaulted = "{c. weight_numbers True nodes c = []}"])
  note made = generate_result [OF assms(2,3)]
  show "made_all fresh (next_index check_start) nodes (set_Nodes s)"
    using made(1,2) by (intro made_all_nth) (simp_all add: check_start_def)
qed (use assms(1,4) inventory_ok_defaulted [OF assms(1)] in
   \<open>auto simp: check_start_def keys_ok_def inventory_ok_def list_all_iff node_ok_def\<close>)

lemma new_public_managers:
  assumes "generate cert_id fresh fs root nodes k = Inr (fs', s)" "closed_fs fs" "keys_ok env s"
  shows "length (Managers (new_public env s nodes genesis feeder)) = k"
    and "\<exists>v. each (check_public_manager env) (0, id_NodeID ` set (set_Nodes s))
      (Managers (new_public env s nodes genesis feeder)) = Inr v"
proof -
  note made = generate_result [OF assms(1,2)]
  have len: "length (set_Manager s) = k" using arg_cong [OF made(3), of length] by simp
  then show "length (Managers (new_public env s nodes genesis feeder)) = k"
    by (simp add: new_public_def)
  have mk: "\<forall>g \<in> set (set_Manager s). \<exists>pop. id_Proof g = Some pop \<and> pop_verify env pop"
  proof
    fix g assume g: "g \<in> set (set_Manager s)"
    with assms(3) have "\<forall>pop. id_Proof g = Some pop \<longrightarrow> pop_verify env pop"
      unfolding keys_ok_def by auto
    with made(4) [OF g] show "\<exists>pop. id_Proof g = Some pop \<and> pop_verify env pop" by simp
  qed
  show "\<exists>v. each (check_public_manager env) (0, id_NodeID ` set (set_Nodes s))
      (Managers (new_public env s nodes genesis feeder)) = Inr v"
    unfolding new_public_def public.simps
    by (rule check_managers [OF _ _ _ _ mk]) (use made(3) assms(3) len in \<open>auto simp: keys_ok_def\<close>)
qed

text \<open>The manifest that key generation derives from a loadable inventory passes the check
  that every reader of the manifest applies: identities in order, the weight ladder or the
  explicit weights recomputed, signers on validators only, one P-chain node, a validator on
  each chain, an rpc node on the oracle chain and a committee of one or four.\<close>

lemma new_public_validates:
  assumes inv: "inventory_ok nodes"
    and gen: "generate cert_id fresh fs root nodes k = Inr (fs', s)" "closed_fs fs"
    and keys: "keys_ok env s" and k: "k = 1 \<or> k = 4"
    and addr: "is_hex_address env genesis" "is_hex_address env feeder"
  shows "validate_public env (new_public env s nodes genesis feeder) = Inr ()"
proof -
  let ?p = "new_public env s nodes genesis feeder"
  note made = generate_result [OF gen] and nds = new_public_nodes [OF inv gen]
  define st where "st = foldl node_step (check_start :: 'a check_state) (zip nodes (set_Nodes s))"
  note counts = foldl_node_step [OF made(1), of check_start, folded st_def]
  have cov: "chain_ok nodes c" if "c \<in> set (chains_of nodes)" for c
    using inv that by (simp add: inventory_ok_def)
  have v: "read_nat (validators_by_chain st) c = role_count nodes c RoleValidator"
    and r: "read_nat (rpcs_by_chain st) c = role_count nodes c RoleRPC" for c
    using counts(3,4) [of c] by (simp_all add: check_start_def)
  have seen: "seen_ids st = id_NodeID ` set (set_Nodes s)" and pc: "pchain_count st = 1"
    using counts(1,2) inv by (simp_all add: check_start_def inventory_ok_def)
  have hasv: "each (check_has_validator (validators_by_chain st)) () (public_chains ?p) = Inr ()"
    unfolding nds(2)
    by (rule each_unit_ok) (use cov v role_count_pos in \<open>fastforce simp: check_has_validator_def chain_ok_def\<close>)
  have orc: "\<not> (role_count nodes oracle_chain RoleValidator > 0 \<and> role_count nodes oracle_chain RoleRPC < 1)"
  proof
    assume a: "role_count nodes oracle_chain RoleValidator > 0 \<and> role_count nodes oracle_chain RoleRPC < 1"
    then have "oracle_chain \<in> set (chains_of nodes)"
      using role_count_pos [of nodes oracle_chain RoleValidator]
      by (auto simp: set_chains_of intro: rev_image_eqI)
    from cov [OF this] a role_count_pos [of nodes oracle_chain RoleRPC] show False
      by (auto simp: chain_ok_def)
  qed
  have "Nodes ?p \<noteq> []" using inv made(1) unfolding nds(1)
    by (cases nodes; cases "set_Nodes s") (auto simp: inventory_ok_def)
  then show ?thesis
    using addr new_public_weights [OF inv gen, of env genesis feeder]
      new_public_check_nodes [OF inv gen keys, of genesis feeder, folded st_def]
      new_public_managers [OF gen keys, of genesis feeder] pc hasv orc k v r seen
    by (auto simp: validate_public_def) (simp_all add: new_public_def)
qed

section \<open>What a checked manifest is\<close>

definition public_node_ok :: "('id, 'pop) platform \<Rightarrow> 'pop public_node \<Rightarrow> bool" where
  "public_node_ok env n \<longleftrightarrow> id_parse env (pn_NodeID n) \<noteq> None \<and>
    (pn_Role n = RolePChain \<and> chain_name n = [] \<and> pn_Weight n = 0 \<and> pn_Signer n = None \<or>
     (pn_Role n = RoleRPC \<or> pn_Role n = RoleArchive) \<and> valid_chain_name (chain_name n) \<and>
       chain_name n \<noteq> ''management'' \<and> pn_Weight n = 0 \<and> pn_Signer n = None \<or>
     pn_Role n = RoleValidator \<and> valid_chain_name (chain_name n) \<and> chain_name n \<noteq> ''management'' \<and>
       pn_Weight n > 0 \<and> (\<exists>pop. pn_Signer n = Some pop \<and> pop_verify env pop))"

definition manifest_ok :: "('id, 'pop) platform \<Rightarrow> 'pop public \<Rightarrow> bool" where
  "manifest_ok env p \<longleftrightarrow>
    map pn_Identity (Nodes p) = map identity_name [0..<length (Nodes p)] \<and>
    sorted_wrt (<) (0 # map pn_Node (Nodes p)) \<and>
    (\<forall>n \<in> set (Nodes p). public_node_ok env n) \<and>
    map pm_Identity (Managers p) = map identity_name [0..<length (Managers p)] \<and>
    (\<forall>m \<in> set (Managers p). id_parse env (pm_NodeID m) \<noteq> None \<and> pm_Weight m = manager_weight \<and>
       (\<exists>pop. pm_Signer m = Some pop \<and> pop_verify env pop)) \<and>
    distinct (map (id_parse env) (map pn_NodeID (Nodes p) @ map pm_NodeID (Managers p))) \<and>
    (length (Managers p) = 1 \<or> length (Managers p) = 4)"

lemma check_id_ok:
  "check_id env seen name text = Inr i \<Longrightarrow> id_parse env text = Some i \<and> i \<notin> seen"
  by (auto simp: check_id_def split: option.splits if_splits)

lemma check_signer_ok: "check_signer env name s = Inr u \<Longrightarrow> \<exists>pop. s = Some pop \<and> pop_verify env pop"
  by (auto simp: check_signer_def split: option.splits if_splits)

lemma check_validator_weight_ok: "check_validator_weight ladder n = Inr l \<Longrightarrow> pn_Weight n > 0"
  by (auto simp: check_validator_weight_def Let_def ladder_weight_def oracle_weight_def
      high_weight_def low_weight_def word_gt_0 split: if_splits)

lemma default_chain_valid:
  "r \<noteq> RolePChain \<Longrightarrow> valid_chain_name (effective_chain r []) \<and> effective_chain r [] \<noteq> ''management''"
  using oracle_l1_chain main_l1_chain
  by (cases r) (simp_all add: effective_chain_def l1_chain_def)

lemma check_node_chain_ok:
  "check_node_chain n = Inr u \<Longrightarrow>
   (if pn_Role n = RolePChain then chain_name n = []
    else valid_chain_name (chain_name n) \<and> chain_name n \<noteq> ''management'')"
  using default_chain_valid [of "pn_Role n"]
  by (auto simp: check_node_chain_def chain_name_def effective_chain_def split: if_splits)

lemma check_public_role_frame:
  "check_public_role env st n = Inr st' \<Longrightarrow>
   next_index st' = next_index st \<and> seen_ids st' = seen_ids st \<and> previous_node st' = previous_node st"
  by (auto simp: check_public_role_def split: role.splits if_splits)

lemma check_public_role_ok:
  assumes "check_public_role env st n = Inr st'" "check_node_chain n = Inr u" "id_parse env (pn_NodeID n) = Some i"
  shows "public_node_ok env n"
proof (cases "pn_Role n = RoleValidator")
  case True
  with assms(1) obtain l where "check_validator_weight (ladder_index st) n = Inr l"
    "check_signer env (pn_Identity n) (pn_Signer n) = Inr ()" by (auto simp: check_public_role_def)
  with True check_node_chain_ok [OF assms(2)] assms(3) show ?thesis
    by (auto simp: public_node_ok_def dest: check_signer_ok check_validator_weight_ok)
next
  case False
  with assms(1) have "pn_Role n = RolePChain \<or> pn_Role n = RoleRPC \<or> pn_Role n = RoleArchive"
    "pn_Weight n = 0" "pn_Signer n = None"
    by (auto simp: check_public_role_def split: role.splits if_splits)
  with check_node_chain_ok [OF assms(2)] assms(3) show ?thesis
    by (auto simp: public_node_ok_def)
qed

lemma check_public_node_ok:
  assumes "check_public_node env st n = Inr st'"
  shows "pn_Identity n = identity_name (next_index st) \<and> previous_node st < pn_Node n \<and>
    public_node_ok env n \<and> next_index st' = Suc (next_index st) \<and> previous_node st' = pn_Node n \<and>
    (\<exists>i. id_parse env (pn_NodeID n) = Some i \<and> i \<notin> seen_ids st \<and> seen_ids st' = insert i (seen_ids st))"
proof -
  from assms obtain i where a: "pn_Identity n = identity_name (next_index st)" "previous_node st < pn_Node n"
    "check_id env (seen_ids st) (pn_Identity n) (pn_NodeID n) = Inr i" "check_node_chain n = Inr ()"
    "check_public_role env (st\<lparr>next_index := next_index st + 1, previous_node := pn_Node n,
       seen_ids := insert i (seen_ids st)\<rparr>) n = Inr st'"
    by (auto simp: check_public_node_def Let_def split: if_splits)
  from check_id_ok [OF a(3)] check_public_role_frame [OF a(5)] check_public_role_ok [OF a(5,4)] a(1,2)
  show ?thesis by simp
qed

lemma check_nodes_ok:
  assumes "each (check_public_node env) st ns = Inr st'"
  shows "map pn_Identity ns = map identity_name [next_index st..<next_index st + length ns] \<and>
    sorted_wrt (<) (previous_node st # map pn_Node ns) \<and> (\<forall>n \<in> set ns. public_node_ok env n) \<and>
    distinct (map (id_parse env) (map pn_NodeID ns)) \<and>
    Some ` seen_ids st' = Some ` seen_ids st \<union> set (map (id_parse env) (map pn_NodeID ns)) \<and>
    Some ` seen_ids st \<inter> set (map (id_parse env) (map pn_NodeID ns)) = {}"
  using assms
proof (induction ns arbitrary: st)
  case (Cons n ns)
  then obtain s where s: "check_public_node env st n = Inr s"
    and rest: "each (check_public_node env) s ns = Inr st'" by auto
  from check_public_node_ok [OF s] obtain i where i: "id_parse env (pn_NodeID n) = Some i"
    "i \<notin> seen_ids st" "seen_ids s = insert i (seen_ids st)" by blast
  from Cons.IH [OF rest] check_public_node_ok [OF s] i show ?case
    by (auto simp: upt_conv_Cons simp del: upt_Suc)
qed simp


lemma check_public_manager_ok:
  assumes "check_public_manager env (i, seen) m = Inr (j, seen')"
  shows "j = Suc i \<and> pm_Identity m = identity_name i \<and> pm_Weight m = manager_weight \<and>
    (\<exists>pop. pm_Signer m = Some pop \<and> pop_verify env pop) \<and>
    (\<exists>x. id_parse env (pm_NodeID m) = Some x \<and> x \<notin> seen \<and> seen' = insert x seen)"
proof -
  from assms obtain x where "check_id env seen (pm_Identity m) (pm_NodeID m) = Inr x"
    "check_signer env (pm_Identity m) (pm_Signer m) = Inr ()"
    and rest: "j = Suc i" "pm_Identity m = identity_name i" "pm_Weight m = manager_weight" "seen' = insert x seen"
    by (auto simp: check_public_manager_def Let_def split: if_splits)
  from check_id_ok [OF this(1)] check_signer_ok [OF this(2)] rest show ?thesis by blast
qed

lemma check_public_managers_ok:
  assumes "each (check_public_manager env) (i, seen) ms = Inr v"
  shows "map pm_Identity ms = map identity_name [i..<i + length ms] \<and>
    (\<forall>m \<in> set ms. id_parse env (pm_NodeID m) \<noteq> None \<and> pm_Weight m = manager_weight \<and>
       (\<exists>pop. pm_Signer m = Some pop \<and> pop_verify env pop)) \<and>
    distinct (map (id_parse env) (map pm_NodeID ms)) \<and>
    Some ` seen \<inter> set (map (id_parse env) (map pm_NodeID ms)) = {}"
  using assms
proof (induction ms arbitrary: i seen)
  case (Cons m ms)
  then obtain w where w: "check_public_manager env (i, seen) m = Inr w"
    and rest: "each (check_public_manager env) w ms = Inr v" by auto
  obtain j s' where "w = (j, s')" by fastforce
  with w check_public_manager_ok [of env i seen m j s'] obtain x where
    "w = (Suc i, insert x seen)" "id_parse env (pm_NodeID m) = Some x" "x \<notin> seen"
    "pm_Identity m = identity_name i" "pm_Weight m = manager_weight"
    "\<exists>pop. pm_Signer m = Some pop \<and> pop_verify env pop" by blast
  with Cons.IH [of "Suc i" "insert x seen"] rest show ?case
    by (auto simp: upt_conv_Cons simp del: upt_Suc)
qed simp

text \<open>A manifest that passes the check names its nodes and managers a, b, c, ... in order, has
  strictly increasing positive node numbers, platform node IDs that are pairwise distinct
  across nodes and managers, one of the four roles per node with the weight, signer and
  chain that role admits, and one or four managers of the fixed weight.\<close>

lemma validate_public_sound:
  assumes "validate_public env p = Inr ()"
  shows "manifest_ok env p"
proof -
  from assms obtain st v where nodes: "each (check_public_node env) check_start (Nodes p) = Inr st"
    and mgrs: "each (check_public_manager env) (0, seen_ids st) (Managers p) = Inr v"
    and len: "length (Managers p) = 1 \<or> length (Managers p) = 4"
    by (auto simp: validate_public_def split: if_splits)
  note a = check_nodes_ok [OF nodes] and b = check_public_managers_ok [OF mgrs]
  have "Some ` seen_ids st = set (map (id_parse env) (map pn_NodeID (Nodes p)))"
    using a by (simp add: check_start_def)
  with a b len show ?thesis by (simp add: manifest_ok_def check_start_def)
qed

lemma rmap_ok: "(\<And>x. x \<in> set xs \<Longrightarrow> \<exists>y. f x = Inr y) \<Longrightarrow> \<exists>ys. rmap f xs = Inr ys"
proof (induction xs)
  case (Cons x xs)
  then obtain y ys where "f x = Inr y" "rmap f xs = Inr ys" by fastforce
  then show ?case by simp
qed simp

lemma public_identity_ok:
  "public_identity env n = Inr g \<longleftrightarrow> id_parse env (pn_NodeID n) = Some (id_NodeID g) \<and>
   g = \<lparr>id_Name = pn_Identity n, id_NodeNumber = pn_Node n, id_Role = pn_Role n,
        id_Chain = chain_name n, id_Directory = [], id_NodeID = id_NodeID g, id_Proof = pn_Signer n\<rparr>"
  by (auto simp: public_identity_def split: option.splits)

lemma public_identities:
  assumes "rmap (public_identity env) ns = Inr gs"
  shows "map id_Name gs = map pn_Identity ns" "map (Some \<circ> id_NodeID) gs = map (id_parse env) (map pn_NodeID ns)"
    "map id_NodeNumber gs = map pn_Node ns" "map id_Chain gs = map chain_name ns"
    "map id_Role gs = map pn_Role ns" "map id_Proof gs = map pn_Signer ns"
proof -
  have "list_all2 (\<lambda>n g. public_identity env n = Inr g) ns gs" using assms by (simp add: rmap_Inr_iff)
  then have "list_all2 (\<lambda>n g. id_Name g = pn_Identity n \<and> Some (id_NodeID g) = id_parse env (pn_NodeID n)
      \<and> id_NodeNumber g = pn_Node n \<and> id_Chain g = chain_name n \<and> id_Role g = pn_Role n
      \<and> id_Proof g = pn_Signer n) ns gs"
    by (rule list_all2_mono) (metis identity.simps public_identity_ok)
  then show "map id_Name gs = map pn_Identity ns" "map (Some \<circ> id_NodeID) gs = map (id_parse env) (map pn_NodeID ns)"
    "map id_NodeNumber gs = map pn_Node ns" "map id_Chain gs = map chain_name ns"
    "map id_Role gs = map pn_Role ns" "map id_Proof gs = map pn_Signer ns"
    by (induction rule: list_all2_induct) simp_all
qed

lemma manifest_identity_set:
  assumes "manifest_ok env p"
  shows "\<exists>s. public_identity_set env p = Inr s"
proof -
  have "\<exists>gs. rmap (public_identity env) (Nodes p) = Inr gs"
    by (rule rmap_ok) (use assms in \<open>auto simp: manifest_ok_def public_node_ok_def public_identity_def\<close>)
  moreover have "\<exists>gs. rmap (manager_identity env) (Managers p) = Inr gs"
    by (rule rmap_ok) (use assms in \<open>auto simp: manifest_ok_def manager_identity_def\<close>)
  ultimately show ?thesis by (auto simp: public_identity_set_def)
qed

text \<open>Normalising does nothing to a manifest that already passes.\<close>

lemma normalize_checked: "public_node_ok env n \<Longrightarrow> normalize_node n = n"
  by (auto simp: public_node_ok_def normalize_node_def)

text \<open>writing a manifest that passes the check and loading it back yields the same manifest,
  for every encoding that the strict decoder inverts; and whatever a load returns passes the
  check and carries none of the legacy oracle roles.\<close>

theorem load_public_roundtrip:
  assumes "validate_public env p = Inr ()" "decode (encode p) = Some p"
  shows "load_public env decode (encode p) = Inr p \<and>
    (\<forall>contents q. load_public env decode contents = Inr q \<longrightarrow> manifest_ok env q \<and>
      (\<forall>n \<in> set (Nodes q). pn_Role n \<noteq> RoleOracleValidator \<and> pn_Role n \<noteq> RoleOracleRPC))"
proof
  have "\<forall>n \<in> set (Nodes p). public_node_ok env n"
    using validate_public_sound [OF assms(1)] by (simp add: manifest_ok_def)
  then have "map normalize_node (Nodes p) = Nodes p" by (intro map_idI) (metis normalize_checked)
  then show "load_public env decode (encode p) = Inr p" using assms by (simp add: load_public_def)
  show "\<forall>contents q. load_public env decode contents = Inr q \<longrightarrow> manifest_ok env q \<and>
      (\<forall>n \<in> set (Nodes q). pn_Role n \<noteq> RoleOracleValidator \<and> pn_Role n \<noteq> RoleOracleRPC)"
  proof (intro allI impI)
    fix contents q assume "load_public env decode contents = Inr q"
    then have "manifest_ok env q"
      by (auto simp: load_public_def Let_def split: option.splits dest: validate_public_sound)
    then show "manifest_ok env q \<and>
      (\<forall>n \<in> set (Nodes q). pn_Role n \<noteq> RoleOracleValidator \<and> pn_Role n \<noteq> RoleOracleRPC)"
      by (auto simp: manifest_ok_def public_node_ok_def)
  qed
qed


section \<open>Generated keys\<close>

text \<open>What the key libraries promise of the material made for an output directory: every
  certificate is readable, different directories get different node IDs, node ID text is read
  back, and a proof of possession verifies.\<close>

definition key_dirs :: "path \<Rightarrow> path set" where
  "key_dirs root = {root @ [a, identity_name i] | a i. a \<in> {''identities'', ''manager''}}"

definition key_library :: "('id, 'pop) platform \<Rightarrow> (string \<Rightarrow> 'id option) \<Rightarrow> (path \<Rightarrow> 'pop key_material) \<Rightarrow> path \<Rightarrow> bool" where
  "key_library env cert_id fresh root \<longleftrightarrow>
    (\<forall>d. cert_id (cert_pem (fresh d)) \<noteq> None) \<and>
    inj_on (\<lambda>d. cert_id (cert_pem (fresh d))) (key_dirs root) \<and>
    (\<forall>i. id_parse env (id_string env i) = Some i) \<and> (\<forall>d. pop_verify env (pop_of (fresh d)))"

lemma distinct_via:
  assumes "distinct (map f xs)" "\<And>x y. x \<in> set xs \<Longrightarrow> y \<in> set xs \<Longrightarrow> g x = g y \<Longrightarrow> f x = f y"
  shows "distinct (map g xs)"
  using assms unfolding distinct_map inj_on_def by blast

lemma generated_names:
  assumes "generate cert_id fresh fs root nodes k = Inr (fs', s)" "closed_fs fs"
  shows "map id_Name (set_Nodes s) = map identity_name [0..<length nodes]"
  using generate_result(1,2) [OF assms]
  by (intro nth_equalityI) (auto simp: made_from_def)

lemma generated_keys_ok:
  assumes gen: "generate cert_id fresh fs root nodes k = Inr (fs', s)" "closed_fs fs"
    and lib: "key_library env cert_id fresh root" and size: "length nodes \<le> max_int" "k \<le> max_int"
  shows "keys_ok env s"
proof -
  note r = generate_result [OF gen]
  let ?all = "set_Nodes s @ set_Manager s"
  have ndirs: "map id_Directory (set_Nodes s) = map (\<lambda>x. root @ [''identities'', x]) (map id_Name (set_Nodes s))"
    and mdirs: "map id_Directory (set_Manager s) = map (\<lambda>x. root @ [''manager'', x]) (map id_Name (set_Manager s))"
    using r(6,7) by (auto simp: made_in_def)
  have dist: "distinct (map id_Directory ?all)"
  proof -
    have "distinct (map id_Directory (set_Nodes s))" "distinct (map id_Directory (set_Manager s))"
      unfolding ndirs mdirs generated_names [OF gen] r(3)
      using letters.names_distinct size by (simp_all add: distinct_map inj_on_def)
    moreover have "set (map id_Directory (set_Nodes s)) \<inter> set (map id_Directory (set_Manager s)) = {}"
      unfolding ndirs mdirs by auto
    ultimately show ?thesis by simp
  qed
  have dirs: "id_Directory g \<in> key_dirs root" if "g \<in> set ?all" for g
  proof -
    from that have "id_Directory g \<in> set (map id_Directory (set_Nodes s)) \<union> set (map id_Directory (set_Manager s))"
      by auto
    then show ?thesis unfolding ndirs mdirs generated_names [OF gen] r(3) by (auto simp: key_dirs_def)
  qed
  have cert: "cert_id (cert_pem (fresh (id_Directory g))) = Some (id_NodeID g)" if "g \<in> set ?all" for g
    using that r(6,7) by (auto simp: made_in_def)
  have "distinct (map id_NodeID ?all)"
  proof (rule distinct_via [OF dist])
    fix x y assume "x \<in> set ?all" "y \<in> set ?all" "id_NodeID x = id_NodeID y"
    with cert dirs lib show "id_Directory x = id_Directory y"
      unfolding key_library_def inj_on_def by metis
  qed
  moreover have "pop_verify env pop" if "g \<in> set ?all" "id_Proof g = Some pop" for g pop
  proof -
    have "\<exists>d. pop = pop_of (fresh d)"
    proof (cases "g \<in> set (set_Manager s)")
      case True
      with that(2) r(4) show ?thesis by auto
    next
      case False
      with that(1) obtain i where "i < length nodes" "g = set_Nodes s ! i"
        using r(1) by (auto simp: in_set_conv_nth)
      with that(2) r(2) show ?thesis by (auto simp: made_from_def split: if_splits)
    qed
    with lib show ?thesis by (auto simp: key_library_def)
  qed
  ultimately show ?thesis using lib by (auto simp: keys_ok_def key_library_def)
qed

section \<open>An example deployment\<close>

text \<open>A platform whose node IDs are their own text, and key material derived from the directory.\<close>

definition sample_env :: "(string, string) platform" where
  "sample_env = \<lparr>id_string = (\<lambda>i. i), id_parse = Some,
     pop_verify = (\<lambda>p. p \<noteq> []), is_hex_address = (\<lambda>a. has_prefix a ''0x'')\<rparr>"

definition sample_keys :: "path \<Rightarrow> string key_material" where
  "sample_keys dir = \<lparr>cert_pem = concat (tl dir), key_pem = ''key'', signer_key = ''bls'', pop_of = ''pop''\<rparr>"

definition sample_fs :: file_system where
  "sample_fs = [[] \<mapsto> Dir, [''keys''] \<mapsto> Dir]"

lemma sample_fs_closed: "closed_fs sample_fs"
  by (auto simp: closed_fs_def sample_fs_def)

lemma sample_library: "key_library sample_env Some sample_keys [''keys'']"
proof -
  have "inj_on (\<lambda>d. Some (cert_pem (sample_keys d))) (key_dirs [''keys''])"
    by (auto simp: inj_on_def key_dirs_def sample_keys_def)
  then show ?thesis by (simp add: key_library_def sample_env_def sample_keys_def)
qed

lemma sample_generated:
  obtains fs' s where "generate Some sample_keys sample_fs [''keys''] sample_nodes 1 = Inr (fs', s)"
  using generate_total [of sample_fs "[''keys'']" sample_nodes 1 Some sample_keys] sample_fs_closed
  by (auto simp: sample_fs_def sample_nodes_def max_int_def)

lemma sample_inventory_ok: "inventory_ok sample_nodes"
  by (simp add: inventory_ok_def sample_nodes_def chains_of_def sort_chains_def node_ok_def chain_ok_def
      weight_numbers_def l1_chain_def config_eval)

lemma sample_validated:
  obtains p where "validate_public sample_env p = Inr ()"
proof -
  obtain fs' s where g: "generate Some sample_keys sample_fs [''keys''] sample_nodes 1 = Inr (fs', s)"
    by (rule sample_generated)
  have "keys_ok sample_env s"
    by (rule generated_keys_ok [OF g sample_fs_closed sample_library])
       (simp_all add: sample_nodes_def max_int_def)
  from new_public_validates [OF sample_inventory_ok g sample_fs_closed this, of "''0x1''" "''0x2''"]
  have "validate_public sample_env (new_public sample_env s sample_nodes ''0x1'' ''0x2'') = Inr ()"
    by (simp add: sample_env_def has_prefix_def)
  then show ?thesis by (rule that)
qed

theorem load_public_roundtrip_witness:
  "\<exists>p. load_public sample_env (\<lambda>_. Some p) [] = Inr p"
proof -
  obtain p where "validate_public sample_env p = Inr ()" by (rule sample_validated)
  from load_public_roundtrip [OF this, of "\<lambda>_. Some p" "\<lambda>_. []"] show ?thesis by blast
qed

text \<open>The example manifest written out.\<close>

definition sample_node :: "string \<Rightarrow> int \<Rightarrow> role \<Rightarrow> string \<Rightarrow> u64 \<Rightarrow> string public_node" where
  "sample_node l n r chain w = \<lparr>pn_Identity = l, pn_Node = n, pn_Role = r, pn_Chain = chain,
     pn_NodeID = ''node'' @ l, pn_Weight = w, pn_ExplicitWeight = False,
     pn_Signer = (if r = RoleValidator then Some ''pop'' else None)\<rparr>"

definition sample_manifest :: "string public" where
  "sample_manifest = \<lparr>GenesisAddress = ''0x1'', FeederAddress = ''0x2'',
     Nodes = [sample_node ''a'' 1 RolePChain [] 0, sample_node ''b'' 2 RoleValidator [] 100000,
       sample_node ''c'' 3 RoleRPC [] 0, sample_node ''d'' 4 RoleValidator ''oracle'' 1000,
       sample_node ''e'' 5 RoleRPC ''oracle'' 0, sample_node ''f'' 6 RoleValidator [] 100000],
     Managers = [\<lparr>pm_Identity = ''a'', pm_NodeID = ''manager'', pm_Weight = 1000, pm_Signer = Some ''pop''\<rparr>]\<rparr>"

lemma sample_names: "identity_name 0 = ''a''" "identity_name (Suc 0) = ''b''" "identity_name 2 = ''c''"
  "identity_name 3 = ''d''" "identity_name 4 = ''e''" "identity_name 5 = ''f''"
  by (simp_all add: identity_name_step letter_at_def char_of_eq_iff)

lemma sample_names_Suc: "identity_name (Suc (Suc 0)) = ''c''" "identity_name (Suc (Suc (Suc 0))) = ''d''"
  "identity_name (Suc (Suc (Suc (Suc 0)))) = ''e''" "identity_name (Suc (Suc (Suc (Suc (Suc 0))))) = ''f''"
  by (simp_all add: identity_name_step letter_at_def char_of_eq_iff)

lemma sample_manifest_ok: "manifest_ok sample_env sample_manifest"
  by (simp add: manifest_ok_def sample_manifest_def sample_node_def sample_names sample_names_Suc public_node_ok_def
      sample_env_def chain_name_def effective_chain_def valid_chain_name_def chain_name_char_def
      main_chain_def manager_weight_def go_eval)

lemma sample_manifest_loads: "load_public sample_env (\<lambda>_. Some sample_manifest) contents = Inr sample_manifest"
proof -
  have "validate_public sample_env sample_manifest = Inr ()"
    by (simp add: validate_public_def sample_manifest_def sample_env_def sample_node_def public_weight_consistency_def
        public_chains_def check_public_weights_def weight_identities_def check_public_node_def check_start_def
        check_id_def check_node_chain_def check_public_role_def check_validator_weight_def ladder_weight_def bump_def
        check_signer_def check_has_validator_def check_public_manager_def sample_names sample_names_Suc
        sort_chains_def chain_less_def chain_name_def effective_chain_def valid_chain_name_def chain_name_char_def
        main_chain_def oracle_chain_def oracle_weight_def high_weight_def low_weight_def high_validator_count_def
        manager_weight_def go_eval Let_def del: rbind_eq_Inr)
  moreover have "map normalize_node (Nodes sample_manifest) = Nodes sample_manifest"
    by (simp add: sample_manifest_def normalize_node_def sample_node_def)
  ultimately show ?thesis by (simp add: load_public_def)
qed

end
