(* ===== verification/Placement.thy ===== *)
theory Placement
  imports Manifest "HOL-Library.AList"
begin

text \<open>
  The machine-to-identity assignment, \<^verbatim>\<open>internal/placement/placement.go\<close>, and the key
  generation command that writes the first one, \<^verbatim>\<open>internal/keygen/keygen.go\<close>. A placement is a
  Go map from node numbers to letters; the association list is the order in which the map is
  iterated, which Go leaves open. \<open>placement_ok\<close> is what a validated placement is: an injection
  of the machines into the identities that keeps role and chain, and moves validators only.
\<close>

section \<open>Operations\<close>

type_synonym placement = "(int \<times> string) list"

datatype placement_error =
    PlacementUnreadable
  | PlacementEmpty
  | PlacementCount nat nat
  | NoIdentityFor int
  | UnknownIdentity string int
  | RoleMismatch role string role int
  | ChainMismatch string string int string
  | NotMovable string int
  | AssignedTwice string int int

definition default_placement :: "'pop public \<Rightarrow> placement" where
  "default_placement p = foldl (\<lambda>m n. AList.update (pn_Node n) (pn_Identity n) m) [] (Nodes p)"

definition load_placement :: "(string \<Rightarrow> placement option) \<Rightarrow> string option \<Rightarrow> placement_error + placement" where
  "load_placement decode read = (case read of None \<Rightarrow> Inl PlacementUnreadable
    | Some contents \<Rightarrow> (case decode contents of
        None \<Rightarrow> Inl PlacementUnreadable
      | Some p \<Rightarrow> if p = [] then Inl PlacementEmpty else Inr p))"

definition identity_roles :: "'pop public \<Rightarrow> string \<rightharpoonup> role" where
  "identity_roles p = index_by pn_Identity pn_Role (Nodes p)"

definition identity_homes :: "'pop public \<Rightarrow> string \<rightharpoonup> int" where
  "identity_homes p = index_by pn_Identity pn_Node (Nodes p)"

definition identity_chains :: "'pop public \<Rightarrow> string \<rightharpoonup> string" where
  "identity_chains p = index_by pn_Identity chain_name (Nodes p)"

definition home_of :: "'pop public \<Rightarrow> string \<Rightarrow> int" where
  "home_of p letter = (case identity_homes p letter of None \<Rightarrow> 0 | Some h \<Rightarrow> h)"

definition check_assignment ::
  "placement \<Rightarrow> 'pop public \<Rightarrow> (string \<rightharpoonup> int) \<Rightarrow> node \<Rightarrow> placement_error + (string \<rightharpoonup> int)" where
  "check_assignment pl p seen n = (case map_of pl (Number n) of
      None \<Rightarrow> Inl (NoIdentityFor (Number n))
    | Some letter \<Rightarrow> (case identity_roles p letter of
        None \<Rightarrow> Inl (UnknownIdentity letter (Number n))
      | Some r \<Rightarrow>
          if r \<noteq> Role n then Inl (RoleMismatch r letter (Role n) (Number n))
          else if read_str (identity_chains p) letter \<noteq> effective_chain (Role n) (Chain n)
            then Inl (ChainMismatch (read_str (identity_chains p) letter) letter (Number n)
                        (effective_chain (Role n) (Chain n)))
          else if r \<noteq> RoleValidator \<and> home_of p letter \<noteq> Number n then Inl (NotMovable letter (Number n))
          else case seen letter of
              Some previous \<Rightarrow> Inl (AssignedTwice letter previous (Number n))
            | None \<Rightarrow> Inr (seen(letter \<mapsto> Number n))))"

definition validate_placement :: "placement \<Rightarrow> 'pop public \<Rightarrow> node list \<Rightarrow> placement_error + unit" where
  "validate_placement pl p nodes =
    (if length pl \<noteq> length nodes then Inl (PlacementCount (length pl) (length nodes))
     else rbind (each (check_assignment pl p) Map.empty nodes) (\<lambda>_. Inr ()))"

definition placement_nodes :: "placement \<Rightarrow> int list" where
  "placement_nodes pl = sort (map fst pl)"

definition node_of :: "placement \<Rightarrow> string \<Rightarrow> int option" where
  "node_of pl letter = map_option fst (find (\<lambda>(_, assigned). assigned = letter) pl)"

text \<open>\<^verbatim>\<open>Save\<close> writes a temporary file and renames it: the path holds the old or the new text.\<close>

definition save_placement :: "(placement \<Rightarrow> string) \<Rightarrow> file_system \<Rightarrow> path \<Rightarrow> placement \<Rightarrow> keygen_error + file_system" where
  "save_placement encode fs p pl =
    (if p = [] then Inl (NoDirectory p) else
     let temporary = butlast p @ [last p @ ''.tmp'']
     in rbind (write_file fs temporary (encode pl)) (\<lambda>fs.
        if fs p = Some Dir then Inl (NoDirectory p)
        else Inr ((fs(p := fs temporary))(temporary := None))))"

section \<open>Validated placements\<close>

definition assignment_ok :: "placement \<Rightarrow> 'pop public \<Rightarrow> node \<Rightarrow> bool" where
  "assignment_ok pl p n \<longleftrightarrow> (\<exists>letter. map_of pl (Number n) = Some letter \<and>
     identity_roles p letter = Some (Role n) \<and>
     read_str (identity_chains p) letter = effective_chain (Role n) (Chain n) \<and>
     (Role n \<noteq> RoleValidator \<longrightarrow> home_of p letter = Number n))"

definition placement_ok :: "placement \<Rightarrow> 'pop public \<Rightarrow> node list \<Rightarrow> bool" where
  "placement_ok pl p nodes \<longleftrightarrow> length pl = length nodes \<and> (\<forall>n \<in> set nodes. assignment_ok pl p n) \<and>
     distinct (map (\<lambda>n. map_of pl (Number n)) nodes)"

lemma check_assignment_Inr:
  "check_assignment pl p seen n = Inr seen' \<longleftrightarrow>
   assignment_ok pl p n \<and> seen (the (map_of pl (Number n))) = None \<and>
   seen' = seen(the (map_of pl (Number n)) \<mapsto> Number n)"
  by (auto simp: check_assignment_def assignment_ok_def split: option.splits if_splits)

lemma check_assignments:
  "(\<exists>seen'. each (check_assignment pl p) seen nodes = Inr seen') \<longleftrightarrow>
   (\<forall>n \<in> set nodes. assignment_ok pl p n) \<and> distinct (map (\<lambda>n. map_of pl (Number n)) nodes) \<and>
   (\<forall>n \<in> set nodes. seen (the (map_of pl (Number n))) = None)"
proof (induction nodes arbitrary: seen)
  case (Cons n nodes)
  have some: "assignment_ok pl p m \<Longrightarrow> \<exists>l. map_of pl (Number m) = Some l" for m
    by (auto simp: assignment_ok_def)
  show ?case
  proof (cases "assignment_ok pl p n \<and> seen (the (map_of pl (Number n))) = None")
    case True
    define seen' where "seen' = seen(the (map_of pl (Number n)) \<mapsto> Number n)"
    from True have step: "check_assignment pl p seen n = Inr seen'"
      by (simp add: check_assignment_Inr seen'_def)
    from True obtain l where l: "map_of pl (Number n) = Some l" using some by blast
    have "(\<forall>m \<in> set nodes. seen' (the (map_of pl (Number m))) = None) \<longleftrightarrow>
        (\<forall>m \<in> set nodes. seen (the (map_of pl (Number m))) = None) \<and>
        (\<forall>m \<in> set nodes. the (map_of pl (Number m)) \<noteq> l)"
      by (auto simp: seen'_def l)
    moreover have "(\<forall>m \<in> set nodes. assignment_ok pl p m) \<Longrightarrow>
        (\<forall>m \<in> set nodes. the (map_of pl (Number m)) \<noteq> l) \<longleftrightarrow>
        map_of pl (Number n) \<notin> (\<lambda>m. map_of pl (Number m)) ` set nodes"
      using some l by fastforce
    ultimately show ?thesis using True Cons.IH [of seen'] step by auto
  next
    case False
    then have "\<nexists>seen'. check_assignment pl p seen n = Inr seen'" by (auto simp: check_assignment_Inr)
    with False show ?thesis by auto
  qed
qed auto

text \<open>The validator accepts exactly the placements of the contract.\<close>

lemma validate_placement_iff: "validate_placement pl p nodes = Inr () \<longleftrightarrow> placement_ok pl p nodes"
  using check_assignments [of pl p Map.empty nodes]
  by (auto simp: validate_placement_def placement_ok_def)

section \<open>The default placement\<close>

lemma map_of_default: "map_of (default_placement p) = index_by pn_Node pn_Identity (Nodes p)"
proof -
  have "map_of (foldl (\<lambda>m n. AList.update (pn_Node n) (pn_Identity n) m) [] ns) =
      index_by pn_Node pn_Identity ns" for ns :: "'a public_node list"
    by (induction ns rule: rev_induct) (simp_all add: update_conv')
  then show ?thesis by (simp add: default_placement_def)
qed

lemma default_placement_list:
  assumes "distinct (map pn_Node (Nodes p))"
  shows "default_placement p = map (\<lambda>n. (pn_Node n, pn_Identity n)) (Nodes p)"
proof -
  have new: "k \<notin> fst ` set al \<Longrightarrow> AList.update k v al = al @ [(k, v)]" for k v and al :: "(int \<times> string) list"
    by (induction al) auto
  have "distinct (map pn_Node ns) \<Longrightarrow> foldl (\<lambda>m n. AList.update (pn_Node n) (pn_Identity n) m) [] ns =
      map (\<lambda>n. (pn_Node n, pn_Identity n)) ns" for ns :: "'a public_node list"
    by (induction ns rule: rev_induct) (auto simp: new image_image)
  with assms show ?thesis by (simp add: default_placement_def)
qed

definition describes :: "'pop public \<Rightarrow> node list \<Rightarrow> bool" where
  "describes p nodes \<longleftrightarrow> map pn_Node (Nodes p) = map Number nodes \<and>
     map pn_Role (Nodes p) = map Role nodes \<and>
     map chain_name (Nodes p) = map (\<lambda>n. effective_chain (Role n) (Chain n)) nodes"

lemma map_nth_eq: "map f xs = map g ys \<Longrightarrow> i < length ys \<Longrightarrow> f (xs ! i) = g (ys ! i)"
  by (metis length_map nth_map)

lemma default_placement_ok:
  assumes ids: "distinct (map pn_Identity (Nodes p))" "distinct (map pn_Node (Nodes p))"
    and d: "describes p nodes"
  shows "placement_ok (default_placement p) p nodes"
proof -
  have len: "length (Nodes p) = length nodes" using d by (auto simp: describes_def dest: map_eq_imp_length_eq)
  have at: "\<exists>m \<in> set (Nodes p). pn_Node m = Number n \<and> pn_Role m = Role n \<and>
      chain_name m = effective_chain (Role n) (Chain n)" if n: "n \<in> set nodes" for n
  proof -
    from n obtain i where i: "i < length nodes" "n = nodes ! i" by (auto simp: in_set_conv_nth)
    with d len show ?thesis
      by (intro bexI [of _ "Nodes p ! i"]) (auto simp: describes_def dest: map_nth_eq)
  qed
  have lookup: "map_of (default_placement p) (pn_Node m) = Some (pn_Identity m)" if "m \<in> set (Nodes p)" for m
    unfolding map_of_default using index_by_lookup [OF ids(2) that] .
  have "assignment_ok (default_placement p) p n" if "n \<in> set nodes" for n
  proof -
    from at [OF that] obtain m where m: "m \<in> set (Nodes p)" "pn_Node m = Number n" "pn_Role m = Role n"
      "chain_name m = effective_chain (Role n) (Chain n)" by blast
    with lookup [OF m(1)] show ?thesis
      using index_by_lookup [OF ids(1) m(1), of pn_Role]
        index_by_lookup [OF ids(1) m(1), of chain_name] index_by_lookup [OF ids(1) m(1), of pn_Node]
      by (auto simp: assignment_ok_def identity_roles_def identity_chains_def home_of_def
          identity_homes_def read_str_def)
  qed
  moreover have "map (\<lambda>n. map_of (default_placement p) (Number n)) nodes = map (Some \<circ> pn_Identity) (Nodes p)"
  proof -
    have "map (\<lambda>n. map_of (default_placement p) (Number n)) nodes =
        map (map_of (default_placement p)) (map pn_Node (Nodes p))"
    proof -
      have "map pn_Node (Nodes p) = map Number nodes" using d by (simp add: describes_def)
      then show ?thesis by (simp only: map_map comp_def)
    qed
    also have "\<dots> = map (Some \<circ> pn_Identity) (Nodes p)" using lookup by auto
    finally show ?thesis .
  qed
  then have "distinct (map (\<lambda>n. map_of (default_placement p) (Number n)) nodes)"
    using ids(1) by (simp add: distinct_map comp_inj_on inj_on_def)
  ultimately show ?thesis using len default_placement_list [OF ids(2)] by (simp add: placement_ok_def)
qed

section \<open>The key generation command\<close>

text \<open>The two account keys and their addresses come from the key library.\<close>

record account_keys =
  genesis_key :: string
  genesis_address :: string
  feeder_key :: string
  feeder_address :: string

definition validate_manager_committee :: "nat \<Rightarrow> keygen_error + unit" where
  "validate_manager_committee k = (if k \<noteq> 1 \<and> k \<noteq> 4 then Inl (BadCommittee k) else Inr ())"

definition keygen ::
  "('id, 'pop) platform \<Rightarrow> (string \<Rightarrow> 'id option) \<Rightarrow> (path \<Rightarrow> 'pop key_material) \<Rightarrow> account_keys
   \<Rightarrow> ('pop public \<Rightarrow> string) \<Rightarrow> (placement \<Rightarrow> string) \<Rightarrow> file_system \<Rightarrow> path \<Rightarrow> node list \<Rightarrow> nat
   \<Rightarrow> keygen_error + file_system \<times> 'pop public" where
  "keygen env cert_id fresh keys encode encode_pl fs out nodes k =
    rbind (validate_manager_committee k) (\<lambda>_.
    rbind (if fs out \<noteq> None then Inl (OutputExists out) else Inr ()) (\<lambda>_.
    rbind (mkdir fs out) (\<lambda>fs.
    rbind (generate cert_id fresh fs out nodes k) (\<lambda>(fs, generated).
    rbind (write_file fs (out @ [''genesis-funds.key'']) (genesis_key keys @ [CHR 0x0A])) (\<lambda>fs.
    rbind (write_file fs (out @ [''oracle-feeder.key'']) (feeder_key keys @ [CHR 0x0A])) (\<lambda>fs.
    let p = new_public env generated nodes (genesis_address keys) (feeder_address keys)
    in rbind (write_file fs (out @ [''public.json'']) (encode p @ [CHR 0x0A])) (\<lambda>fs.
       rbind (save_placement encode_pl fs (out @ [''placement.json'']) (default_placement p)) (\<lambda>fs.
         Inr (fs, p)))))))))"

lemma generate_outside:
  assumes "generate cert_id fresh fs root nodes k = Inr (fs', s)"
    and "take (Suc (length root)) p \<noteq> root @ [''identities'']" "take (Suc (length root)) p \<noteq> root @ [''manager'']"
  shows "fs' p = fs p"
proof -
  have out: "take (length (root @ [d, x])) p \<noteq> root @ [d, x]"
    if "take (Suc (length root)) p \<noteq> root @ [d]" for d x
  proof
    assume a: "take (length (root @ [d, x])) p = root @ [d, x]"
    have "take (Suc (length root)) p = take (Suc (length root)) (take (length (root @ [d, x])) p)" by simp
    also have "\<dots> = root @ [d]" unfolding a by simp
    finally show False using that by simp
  qed
  from assms(1) obtain f1 f2 f3 where steps: "mkdir fs (root @ [''identities'']) = Inr f1"
    "mkdir f1 (root @ [''manager'']) = Inr f2"
    "each (generate_node cert_id fresh root) (f2, []) nodes = Inr (f3, set_Nodes s)"
    "each (generate_manager cert_id fresh root) (f3, []) [0..<k] = Inr (fs', set_Manager s)"
    by (auto simp: generate_def)
  have "p \<noteq> root @ [''identities'']" "p \<noteq> root @ [''manager'']" using assms(2,3) by auto
  then have "f2 p = fs p" using steps(1,2) by (auto simp: mkdir_def split: if_splits)
  moreover have "(\<lambda>_ v. fst v p = f2 p) nodes (f3, set_Nodes s)"
    by (rule each_invariant [OF steps(3)])
       (auto simp: generate_node_def Let_def dest!: generate_one_outside [OF _ out [OF assms(2)]])
  moreover have "(\<lambda>_ v. fst v p = f3 p) [0..<k] (fs', set_Manager s)"
    by (rule each_invariant [OF steps(4)])
       (auto simp: generate_manager_def Let_def dest!: generate_one_outside [OF _ out [OF assms(3)]])
  ultimately show ?thesis by simp
qed


lemma write_file_total:
  assumes "fs d = Some Dir" "fs (d @ [f]) \<noteq> Some Dir"
  shows "write_file fs (d @ [f]) c = Inr (fs(d @ [f] \<mapsto> File c))"
  using assms by (simp add: write_file_def)

lemma save_placement_total:
  assumes "fs d = Some Dir" "fs (d @ [f]) \<noteq> Some Dir" "fs (d @ [f @ ''.tmp'']) = None"
  shows "save_placement encode fs (d @ [f]) pl = Inr (fs(d @ [f] \<mapsto> File (encode pl)))"
proof -
  have "write_file fs (d @ [f @ ''.tmp'']) (encode pl) = Inr (fs(d @ [f @ ''.tmp''] \<mapsto> File (encode pl)))"
    using assms(1,3) by (intro write_file_total) simp_all
  moreover have "(fs(d @ [f] \<mapsto> File (encode pl)))(d @ [f @ ''.tmp''] := None) = fs(d @ [f] \<mapsto> File (encode pl))"
    using assms(3) by auto
  ultimately show ?thesis using assms(2)
    by (simp add: save_placement_def fun_upd_twist)
qed

lemma new_public_describes:
  assumes "inventory_ok nodes" "generate cert_id fresh fs root nodes k = Inr (fs', s)" "closed_fs fs"
  shows "describes (new_public env s nodes genesis feeder) nodes"
proof -
  note made = generate_result [OF assms(2,3)]
  have ok: "\<forall>n \<in> set nodes. node_ok n" using assms(1) by (simp add: inventory_ok_def list_all_iff)
  have "map pn_Node (entries env index ns gs) = map Number ns \<and>
      map pn_Role (entries env index ns gs) = map Role ns"
    if "length gs = length ns" for index ns gs
    using that by (induction ns gs arbitrary: index rule: list_induct2') (auto simp: entry_of_def)
  moreover have "map Chain nodes = map (\<lambda>n. effective_chain (Role n) (Chain n)) nodes"
    using ok effective_chain_node_ok by auto
  ultimately show ?thesis
    using entries_chain_names [OF made(1) ok] made(1)
    by (simp add: describes_def new_public_nodes(1) [OF assms])
qed

lemma keygen_writes:
  assumes gen: "generate cert_id fresh f1 out nodes k = Inr (f2, s)"
    and fs: "closed_fs fs" "fs out = None" "f1 = fs(out \<mapsto> Dir)" "closed_fs f1"
  shows "f2 out = Some Dir"
    and "f \<noteq> ''identities'' \<Longrightarrow> f \<noteq> ''manager'' \<Longrightarrow> f2 (out @ [f]) = None"
proof -
  show "f2 out = Some Dir"
    using generate_outside [OF gen, of out] fs(3) by simp
  show "f \<noteq> ''identities'' \<Longrightarrow> f \<noteq> ''manager'' \<Longrightarrow> f2 (out @ [f]) = None"
    using generate_outside [OF gen, of "out @ [f]"] closed_below [OF fs(1,2), of f] fs(3) by simp
qed

lemma manifest_names_distinct:
  "manifest_ok env p \<Longrightarrow> length (Nodes p) \<le> max_int \<Longrightarrow> distinct (map pn_Identity (Nodes p))"
  by (rule letters.named_unique) (simp_all add: manifest_ok_def)

lemma manifest_numbers_distinct: "manifest_ok env p \<Longrightarrow> distinct (map pn_Node (Nodes p))"
  by (simp add: manifest_ok_def strict_sorted_iff)

lemma keygen_spec:
  assumes inv: "inventory_ok nodes" and k: "k = 1 \<or> k = 4" "length nodes \<le> max_int"
    and fs: "closed_fs fs" "out \<noteq> []" "fs (butlast out) = Some Dir" "fs out = None"
    and lib: "key_library env cert_id fresh out"
    and addr: "is_hex_address env (genesis_address keys)" "is_hex_address env (feeder_address keys)"
  shows "\<exists>fs' p. keygen env cert_id fresh keys encode encode_pl fs out nodes k = Inr (fs', p) \<and>
    validate_public env p = Inr () \<and> validate_placement (default_placement p) p nodes = Inr () \<and>
    fs \<subseteq>\<^sub>m fs' \<and> fs' (out @ [''public.json'']) = Some (File (encode p @ [CHR 0x0A])) \<and>
    fs' (out @ [''placement.json'']) = Some (File (encode_pl (default_placement p)))"
proof -
  define f1 where "f1 = fs(out \<mapsto> Dir)"
  have mk: "mkdir fs out = Inr f1" using fs by (simp add: mkdir_def f1_def)
  then have c1: "closed_fs f1" using mkdir_ext [OF mk fs(1,2)] by simp
  have new: "f1 (out @ [x]) = None" for x
    using closed_below [OF fs(1,4)] by (simp add: f1_def)
  have "k \<le> max_int" using k by (auto simp: max_int_def)
  have "\<exists>f2 s. generate cert_id fresh f1 out nodes k = Inr (f2, s)"
    using lib \<open>k \<le> max_int\<close> by (intro generate_total [OF c1 _ new new k(2)]) (auto simp: f1_def key_library_def)
  then obtain f2 s where gen: "generate cert_id fresh f1 out nodes k = Inr (f2, s)" by blast
  define p where "p = new_public env s nodes (genesis_address keys) (feeder_address keys)"
  note w = keygen_writes [OF gen fs(1,4) f1_def c1]
  have p_ok: "validate_public env p = Inr ()" unfolding p_def
    by (rule new_public_validates [OF inv gen c1 generated_keys_ok [OF gen c1 lib k(2) \<open>k \<le> max_int\<close>] k(1) addr])
  then have m: "manifest_ok env p" by (rule validate_public_sound)
  have "length (Nodes p) \<le> max_int"
    using new_public_describes [OF inv gen c1, of env "genesis_address keys" "feeder_address keys"] k(2)
    by (auto simp: describes_def p_def dest: map_eq_imp_length_eq)
  then have pl: "validate_placement (default_placement p) p nodes = Inr ()"
    unfolding validate_placement_iff using new_public_describes [OF inv gen c1]
    by (intro default_placement_ok manifest_names_distinct [OF m] manifest_numbers_distinct [OF m])
       (simp_all add: p_def)
  have ext: "fs \<subseteq>\<^sub>m f2"
    using generate_result(5) [OF gen c1] fs(4) by (auto simp: f1_def map_le_def dom_def)
  let ?fs' = "f2(out @ [''genesis-funds.key''] \<mapsto> File (genesis_key keys @ [CHR 0x0A]),
      out @ [''oracle-feeder.key''] \<mapsto> File (feeder_key keys @ [CHR 0x0A]),
      out @ [''public.json''] \<mapsto> File (encode p @ [CHR 0x0A]),
      out @ [''placement.json''] \<mapsto> File (encode_pl (default_placement p)))"
  have "keygen env cert_id fresh keys encode encode_pl fs out nodes k = Inr (?fs', p)"
    using k(1) fs(4) by (auto simp: keygen_def validate_manager_committee_def mk gen write_file_total w
        save_placement_def Let_def p_def [symmetric] fun_eq_iff simp del: rbind_eq_Inr)
  moreover have "fs \<subseteq>\<^sub>m ?fs'"
    using ext closed_below [OF fs(1,4)] by (auto simp: map_le_def dom_def)
  ultimately show ?thesis using p_ok pl by (intro exI [of _ ?fs'] exI [of _ p]) simp
qed


text \<open>key generation on a loaded inventory with a fresh output directory always succeeds for a
  committee of one or four: the manifest it writes passes the readers' check, the placement it
  writes is valid for the manifest and the inventory, both files hold what was computed, and
  nothing that existed before is overwritten.\<close>

theorem keygen_succeeds:
  assumes "load_nodes read = Inr nodes" "k = 1 \<or> k = 4" "length nodes \<le> max_int"
    and "closed_fs fs" "out \<noteq> []" "fs (butlast out) = Some Dir" "fs out = None"
    and "key_library env cert_id fresh out"
    and "is_hex_address env (genesis_address keys)" "is_hex_address env (feeder_address keys)"
  shows "\<exists>fs' p. keygen env cert_id fresh keys encode encode_pl fs out nodes k = Inr (fs', p) \<and>
    validate_public env p = Inr () \<and> validate_placement (default_placement p) p nodes = Inr () \<and>
    fs \<subseteq>\<^sub>m fs' \<and> fs' (out @ [''public.json'']) = Some (File (encode p @ [CHR 0x0A])) \<and>
    fs' (out @ [''placement.json'']) = Some (File (encode_pl (default_placement p)))"
  by (rule keygen_spec [OF load_nodes_ok [OF assms(1)] assms(2-10)])

definition sample_accounts :: account_keys where
  "sample_accounts = \<lparr>genesis_key = ''g'', genesis_address = ''0x1'', feeder_key = ''f'', feeder_address = ''0x2''\<rparr>"

theorem keygen_succeeds_witness:
  "\<exists>fs' p. keygen sample_env Some sample_keys sample_accounts (\<lambda>_. ''public'') (\<lambda>_. ''placement'')
     [[] \<mapsto> Dir] [''keys''] sample_nodes 4 = Inr (fs', p) \<and> validate_public sample_env p = Inr ()"
proof -
  have "closed_fs [[] \<mapsto> Dir]" by (simp add: closed_fs_def)
  from keygen_succeeds [OF sample_loaded _ _ this _ _ _ sample_library, of 4 sample_accounts
      "\<lambda>_. ''public''" "\<lambda>_. ''placement''"]
  show ?thesis by (auto simp: sample_accounts_def sample_env_def has_prefix_def sample_nodes_def max_int_def)
qed

end
