(* ===== verification/Network_State.thy ===== *)
theory Network_State
  imports Config
begin

text \<open>
  The creation state file \<^verbatim>\<open>deployment/network.env\<close>: how \<^verbatim>\<open>internal/creation/state.go\<close> writes it
  after every transaction and how \<^verbatim>\<open>internal/weights/report.go\<close> and the fleet read it back.
  Each chain has three keys; the main and oracle chains keep their legacy keys. The text form
  of an ID belongs to the platform library: the record \<open>id_codec\<close> carries the two directions
  and the empty ID, and \<open>codec_ok\<close> states what they promise. A dotenv file is the list of its
  key/value pairs; the iteration order of the map is the order of that list.
\<close>

section \<open>Data\<close>

record 'id id_codec =
  id_empty :: 'id
  id_text :: "'id \<Rightarrow> string"
  id_of_text :: "string \<Rightarrow> 'id option"

record 'id chain_record =
  cr_SubnetID :: 'id
  cr_ChainID :: 'id
  cr_ConvertTxID :: 'id

record 'id state =
  st_Network :: string
  st_ManagerSubnetID :: 'id
  st_ManagerChainID :: 'id
  st_ManagerConvertTxID :: 'id
  st_OracleSubnetID :: 'id
  st_OracleChainID :: 'id
  st_OracleConvertTxID :: 'id
  st_SubnetID :: 'id
  st_ChainID :: 'id
  st_ConvertTxID :: 'id
  st_Chains :: "(string \<times> 'id chain_record) list"
  st_ManagerAddress :: string
  st_GenesisEVMAddress :: string
  st_FeederEVMAddress :: string
  st_OracleAggregatorAddress :: string
  st_OracleReceiverAddress :: string
  st_PriceFeedAddress :: string
  st_PriceFeedAggregatorAddress :: string

record 'id deployment =
  ManagementSubnetID :: 'id
  ManagementChainID :: 'id
  ManagementConvertTxID :: 'id
  OracleSubnetID :: 'id
  OracleChainID :: 'id
  MainSubnetID :: 'id
  MainChainID :: 'id
  extra_chains :: "string \<rightharpoonup> 'id \<times> 'id"
  ManagerAddress :: string

datatype state_error =
    StateUnreadable
  | NetworkMismatch string
  | RequiredField string
  | InvalidID string
  | CreationIncomplete
  | BadManagerAddress string

section \<open>Keys\<close>

definition chain_key :: "string \<Rightarrow> string" where
  "chain_key name = map upper_char (replace_char (CHR ''-'') (CHR ''_'') name)"

definition subnet_key :: "string \<Rightarrow> string" where
  "subnet_key fragment = ''SUBNET_'' @ fragment @ ''_ID''"

definition chain_id_key :: "string \<Rightarrow> string" where
  "chain_id_key fragment = ''CHAIN_'' @ fragment @ ''_ID''"

definition convert_key :: "string \<Rightarrow> string" where
  "convert_key fragment = ''CONVERT_'' @ fragment @ ''_TX_ID''"

definition state_chain_keys :: "string \<Rightarrow> string \<times> string \<times> string" where
  "state_chain_keys chain =
    (if chain = main_chain then (''SUBNET_ID'', ''CHAIN_ID'', ''CONVERT_TX_ID'')
     else if chain = oracle_chain
       then (''ORACLE_SUBNET_ID'', ''ORACLE_CHAIN_ID'', ''ORACLE_CONVERT_TX_ID'')
     else let key = chain_key chain in
       (subnet_key key, chain_id_key key, convert_key key))"

definition chain_name_from_key :: "string \<Rightarrow> string" where
  "chain_name_from_key key = map lower_char (replace_char (CHR ''_'') (CHR ''-'') key)"

text \<open>The expression \<^verbatim>\<open>^CONVERT_([A-Z0-9_]+)_TX_ID$\<close>: the matched fragment.\<close>

definition fragment_char :: "char \<Rightarrow> bool" where
  "fragment_char c \<longleftrightarrow> is_upper c \<or> is_digit c \<or> c = CHR ''_''"

definition convert_fragment :: "string \<Rightarrow> string option" where
  "convert_fragment key =
    (let fragment = take (length key - 14) (drop 8 key)
     in if has_prefix key ''CONVERT_'' \<and> has_suffix key ''_TX_ID'' \<and> 14 < length key \<and>
           list_all fragment_char fragment
        then Some fragment else None)"

section \<open>Reading an ID\<close>

definition required_id :: "'id id_codec \<Rightarrow> (string \<rightharpoonup> string) \<Rightarrow> string \<Rightarrow> state_error + 'id" where
  "required_id codec vals field = (let raw = trim_space (read_str vals field)
    in if raw = [] then Inl (RequiredField field)
       else case id_of_text codec raw of None \<Rightarrow> Inl (InvalidID field) | Some i \<Rightarrow> Inr i)"

text \<open>\<^verbatim>\<open>ChainIDsFromState\<close>: the chain ID, then the subnet ID.\<close>

definition chain_ids_from_state ::
  "'id id_codec \<Rightarrow> (string \<rightharpoonup> string) \<Rightarrow> string \<Rightarrow> state_error + 'id \<times> 'id" where
  "chain_ids_from_state codec vals chain =
    (let (subnetKey, chainIDKey, _) = state_chain_keys chain
     in rbind (required_id codec vals chainIDKey) (\<lambda>chainID.
        rbind (required_id codec vals subnetKey) (\<lambda>subnetID. Inr (chainID, subnetID))))"

section \<open>Writing\<close>

definition id_string_of :: "'id id_codec \<Rightarrow> 'id \<Rightarrow> string" where
  "id_string_of codec i = (if i = id_empty codec then [] else id_text codec i)"

definition chain_fields :: "'id id_codec \<Rightarrow> string \<times> 'id chain_record \<Rightarrow> (string \<times> string) list" where
  "chain_fields codec nr = (let (name, record) = nr;
      (subnetKey, chainIDKey, convertKey) = state_chain_keys name
    in [(subnetKey, id_string_of codec (cr_SubnetID record)),
        (chainIDKey, id_string_of codec (cr_ChainID record)),
        (convertKey, id_string_of codec (cr_ConvertTxID record))])"

definition state_fields :: "'id id_codec \<Rightarrow> 'id state \<Rightarrow> (string \<times> string) list" where
  "state_fields codec s =
    [(''NETWORK'', st_Network s),
     (''MANAGER_SUBNET_ID'', id_string_of codec (st_ManagerSubnetID s)),
     (''MANAGER_CHAIN_ID'', id_string_of codec (st_ManagerChainID s)),
     (''MANAGER_CONVERT_TX_ID'', id_string_of codec (st_ManagerConvertTxID s)),
     (''ORACLE_SUBNET_ID'', id_string_of codec (st_OracleSubnetID s)),
     (''ORACLE_CHAIN_ID'', id_string_of codec (st_OracleChainID s)),
     (''ORACLE_CONVERT_TX_ID'', id_string_of codec (st_OracleConvertTxID s)),
     (''SUBNET_ID'', id_string_of codec (st_SubnetID s)),
     (''CHAIN_ID'', id_string_of codec (st_ChainID s)),
     (''CONVERT_TX_ID'', id_string_of codec (st_ConvertTxID s))]
    @ concat (map (chain_fields codec) (sort_key fst (st_Chains s)))
    @ [(''MANAGER_ADDRESS'', st_ManagerAddress s),
       (''GENESIS_EVM_ADDRESS'', st_GenesisEVMAddress s),
       (''FEEDER_EVM_ADDRESS'', st_FeederEVMAddress s),
       (''ORACLE_AGGREGATOR_ADDRESS'', st_OracleAggregatorAddress s),
       (''ORACLE_RECEIVER_ADDRESS'', st_OracleReceiverAddress s),
       (''ORACLE_PRICEFEED_ADDRESS'', st_PriceFeedAddress s),
       (''ORACLE_PRICEFEED_AGGREGATOR_ADDRESS'', st_PriceFeedAggregatorAddress s)]"

text \<open>The lines that are written, and the file. The write itself is a rename of a temporary file.\<close>

definition saved_fields :: "'id id_codec \<Rightarrow> 'id state \<Rightarrow> (string \<times> string) list" where
  "saved_fields codec s = filter (\<lambda>(k, v). v \<noteq> []) (state_fields codec s)"

definition save_state :: "'id id_codec \<Rightarrow> 'id state \<Rightarrow> string" where
  "save_state codec s = concat (map (\<lambda>(k, v). k @ ''='' @ v @ [CHR 0x0A]) (saved_fields codec s))"

section \<open>Loading\<close>

definition load_extra ::
  "'id id_codec \<Rightarrow> (string \<rightharpoonup> string) \<Rightarrow> (string \<rightharpoonup> 'id \<times> 'id) \<Rightarrow> string
   \<Rightarrow> state_error + (string \<rightharpoonup> 'id \<times> 'id)" where
  "load_extra codec vals found key = (case convert_fragment key of
      None \<Rightarrow> Inr found
    | Some fragment \<Rightarrow>
        if trim_space (read_str vals key) = [] then Inr found
        else rbind (required_id codec vals key) (\<lambda>_.
             rbind (required_id codec vals (chain_id_key fragment)) (\<lambda>chainID.
             rbind (required_id codec vals (subnet_key fragment)) (\<lambda>subnetID.
               Inr (found(chain_name_from_key fragment \<mapsto> (subnetID, chainID)))))))"

definition empty_deployment :: "'id id_codec \<Rightarrow> 'id deployment" where
  "empty_deployment codec = \<lparr>ManagementSubnetID = id_empty codec, ManagementChainID = id_empty codec,
     ManagementConvertTxID = id_empty codec, OracleSubnetID = id_empty codec,
     OracleChainID = id_empty codec, MainSubnetID = id_empty codec, MainChainID = id_empty codec,
     extra_chains = Map.empty, ManagerAddress = []\<rparr>"

definition load_management :: "'id id_codec \<Rightarrow> (string \<rightharpoonup> string) \<Rightarrow> 'id deployment \<Rightarrow> state_error + 'id deployment" where
  "load_management codec vals d =
    rbind (required_id codec vals ''MANAGER_CONVERT_TX_ID'') (\<lambda>convert.
    rbind (required_id codec vals ''MANAGER_CHAIN_ID'') (\<lambda>chain.
    rbind (required_id codec vals ''MANAGER_SUBNET_ID'') (\<lambda>subnet.
      Inr (d\<lparr>ManagementConvertTxID := convert, ManagementChainID := chain,
             ManagementSubnetID := subnet\<rparr>))))"

definition load_oracle :: "'id id_codec \<Rightarrow> (string \<rightharpoonup> string) \<Rightarrow> 'id deployment \<Rightarrow> state_error + 'id deployment" where
  "load_oracle codec vals d =
    rbind (required_id codec vals ''ORACLE_CONVERT_TX_ID'') (\<lambda>_.
    rbind (required_id codec vals ''ORACLE_CHAIN_ID'') (\<lambda>chain.
    rbind (required_id codec vals ''ORACLE_SUBNET_ID'') (\<lambda>subnet.
      Inr (d\<lparr>OracleChainID := chain, OracleSubnetID := subnet\<rparr>))))"

definition load_main :: "'id id_codec \<Rightarrow> (string \<rightharpoonup> string) \<Rightarrow> 'id deployment \<Rightarrow> state_error + 'id deployment" where
  "load_main codec vals d =
    rbind (required_id codec vals ''CONVERT_TX_ID'') (\<lambda>_.
    rbind (required_id codec vals ''CHAIN_ID'') (\<lambda>chain.
    rbind (required_id codec vals ''SUBNET_ID'') (\<lambda>subnet.
      Inr (d\<lparr>MainChainID := chain, MainSubnetID := subnet\<rparr>))))"

text \<open>\<open>is_address\<close> is the platform's address syntax; the address is kept as its text.\<close>

definition load_deployment ::
  "'id id_codec \<Rightarrow> (string \<Rightarrow> bool) \<Rightarrow> (string \<times> string) list option \<Rightarrow> string \<Rightarrow> bool
   \<Rightarrow> state_error + 'id deployment" where
  "load_deployment codec is_address read network requireComplete = (case read of
      None \<Rightarrow> Inl StateUnreadable
    | Some kvs \<Rightarrow>
      (let vals = map_of kvs;
           present = (\<lambda>k. trim_space (read_str vals k) \<noteq> []);
           got = trim_space (read_str vals ''NETWORK'')
       in if got \<noteq> network then Inl (NetworkMismatch got)
          else if requireComplete \<and> \<not> present ''CONVERT_TX_ID'' then Inl CreationIncomplete
          else rbind (if present ''MANAGER_CONVERT_TX_ID'' \<or> requireComplete
                      then load_management codec vals (empty_deployment codec)
                      else Inr (empty_deployment codec)) (\<lambda>d.
               rbind (if present ''ORACLE_CONVERT_TX_ID'' then load_oracle codec vals d else Inr d) (\<lambda>d.
               rbind (if present ''CONVERT_TX_ID'' \<or> requireComplete then load_main codec vals d
                      else Inr d) (\<lambda>d.
               rbind (each (load_extra codec vals) Map.empty (map fst kvs)) (\<lambda>found.
               let d = d\<lparr>extra_chains := found\<rparr>;
                   address = trim_space (read_str vals ''MANAGER_ADDRESS'')
               in if requireComplete then
                    (if is_address address then Inr (d\<lparr>ManagerAddress := address\<rparr>)
                     else Inl (BadManagerAddress address))
                  else Inr d))))))"

section \<open>The key mapping is a bijection\<close>

definition key_char :: "char \<Rightarrow> char" where
  "key_char c = upper_char (if c = CHR ''-'' then CHR ''_'' else c)"

definition name_char :: "char \<Rightarrow> char" where
  "name_char c = lower_char (if c = CHR ''_'' then CHR ''-'' else c)"

lemma chain_key_map: "chain_key name = map key_char name"
  and chain_name_from_key_map: "chain_name_from_key key = map name_char key"
  by (simp_all add: chain_key_def chain_name_from_key_def key_char_def name_char_def replace_char_def)

lemma of_char_upper: "is_lower c \<Longrightarrow> of_char (upper_char c) = (of_char c - 32 :: nat)"
proof -
  assume c: "is_lower c"
  then have "(of_char c :: nat) \<le> 122" by (simp add: is_lower_def less_eq_char_def)
  then have "((of_char c :: nat) - 32) mod 256 = of_char c - 32" by (intro mod_less) linarith
  with c show ?thesis by (simp add: upper_char_def)
qed

lemma of_char_lower: "is_upper c \<Longrightarrow> of_char (lower_char c) = (of_char c + 32 :: nat)"
  by (simp add: lower_char_def is_upper_def less_eq_char_def)

lemma key_char_inverse: "chain_name_char c \<Longrightarrow> name_char (key_char c) = c"
proof -
  assume c: "chain_name_char c"
  consider "is_lower c" | "is_digit c" | "c = CHR ''-''" using c by (auto simp: chain_name_char_def)
  then show ?thesis
  proof cases
    case 1
    then have ne: "c \<noteq> CHR ''-''" by (auto simp: is_lower_def less_eq_char_def)
    have b: "97 \<le> (of_char c :: nat)" "(of_char c :: nat) \<le> 122"
      using 1 by (simp_all add: is_lower_def less_eq_char_def)
    have u: "of_char (upper_char c) = (of_char c - 32 :: nat)" using of_char_upper [OF 1] .
    have up: "is_upper (upper_char c)" unfolding is_upper_def less_eq_char_def u using b by (simp, linarith)
    have nu: "upper_char c \<noteq> CHR ''_''"
    proof
      assume "upper_char c = CHR ''_''"
      with u b show False by simp
    qed
    have "of_char (lower_char (upper_char c)) = (of_char c :: nat)"
      using of_char_lower [OF up] u b by simp
    with ne nu show ?thesis by (simp add: key_char_def name_char_def)
  next
    case 2
    then have "\<not> is_lower c" "\<not> is_upper c" "c \<noteq> CHR ''-''" "c \<noteq> CHR ''_''"
      by (auto simp: is_lower_def is_upper_def is_digit_def less_eq_char_def)
    then show ?thesis by (simp add: key_char_def name_char_def upper_char_def lower_char_def)
  next
    case 3
    then show ?thesis
      by (simp add: key_char_def name_char_def upper_char_def lower_char_def is_lower_def is_upper_def less_eq_char_def)
  qed
qed

lemma key_char_fragment: "chain_name_char c \<Longrightarrow> fragment_char (key_char c)"
proof -
  assume c: "chain_name_char c"
  consider "is_lower c" | "is_digit c" | "c = CHR ''-''" using c by (auto simp: chain_name_char_def)
  then show ?thesis
  proof cases
    case 1
    then have "c \<noteq> CHR ''-''" by (auto simp: is_lower_def less_eq_char_def)
    moreover have b: "97 \<le> (of_char c :: nat)" "(of_char c :: nat) \<le> 122"
      using 1 by (simp_all add: is_lower_def less_eq_char_def)
    moreover have "is_upper (upper_char c)"
      unfolding is_upper_def less_eq_char_def of_char_upper [OF 1] using b by (simp, linarith)
    ultimately show ?thesis by (simp add: key_char_def fragment_char_def)
  next
    case 2
    then have "\<not> is_lower c" "c \<noteq> CHR ''-''"
      by (auto simp: is_lower_def is_digit_def less_eq_char_def)
    with 2 show ?thesis by (simp add: key_char_def upper_char_def fragment_char_def)
  next
    case 3
    then show ?thesis by (simp add: key_char_def upper_char_def is_lower_def less_eq_char_def fragment_char_def)
  qed
qed

lemma chain_key_roundtrip: "valid_chain_name n \<Longrightarrow> chain_name_from_key (chain_key n) = n"
  by (auto simp: chain_key_map chain_name_from_key_map valid_chain_name_def list_all_iff key_char_inverse
      intro: map_idI)

lemma chain_key_fragment: "valid_chain_name n \<Longrightarrow> list_all fragment_char (chain_key n) \<and> chain_key n \<noteq> []"
  by (auto simp: chain_key_map valid_chain_name_def list_all_iff key_char_fragment)

lemma chain_key_inj: "valid_chain_name n \<Longrightarrow> valid_chain_name m \<Longrightarrow> chain_key n = chain_key m \<longleftrightarrow> n = m"
  by (metis chain_key_roundtrip)

lemma convert_fragment_key:
  assumes "valid_chain_name n"
  shows "convert_fragment (convert_key (chain_key n)) = Some (chain_key n)"
  using chain_key_fragment [OF assms]
  by (auto simp: convert_key_def convert_fragment_def has_prefix_def has_suffix_def)

section \<open>Writing and loading\<close>

definition codec_ok :: "'id id_codec \<Rightarrow> bool" where
  "codec_ok codec \<longleftrightarrow> (\<forall>i. id_of_text codec (id_text codec i) = Some i \<and> id_text codec i \<noteq> [] \<and>
     trim_space (id_text codec i) = id_text codec i)"

definition chain_names_ok :: "'id state \<Rightarrow> bool" where
  "chain_names_ok s \<longleftrightarrow> distinct (map fst (st_Chains s)) \<and>
    (\<forall>(n, r) \<in> set (st_Chains s). valid_chain_name n \<and> n \<noteq> main_chain \<and> n \<noteq> oracle_chain)"

lemmas key_defs = subnet_key_def chain_id_key_def convert_key_def

lemma key_eq_iff [simp]:
  "subnet_key a = subnet_key b \<longleftrightarrow> a = b" "chain_id_key a = chain_id_key b \<longleftrightarrow> a = b"
  "convert_key a = convert_key b \<longleftrightarrow> a = b"
  "subnet_key a \<noteq> chain_id_key b" "chain_id_key b \<noteq> subnet_key a" "subnet_key a \<noteq> convert_key b"
  "convert_key b \<noteq> subnet_key a" "chain_id_key a \<noteq> convert_key b" "convert_key b \<noteq> chain_id_key a"
  by (simp_all add: key_defs)

lemma state_chain_keys_extra:
  "n \<noteq> main_chain \<Longrightarrow> n \<noteq> oracle_chain \<Longrightarrow> state_chain_keys n = (subnet_key (chain_key n), chain_id_key (chain_key n), convert_key (chain_key n))"
  by (simp add: state_chain_keys_def Let_def)

definition extra_keys :: "string \<Rightarrow> string list" where
  "extra_keys n = [subnet_key (chain_key n), chain_id_key (chain_key n), convert_key (chain_key n)]"

lemma chain_fields_keys:
  "n \<noteq> main_chain \<Longrightarrow> n \<noteq> oracle_chain \<Longrightarrow> map fst (chain_fields codec (n, r)) = extra_keys n"
  by (simp add: chain_fields_def state_chain_keys_extra extra_keys_def)

lemma extra_keys_distinct:
  assumes "distinct ns" "\<forall>n \<in> set ns. valid_chain_name n"
  shows "distinct (concat (map extra_keys ns))"
  using assms
proof (induction ns)
  case (Cons n ns)
  have "set (extra_keys n) \<inter> set (extra_keys m) = {}" if "m \<in> set ns" for m
  proof -
    from that Cons.prems have "chain_key n \<noteq> chain_key m" using chain_key_inj [of n m] by auto
    then show ?thesis by (auto simp: extra_keys_def)
  qed
  moreover have "distinct (extra_keys n)" by (simp add: extra_keys_def)
  ultimately show ?case using Cons by auto
qed simp

definition named_keys :: "string list" where
  "named_keys = [''NETWORK'', ''MANAGER_SUBNET_ID'', ''MANAGER_CHAIN_ID'', ''MANAGER_CONVERT_TX_ID'',
     ''ORACLE_SUBNET_ID'', ''ORACLE_CHAIN_ID'', ''ORACLE_CONVERT_TX_ID'', ''SUBNET_ID'', ''CHAIN_ID'',
     ''CONVERT_TX_ID'', ''MANAGER_ADDRESS'', ''GENESIS_EVM_ADDRESS'', ''FEEDER_EVM_ADDRESS'',
     ''ORACLE_AGGREGATOR_ADDRESS'', ''ORACLE_RECEIVER_ADDRESS'', ''ORACLE_PRICEFEED_ADDRESS'',
     ''ORACLE_PRICEFEED_AGGREGATOR_ADDRESS'']"

lemma named_keys_distinct: "distinct named_keys"
  by (simp add: named_keys_def)

lemma extra_not_named: "set (extra_keys n) \<inter> set named_keys = {}"
  by (auto simp: extra_keys_def named_keys_def key_defs append_eq_Cons_conv)

lemma named_not_convert: "k \<in> set named_keys \<Longrightarrow> convert_fragment k = None"
  by (auto simp: named_keys_def convert_fragment_def has_prefix_def has_suffix_def)

lemma extra_convert: "convert_fragment (subnet_key (chain_key n)) = None" "convert_fragment (chain_id_key (chain_key n)) = None"
  by (simp_all add: convert_fragment_def has_prefix_def key_defs)

abbreviation sorted_chains where "sorted_chains s \<equiv> sort_key fst (st_Chains s)"

lemma state_field_keys:
  assumes "chain_names_ok s"
  shows "map fst (state_fields codec s) =
    take 10 named_keys @ concat (map extra_keys (map fst (sorted_chains s))) @ drop 10 named_keys"
proof -
  have "map fst (concat (map (chain_fields codec) (sorted_chains s))) =
      concat (map (\<lambda>nr. map fst (chain_fields codec nr)) (sorted_chains s))"
    by (simp add: map_concat comp_def)
  also have "\<dots> = concat (map (\<lambda>nr. extra_keys (fst nr)) (sorted_chains s))"
    using assms by (intro arg_cong [where f = concat] map_cong)
      (auto simp: chain_names_ok_def chain_fields_keys)
  finally show ?thesis by (simp add: state_fields_def named_keys_def comp_def)
qed

lemma state_fields_distinct:
  assumes "chain_names_ok s"
  shows "distinct (map fst (state_fields codec s))"
proof -
  let ?E = "concat (map extra_keys (map fst (sorted_chains s)))"
  have "distinct ?E"
    using assms by (intro extra_keys_distinct) (auto simp: chain_names_ok_def distinct_map)
  moreover have "set ?E \<inter> set named_keys = {}" using extra_not_named by auto
  ultimately show ?thesis
    using named_keys_distinct set_take_disj_set_drop_if_distinct [OF named_keys_distinct, of 10 10]
    unfolding state_field_keys [OF assms]
    by (auto simp: distinct_append dest: in_set_takeD in_set_dropD)
qed

lemma map_of_filter_nonempty:
  "distinct (map fst kvs) \<Longrightarrow> (k, v) \<in> set kvs \<Longrightarrow>
   read_str (map_of (filter (\<lambda>(k, v). v \<noteq> []) kvs)) k = v"
proof (induction kvs)
  case (Cons kv kvs)
  show ?case
  proof (cases "kv = (k, v)")
    case True
    with Cons.prems have "k \<notin> fst ` set (filter (\<lambda>(k, v). v \<noteq> []) kvs)" by auto
    then have "map_of (filter (\<lambda>(k, v). v \<noteq> []) kvs) k = None" by (simp add: map_of_eq_None_iff)
    with True show ?thesis by (cases "v = []") (simp_all add: read_str_def)
  next
    case False
    with Cons.prems have kv: "(k, v) \<in> set kvs" "distinct (map fst kvs)" by auto
    then have "k \<in> fst ` set kvs" by force
    with Cons.prems have "fst kv \<noteq> k" by auto
    with Cons.IH kv show ?thesis by (cases kv) (simp add: read_str_def)
  qed
qed simp

lemma read_saved:
  "chain_names_ok s \<Longrightarrow> (k, v) \<in> set (state_fields codec s) \<Longrightarrow>
   read_str (map_of (saved_fields codec s)) k = v"
  unfolding saved_fields_def by (rule map_of_filter_nonempty [OF state_fields_distinct])

lemma required_saved:
  assumes "codec_ok codec" "chain_names_ok s" "(k, id_string_of codec i) \<in> set (state_fields codec s)"
    "i \<noteq> id_empty codec"
  shows "required_id codec (map_of (saved_fields codec s)) k = Inr i"
  using read_saved [OF assms(2,3)] assms(1,4)
  by (simp add: required_id_def id_string_of_def codec_ok_def)

lemma absent_saved:
  assumes "chain_names_ok s" "(k, v) \<in> set (state_fields codec s)"
  shows "trim_space (read_str (map_of (saved_fields codec s)) k) = trim_space v"
  using read_saved [OF assms] by simp

text \<open>The discovery loop only looks at conversion keys.\<close>

lemma each_filter:
  "(\<And>s x. x \<in> set xs \<Longrightarrow> \<not> P x \<Longrightarrow> f s x = Inr s) \<Longrightarrow> each f s xs = each f s (filter P xs)"
proof (induction xs arbitrary: s)
  case (Cons x xs)
  then show ?case by (cases "P x") (auto simp: rbind_def split: sum.split)
qed simp


definition complete_state :: "'id id_codec \<Rightarrow> (string \<Rightarrow> bool) \<Rightarrow> 'id state \<Rightarrow> bool" where
  "complete_state codec is_address s \<longleftrightarrow> chain_names_ok s \<and>
    (let e = id_empty codec in
      st_ManagerSubnetID s \<noteq> e \<and> st_ManagerChainID s \<noteq> e \<and> st_ManagerConvertTxID s \<noteq> e \<and>
      st_SubnetID s \<noteq> e \<and> st_ChainID s \<noteq> e \<and> st_ConvertTxID s \<noteq> e \<and>
      (st_OracleConvertTxID s = e \<and> st_OracleChainID s = e \<and> st_OracleSubnetID s = e \<or>
       st_OracleConvertTxID s \<noteq> e \<and> st_OracleChainID s \<noteq> e \<and> st_OracleSubnetID s \<noteq> e) \<and>
      (\<forall>(n, r) \<in> set (st_Chains s). cr_SubnetID r \<noteq> e \<and> cr_ChainID r \<noteq> e \<and> cr_ConvertTxID r \<noteq> e)) \<and>
    trim_space (st_Network s) = st_Network s \<and>
    trim_space (st_ManagerAddress s) = st_ManagerAddress s \<and> is_address (st_ManagerAddress s)"

definition deployment_of :: "'id id_codec \<Rightarrow> 'id state \<Rightarrow> 'id deployment" where
  "deployment_of codec s = \<lparr>ManagementSubnetID = st_ManagerSubnetID s, ManagementChainID = st_ManagerChainID s,
     ManagementConvertTxID = st_ManagerConvertTxID s, OracleSubnetID = st_OracleSubnetID s,
     OracleChainID = st_OracleChainID s, MainSubnetID = st_SubnetID s, MainChainID = st_ChainID s,
     extra_chains = (\<lambda>n. map_option (\<lambda>r. (cr_SubnetID r, cr_ChainID r)) (map_of (st_Chains s) n)),
     ManagerAddress = st_ManagerAddress s\<rparr>"

lemma trim_space_Nil [simp]: "trim_space [] = []"
  by (simp add: trim_space_def trim_left_def trim_right_def)

lemma extra_in_fields:
  assumes "chain_names_ok s" "(n, r) \<in> set (st_Chains s)"
  shows "(subnet_key (chain_key n), id_string_of codec (cr_SubnetID r)) \<in> set (state_fields codec s)"
    "(chain_id_key (chain_key n), id_string_of codec (cr_ChainID r)) \<in> set (state_fields codec s)"
    "(convert_key (chain_key n), id_string_of codec (cr_ConvertTxID r)) \<in> set (state_fields codec s)"
proof -
  have "set (chain_fields codec (n, r)) \<subseteq> set (state_fields codec s)"
  proof -
    have "set (concat (map (chain_fields codec) (sorted_chains s))) \<subseteq> set (state_fields codec s)"
      unfolding state_fields_def set_append by blast
    moreover have "set (chain_fields codec (n, r)) \<subseteq>
        set (concat (map (chain_fields codec) (sorted_chains s)))"
      using assms(2) by (simp, intro UN_upper)
    ultimately show ?thesis by blast
  qed
  moreover have "n \<noteq> main_chain" "n \<noteq> oracle_chain" using assms by (auto simp: chain_names_ok_def)
  then have "chain_fields codec (n, r) = [(subnet_key (chain_key n), id_string_of codec (cr_SubnetID r)),
    (chain_id_key (chain_key n), id_string_of codec (cr_ChainID r)), (convert_key (chain_key n), id_string_of codec (cr_ConvertTxID r))]"
    by (simp add: chain_fields_def state_chain_keys_extra)
  ultimately show "(subnet_key (chain_key n), id_string_of codec (cr_SubnetID r)) \<in> set (state_fields codec s)"
    "(chain_id_key (chain_key n), id_string_of codec (cr_ChainID r)) \<in> set (state_fields codec s)"
    "(convert_key (chain_key n), id_string_of codec (cr_ConvertTxID r)) \<in> set (state_fields codec s)" by simp_all
qed

lemma load_extra_saved:
  assumes "codec_ok codec" "complete_state codec is_address s" "(n, r) \<in> set (st_Chains s)"
  shows "load_extra codec (map_of (saved_fields codec s)) found (convert_key (chain_key n)) =
    Inr (found(n \<mapsto> (cr_SubnetID r, cr_ChainID r)))"
proof -
  have names: "chain_names_ok s" and v: "valid_chain_name n"
    and ids: "cr_SubnetID r \<noteq> id_empty codec" "cr_ChainID r \<noteq> id_empty codec" "cr_ConvertTxID r \<noteq> id_empty codec"
    using assms(2,3) by (auto simp: complete_state_def chain_names_ok_def Let_def)
  note f = extra_in_fields [OF names assms(3), of codec]
  note get = required_saved [OF assms(1) names]
  have "trim_space (read_str (map_of (saved_fields codec s)) (convert_key (chain_key n))) \<noteq> []"
    using absent_saved [OF names f(3)] assms(1) ids(3) by (simp add: id_string_of_def codec_ok_def)
  then show ?thesis
    using get [OF f(3) ids(3)] get [OF f(2) ids(2)] get [OF f(1) ids(1)]
    by (simp add: load_extra_def convert_fragment_key [OF v] chain_key_roundtrip [OF v])
qed

definition with_extra :: "(string \<rightharpoonup> 'id \<times> 'id) \<Rightarrow> string \<times> 'id chain_record \<Rightarrow> (string \<rightharpoonup> 'id \<times> 'id)" where
  "with_extra m nr = m(fst nr \<mapsto> (cr_SubnetID (snd nr), cr_ChainID (snd nr)))"

lemma load_extras:
  assumes "codec_ok codec" "complete_state codec is_address s" "set nrs \<subseteq> set (st_Chains s)"
  shows "each (load_extra codec (map_of (saved_fields codec s))) found (map (\<lambda>nr. convert_key (chain_key (fst nr))) nrs) =
    Inr (foldl with_extra found nrs)"
  using assms(3)
proof (induction nrs arbitrary: found)
  case (Cons nr nrs)
  obtain n r where nr: "nr = (n, r)" by fastforce
  with Cons.prems load_extra_saved [OF assms(1,2), of n r found] Cons.IH show ?case by (simp add: with_extra_def [of found "(n, r)"])
qed simp

lemma foldl_updates:
  "distinct (map fst nrs) \<Longrightarrow>
   foldl with_extra found nrs = (\<lambda>n. case map_of nrs n of
     None \<Rightarrow> found n | Some r \<Rightarrow> Some (cr_SubnetID r, cr_ChainID r))"
proof (induction nrs arbitrary: found)
  case (Cons nr nrs)
  obtain n r where nr: "nr = (n, r)" by fastforce
  from Cons have "map_of nrs n = None" by (simp add: nr map_of_eq_None_iff)
  with Cons show ?case by (auto simp: nr with_extra_def fun_eq_iff split: option.split)
qed simp

lemma saved_convert_keys:
  assumes "codec_ok codec" "complete_state codec is_address s"
  shows "filter (\<lambda>k. convert_fragment k \<noteq> None) (map fst (saved_fields codec s)) =
    map (\<lambda>nr. convert_key (chain_key (fst nr))) (sorted_chains s)"
proof -
  let ?ne = "\<lambda>(k :: string, v :: string). v \<noteq> []" and ?cf = "\<lambda>k. convert_fragment k \<noteq> None"
  have names: "chain_names_ok s" using assms(2) by (simp add: complete_state_def)
  have one: "filter ?cf (map fst (filter ?ne (chain_fields codec nr))) = [convert_key (chain_key (fst nr))]"
    if "nr \<in> set (sorted_chains s)" for nr
  proof -
    obtain n r where nr: "nr = (n, r)" by fastforce
    with that have mem: "(n, r) \<in> set (st_Chains s)" by simp
    then have v: "valid_chain_name n" "n \<noteq> main_chain" "n \<noteq> oracle_chain"
      and "cr_ConvertTxID r \<noteq> id_empty codec"
      using assms(2) by (auto simp: complete_state_def chain_names_ok_def Let_def)
    with assms(1) have "id_string_of codec (cr_ConvertTxID r) \<noteq> []"
      by (simp add: id_string_of_def codec_ok_def)
    with v show ?thesis
      by (simp add: nr chain_fields_def state_chain_keys_extra extra_convert convert_fragment_key)
  qed
  have none: "filter ?cf (map fst (filter ?ne kvs)) = []" if "set (map fst kvs) \<subseteq> set named_keys" for kvs
  proof -
    have "set (map fst (filter ?ne kvs)) \<subseteq> set named_keys" using that by auto
    then show ?thesis using named_not_convert by (auto simp: filter_empty_conv)
  qed
  have mid: "filter ?cf (map fst (filter ?ne (concat (map (chain_fields codec) nrs)))) =
      map (\<lambda>nr. convert_key (chain_key (fst nr))) nrs" if "set nrs \<subseteq> set (sorted_chains s)" for nrs
    using that one by (induction nrs) auto
  show ?thesis
    unfolding saved_fields_def state_fields_def filter_append map_append
    by (simp only: mid [OF subset_refl] append_Nil append_Nil2)
       (subst none, simp add: named_keys_def, subst none, simp add: named_keys_def, simp)
qed


lemma load_all_extras:
  assumes codec: "codec_ok codec" and complete: "complete_state codec is_address s"
  shows "each (load_extra codec (map_of (saved_fields codec s))) Map.empty (map fst (saved_fields codec s)) =
    Inr (extra_chains (deployment_of codec s))"
proof -
  have "each (load_extra codec (map_of (saved_fields codec s))) Map.empty (map fst (saved_fields codec s)) =
      each (load_extra codec (map_of (saved_fields codec s))) Map.empty
        (filter (\<lambda>k. convert_fragment k \<noteq> None) (map fst (saved_fields codec s)))"
    by (rule each_filter) (simp add: load_extra_def)
  also have "\<dots> = Inr (foldl with_extra Map.empty (sorted_chains s))"
    unfolding saved_convert_keys [OF codec complete] by (rule load_extras [OF codec complete]) simp
  also have "foldl with_extra Map.empty (sorted_chains s) = extra_chains (deployment_of codec s)"
  proof -
    have d: "distinct (map fst (st_Chains s))"
      using complete by (simp add: complete_state_def chain_names_ok_def)
    have "map_of (sorted_chains s) = map_of (st_Chains s)"
      by (rule map_of_inject_set [THEN iffD2]) (use d in \<open>simp_all add: distinct_map\<close>)
    then show ?thesis using d
      by (subst foldl_updates) (auto simp: distinct_map deployment_of_def fun_eq_iff split: option.split)
  qed
  finally show ?thesis .
qed

text \<open>the state file of a complete creation, written by the creation command and read back by
  the operator commands, yields exactly the recorded deployment: management, oracle, main and
  every additional chain under its own name, whatever the chain names are.\<close>

theorem saved_state_loads:
  assumes codec: "codec_ok codec" and complete: "complete_state codec is_address s"
  shows "load_deployment codec is_address (Some (saved_fields codec s)) (st_Network s) True =
    Inr (deployment_of codec s)"
proof -
  let ?vals = "map_of (saved_fields codec s)" and ?e = "id_empty codec"
  have names: "chain_names_ok s" and man: "st_ManagerSubnetID s \<noteq> ?e" "st_ManagerChainID s \<noteq> ?e"
      "st_ManagerConvertTxID s \<noteq> ?e" and main: "st_SubnetID s \<noteq> ?e" "st_ChainID s \<noteq> ?e" "st_ConvertTxID s \<noteq> ?e"
    and orc: "st_OracleConvertTxID s = ?e \<and> st_OracleChainID s = ?e \<and> st_OracleSubnetID s = ?e \<or>
       st_OracleConvertTxID s \<noteq> ?e \<and> st_OracleChainID s \<noteq> ?e \<and> st_OracleSubnetID s \<noteq> ?e"
    and plain: "trim_space (st_Network s) = st_Network s"
      "trim_space (st_ManagerAddress s) = st_ManagerAddress s" "is_address (st_ManagerAddress s)"
    using complete by (simp_all add: complete_state_def Let_def)
  have in_fields: "x \<in> set (take 10 (state_fields codec s)) \<Longrightarrow> x \<in> set (state_fields codec s)" for x
    by (rule in_set_takeD)
  note req = required_saved [OF codec names in_fields] and rd = read_saved [OF names in_fields]
  have man_r: "load_management codec ?vals d = Inr (d\<lparr>ManagementConvertTxID := st_ManagerConvertTxID s,
      ManagementChainID := st_ManagerChainID s, ManagementSubnetID := st_ManagerSubnetID s\<rparr>)" for d
    by (simp add: load_management_def req [OF _ man(1)] req [OF _ man(2)] req [OF _ man(3)] state_fields_def)
  have main_r: "load_main codec ?vals d = Inr (d\<lparr>MainChainID := st_ChainID s, MainSubnetID := st_SubnetID s\<rparr>)" for d
    by (simp add: load_main_def req [OF _ main(1)] req [OF _ main(2)] req [OF _ main(3)] state_fields_def)
  have orc_r: "load_oracle codec ?vals d = Inr (d\<lparr>OracleChainID := st_OracleChainID s,
      OracleSubnetID := st_OracleSubnetID s\<rparr>)" if "st_OracleConvertTxID s \<noteq> ?e" for d
    using that orc by (simp add: load_oracle_def req state_fields_def)
  have orc_p: "read_str ?vals ''ORACLE_CONVERT_TX_ID'' = id_string_of codec (st_OracleConvertTxID s)"
    and main_p: "read_str ?vals ''CONVERT_TX_ID'' = id_string_of codec (st_ConvertTxID s)"
    and net: "read_str ?vals ''NETWORK'' = st_Network s"
    by (simp_all add: rd state_fields_def)
  have addr: "read_str ?vals ''MANAGER_ADDRESS'' = st_ManagerAddress s"
    by (rule read_saved [OF names]) (simp add: state_fields_def)
  note extras = load_all_extras [OF codec complete]
  show ?thesis
    using codec orc plain main(3)
    by (auto simp: load_deployment_def net orc_p main_p addr man_r main_r orc_r extras id_string_of_def
        codec_ok_def deployment_of_def empty_deployment_def Let_def)
qed

text \<open>An example: IDs are numbers written in unary, one additional chain.\<close>

definition unary_codec :: "nat id_codec" where
  "unary_codec = \<lparr>id_empty = 0, id_text = (\<lambda>n. replicate (Suc n) (CHR ''x'')),
     id_of_text = (\<lambda>s. Some (length s - 1))\<rparr>"

lemma unary_codec_ok: "codec_ok unary_codec"
  by (simp add: codec_ok_def unary_codec_def trim_space_def trim_left_def trim_right_def is_space_def
      dropWhile_replicate del: replicate_Suc)

definition sample_state :: "nat state" where
  "sample_state = \<lparr>st_Network = ''fuji'', st_ManagerSubnetID = 1, st_ManagerChainID = 2,
     st_ManagerConvertTxID = 3, st_OracleSubnetID = 0, st_OracleChainID = 0, st_OracleConvertTxID = 0,
     st_SubnetID = 4, st_ChainID = 5, st_ConvertTxID = 6,
     st_Chains = [(''risk-2'', \<lparr>cr_SubnetID = 7, cr_ChainID = 8, cr_ConvertTxID = 9\<rparr>)],
     st_ManagerAddress = ''0xab'', st_GenesisEVMAddress = [], st_FeederEVMAddress = [],
     st_OracleAggregatorAddress = [], st_OracleReceiverAddress = [], st_PriceFeedAddress = [],
     st_PriceFeedAggregatorAddress = []\<rparr>"

theorem saved_state_loads_witness:
  "load_deployment unary_codec (\<lambda>a. has_prefix a ''0x'') (Some (saved_fields unary_codec sample_state))
     ''fuji'' True = Inr (deployment_of unary_codec sample_state)"
proof -
  have "complete_state unary_codec (\<lambda>a. has_prefix a ''0x'') sample_state"
    by (simp add: complete_state_def sample_state_def unary_codec_def chain_names_ok_def
        valid_chain_name_def chain_name_char_def main_chain_def oracle_chain_def go_eval)
  from saved_state_loads [OF unary_codec_ok this] show ?thesis by (simp add: sample_state_def)
qed

end
