(* ===== verification/Fleet_Inventory.thy ===== *)
theory Fleet_Inventory
  imports Placement Network_State
begin

text \<open>
  The view every fleet command starts from, \<^verbatim>\<open>internal/fleet/inventory.go\<close>, with the checks of
  \<^verbatim>\<open>loadFleet\<close> and the port allocation \<^verbatim>\<open>portsByNode\<close> of \<^verbatim>\<open>internal/fleet/deploy.go\<close>. The
  five files it reads are a record of their contents; an absent or incomplete \<^verbatim>\<open>network.env\<close>
  is not an error but an inventory that is not created. The lemmas show what a loaded
  inventory guarantees to the commands: every machine has its identity, and ports never clash.
\<close>

section \<open>Ports\<close>

definition port_step ::
  "(string \<rightharpoonup> nat) \<times> (int \<rightharpoonup> nat \<times> nat) \<Rightarrow> node \<Rightarrow> (string \<rightharpoonup> nat) \<times> (int \<rightharpoonup> nat \<times> nat)" where
  "port_step acc n = (let (occurrences, result) = acc; index = read_nat occurrences (Host n)
     in (occurrences(Host n \<mapsto> index + 1),
         result(Number n \<mapsto> (9650 + 2 * index, 9651 + 2 * index))))"

definition ports_by_node :: "node list \<Rightarrow> int \<rightharpoonup> nat \<times> nat" where
  "ports_by_node nodes = snd (foldl port_step (Map.empty, Map.empty) nodes)"

section \<open>Loading the fleet\<close>

datatype fleet_error =
    ConfigError config_error
  | ManifestError manifest_error
  | PlacementError placement_error
  | StateError state_error
  | BadSSHUser string
  | BadHost int string
  | WrongNetwork string
  | UnassignedNode int
  | UnknownLetter string int

definition ssh_user_ok :: "string \<Rightarrow> bool" where
  "ssh_user_ok s \<longleftrightarrow> (case s of [] \<Rightarrow> False
    | c # cs \<Rightarrow> (is_lower c \<or> c = CHR ''_'') \<and>
        list_all (\<lambda>d. is_lower d \<or> is_digit d \<or> d = CHR ''_'' \<or> d = CHR ''-'') cs)"

definition host_separator :: "char \<Rightarrow> bool" where
  "host_separator c \<longleftrightarrow> c \<in> {CHR '' '', CHR 0x09, CHR 0x0D, CHR 0x0A, CHR '',''}"

definition check_host :: "unit \<Rightarrow> node \<Rightarrow> fleet_error + unit" where
  "check_host u n = (if list_ex host_separator (Host n) then Inl (BadHost (Number n) (Host n)) else Inr ())"

text \<open>The contents of the files: \<^verbatim>\<open>.env\<close>, \<^verbatim>\<open>nodes.ini\<close>, \<^verbatim>\<open>public.json\<close>, \<^verbatim>\<open>placement.json\<close>, \<^verbatim>\<open>network.env\<close>.\<close>

record fleet_files =
  file_env :: "(string \<times> string) list option"
  file_nodes :: "string option"
  file_public :: "string option"
  file_placement :: "string option"
  file_state :: "(string \<times> string) list option"

record ('id, 'pop) fleet_libs =
  lib_url :: "string \<Rightarrow> parsed_url option"
  lib_stat :: "string \<Rightarrow> bool option"
  lib_platform :: "('id, 'pop) platform"
  lib_public :: "string \<Rightarrow> 'pop public option"
  lib_placement :: "string \<Rightarrow> placement option"

definition load_fleet ::
  "('id, 'pop) fleet_libs \<Rightarrow> fleet_files \<Rightarrow> fleet_error + fleet_environment \<times> node list" where
  "load_fleet libs files =
    rbind (map_sum ConfigError id (load_fleet_environment (lib_url libs) (lib_stat libs) (file_env files))) (\<lambda>env.
    if \<not> ssh_user_ok (fleet_SSHUser env) then Inl (BadSSHUser (fleet_SSHUser env))
    else rbind (map_sum ConfigError id (load_nodes (file_nodes files))) (\<lambda>nodes.
         rbind (each check_host () nodes) (\<lambda>_. Inr (env, nodes))))"

section \<open>The inventory\<close>

record ('cid, 'pop) inventory =
  inv_environment :: fleet_environment
  inv_nodes :: "node list"
  inv_public :: "'pop public"
  inv_placement :: placement
  inv_ports :: "int \<rightharpoonup> nat \<times> nat"
  inv_pchain :: "node option"
  inv_chains :: "string list"
  inv_identities :: "string \<rightharpoonup> 'pop public_node"
  inv_created :: bool
  inv_chainIDs :: "string \<rightharpoonup> 'cid"
  inv_subnetIDs :: "string \<rightharpoonup> 'cid"
  inv_managerSubnetID :: "'cid option"

definition public_file :: "('id, 'pop) fleet_libs \<Rightarrow> fleet_files \<Rightarrow> fleet_error + 'pop public" where
  "public_file libs files = map_sum ManifestError id (case file_public files of
      None \<Rightarrow> Inl BadJSON | Some c \<Rightarrow> load_public (lib_platform libs) (lib_public libs) c)"

definition base_inventory ::
  "fleet_environment \<Rightarrow> node list \<Rightarrow> 'pop public \<Rightarrow> placement \<Rightarrow> ('cid, 'pop) inventory" where
  "base_inventory env nodes p current = \<lparr>inv_environment = env, inv_nodes = nodes, inv_public = p,
     inv_placement = current, inv_ports = ports_by_node nodes,
     inv_pchain = find (\<lambda>n. Role n = RolePChain) nodes, inv_chains = chains_of nodes,
     inv_identities = index_by pn_Identity id (Nodes p), inv_created = False,
     inv_chainIDs = Map.empty, inv_subnetIDs = Map.empty, inv_managerSubnetID = None\<rparr>"

definition chain_ids_step ::
  "'cid id_codec \<Rightarrow> (string \<rightharpoonup> string) \<Rightarrow> (string \<rightharpoonup> 'cid) \<times> (string \<rightharpoonup> 'cid) \<Rightarrow> string
   \<Rightarrow> state_error + (string \<rightharpoonup> 'cid) \<times> (string \<rightharpoonup> 'cid)" where
  "chain_ids_step codec state acc chain =
    rbind (chain_ids_from_state codec state chain) (\<lambda>(chainID, subnetID).
      Inr ((fst acc)(chain \<mapsto> chainID), (snd acc)(chain \<mapsto> subnetID)))"

text \<open>The second half of \<^verbatim>\<open>inventory\<close>: any missing ID leaves the inventory not created.\<close>

definition complete_inventory ::
  "'cid id_codec \<Rightarrow> (string \<times> string) list option \<Rightarrow> ('cid, 'pop) inventory
   \<Rightarrow> fleet_error + ('cid, 'pop) inventory" where
  "complete_inventory codec read iv = (case read of None \<Rightarrow> Inr iv
    | Some kvs \<Rightarrow> (let state = map_of kvs in
        case required_id codec state ''MANAGER_SUBNET_ID'' of Inl _ \<Rightarrow> Inr iv
        | Inr manager \<Rightarrow>
          (case each (chain_ids_step codec state) (Map.empty, Map.empty) (inv_chains iv) of
            Inl _ \<Rightarrow> Inr iv
          | Inr (chainIDs, subnetIDs) \<Rightarrow>
              if read_str state ''NETWORK'' \<noteq> fleet_Network (inv_environment iv)
              then Inl (WrongNetwork (read_str state ''NETWORK''))
              else Inr (iv\<lparr>inv_created := True, inv_chainIDs := chainIDs,
                            inv_subnetIDs := subnetIDs, inv_managerSubnetID := Some manager\<rparr>))))"

definition load_inventory ::
  "('id, 'pop) fleet_libs \<Rightarrow> 'cid id_codec \<Rightarrow> fleet_files \<Rightarrow> fleet_error + ('cid, 'pop) inventory" where
  "load_inventory libs codec files =
    rbind (load_fleet libs files) (\<lambda>(env, nodes).
    rbind (public_file libs files) (\<lambda>p.
    rbind (map_sum PlacementError id (load_placement (lib_placement libs) (file_placement files))) (\<lambda>current.
    rbind (map_sum PlacementError id (validate_placement current p nodes)) (\<lambda>_.
      complete_inventory codec (file_state files) (base_inventory env nodes p current)))))"

definition assigned :: "('cid, 'pop) inventory \<Rightarrow> node \<Rightarrow> fleet_error + 'pop public_node" where
  "assigned iv n = (case map_of (inv_placement iv) (Number n) of
      None \<Rightarrow> Inl (UnassignedNode (Number n))
    | Some l \<Rightarrow> (case inv_identities iv l of
        None \<Rightarrow> Inl (UnknownLetter l (Number n)) | Some g \<Rightarrow> Inr g))"

record 'pop node_deployment =
  nd_node :: node
  nd_identity :: "'pop public_node"
  nd_httpPort :: nat

definition target :: "('cid, 'pop) inventory \<Rightarrow> node \<Rightarrow> fleet_error + 'pop node_deployment" where
  "target iv n = rbind (assigned iv n) (\<lambda>g. Inr \<lparr>nd_node = n, nd_identity = g,
     nd_httpPort = (case inv_ports iv (Number n) of None \<Rightarrow> 0 | Some (http, _) \<Rightarrow> http)\<rparr>)"

definition l1_nodes :: "('cid, 'pop) inventory \<Rightarrow> node list" where
  "l1_nodes iv = filter (\<lambda>n. Role n \<noteq> RolePChain) (inv_nodes iv)"

definition chain_of_node :: "node \<Rightarrow> string" where
  "chain_of_node n = effective_chain (Role n) (Chain n)"

definition l1_chain_for :: "('cid, 'pop) inventory \<Rightarrow> node \<Rightarrow> 'cid option" where
  "l1_chain_for iv n = inv_chainIDs iv (chain_of_node n)"

definition l1_subnet_for :: "('cid, 'pop) inventory \<Rightarrow> node \<Rightarrow> 'cid option" where
  "l1_subnet_for iv n = inv_subnetIDs iv (chain_of_node n)"

section \<open>Port lemmas\<close>

text \<open>The rank of a node among the nodes of its host.\<close>

definition host_rank :: "node list \<Rightarrow> nat \<Rightarrow> nat" where
  "host_rank nodes i = length (filter (\<lambda>m. Host m = Host (nodes ! i)) (take i nodes))"

lemma port_fold:
  "foldl port_step (Map.empty, Map.empty) nodes = (occ, res) \<Longrightarrow>
   (\<forall>h. read_nat occ h = length (filter (\<lambda>m. Host m = h) nodes))"
proof (induction nodes arbitrary: occ res rule: rev_induct)
  case Nil
  then show ?case by auto
next
  case (snoc n nodes)
  obtain o' r' where f: "foldl port_step (Map.empty, Map.empty) nodes = (o', r')" by fastforce
  then have "port_step (o', r') n = (occ, res)" using snoc.prems by simp
  then have occ: "occ = o'(Host n \<mapsto> read_nat o' (Host n) + 1)" by (simp add: port_step_def Let_def)
  have "read_nat occ h = (if h = Host n then read_nat o' (Host n) + 1 else read_nat o' h)" for h
    by (simp only: occ read_nat_upd)
  with snoc.IH [OF f] show ?case by simp
qed

lemma ports_by_node_snoc:
  "ports_by_node (nodes @ [n]) = (ports_by_node nodes)(Number n \<mapsto>
     (9650 + 2 * length (filter (\<lambda>m. Host m = Host n) nodes),
      9651 + 2 * length (filter (\<lambda>m. Host m = Host n) nodes)))"
proof -
  obtain occ res where f: "foldl port_step (Map.empty, Map.empty) nodes = (occ, res)" by fastforce
  with port_fold [OF f] show ?thesis by (simp add: ports_by_node_def port_step_def Let_def)
qed

lemma ports_by_node_nth:
  assumes "distinct (map Number nodes)" "i < length nodes"
  shows "ports_by_node nodes (Number (nodes ! i)) =
    Some (9650 + 2 * host_rank nodes i, 9651 + 2 * host_rank nodes i)"
  using assms
proof (induction nodes rule: rev_induct)
  case (snoc n nodes)
  show ?case
  proof (cases "i < length nodes")
    case True
    then have "Number (nodes ! i) \<in> Number ` set nodes" by simp
    with snoc.prems have "Number (nodes ! i) \<noteq> Number n" by auto
    with True snoc show ?thesis by (simp add: ports_by_node_snoc nth_append host_rank_def)
  next
    case False
    with snoc.prems have "i = length nodes" by simp
    then show ?thesis by (simp add: ports_by_node_snoc host_rank_def)
  qed
qed simp

lemma host_rank_strict:
  assumes "i < j" "j < length nodes" "Host (nodes ! i) = Host (nodes ! j)"
  shows "host_rank nodes i < host_rank nodes j"
proof -
  have "take j nodes = take (Suc i) (take j nodes) @ drop (Suc i) (take j nodes)"
    by (rule append_take_drop_id [symmetric])
  also have "take (Suc i) (take j nodes) = take i nodes @ [nodes ! i]"
    using assms(1,2) by (simp add: take_Suc_conv_app_nth)
  finally have "take j nodes = take i nodes @ [nodes ! i] @ drop (Suc i) (take j nodes)" by simp
  then have "filter P (take j nodes) =
      filter P (take i nodes) @ filter P [nodes ! i] @ filter P (drop (Suc i) (take j nodes))" for P
    by (metis filter_append)
  then show ?thesis using assms(3) by (simp add: host_rank_def)
qed

lemma ports_in_range:
  assumes "distinct (map Number nodes)" "n \<in> set nodes"
  obtains i where "i < length nodes" "nodes ! i = n"
    "ports_by_node nodes (Number n) = Some (9650 + 2 * host_rank nodes i, 9651 + 2 * host_rank nodes i)"
  using assms ports_by_node_nth [of nodes] by (metis in_set_conv_nth)

text \<open>C39: two machines of the inventory on the same host never share a port: every node has an
  HTTP port and the staking port above it, and the two pairs of different nodes are disjoint.\<close>

theorem ports_disjoint:
  assumes "distinct (map Number nodes)" "n \<in> set nodes" "m \<in> set nodes" "n \<noteq> m" "Host n = Host m"
  shows "\<exists>p q. ports_by_node nodes (Number n) = Some (p, p + 1) \<and>
    ports_by_node nodes (Number m) = Some (q, q + 1) \<and> {p, p + 1} \<inter> {q, q + 1} = {}"
proof -
  from ports_in_range [OF assms(1,2)] obtain i where i: "i < length nodes" "nodes ! i = n"
    "ports_by_node nodes (Number n) = Some (9650 + 2 * host_rank nodes i, 9651 + 2 * host_rank nodes i)" .
  from ports_in_range [OF assms(1,3)] obtain j where j: "j < length nodes" "nodes ! j = m"
    "ports_by_node nodes (Number m) = Some (9650 + 2 * host_rank nodes j, 9651 + 2 * host_rank nodes j)" .
  have "i \<noteq> j" using i(2) j(2) assms(4) by auto
  then have "host_rank nodes i < host_rank nodes j \<or> host_rank nodes j < host_rank nodes i"
    using host_rank_strict [of i j nodes] host_rank_strict [of j i nodes] i j assms(5) by (auto simp: neq_iff)
  then have "9650 + 2 * host_rank nodes i + 1 < 9650 + 2 * host_rank nodes j \<or>
      9650 + 2 * host_rank nodes j + 1 < 9650 + 2 * host_rank nodes i" by linarith
  then show ?thesis unfolding i(3) j(3) by auto
qed

theorem ports_disjoint_witness:
  "ports_by_node sample_nodes 2 = Some (9650, 9651) \<and> ports_by_node sample_nodes 3 = Some (9652, 9653) \<and>
   (\<exists>p q. ports_by_node sample_nodes 2 = Some (p, p + 1) \<and> ports_by_node sample_nodes 3 = Some (q, q + 1) \<and>
      {p, p + 1} \<inter> {q, q + 1} = {})"
  using ports_disjoint [of sample_nodes "sample_nodes ! 1" "sample_nodes ! 2"]
  by (simp add: sample_nodes_def ports_by_node_def port_step_def Let_def)

section \<open>What a loaded inventory guarantees\<close>

definition iv_ok :: "('id, 'pop) platform \<Rightarrow> ('cid, 'pop) inventory \<Rightarrow> bool" where
  "iv_ok env iv \<longleftrightarrow> inventory_ok (inv_nodes iv) \<and> manifest_ok env (inv_public iv) \<and>
     placement_ok (inv_placement iv) (inv_public iv) (inv_nodes iv) \<and>
     inv_identities iv = index_by pn_Identity id (Nodes (inv_public iv)) \<and>
     inv_ports iv = ports_by_node (inv_nodes iv) \<and> inv_chains iv = chains_of (inv_nodes iv) \<and>
     inv_pchain iv = find (\<lambda>n. Role n = RolePChain) (inv_nodes iv) \<and>
     (inv_created iv \<longrightarrow> (\<forall>c \<in> set (inv_chains iv). inv_chainIDs iv c \<noteq> None \<and> inv_subnetIDs iv c \<noteq> None))"

lemma map_sum_Inr [simp]: "map_sum f id m = Inr x \<longleftrightarrow> m = Inr x"
  by (cases m) auto

lemma base_inventory_ok:
  "inventory_ok nodes \<Longrightarrow> manifest_ok env p \<Longrightarrow> placement_ok current p nodes \<Longrightarrow>
   iv_ok env (base_inventory fe nodes p current)"
  by (simp add: iv_ok_def base_inventory_def)

lemma chain_ids_steps:
  "each (chain_ids_step codec state) acc cs = Inr (ci, si) \<Longrightarrow>
   dom ci = dom (fst acc) \<union> set cs \<and> dom si = dom (snd acc) \<union> set cs"
proof (induction cs arbitrary: acc)
  case (Cons c cs)
  then obtain a where a: "chain_ids_step codec state acc c = Inr a"
    and rest: "each (chain_ids_step codec state) a cs = Inr (ci, si)" by auto
  from a obtain x y where "a = ((fst acc)(c \<mapsto> x), (snd acc)(c \<mapsto> y))"
    by (auto simp: chain_ids_step_def)
  then have "dom (fst a) = insert c (dom (fst acc))" "dom (snd a) = insert c (dom (snd acc))" by simp_all
  with Cons.IH [OF rest] show ?case by simp
qed auto

lemma complete_inventory_ok:
  assumes "complete_inventory codec read iv = Inr iv'" "iv_ok env iv"
  shows "iv_ok env iv'"
proof (cases "iv' = iv")
  case False
  with assms(1) obtain kvs ci si m where
    run: "each (chain_ids_step codec (map_of kvs)) (Map.empty, Map.empty) (inv_chains iv) = Inr (ci, si)"
    and iv': "iv' = iv\<lparr>inv_created := True, inv_chainIDs := ci, inv_subnetIDs := si, inv_managerSubnetID := Some m\<rparr>"
    by (auto simp: complete_inventory_def Let_def split: option.splits sum.splits if_splits)
  from chain_ids_steps [OF run] have "ci c \<noteq> None \<and> si c \<noteq> None" if "c \<in> set (inv_chains iv)" for c
    using that by (auto simp: dom_def set_eq_iff)
  with assms(2) show ?thesis by (simp add: iv_ok_def iv')
qed (use assms(2) in simp)

lemma load_inventory_ok:
  assumes "load_inventory libs codec files = Inr iv"
  shows "iv_ok (lib_platform libs) iv"
proof -
  from assms obtain env nodes p current where
    fleet: "load_fleet libs files = Inr (env, nodes)" and p: "public_file libs files = Inr p"
    and pl: "validate_placement current p nodes = Inr ()"
    and fin: "complete_inventory codec (file_state files) (base_inventory env nodes p current) = Inr iv"
    by (auto simp: load_inventory_def)
  from fleet have "inventory_ok nodes"
    by (auto simp: load_fleet_def split: if_splits dest: load_nodes_ok)
  moreover have "manifest_ok (lib_platform libs) p"
    using p by (auto simp: public_file_def load_public_def Let_def split: option.splits dest: validate_public_sound)
  ultimately show ?thesis
    using pl complete_inventory_ok [OF fin base_inventory_ok] by (simp add: validate_placement_iff)
qed

lemma index_by_via: "index_by key f xs k = map_option f (index_by key id xs k)"
  by (induction xs rule: rev_induct) auto

lemma index_by_id_Some: "index_by key id xs k = Some x \<Longrightarrow> x \<in> set xs \<and> key x = k"
  by (auto dest: index_by_Some)

lemma assigned_ok:
  assumes "iv_ok env iv" "n \<in> set (inv_nodes iv)"
  obtains g where "assigned iv n = Inr g" "g \<in> set (Nodes (inv_public iv))"
    "map_of (inv_placement iv) (Number n) = Some (pn_Identity g)"
    "pn_Role g = Role n" "chain_name g = chain_of_node n" "Role n \<noteq> RoleValidator \<Longrightarrow> pn_Node g = Number n"
proof -
  from assms have "assignment_ok (inv_placement iv) (inv_public iv) n"
    by (simp add: iv_ok_def placement_ok_def)
  then obtain l where l: "map_of (inv_placement iv) (Number n) = Some l"
    "identity_roles (inv_public iv) l = Some (Role n)"
    "read_str (identity_chains (inv_public iv)) l = chain_of_node n"
    "Role n \<noteq> RoleValidator \<Longrightarrow> home_of (inv_public iv) l = Number n"
    by (auto simp: assignment_ok_def chain_of_node_def)
  from l(2) obtain g where g: "index_by pn_Identity id (Nodes (inv_public iv)) l = Some g" "pn_Role g = Role n"
    by (auto simp: identity_roles_def index_by_via [of pn_Identity pn_Role])
  have "chain_name g = chain_of_node n"
    using l(3) g(1) by (simp add: identity_chains_def read_str_def index_by_via [of pn_Identity chain_name])
  moreover have "Role n \<noteq> RoleValidator \<Longrightarrow> pn_Node g = Number n"
    using l(4) g(1) by (simp add: home_of_def identity_homes_def index_by_via [of pn_Identity pn_Node])
  moreover have "assigned iv n = Inr g"
    using l(1) g(1) assms(1) by (simp add: assigned_def iv_ok_def)
  ultimately show ?thesis using that l(1) g index_by_id_Some [OF g(1)] by blast
qed

lemma target_ok:
  assumes "iv_ok env iv" "n \<in> set (inv_nodes iv)"
  obtains t where "target iv n = Inr t" "nd_node t = n" "assigned iv n = Inr (nd_identity t)"
    "\<exists>i. ports_by_node (inv_nodes iv) (Number n) = Some (nd_httpPort t, i)"
proof -
  from assigned_ok [OF assms] obtain g where g: "assigned iv n = Inr g" by blast
  have "distinct (map Number (inv_nodes iv))"
    using assms(1) by (simp add: iv_ok_def inventory_ok_def strict_sorted_iff)
  from ports_in_range [OF this assms(2)] obtain p q where "ports_by_node (inv_nodes iv) (Number n) = Some (p, q)"
    by blast
  moreover have "inv_ports iv = ports_by_node (inv_nodes iv)" using assms(1) by (simp add: iv_ok_def)
  ultimately show ?thesis using g
    by (intro that [of "\<lparr>nd_node = n, nd_identity = g, nd_httpPort = p\<rparr>"]) (simp_all add: target_def)
qed

lemma assigned_distinct:
  assumes ok: "iv_ok env iv" and nm: "n \<in> set (inv_nodes iv)" "m \<in> set (inv_nodes iv)" "n \<noteq> m"
    and a: "assigned iv n = Inr g" "assigned iv m = Inr h"
  shows "id_parse env (pn_NodeID g) \<noteq> id_parse env (pn_NodeID h)"
proof -
  from assigned_ok [OF ok nm(1)] a(1) have g: "g \<in> set (Nodes (inv_public iv))"
    "map_of (inv_placement iv) (Number n) = Some (pn_Identity g)" by auto
  from assigned_ok [OF ok nm(2)] a(2) have h: "h \<in> set (Nodes (inv_public iv))"
    "map_of (inv_placement iv) (Number m) = Some (pn_Identity h)" by auto
  have "distinct (map (\<lambda>n. map_of (inv_placement iv) (Number n)) (inv_nodes iv))"
    using ok by (simp add: iv_ok_def placement_ok_def)
  with nm have "map_of (inv_placement iv) (Number n) \<noteq> map_of (inv_placement iv) (Number m)"
    by (auto simp: distinct_map inj_on_def)
  with g h have "g \<noteq> h" by auto
  moreover have "distinct (map (id_parse env) (map pn_NodeID (Nodes (inv_public iv))))"
    using ok by (simp add: iv_ok_def manifest_ok_def)
  ultimately show ?thesis using g(1) h(1) by (auto simp: distinct_map inj_on_def)
qed

end
