(* ===== verification/Remote_Layout.thy ===== *)
theory Remote_Layout
  imports Fleet_Inventory "HOL-Library.Sublist"
begin

text \<open>
  Where an installation lives on the remote machines and how its processes are found,
  \<^verbatim>\<open>internal/fleet/layout.go\<close>: the two layouts, the per-node paths, and the patterns the stop
  and kill commands hand to \<^verbatim>\<open>pgrep\<close> and \<^verbatim>\<open>pkill\<close>. \<^verbatim>\<open>regexp.QuoteMeta\<close> and \<^verbatim>\<open>filepath.Join\<close>
  are written out. \<open>ere_literal\<close> reads the patterns that stand for one fixed text (ordinary
  characters, escaped ones, one-character brackets); it is how the lemmas state what a pattern
  finds. The shell text around the patterns is not modelled.
\<close>

section \<open>Paths\<close>

definition clean_step :: "bool \<Rightarrow> string list \<Rightarrow> string \<Rightarrow> string list" where
  "clean_step rooted stack c =
    (if c = [] \<or> c = ''.'' then stack
     else if c = ''..'' then
       (if stack \<noteq> [] \<and> last stack \<noteq> ''..'' then butlast stack
        else if rooted then stack else stack @ [c])
     else stack @ [c])"

definition path_clean :: "string \<Rightarrow> string" where
  "path_clean s = (if s = [] then ''.'' else
     let rooted = (hd s = CHR ''/'');
         body = join_with ''/'' (foldl (clean_step rooted) [] (go_split (CHR ''/'') s))
     in if rooted then CHR ''/'' # body else if body = [] then ''.'' else body)"

definition path_join :: "string list \<Rightarrow> string" where
  "path_join parts = (case filter (\<lambda>p. p \<noteq> []) parts of [] \<Rightarrow> []
     | ps \<Rightarrow> path_clean (join_with ''/'' ps))"

section \<open>The layout\<close>

record layout =
  pkg :: string
  cfg :: string
  data :: string
  user :: bool

definition trim_slashes :: "string \<Rightarrow> string" where
  "trim_slashes s = trim_right (\<lambda>c. c = CHR ''/'') s"

definition layout_for :: "fleet_environment \<Rightarrow> layout" where
  "layout_for env =
    (if SystemInstall env then \<lparr>pkg = ''/opt/avalanche-benchmark'', cfg = ''/etc/avalanche-benchmark'',
         data = ''/var/lib/avalanche-benchmark'', user = False\<rparr>
     else let trimmed = trim_slashes (RemoteDir env);
              root = (if trimmed = [] then ''/home/'' @ fleet_SSHUser env @ ''/avalanche-benchmark'' else trimmed);
              d = (if RemoteDataDir env = [] then root @ ''/data'' else RemoteDataDir env)
          in \<lparr>pkg = root @ ''/pkg'', cfg = root @ ''/config'', data = trim_slashes d, user = True\<rparr>)"

definition sudo :: "layout \<Rightarrow> string \<Rightarrow> string" where
  "sudo l command = (if user l then command else ''sudo '' @ command)"

definition pid_file :: "layout \<Rightarrow> int \<Rightarrow> string" where
  "pid_file l number = cfg l @ ''/'' @ itoa number @ ''/avalanchego.pid''"

definition run_script :: "layout \<Rightarrow> int \<Rightarrow> string" where
  "run_script l number = cfg l @ ''/'' @ itoa number @ ''/run.sh''"

definition regexp_special :: "char \<Rightarrow> bool" where
  "regexp_special c \<longleftrightarrow> c \<in> {CHR 0x5C, CHR ''.'', CHR ''+'', CHR ''*'', CHR ''?'', CHR ''('', CHR '')'',
     CHR ''|'', CHR ''['', CHR '']'', CHR ''{'', CHR ''}'', CHR ''^'', CHR ''$''}"

definition pattern_quote :: "string \<Rightarrow> string" where
  "pattern_quote s = concat (map (\<lambda>c. if regexp_special c then [CHR 0x5C, c] else [c]) s)"

definition process_pattern :: "layout \<Rightarrow> int \<Rightarrow> string" where
  "process_pattern l number = pattern_quote (cfg l) @ ''/'' @ itoa number @ ''/[n]ode'' @ [CHR 0x5C] @ ''.json''"

definition plugin_pattern :: "layout \<Rightarrow> int \<Rightarrow> string" where
  "plugin_pattern l number = pattern_quote (pkg l) @ ''/'' @ itoa number @ ''/[p]lugins/''"

definition service_name :: "int \<Rightarrow> string" where
  "service_name number = ''avalanche-benchmark-node-'' @ itoa number @ ''.service''"

definition staging_dir :: "string \<Rightarrow> int \<Rightarrow> string \<Rightarrow> string" where
  "staging_dir login number purpose = ''/tmp/avalanche-benchmark-'' @ login @ ''-'' @ itoa number @ ''-'' @ purpose"

text \<open>The command lines the node process is started with: by \<^verbatim>\<open>run.sh\<close> in a user install, by the
  systemd unit otherwise.\<close>

definition start_line :: "layout \<Rightarrow> int \<Rightarrow> string" where
  "start_line l number = path_join [pkg l, itoa number] @ ''/bin/avalanchego --config-file='' @
     (if user l then path_join [cfg l, itoa number] else cfg l @ ''/'' @ itoa number) @ ''/node.json''"

section \<open>What a pattern finds\<close>

fun ere_literal :: "string \<Rightarrow> string option" where
  "ere_literal [] = Some []"
| "ere_literal (c # cs) =
    (if c = CHR 0x5C then (case cs of [] \<Rightarrow> None
       | d # ds \<Rightarrow> if regexp_special d then map_option ((#) d) (ere_literal ds) else None)
     else if c = CHR ''['' then (case cs of
         d # e # es \<Rightarrow> if e = CHR '']'' \<and> d \<noteq> CHR ''^'' \<and> d \<noteq> CHR '']'' then map_option ((#) d) (ere_literal es) else None
       | _ \<Rightarrow> None)
     else if regexp_special c then None
     else map_option ((#) c) (ere_literal cs))"

definition finds :: "string \<Rightarrow> string \<Rightarrow> bool" where
  "finds pattern line \<longleftrightarrow> (case ere_literal pattern of None \<Rightarrow> False | Some t \<Rightarrow> sublist t line)"

definition own_config :: "layout \<Rightarrow> int \<Rightarrow> string" where
  "own_config l number = cfg l @ ''/'' @ itoa number @ ''/node.json''"

lemma ere_literal_quote:
  "ere_literal (pattern_quote s @ rest) = map_option ((@) s) (ere_literal rest)"
proof (induction s)
  case Nil
  then show ?case by (cases "ere_literal rest") (simp_all add: pattern_quote_def)
next
  case (Cons c s)
  then show ?case
    by (cases "ere_literal rest") (auto simp: pattern_quote_def regexp_special_def)
qed

definition plain :: "char \<Rightarrow> bool" where
  "plain c \<longleftrightarrow> \<not> regexp_special c"

lemma ere_literal_plain:
  "list_all plain s \<Longrightarrow> ere_literal (s @ rest) = map_option ((@) s) (ere_literal rest)"
proof (induction s)
  case Nil
  then show ?case by (cases "ere_literal rest") simp_all
next
  case (Cons c s)
  then have "c \<noteq> CHR 0x5C" "c \<noteq> CHR ''[''" "\<not> regexp_special c" by (auto simp: plain_def regexp_special_def)
  with Cons show ?case by (cases "ere_literal rest") auto
qed

lemma digit_plain: "is_digit c \<Longrightarrow> plain c"
  by (auto simp: plain_def regexp_special_def is_digit_of_char)

lemma itoa_plain: "list_all plain (itoa n)"
proof -
  have "list_all plain (itoa_nat k)" for k
    using itoa_nat_digits [of k] digit_plain by (auto simp: list_all_iff)
  then show ?thesis by (simp add: itoa_def plain_def regexp_special_def)
qed

lemma process_literal: "ere_literal (process_pattern l n) = Some (own_config l n)"
proof -
  have e: "ere_literal (''/[n]ode'' @ [CHR 0x5C] @ ''.json'') = Some ''/node.json''"
    by (simp add: regexp_special_def)
  have s: "list_all plain (''/'')" by (simp add: plain_def regexp_special_def)
  show ?thesis
    unfolding process_pattern_def ere_literal_quote ere_literal_plain [OF s] ere_literal_plain [OF itoa_plain] e
    by (simp add: own_config_def)
qed










text \<open>The search is not anchored at the start of the path, so the pattern of an installation also
  finds the nodes of an installation under a directory that ends in its path.\<close>

definition env_at :: "string \<Rightarrow> fleet_environment" where
  "env_at dir = \<lparr>fleet_Network = ''fuji'', fleet_SSHUser = ''ubuntu'', fleet_SSHKeyPath = ''key'',
     RemoteDir = dir, RemoteDataDir = [], SystemInstall = False\<rparr>"

lemmas layout_eval = layout_for_def env_at_def trim_slashes_def trim_right_def path_join_def path_clean_def
  clean_step_def go_split_def itoa_def digit_char_def join_with.simps char_of_def

lemma srv_layouts:
  "cfg (layout_for (env_at ''/srv'')) = ''/srv/config'' \<and> user (layout_for (env_at ''/srv''))"
  "cfg (layout_for (env_at ''/mnt/srv'')) = ''/mnt/srv/config'' \<and> user (layout_for (env_at ''/mnt/srv''))"
  by (simp_all add: layout_eval)

lemma one_digit: "itoa 1 = ''1''"
proof -
  have "digit_char 1 = CHR ''1''" by code_simp
  then show ?thesis by (simp add: itoa_def itoa_nat.simps)
qed

lemma clean_join_example:
  "path_join [''/srv/config'', ''1''] = ''/srv/config/1''"
  "path_join [''/mnt/srv/config'', ''1''] = ''/mnt/srv/config/1''"
  by (simp_all add: layout_eval)

lemma install_patterns_collide:
  "finds (process_pattern (layout_for (env_at ''/srv'')) 1) (start_line (layout_for (env_at ''/mnt/srv'')) 1)"
proof -
  have "start_line (layout_for (env_at ''/mnt/srv'')) 1 =
      (path_join [pkg (layout_for (env_at ''/mnt/srv'')), ''1''] @ ''/bin/avalanchego --config-file=/mnt'') @
      ''/srv/config/1/node.json''"
    by (simp add: start_line_def srv_layouts one_digit clean_join_example)
  then have "sublist ''/srv/config/1/node.json'' (start_line (layout_for (env_at ''/mnt/srv'')) 1)"
    by (simp only: sublist_append_leftI)
  then show ?thesis by (simp add: finds_def process_literal own_config_def srv_layouts one_digit)
qed


end
