(* ===== verification/Fleet_Place.thy ===== *)
theory Fleet_Place
  imports Fleet_Inventory
begin

text \<open>
  Moving identities, \<^verbatim>\<open>internal/fleet/place.go\<close>, and the start decision of
  \<^verbatim>\<open>internal/fleet/lifecycle.go\<close>: \<open>plan_place\<close> computes the next placement, \<open>plan_apply\<close>
  and \<open>plan_start\<close> decide which machines restart from what was observed of them.
  The lemmas show that a planned move is a swap that stays valid and is undone by the
  opposite move, that it changes no identity of any other machine, and that applying a
  placement restarts exactly the machines that do not serve it.
\<close>

section \<open>Planning a move\<close>

datatype place_error =
    PlaceName index_error
  | PlaceUnknownIdentity string
  | PlaceNotMovable string role
  | PlaceUnknownNode int
  | PlaceNotValidatorMachine int role
  | PlaceAcrossChains string string int string
  | PlaceNotPlaced string
  | PlaceUnassigned int

datatype move = AlreadyThere string int | Moved string int int

definition plan_place ::
  "('cid, 'pop) inventory \<Rightarrow> string \<Rightarrow> int \<Rightarrow> place_error + placement \<times> move list" where
  "plan_place iv l number =
    rbind (map_sum PlaceName id (identity_index l)) (\<lambda>_.
    case inv_identities iv l of
      None \<Rightarrow> Inl (PlaceUnknownIdentity l)
    | Some generated \<Rightarrow>
      if pn_Role generated \<noteq> RoleValidator then Inl (PlaceNotMovable l (pn_Role generated))
      else case find (\<lambda>n. Number n = number) (inv_nodes iv) of
          None \<Rightarrow> Inl (PlaceUnknownNode number)
        | Some machine \<Rightarrow>
          if Role machine \<noteq> RoleValidator then Inl (PlaceNotValidatorMachine number (Role machine))
          else if chain_name generated \<noteq> chain_of_node machine
            then Inl (PlaceAcrossChains l (chain_name generated) number (chain_of_node machine))
          else case node_of (inv_placement iv) l of
              None \<Rightarrow> Inl (PlaceNotPlaced l)
            | Some source \<Rightarrow> (case map_of (inv_placement iv) number of
                None \<Rightarrow> Inl (PlaceUnassigned number)
              | Some displaced \<Rightarrow>
                  if source = number then Inr (inv_placement iv, [AlreadyThere l number])
                  else Inr (AList.update source displaced (AList.update number l (inv_placement iv)),
                            [Moved l source number, Moved displaced number source])))"

section \<open>Applying a placement\<close>

record placement_probe =
  probe_active :: bool
  probe_enabled :: bool
  probe_nodeID :: string

datatype apply_note = Runs int string string | EnabledNotRunning int string | LeftDown int

datatype apply_error = NotProbed int | NoRuntimeID int | ApplyFleet fleet_error

definition apply_step ::
  "('cid, 'pop) inventory \<Rightarrow> (int \<rightharpoonup> placement_probe) \<Rightarrow> node list \<times> apply_note list \<Rightarrow> node
   \<Rightarrow> apply_error + node list \<times> apply_note list" where
  "apply_step iv probes acc n = (let (restart, notes) = acc in
    case probes (Number n) of
      None \<Rightarrow> Inl (NotProbed (Number n))
    | Some probe \<Rightarrow>
      rbind (map_sum ApplyFleet id (assigned iv n)) (\<lambda>g.
        if probe_active probe \<and> probe_nodeID probe = [] then Inl (NoRuntimeID (Number n))
        else if probe_active probe \<and> probe_nodeID probe = pn_NodeID g then Inr (restart, notes)
        else if probe_active probe then
          Inr (restart @ [n], notes @ [Runs (Number n) (probe_nodeID probe) (pn_Identity g)])
        else if probe_enabled probe then
          Inr (restart @ [n], notes @ [EnabledNotRunning (Number n) (pn_Identity g)])
        else Inr (restart, notes @ [LeftDown (Number n)])))"

definition plan_apply ::
  "('cid, 'pop) inventory \<Rightarrow> node list \<Rightarrow> (int \<rightharpoonup> placement_probe)
   \<Rightarrow> apply_error + node list \<times> apply_note list" where
  "plan_apply iv nodes probes = each (apply_step iv probes) ([], []) nodes"

text \<open>\<^verbatim>\<open>probePlacement\<close>: the words of the service probe and, when active, the runtime answer.\<close>

definition parse_probe :: "string \<Rightarrow> string option \<Rightarrow> placement_probe option" where
  "parse_probe answer runtime = (let fields = go_fields answer;
      active = (fields \<noteq> [] \<and> fields ! 0 = ''active'');
      enabled = (1 < length fields \<and> fields ! 1 = ''enabled'')
    in if \<not> active then Some \<lparr>probe_active = False, probe_enabled = enabled, probe_nodeID = []\<rparr>
       else case runtime of None \<Rightarrow> None
         | Some i \<Rightarrow> if i = [] then None
             else Some \<lparr>probe_active = True, probe_enabled = enabled, probe_nodeID = i\<rparr>)"

datatype start_note = AlreadyServes int string | NoAnswer int string | ServesOther int string string

definition plan_start :: "'pop node_deployment \<Rightarrow> bool \<Rightarrow> string \<Rightarrow> bool \<times> start_note option" where
  "plan_start t active runtime =
    (if active \<and> runtime = pn_NodeID (nd_identity t)
       then (False, Some (AlreadyServes (Number (nd_node t)) (pn_Identity (nd_identity t))))
     else if active \<and> runtime = []
       then (True, Some (NoAnswer (Number (nd_node t)) (pn_Identity (nd_identity t))))
     else if active
       then (True, Some (ServesOther (Number (nd_node t)) runtime (pn_Identity (nd_identity t))))
     else (True, None))"

section \<open>A planned move is a valid swap\<close>

text \<open>For a placement without duplicate letters the machine of a letter does not depend on the
  order in which Go iterates the map.\<close>

definition placed_once :: "placement \<Rightarrow> bool" where
  "placed_once pl \<longleftrightarrow> distinct (map fst pl) \<and> distinct (map snd pl)"

lemma node_of_iff:
  assumes "placed_once pl"
  shows "node_of pl l = Some k \<longleftrightarrow> map_of pl k = Some l"
proof
  assume "node_of pl l = Some k"
  then obtain x where "find (\<lambda>(_, a). a = l) pl = Some x" "fst x = k" by (auto simp: node_of_def)
  then have "(k, l) \<in> set pl" by (cases x) (auto simp: find_Some_iff in_set_conv_nth)
  with assms show "map_of pl k = Some l" by (simp add: placed_once_def)
next
  assume "map_of pl k = Some l"
  then have mem: "(k, l) \<in> set pl" by (rule map_of_SomeD)
  then obtain x where x: "find (\<lambda>(_, a). a = l) pl = Some x"
    by (cases "find (\<lambda>(_, a). a = l) pl") (auto simp: find_None_iff)
  then have "x \<in> set pl" "snd x = l" by (auto simp: find_Some_iff in_set_conv_nth)
  with mem assms have "x = (k, l)" by (auto simp: placed_once_def distinct_map inj_on_def)
  with x show "node_of pl l = Some k" by (simp add: node_of_def)
qed

definition swap_numbers :: "int \<Rightarrow> int \<Rightarrow> int \<Rightarrow> int" where
  "swap_numbers a b k = (if k = a then b else if k = b then a else k)"

lemma map_of_swapped:
  assumes "map_of pl s = Some l" "map_of pl t = Some d"
  shows "map_of (AList.update s d (AList.update t l pl)) k = map_of pl (swap_numbers s t k)"
  using assms by (simp add: update_conv' swap_numbers_def)

lemma placement_placed_once:
  assumes "placement_ok pl p nodes" "distinct (map fst pl)" "distinct (map Number nodes)"
  shows "placed_once pl" and "set (map fst pl) = Number ` set nodes"
proof -
  have some: "\<exists>l. map_of pl (Number n) = Some l" if "n \<in> set nodes" for n
    using that assms(1) by (auto simp: placement_ok_def assignment_ok_def)
  have sub: "Number ` set nodes \<subseteq> set (map fst pl)"
    using some by (force dest: map_of_SomeD)
  have "card (Number ` set nodes) = length nodes"
    using distinct_card [OF assms(3)] by simp
  moreover have "card (set (map fst pl)) = length nodes"
    using distinct_card [OF assms(2)] assms(1) by (simp add: placement_ok_def)
  ultimately show keys: "set (map fst pl) = Number ` set nodes"
    using card_subset_eq [OF _ sub] by simp
  have "distinct (map snd pl)"
  proof -
    have inj: "inj_on (\<lambda>n. map_of pl (Number n)) (set nodes)"
      using assms(1) by (simp add: placement_ok_def distinct_map)
    have "snd x \<noteq> snd y" if xy: "x \<in> set pl" "y \<in> set pl" "x \<noteq> y" for x y
    proof
      assume eq: "snd x = snd y"
      have "fst x \<in> set (map fst pl)" "fst y \<in> set (map fst pl)" using xy(1,2) by simp_all
      then obtain n m where nm: "n \<in> set nodes" "m \<in> set nodes" "fst x = Number n" "fst y = Number m"
        unfolding keys by blast
      have "map_of pl (fst x) = Some (snd x)" "map_of pl (fst y) = Some (snd y)"
        using xy(1,2) assms(2) by (simp_all add: map_of_is_SomeI)
      with inj nm eq have "n = m" by (auto simp: inj_on_def)
      with nm eq xy(3) show False by (auto intro: prod_eqI)
    qed
    moreover have "distinct pl" using assms(2) by (simp add: distinct_map)
    ultimately show ?thesis by (auto simp: distinct_map inj_on_def)
  qed
  with assms(2) show "placed_once pl" by (simp add: placed_once_def)
qed

lemma placed_inj: "placed_once pl \<Longrightarrow> map_of pl a = Some l \<Longrightarrow> map_of pl b = Some l \<Longrightarrow> a = b"
  by (metis node_of_iff option.inject)

definition place_ready :: "('id, 'pop) platform \<Rightarrow> ('cid, 'pop) inventory \<Rightarrow> bool" where
  "place_ready env iv \<longleftrightarrow> iv_ok env iv \<and> distinct (map fst (inv_placement iv)) \<and>
     length (Nodes (inv_public iv)) \<le> max_int"

lemma place_readyD:
  assumes "place_ready env iv"
  shows "placed_once (inv_placement iv)" "placement_ok (inv_placement iv) (inv_public iv) (inv_nodes iv)"
    "distinct (map Number (inv_nodes iv))" "set (map fst (inv_placement iv)) = Number ` set (inv_nodes iv)"
proof -
  from assms show ok: "placement_ok (inv_placement iv) (inv_public iv) (inv_nodes iv)"
    and num: "distinct (map Number (inv_nodes iv))"
    by (auto simp: place_ready_def iv_ok_def inventory_ok_def strict_sorted_iff)
  from assms have "distinct (map fst (inv_placement iv))" by (simp add: place_ready_def)
  from placement_placed_once [OF ok this num] show "placed_once (inv_placement iv)"
    "set (map fst (inv_placement iv)) = Number ` set (inv_nodes iv)" by auto
qed

text \<open>What the guards of the planner establish about a request it accepts.\<close>

lemma plan_place_cases:
  assumes "plan_place iv l number = Inr (next', moves)"
  obtains i generated machine source displaced where "identity_index l = Inr i"
    "inv_identities iv l = Some generated" "pn_Role generated = RoleValidator"
    "find (\<lambda>n. Number n = number) (inv_nodes iv) = Some machine" "Role machine = RoleValidator"
    "chain_name generated = chain_of_node machine" "node_of (inv_placement iv) l = Some source"
    "map_of (inv_placement iv) number = Some displaced"
    "next' = (if source = number then inv_placement iv
       else AList.update source displaced (AList.update number l (inv_placement iv)))"
  using assms by (auto simp: plan_place_def split: option.splits if_splits)

lemma update_keys_same: "k \<in> set (map fst al) \<Longrightarrow> map fst (AList.update k v al) = map fst al"
  by (simp add: update_keys)

lemma plan_place_lookup:
  assumes ready: "place_ready env iv" and plan: "plan_place iv l number = Inr (next', moves)"
  obtains source displaced where "map_of (inv_placement iv) source = Some l"
    "map_of (inv_placement iv) number = Some displaced"
    "\<And>k. map_of next' k = map_of (inv_placement iv) (swap_numbers source number k)"
    "map fst next' = map fst (inv_placement iv)"
  using plan
proof (rule plan_place_cases)
  let ?pl = "inv_placement iv"
  fix i generated machine source displaced
  assume src: "node_of ?pl l = Some source" and dis: "map_of ?pl number = Some displaced"
    and next': "next' = (if source = number then ?pl else AList.update source displaced (AList.update number l ?pl))"
  have s: "map_of ?pl source = Some l" using src node_of_iff [OF place_readyD(1) [OF ready]] by simp
  have look: "map_of next' k = map_of ?pl (swap_numbers source number k)" for k
    using map_of_swapped [OF s dis, of k] by (auto simp: next' swap_numbers_def)
  have mem: "number \<in> set (map fst ?pl)" "source \<in> set (map fst ?pl)"
    using s dis by (force dest: map_of_SomeD)+
  then have "map fst next' = map fst ?pl" by (simp add: next' update_keys_same)
  with s dis look show ?thesis by (rule that)
qed

lemma plan_place_valid:
  assumes ready: "place_ready env iv" and plan: "plan_place iv l number = Inr (next', moves)"
  shows "placement_ok next' (inv_public iv) (inv_nodes iv)"
proof -
  let ?pl = "inv_placement iv" and ?p = "inv_public iv"
  note r = place_readyD [OF ready]
  from plan_place_lookup [OF ready plan] obtain source displaced where
    s: "map_of ?pl source = Some l" and d: "map_of ?pl number = Some displaced"
    and look: "\<And>k. map_of next' k = map_of ?pl (swap_numbers source number k)"
    and keys: "map fst next' = map fst ?pl" by blast
  from plan obtain generated machine where g: "inv_identities iv l = Some generated"
    "pn_Role generated = RoleValidator" and m: "find (\<lambda>n. Number n = number) (inv_nodes iv) = Some machine"
    "Role machine = RoleValidator" and chain: "chain_name generated = chain_of_node machine"
    by (rule plan_place_cases)
  have mach: "machine \<in> set (inv_nodes iv)" "Number machine = number"
    using m(1) by (auto simp: find_Some_iff in_set_conv_nth)
  have id: "inv_identities iv = index_by pn_Identity id (Nodes ?p)"
    using ready by (simp add: place_ready_def iv_ok_def)
  have l_role: "identity_roles ?p l = Some RoleValidator" and l_chain: "read_str (identity_chains ?p) l = chain_of_node machine"
    using g chain unfolding id
    by (simp_all add: identity_roles_def identity_chains_def read_str_def index_by_via [of pn_Identity pn_Role]
        index_by_via [of pn_Identity chain_name])
  have ok: "assignment_ok ?pl ?p n" if "n \<in> set (inv_nodes iv)" for n
    using r(2) that by (simp add: placement_ok_def)
  have d_role: "identity_roles ?p displaced = Some RoleValidator"
    and d_chain: "read_str (identity_chains ?p) displaced = chain_of_node machine"
    using ok [OF mach(1)] d m(2) mach(2) by (auto simp: assignment_ok_def chain_of_node_def)
  have "assignment_ok next' ?p n" if n: "n \<in> set (inv_nodes iv)" for n
  proof -
    consider (src) "Number n = source" | (dst) "Number n = number" "Number n \<noteq> source"
      | (other) "Number n \<noteq> source" "Number n \<noteq> number" by blast
    then show ?thesis
    proof cases
      case src
      with ok [OF n] s l_role l_chain have "Role n = RoleValidator" "effective_chain (Role n) (Chain n) = chain_of_node machine"
        by (auto simp: assignment_ok_def)
      with src d d_role d_chain look [of "Number n"] show ?thesis
        by (auto simp: assignment_ok_def swap_numbers_def)
    next
      case dst
      then have "n = machine" using n mach r(3) by (auto simp: distinct_map inj_on_def)
      with dst s l_role l_chain m(2) look [of "Number n"] show ?thesis
        by (auto simp: assignment_ok_def swap_numbers_def chain_of_node_def)
    next
      case other
      with ok [OF n] look [of "Number n"] show ?thesis by (simp add: assignment_ok_def swap_numbers_def)
    qed
  qed
  moreover have "length next' = length (inv_nodes iv)"
    using arg_cong [OF keys, of length] r(2) by (simp add: placement_ok_def)
  moreover have "distinct (map (\<lambda>n. map_of next' (Number n)) (inv_nodes iv))"
  proof -
    have "n = n'" if n: "n \<in> set (inv_nodes iv)" "n' \<in> set (inv_nodes iv)"
      "map_of next' (Number n) = map_of next' (Number n')" for n n'
    proof -
      from n(1) \<open>\<And>n. n \<in> set (inv_nodes iv) \<Longrightarrow> assignment_ok next' ?p n\<close>
      obtain x where "map_of next' (Number n) = Some x" by (auto simp: assignment_ok_def)
      with n(3) look have "swap_numbers source number (Number n) = swap_numbers source number (Number n')"
        by (metis placed_inj [OF r(1)])
      then have "Number n = Number n'" by (auto simp: swap_numbers_def split: if_splits)
      with n(1,2) r(3) show ?thesis by (auto simp: distinct_map inj_on_def)
    qed
    moreover have "distinct (inv_nodes iv)" using r(3) by (simp add: distinct_map)
    ultimately show ?thesis by (auto simp: distinct_map inj_on_def)
  qed
  ultimately show ?thesis by (simp add: placement_ok_def)
qed


lemma place_ready_next:
  assumes "place_ready env iv" "plan_place iv l number = Inr (next', moves)"
  shows "place_ready env (iv\<lparr>inv_placement := next'\<rparr>)"
proof -
  from plan_place_lookup [OF assms] have "map fst next' = map fst (inv_placement iv)" by blast
  with assms(1) plan_place_valid [OF assms] show ?thesis by (simp add: place_ready_def iv_ok_def)
qed

text \<open>C12: an accepted move of an identity onto a machine is a swap within the placement: the two
  machines exchange their identities, every other machine keeps its own, and the result passes
  the placement check, so the check the command makes before writing never refuses it.\<close>

theorem plan_place_swaps:
  assumes "place_ready env iv" "plan_place iv l number = Inr (next', moves)"
  shows "(\<exists>source displaced. map_of (inv_placement iv) source = Some l \<and>
      map_of (inv_placement iv) number = Some displaced \<and> map_of next' number = Some l \<and>
      map_of next' source = Some displaced \<and>
      (\<forall>k. k \<noteq> source \<longrightarrow> k \<noteq> number \<longrightarrow> map_of next' k = map_of (inv_placement iv) k)) \<and>
    validate_placement next' (inv_public iv) (inv_nodes iv) = Inr ()"
proof -
  from plan_place_lookup [OF assms] obtain source displaced where
    "map_of (inv_placement iv) source = Some l" "map_of (inv_placement iv) number = Some displaced"
    "\<And>k. map_of next' k = map_of (inv_placement iv) (swap_numbers source number k)" by blast
  then have "\<exists>source displaced. map_of (inv_placement iv) source = Some l \<and>
      map_of (inv_placement iv) number = Some displaced \<and> map_of next' number = Some l \<and>
      map_of next' source = Some displaced \<and>
      (\<forall>k. k \<noteq> source \<longrightarrow> k \<noteq> number \<longrightarrow> map_of next' k = map_of (inv_placement iv) k)"
    by (intro exI [of _ source] exI [of _ displaced]) (auto simp: swap_numbers_def)
  with plan_place_valid [OF assms] show ?thesis by (simp add: validate_placement_iff)
qed

text \<open>The displaced identity can be moved back, which restores the placement.\<close>

lemma identity_letter_index:
  assumes "place_ready env iv" "inv_identities iv l = Some g"
  shows "\<exists>i. identity_index l = Inr i"
proof -
  from assms have m: "manifest_ok env (inv_public iv)" and len: "length (Nodes (inv_public iv)) \<le> max_int"
    and "index_by pn_Identity id (Nodes (inv_public iv)) l = Some g"
    by (auto simp: place_ready_def iv_ok_def)
  from index_by_id_Some [OF this(3)] have "l \<in> set (map pn_Identity (Nodes (inv_public iv)))" by auto
  with m obtain i where "i < length (Nodes (inv_public iv))" "l = identity_name i"
    by (auto simp: manifest_ok_def)
  with len letters.index_name [of i] show ?thesis by auto
qed

lemma plan_place_undo:
  assumes ready: "place_ready env iv" and plan: "plan_place iv l number = Inr (next', moves)"
    and d: "map_of (inv_placement iv) number = Some displaced"
  shows "\<exists>back moves'. plan_place (iv\<lparr>inv_placement := next'\<rparr>) displaced number = Inr (back, moves') \<and>
    map_of back = map_of (inv_placement iv)"
proof -
  let ?iv = "iv\<lparr>inv_placement := next'\<rparr>"
  note r = place_readyD [OF ready] and ready' = place_ready_next [OF ready plan]
  note r' = place_readyD [OF ready']
  from plan_place_lookup [OF ready plan] d obtain source where
    s: "map_of (inv_placement iv) source = Some l"
    and look: "\<And>k. map_of next' k = map_of (inv_placement iv) (swap_numbers source number k)" by auto
  from plan obtain machine where m: "find (\<lambda>n. Number n = number) (inv_nodes iv) = Some machine"
    "Role machine = RoleValidator" by (rule plan_place_cases)
  then have mach: "machine \<in> set (inv_nodes iv)" "Number machine = number"
    by (auto simp: find_Some_iff in_set_conv_nth)
  from ready have ok: "iv_ok env iv" by (simp add: place_ready_def)
  from assigned_ok [OF ok mach(1)] obtain g where g: "assigned iv machine = Inr g"
    "pn_Role g = RoleValidator" "chain_name g = chain_of_node machine" using m(2) by metis
  then have gid: "inv_identities iv displaced = Some g"
    using d mach(2) by (auto simp: assigned_def split: option.splits)
  obtain i where "identity_index displaced = Inr i" using identity_letter_index [OF ready gid] by blast
  moreover have "node_of next' displaced = Some source"
    using node_of_iff [of next' displaced source] r'(1) look [of source] d by (simp add: swap_numbers_def)
  moreover have "map_of next' number = Some l" using look [of number] s by (auto simp: swap_numbers_def)
  ultimately have p: "plan_place ?iv displaced number =
      Inr (if source = number then next' else AList.update source l (AList.update number displaced next'),
           if source = number then [AlreadyThere displaced number]
           else [Moved displaced source number, Moved l number source])"
    using gid g m by (simp add: plan_place_def)
  have "map_of (if source = number then next' else AList.update source l (AList.update number displaced next')) k =
      map_of (inv_placement iv) k" for k
    using look [of k] s d by (auto simp: update_conv' swap_numbers_def)
  with p show ?thesis by (auto simp: fun_eq_iff)
qed

section \<open>Applying restarts exactly the machines that serve something else\<close>

definition converged :: "('cid, 'pop) inventory \<Rightarrow> (int \<rightharpoonup> placement_probe) \<Rightarrow> node \<Rightarrow> bool" where
  "converged iv probes n \<longleftrightarrow> (case (probes (Number n), assigned iv n) of
      (Some probe, Inr g) \<Rightarrow> if probe_active probe then probe_nodeID probe = pn_NodeID g else \<not> probe_enabled probe
    | _ \<Rightarrow> False)"

lemma apply_steps:
  "each (apply_step iv probes) (r0, t0) ns = Inr (r, t) \<Longrightarrow>
   r = r0 @ filter (\<lambda>n. \<not> converged iv probes n) ns"
proof (induction ns arbitrary: r0 t0)
  case (Cons n ns)
  then obtain r1 t1 where step: "apply_step iv probes (r0, t0) n = Inr (r1, t1)"
    and rest: "each (apply_step iv probes) (r1, t1) ns = Inr (r, t)" by auto
  from step have "r1 = r0 @ (if converged iv probes n then [] else [n])"
    by (auto simp: apply_step_def converged_def split: option.splits if_splits)
  with Cons.IH [OF rest] show ?case by simp
qed simp

text \<open>what applying a placement restarts: exactly the probed machines that run another identity
  than the placement assigns, or are enabled but not running, in inventory order; a machine that
  serves its identity and a machine that was taken down deliberately are left alone.\<close>

theorem plan_apply_restarts:
  assumes "plan_apply iv ns probes = Inr (restart, nts)"
  shows "restart = filter (\<lambda>n. \<not> converged iv probes n) ns"
  using apply_steps [of iv probes "[]" "[]" ns restart nts] assms by (simp add: plan_apply_def)

text \<open>A machine that is up and serves its assigned identity is the only one left alone.\<close>

lemma plan_start_idempotent:
  "fst (plan_start t active runtime) = False \<longleftrightarrow> active \<and> runtime = pn_NodeID (nd_identity t)"
  by (simp add: plan_start_def)


section \<open>An example\<close>

definition sample_fleet_env :: fleet_environment where
  "sample_fleet_env = \<lparr>fleet_Network = ''fuji'', fleet_SSHUser = ''ubuntu'', fleet_SSHKeyPath = ''key'',
     RemoteDir = [], RemoteDataDir = [], SystemInstall = False\<rparr>"

definition sample_placement :: placement where
  "sample_placement = [(1, ''a''), (2, ''b''), (3, ''c''), (4, ''d''), (5, ''e''), (6, ''f'')]"

definition sample_iv :: "(nat, string) inventory" where
  "sample_iv = base_inventory sample_fleet_env sample_nodes sample_manifest sample_placement"

lemma sample_default: "default_placement sample_manifest = sample_placement"
  by (simp add: default_placement_def sample_manifest_def sample_node_def sample_placement_def)

lemma sample_describes: "describes sample_manifest sample_nodes"
  by (simp add: describes_def sample_manifest_def sample_node_def sample_nodes_def chain_name_def
      effective_chain_def main_chain_def)

lemma sample_iv_ready: "place_ready sample_env sample_iv"
proof -
  have "placement_ok sample_placement sample_manifest sample_nodes"
    unfolding sample_default [symmetric]
    by (rule default_placement_ok [OF _ _ sample_describes]) (simp_all add: sample_manifest_def sample_node_def)
  then have "iv_ok sample_env sample_iv"
    unfolding sample_iv_def by (rule base_inventory_ok [OF sample_inventory_ok sample_manifest_ok])
  then show ?thesis
    by (simp add: place_ready_def sample_iv_def base_inventory_def sample_placement_def sample_manifest_def
        max_int_def)
qed

lemma sample_place:
  "plan_place sample_iv ''b'' 6 = Inr ([(1, ''a''), (2, ''f''), (3, ''c''), (4, ''d''), (5, ''e''), (6, ''b'')],
     [Moved ''b'' 2 6, Moved ''f'' 6 2])"
proof -
  have "identity_index ''b'' = Inr 1"
    using letters.index_name [of 1] sample_names by (simp add: max_int_def)
  then show ?thesis
    by (simp add: plan_place_def sample_iv_def base_inventory_def sample_manifest_def sample_node_def
        index_by_def sample_nodes_def sample_placement_def node_of_def chain_name_def chain_of_node_def
        effective_chain_def main_chain_def)
qed

theorem plan_place_swaps_witness:
  "validate_placement [(1, ''a''), (2, ''f''), (3, ''c''), (4, ''d''), (5, ''e''), (6, ''b'')]
     sample_manifest sample_nodes = Inr ()"
  using plan_place_swaps [OF sample_iv_ready sample_place] by (simp add: sample_iv_def base_inventory_def)

theorem plan_apply_restarts_witness:
  "filter (\<lambda>n. \<not> converged sample_iv
       [2 \<mapsto> \<lparr>probe_active = True, probe_enabled = True, probe_nodeID = ''nodef''\<rparr>,
        6 \<mapsto> \<lparr>probe_active = False, probe_enabled = False, probe_nodeID = []\<rparr>] n)
     [sample_nodes ! 1, sample_nodes ! 5] = [sample_nodes ! 1]"
proof -
  let ?probes = "[2 \<mapsto> \<lparr>probe_active = True, probe_enabled = True, probe_nodeID = ''nodef''\<rparr>,
        6 \<mapsto> \<lparr>probe_active = False, probe_enabled = False, probe_nodeID = []\<rparr>] :: int \<rightharpoonup> placement_probe"
  have "plan_apply sample_iv [sample_nodes ! 1, sample_nodes ! 5] ?probes =
      Inr ([sample_nodes ! 1], [Runs 2 ''nodef'' ''b'', LeftDown 6])"
    by (simp add: plan_apply_def apply_step_def assigned_def sample_iv_def base_inventory_def
        sample_nodes_def sample_placement_def sample_manifest_def sample_node_def index_by_def)
  from plan_apply_restarts [OF this] show ?thesis by simp
qed

end
