(* ===== verification/Address_Book.thy ===== *)
theory Address_Book
  imports Remote_Layout Fleet_Place
begin

text \<open>
  Rendering a node's configuration, \<^verbatim>\<open>internal/fleet/deploy.go\<close>: which file of the deployment
  root is used (\<open>shipped_path\<close>, \<open>subnet_config_path\<close>, \<open>upgrades_path\<close>), the L1 address book
  (\<open>state_sync_peers\<close> over the machines \<open>intended_up\<close>), the files \<open>render_node\<close> writes, and the
  check of the identity files; with the scrape targets of \<^verbatim>\<open>targets.go\<close>. Local files are looked up
  in the file system model of Identity by their path below the deployment root; JSON decoding of
  the shipped node configuration and of the certificate are parameters. The lemmas show
  that the address book a node receives can be read back to exactly the peers it must dial.
\<close>

section \<open>Shipped files\<close>

definition file_exists :: "file_system \<Rightarrow> path \<Rightarrow> bool" where
  "file_exists fs p = (case fs p of Some (File _) \<Rightarrow> True | _ \<Rightarrow> False)"

definition shipped_path :: "file_system \<Rightarrow> string \<Rightarrow> string \<Rightarrow> path" where
  "shipped_path fs chain name =
    (if chain \<noteq> [] \<and> file_exists fs [''chains'', chain, name] then [''chains'', chain, name]
     else if file_exists fs [''chains'', ''default'', name] then [''chains'', ''default'', name]
     else [name])"

definition subnet_config_path :: "file_system \<Rightarrow> string \<Rightarrow> path" where
  "subnet_config_path fs chain =
    (if file_exists fs [''chains'', chain, ''subnet-config.json''] then [''chains'', chain, ''subnet-config.json'']
     else if chain = oracle_chain \<and> file_exists fs [''subnet-config-oracle.json''] then [''subnet-config-oracle.json'']
     else if file_exists fs [''chains'', ''default'', ''subnet-config.json'']
       then [''chains'', ''default'', ''subnet-config.json'']
     else [''subnet-config.json''])"

definition chain_config_variant :: "role \<Rightarrow> string" where
  "chain_config_variant r = (case r of RoleRPC \<Rightarrow> ''chain-config-rpc.json''
    | RoleArchive \<Rightarrow> ''chain-config-archive.json'' | _ \<Rightarrow> ''chain-config.json'')"

definition upgrades_path :: "string \<Rightarrow> path" where
  "upgrades_path chain = (if chain = main_chain then [''deployment'', ''upgrades.json'']
     else [''deployment'', ''upgrades-'' @ chain @ ''.json''])"

section \<open>The address book\<close>

definition host_port :: "string \<Rightarrow> nat \<Rightarrow> string" where
  "host_port h p = h @ '':'' @ itoa (int p)"

definition is_peer :: "node \<Rightarrow> (int \<Rightarrow> bool) \<Rightarrow> node \<Rightarrow> bool" where
  "is_peer n up peer \<longleftrightarrow> Number peer \<noteq> Number n \<and> Role peer \<noteq> RolePChain \<and> up (Number peer) \<and>
     chain_of_node peer = chain_of_node n"

text \<open>A machine without an entry reads as the zero value of its map.\<close>

definition port_pair :: "(int \<rightharpoonup> nat \<times> nat) \<Rightarrow> int \<Rightarrow> nat \<times> nat" where
  "port_pair ports k = (case ports k of None \<Rightarrow> (0, 0) | Some p \<Rightarrow> p)"

definition state_sync_peers ::
  "node \<Rightarrow> node list \<Rightarrow> (int \<rightharpoonup> 'pop public_node) \<Rightarrow> (int \<rightharpoonup> nat \<times> nat) \<Rightarrow> (int \<Rightarrow> bool) \<Rightarrow> string \<times> string" where
  "state_sync_peers n nodes identities ports up =
    (let peers = filter (is_peer n up) nodes in
     (join_with '','' (map (\<lambda>m. host_port (Host m) (snd (port_pair ports (Number m)))) peers),
      join_with '','' (map (\<lambda>m. case identities (Number m) of None \<Rightarrow> [] | Some g \<Rightarrow> pn_NodeID g) peers)))"

text \<open>\<^verbatim>\<open>intendedUp\<close>: the answer of each machine to the boot intent probe, \<open>None\<close> when the machine
  did not answer.\<close>

definition answers_enabled :: "string option \<Rightarrow> bool" where
  "answers_enabled answer = (case answer of None \<Rightarrow> False
    | Some out \<Rightarrow> trim_space out = ''enabled'' \<or> trim_space out = ''installed'')"

definition set_all :: "bool \<Rightarrow> (int \<Rightarrow> bool) \<Rightarrow> int list \<Rightarrow> int \<Rightarrow> bool" where
  "set_all b up ks = foldl (\<lambda>m k. m(k := b)) up ks"

definition intended_up ::
  "('cid, 'pop) inventory \<Rightarrow> (int \<Rightarrow> string option) \<Rightarrow> int list \<Rightarrow> int list \<Rightarrow> fleet_error + (int \<Rightarrow> bool)" where
  "intended_up iv answer bringing_up taking_down =
    rbind (rmap (target iv) (l1_nodes iv)) (\<lambda>_.
      Inr (set_all True (set_all False
        (foldl (\<lambda>m n. m(Number n := answers_enabled (answer (Number n)))) (\<lambda>_. False) (l1_nodes iv))
        taking_down) bringing_up))"

section \<open>Rendering a node\<close>

datatype setting = Text_Setting string | Num_Setting nat | Flag_Setting bool | Json_Setting string

record rendered =
  r_config :: "string \<rightharpoonup> setting"
  r_chain :: "string option"
  r_subnet :: "string option"
  r_upgrade :: "string option"
  r_service :: string

datatype render_error = Unreadable path | BadNodeConfig | RenderFleet fleet_error

definition read_local :: "file_system \<Rightarrow> path \<Rightarrow> render_error + string" where
  "read_local fs p = (case fs p of Some (File c) \<Rightarrow> Inr c | _ \<Rightarrow> Inl (Unreadable p))"

definition read_history :: "file_system \<Rightarrow> path \<Rightarrow> render_error + string option" where
  "read_history fs p = (case fs p of None \<Rightarrow> Inr None | Some (File c) \<Rightarrow> Inr (Some c)
    | Some Dir \<Rightarrow> Inl (Unreadable p))"

type_synonym node_config = "string \<rightharpoonup> setting"

definition common_config ::
  "fleet_environment \<Rightarrow> node \<Rightarrow> nat \<times> nat \<Rightarrow> node_config \<Rightarrow> node_config" where
  "common_config env n ports base = (let l = layout_for env; number = itoa (Number n);
      node_root = path_join [data l, number]; staking = path_join [path_join [cfg l, number], ''staking'']
    in base(''network-id'' \<mapsto> Text_Setting (fleet_Network env), ''data-dir'' \<mapsto> Text_Setting node_root,
      ''db-dir'' \<mapsto> Text_Setting (path_join [node_root, ''db'']),
      ''log-dir'' \<mapsto> Text_Setting (path_join [node_root, ''logs'']),
      ''http-host'' \<mapsto> Text_Setting ''0.0.0.0'', ''http-port'' \<mapsto> Num_Setting (fst ports),
      ''staking-port'' \<mapsto> Num_Setting (snd ports), ''public-ip'' \<mapsto> Text_Setting (Host n),
      ''partial-sync-primary-network'' \<mapsto> Flag_Setting True,
      ''network-allow-private-ips'' \<mapsto> Flag_Setting True,
      ''staking-tls-cert-file'' \<mapsto> Text_Setting (path_join [staking, ''staker.crt'']),
      ''staking-tls-key-file'' \<mapsto> Text_Setting (path_join [staking, ''staker.key''])))"

definition pchain_config :: "bool \<Rightarrow> node_config \<Rightarrow> node_config" where
  "pchain_config frozen c = (let c = c(''p-chain-follow-only'' \<mapsto> Flag_Setting True,
      ''staking-ephemeral-signer-enabled'' \<mapsto> Flag_Setting True);
    c = (if frozen then c(''bootstrap-ips'' \<mapsto> Text_Setting [], ''bootstrap-ids'' \<mapsto> Text_Setting [])
         else c(''bootstrap-ips'' := None, ''bootstrap-ids'' := None))
    in c(''state-sync-ips'' := None, ''state-sync-ids'' := None))"

definition l1_config ::
  "fleet_environment \<Rightarrow> node \<Rightarrow> string \<Rightarrow> string \<times> string \<Rightarrow> string \<times> string \<Rightarrow> node_config \<Rightarrow> node_config" where
  "l1_config env n subnetID bootstrap peers c = (let l = layout_for env; number = itoa (Number n);
      node_config = path_join [cfg l, number];
      c = c(''track-subnets'' \<mapsto> Text_Setting subnetID,
        ''plugin-dir'' \<mapsto> Text_Setting (path_join [path_join [pkg l, number], ''plugins'']),
        ''chain-config-dir'' \<mapsto> Text_Setting (path_join [node_config, ''chains'']),
        ''subnet-config-dir'' \<mapsto> Text_Setting (path_join [node_config, ''subnets'']),
        ''bootstrap-ips'' \<mapsto> Text_Setting (fst bootstrap), ''bootstrap-ids'' \<mapsto> Text_Setting (snd bootstrap),
        ''state-sync-ips'' \<mapsto> Text_Setting (fst peers), ''state-sync-ids'' \<mapsto> Text_Setting (snd peers))
    in if Role n = RoleValidator
       then c(''staking-signer-key-file'' \<mapsto> Text_Setting (path_join [path_join [node_config, ''staking''], ''signer.key'']))
       else c(''staking-ephemeral-signer-enabled'' \<mapsto> Flag_Setting True))"

definition role_text :: "role \<Rightarrow> string" where
  "role_text r = (case r of RolePChain \<Rightarrow> ''pchain'' | RoleValidator \<Rightarrow> ''validator''
    | RoleRPC \<Rightarrow> ''rpc'' | RoleArchive \<Rightarrow> ''archive''
    | RoleOracleValidator \<Rightarrow> ''oracle-validator'' | RoleOracleRPC \<Rightarrow> ''oracle-rpc'' | RoleOther s \<Rightarrow> s)"

definition lines_text :: "string list \<Rightarrow> string" where
  "lines_text ls = concat (map (\<lambda>l. l @ [CHR 0x0A]) ls)"

definition node_comment :: "node \<Rightarrow> string \<Rightarrow> string" where
  "node_comment n ident = ''Avalanche benchmark node '' @ itoa (Number n) @ '' ('' @ ident @ '', '' @ role_text (Role n) @ '')''"

definition run_text :: "fleet_environment \<Rightarrow> node \<Rightarrow> string \<Rightarrow> string" where
  "run_text env n ident = (let l = layout_for env; root = path_join [data l, itoa (Number n)] in lines_text
     [''#!/bin/sh'', ''# '' @ node_comment n ident @ '', user-level install.'',
      ''mkdir -p '' @ root @ ''/logs'',
      ''setsid nohup '' @ start_line l (Number n) @ '' >> '' @ root @ ''/logs/console.log 2>&1 &'',
      ''echo $! > '' @ pid_file l (Number n)])"

definition unit_text :: "fleet_environment \<Rightarrow> node \<Rightarrow> string \<Rightarrow> string" where
  "unit_text env n ident = lines_text
     [''[Unit]'', ''Description='' @ node_comment n ident, ''After=network-online.target'',
      ''Wants=network-online.target'', [], ''[Service]'', ''Type=simple'', ''User='' @ fleet_SSHUser env,
      ''ExecStart='' @ start_line (layout_for env) (Number n), ''Restart=on-failure'', ''RestartSec=2'',
      ''LimitNOFILE=1048576'', ''KillMode=control-group'', [], ''[Install]'', ''WantedBy=multi-user.target'']"

text \<open>\<^verbatim>\<open>renderNode\<close>; \<open>decode\<close> reads the shipped node configuration.\<close>

definition render_node ::
  "(string \<Rightarrow> node_config option) \<Rightarrow> file_system \<Rightarrow> fleet_environment \<Rightarrow> node \<Rightarrow> 'pop public_node \<Rightarrow> string
   \<Rightarrow> nat \<times> nat \<Rightarrow> bool \<Rightarrow> string \<times> string \<Rightarrow> string \<times> string \<Rightarrow> render_error + rendered" where
  "render_node decode fs env n generated subnetID ports frozen bootstrap peers =
    rbind (read_local fs (shipped_path fs (chain_of_node n) ''node-config.json'')) (\<lambda>text.
    case decode text of None \<Rightarrow> Inl BadNodeConfig | Some base \<Rightarrow>
    (let common = common_config env n ports base;
         service = (if user (layout_for env) then run_text env n (pn_Identity generated)
                    else unit_text env n (pn_Identity generated))
     in if Role n = RolePChain then Inr \<lparr>r_config = pchain_config frozen common, r_chain = None,
            r_subnet = None, r_upgrade = None, r_service = service\<rparr>
        else rbind (read_local fs (shipped_path fs (chain_of_node n) (chain_config_variant (Role n)))) (\<lambda>chain.
             rbind (read_local fs (subnet_config_path fs (chain_of_node n))) (\<lambda>subnet.
             rbind (read_history fs (upgrades_path (chain_of_node n))) (\<lambda>history.
               Inr \<lparr>r_config = l1_config env n subnetID bootstrap peers common, r_chain = Some chain,
                 r_subnet = Some subnet, r_upgrade = history, r_service = service\<rparr>)))))"

text \<open>\<^verbatim>\<open>renderConfigs\<close>: every identity and peer through the current placement. \<open>sid\<close> is the text of
  the subnet ID of a machine, the text of the empty ID when the inventory is not created.\<close>

definition subnet_text :: "'cid id_codec \<Rightarrow> ('cid, 'pop) inventory \<Rightarrow> node \<Rightarrow> string" where
  "subnet_text codec iv n = id_text codec (case l1_subnet_for iv n of None \<Rightarrow> id_empty codec | Some i \<Rightarrow> i)"

definition assign_step ::
  "('cid, 'pop) inventory \<Rightarrow> (int \<rightharpoonup> 'pop public_node) \<Rightarrow> node \<Rightarrow> fleet_error + (int \<rightharpoonup> 'pop public_node)" where
  "assign_step iv m n = rbind (assigned iv n) (\<lambda>g. Inr (m(Number n \<mapsto> g)))"

definition assigned_by_node :: "('cid, 'pop) inventory \<Rightarrow> fleet_error + (int \<rightharpoonup> 'pop public_node)" where
  "assigned_by_node iv = each (assign_step iv) Map.empty (inv_nodes iv)"

definition pchain_node :: "('cid, 'pop) inventory \<Rightarrow> node" where
  "pchain_node iv = (case inv_pchain iv of Some n \<Rightarrow> n
     | None \<Rightarrow> \<lparr>Number = 0, Host = [], Role = RoleOther [], DC = [], Chain = [], Weight = 0\<rparr>)"

definition render_configs ::
  "(string \<Rightarrow> node_config option) \<Rightarrow> file_system \<Rightarrow> 'cid id_codec \<Rightarrow> ('cid, 'pop) inventory
   \<Rightarrow> 'pop node_deployment list \<Rightarrow> (int \<Rightarrow> bool) \<Rightarrow> render_error + rendered list" where
  "render_configs decode fs codec iv targets up =
    rbind (map_sum RenderFleet id (assigned iv (pchain_node iv))) (\<lambda>pchain_identity.
    rbind (map_sum RenderFleet id (assigned_by_node iv)) (\<lambda>identities.
    let bootstrap = (host_port (Host (pchain_node iv)) (snd (port_pair (inv_ports iv) (Number (pchain_node iv)))),
                     pn_NodeID pchain_identity)
    in rmap (\<lambda>t. render_node decode fs (inv_environment iv) (nd_node t) (nd_identity t)
         (subnet_text codec iv (nd_node t)) (port_pair (inv_ports iv) (Number (nd_node t))) True bootstrap
         (state_sync_peers (nd_node t) (inv_nodes iv) identities (inv_ports iv) up)) targets))"

section \<open>Identity files and scrape targets\<close>

text \<open>\<^verbatim>\<open>validateIdentityFiles\<close>; \<open>cert_id\<close> is the node ID text of a certificate.\<close>

definition identity_file_names :: "role \<Rightarrow> string list" where
  "identity_file_names r = [''staker.crt'', ''staker.key''] @ (if r = RoleValidator then [''signer.key''] else [])"

definition validate_identity_files ::
  "(string \<Rightarrow> string option) \<Rightarrow> file_system \<Rightarrow> 'pop public_node \<Rightarrow> bool" where
  "validate_identity_files cert_id fs g = (let dir = [''deployment'', ''identities'', pn_Identity g] in
     list_all (\<lambda>name. file_exists fs (dir @ [name])) (identity_file_names (pn_Role g)) \<and>
     (case fs (dir @ [''staker.crt'']) of Some (File c) \<Rightarrow> cert_id c = Some (pn_NodeID g) | _ \<Rightarrow> False))"

record scrape_target =
  sc_target :: string
  sc_labels :: "string \<rightharpoonup> string"

definition scrape_labels :: "'cid id_codec \<Rightarrow> (string \<rightharpoonup> 'cid) \<Rightarrow> node \<Rightarrow> string \<rightharpoonup> string" where
  "scrape_labels codec chainIDs n = (let c = chain_of_node n;
      labels = [''node'' \<mapsto> itoa (Number n), ''role'' \<mapsto> role_text (Role n)];
      labels = (if DC n \<noteq> [] then labels(''dc'' \<mapsto> DC n) else labels)
    in if c = [] then labels
       else (case chainIDs c of None \<Rightarrow> labels(''l1'' \<mapsto> c)
             | Some i \<Rightarrow> labels(''l1'' \<mapsto> c, ''l1_chain_id'' \<mapsto> id_text codec i)))"

definition render_targets ::
  "'cid id_codec \<Rightarrow> node list \<Rightarrow> (int \<rightharpoonup> nat \<times> nat) \<Rightarrow> (string \<rightharpoonup> 'cid) \<Rightarrow> int + scrape_target list" where
  "render_targets codec nodes ports chainIDs = rmap (\<lambda>n. case ports (Number n) of None \<Rightarrow> Inl (Number n)
     | Some (http, _) \<Rightarrow> Inr \<lparr>sc_target = host_port (Host n) http, sc_labels = scrape_labels codec chainIDs n\<rparr>) nodes"

section \<open>Reading the address book back\<close>

text \<open>The entries of a list in the text form the node reads: no entries for an empty text.\<close>

definition entries :: "string \<Rightarrow> string list" where
  "entries s = (if s = [] then [] else go_split (CHR '','') s)"

lemma join_eq_Nil: "join_with sep xs = [] \<Longrightarrow> \<forall>x \<in> set xs. x \<noteq> [] \<Longrightarrow> xs = []"
  by (cases xs; cases "tl xs = []") (auto simp: join_Cons)

lemma entries_join:
  "\<forall>x \<in> set xs. x \<noteq> [] \<and> CHR '','' \<notin> set x \<Longrightarrow> entries (join_with '','' xs) = xs"
  using join_eq_Nil [of "'',''" xs] split_join [of xs "CHR '',''"] by (cases "xs = []") (auto simp: entries_def)

lemma set_all_iff: "set_all b up ks k = (if k \<in> set ks then b else up k)"
  unfolding set_all_def by (induction ks rule: rev_induct) auto

lemma answers_fold:
  "foldl (\<lambda>m n. m(Number n := answers_enabled (answer (Number n)))) (\<lambda>_. False) ns k \<longleftrightarrow>
   k \<in> Number ` set ns \<and> answers_enabled (answer k)"
  by (induction ns rule: rev_induct) auto

lemma intended_up_iff:
  assumes "intended_up iv answer bringing taking = Inr up"
  shows "up k \<longleftrightarrow> k \<in> set bringing \<or>
    k \<notin> set taking \<and> k \<in> Number ` set (l1_nodes iv) \<and> answers_enabled (answer k)"
proof -
  from assms have up: "up = set_all True (set_all False
      (foldl (\<lambda>m n. m(Number n := answers_enabled (answer (Number n)))) (\<lambda>_. False) (l1_nodes iv))
      taking) bringing"
    unfolding intended_up_def by (cases "rmap (target iv) (l1_nodes iv)") (simp_all del: fun_upd_apply)
  show ?thesis unfolding up set_all_iff answers_fold by auto
qed

lemma l1_nodes_sub: "n \<in> set (l1_nodes iv) \<longleftrightarrow> n \<in> set (inv_nodes iv) \<and> Role n \<noteq> RolePChain"
  by (auto simp: l1_nodes_def)

lemma rmap_total: "(\<And>x. x \<in> set xs \<Longrightarrow> \<exists>y. f x = Inr y) \<Longrightarrow> \<exists>ys. rmap f xs = Inr ys"
proof (induction xs)
  case (Cons x xs)
  from Cons.prems [of x] obtain y where "f x = Inr y" by auto
  moreover from Cons obtain ys where "rmap f xs = Inr ys" by auto
  ultimately show ?case by simp
qed simp

lemma intended_up_total:
  assumes "iv_ok env iv"
  shows "\<exists>up. intended_up iv answer bringing taking = Inr up"
proof -
  have "\<exists>ts. rmap (target iv) (l1_nodes iv) = Inr ts"
  proof (rule rmap_total)
    fix n assume "n \<in> set (l1_nodes iv)"
    then have "n \<in> set (inv_nodes iv)" by (simp add: l1_nodes_sub)
    from target_ok [OF assms this] show "\<exists>t. target iv n = Inr t" by metis
  qed
  then show ?thesis by (auto simp: intended_up_def)
qed

lemma each_assign_total:
  "\<forall>n \<in> set ns. \<exists>g. assigned iv n = Inr g \<Longrightarrow> \<exists>m'. each (assign_step iv) m ns = Inr m'"
proof (induction ns arbitrary: m)
  case (Cons n ns)
  then obtain g where "assigned iv n = Inr g" by auto
  then have "\<exists>m'. assign_step iv m n = Inr m'" by (simp add: assign_step_def)
  then obtain m1 where "assign_step iv m n = Inr m1" ..
  moreover from Cons obtain m' where "each (assign_step iv) m1 ns = Inr m'" by force
  ultimately show ?case by simp
qed simp

lemma each_assign_lookup:
  assumes "each (assign_step iv) m ns = Inr m'" "distinct (map Number ns)" "n \<in> set ns"
  shows "\<exists>g. assigned iv n = Inr g \<and> m' (Number n) = Some g"
  using assms
proof (induction ns arbitrary: m' rule: rev_induct)
  case (snoc x ns)
  from snoc.prems(1) obtain u where u: "each (assign_step iv) m ns = Inr u" and x: "assign_step iv u x = Inr m'"
    by (auto simp: each_append)
  then obtain g where g: "assigned iv x = Inr g" by (auto simp: assign_step_def)
  have m': "m' k = (if k = Number x then Some g else u k)" for k
    using x unfolding assign_step_def g by auto
  show ?case
  proof (cases "n = x")
    case True
    with g m' show ?thesis by simp
  next
    case False
    with snoc.prems(3) have n: "n \<in> set ns" by simp
    then have "Number n \<in> Number ` set ns" by simp
    with snoc.prems(2) have "Number n \<noteq> Number x" by auto
    with snoc.IH [OF u] snoc.prems(2) m' n show ?thesis by auto
  qed
qed simp

lemma iv_ok_numbers: "iv_ok env iv \<Longrightarrow> distinct (map Number (inv_nodes iv))"
  by (simp add: iv_ok_def inventory_ok_def strict_sorted_iff)

lemma assigned_by_node_ok:
  assumes "iv_ok env iv"
  obtains m where "assigned_by_node iv = Inr m"
    "\<And>n. n \<in> set (inv_nodes iv) \<Longrightarrow> \<exists>g. assigned iv n = Inr g \<and> m (Number n) = Some g"
proof -
  have "\<forall>n \<in> set (inv_nodes iv). \<exists>g. assigned iv n = Inr g" by (metis assigned_ok [OF assms])
  from each_assign_total [OF this] obtain m where m: "assigned_by_node iv = Inr m"
    unfolding assigned_by_node_def by blast
  from each_assign_lookup [OF m [unfolded assigned_by_node_def] iv_ok_numbers [OF assms]]
  show ?thesis using that m by blast
qed

text \<open>The peer entries a machine should hold: address and identity of the other L1 machines of its
  chain that are meant to be up.\<close>

definition peer_entry :: "('cid, 'pop) inventory \<Rightarrow> node \<Rightarrow> string \<times> string" where
  "peer_entry iv m = (host_port (Host m) (snd (port_pair (inv_ports iv) (Number m))),
     case assigned iv m of Inr g \<Rightarrow> pn_NodeID g | Inl _ \<Rightarrow> [])"

definition plain_hosts :: "('cid, 'pop) inventory \<Rightarrow> bool" where
  "plain_hosts iv \<longleftrightarrow> (\<forall>n \<in> set (inv_nodes iv). CHR '','' \<notin> set (Host n)) \<and>
     (\<forall>g \<in> set (Nodes (inv_public iv)). pn_NodeID g \<noteq> [] \<and> CHR '','' \<notin> set (pn_NodeID g))"

lemma itoa_no_comma: "CHR '','' \<notin> set (itoa n)"
proof -
  have "CHR '','' \<notin> set (itoa_nat k)" for k
    using itoa_nat_digits [of k] by (auto simp: list_all_iff is_digit_of_char)
  then show ?thesis by (simp add: itoa_def)
qed

lemma state_sync_entries:
  assumes ok: "iv_ok env iv" and plain: "plain_hosts iv" and m: "assigned_by_node iv = Inr identities"
  shows "map2 Pair (entries (fst (state_sync_peers n (inv_nodes iv) identities (inv_ports iv) up)))
      (entries (snd (state_sync_peers n (inv_nodes iv) identities (inv_ports iv) up))) =
    map (peer_entry iv) (filter (is_peer n up) (inv_nodes iv))"
    and state_sync_lengths: "length (entries (fst (state_sync_peers n (inv_nodes iv) identities (inv_ports iv) up))) =
      length (entries (snd (state_sync_peers n (inv_nodes iv) identities (inv_ports iv) up)))"
proof -
  let ?ps = "filter (is_peer n up) (inv_nodes iv)"
  from assigned_by_node_ok [OF ok] m
  have look: "\<exists>g. assigned iv n = Inr g \<and> identities (Number n) = Some g" if "n \<in> set (inv_nodes iv)" for n
    using that by (metis sum.inject(2))
  have node_id: "pn_NodeID g \<noteq> [] \<and> CHR '','' \<notin> set (pn_NodeID g)"
    if "n \<in> set (inv_nodes iv)" "assigned iv n = Inr g" for n g
    using assigned_ok [OF ok that(1)] that(2) plain by (auto simp: plain_hosts_def)
  let ?ips = "map (\<lambda>m. host_port (Host m) (snd (port_pair (inv_ports iv) (Number m)))) ?ps"
  let ?ids = "map (\<lambda>m. case identities (Number m) of None \<Rightarrow> [] | Some g \<Rightarrow> pn_NodeID g) ?ps"
  have "entries (join_with '','' ?ips) = ?ips"
    by (rule entries_join) (use plain itoa_no_comma in \<open>auto simp: host_port_def plain_hosts_def\<close>)
  moreover have "entries (join_with '','' ?ids) = ?ids"
    by (rule entries_join) (use look node_id in \<open>fastforce split: option.splits\<close>)
  moreover have "map2 Pair ?ips ?ids = map (peer_entry iv) ?ps"
  proof -
    have "(case identities (Number x) of None \<Rightarrow> [] | Some g \<Rightarrow> pn_NodeID g) =
        (case assigned iv x of Inr g \<Rightarrow> pn_NodeID g | Inl _ \<Rightarrow> [])" if "x \<in> set ?ps" for x
      using look [of x] that by auto
    then show ?thesis by (simp only: map2_map_map) (rule map_cong, simp_all add: peer_entry_def)
  qed
  ultimately show "map2 Pair (entries (fst (state_sync_peers n (inv_nodes iv) identities (inv_ports iv) up)))
      (entries (snd (state_sync_peers n (inv_nodes iv) identities (inv_ports iv) up))) =
      map (peer_entry iv) ?ps"
    and "length (entries (fst (state_sync_peers n (inv_nodes iv) identities (inv_ports iv) up))) =
      length (entries (snd (state_sync_peers n (inv_nodes iv) identities (inv_ports iv) up)))"
    by (simp_all add: state_sync_peers_def Let_def)
qed

lemma render_node_peers:
  assumes "render_node decode fs env n g sid ports frozen bootstrap peers = Inr r" "Role n \<noteq> RolePChain"
  shows "r_config r ''state-sync-ips'' = Some (Text_Setting (fst peers)) \<and>
    r_config r ''state-sync-ids'' = Some (Text_Setting (snd peers))"
  using assms by (auto simp: render_node_def l1_config_def Let_def split: option.splits if_splits)

text \<open>C4: the address book every L1 machine receives: the two state-sync lists of its rendered
  configuration have the same length and pair up, entry by entry, the address of a peer with
  the node ID that placement assigns to that peer now; the peers are exactly the other L1
  machines of the same chain that are meant to be up after the command, in inventory order.\<close>

theorem address_book_rendered:
  assumes "iv_ok env iv" "plain_hosts iv" "intended_up iv answer bringing taking = Inr up"
    "render_configs decode fs codec iv targets up = Inr rs" "i < length targets"
    "Role (nd_node (targets ! i)) \<noteq> RolePChain"
  shows "\<exists>addresses node_ids.
    r_config (rs ! i) ''state-sync-ips'' = Some (Text_Setting addresses) \<and>
    r_config (rs ! i) ''state-sync-ids'' = Some (Text_Setting node_ids) \<and>
    length (entries addresses) = length (entries node_ids) \<and>
    map2 Pair (entries addresses) (entries node_ids) =
      map (peer_entry iv) (filter (\<lambda>m. Number m \<noteq> Number (nd_node (targets ! i)) \<and> Role m \<noteq> RolePChain \<and>
        chain_of_node m = chain_of_node (nd_node (targets ! i)) \<and>
        (Number m \<in> set bringing \<or> Number m \<notin> set taking \<and> answers_enabled (answer (Number m))))
        (inv_nodes iv))"
proof -
  let ?n = "nd_node (targets ! i)"
  from assms(4) obtain identities boot where ids: "assigned_by_node iv = Inr identities"
    and run: "rmap (\<lambda>t. render_node decode fs (inv_environment iv) (nd_node t) (nd_identity t)
         (subnet_text codec iv (nd_node t)) (port_pair (inv_ports iv) (Number (nd_node t))) True boot
         (state_sync_peers (nd_node t) (inv_nodes iv) identities (inv_ports iv) up)) targets = Inr rs"
    by (auto simp: render_configs_def Let_def)
  from run have "list_all2 (\<lambda>t r. render_node decode fs (inv_environment iv) (nd_node t) (nd_identity t)
         (subnet_text codec iv (nd_node t)) (port_pair (inv_ports iv) (Number (nd_node t))) True boot
         (state_sync_peers (nd_node t) (inv_nodes iv) identities (inv_ports iv) up) = Inr r) targets rs"
    by (simp only: rmap_Inr_iff)
  from list_all2_nthD [OF this assms(5)] assms(6)
  have "r_config (rs ! i) ''state-sync-ips'' = Some (Text_Setting (fst (state_sync_peers ?n (inv_nodes iv) identities (inv_ports iv) up))) \<and>
    r_config (rs ! i) ''state-sync-ids'' = Some (Text_Setting (snd (state_sync_peers ?n (inv_nodes iv) identities (inv_ports iv) up)))"
    by (blast dest: render_node_peers)
  moreover have "filter (is_peer ?n up) (inv_nodes iv) =
      filter (\<lambda>m. Number m \<noteq> Number ?n \<and> Role m \<noteq> RolePChain \<and> chain_of_node m = chain_of_node ?n \<and>
        (Number m \<in> set bringing \<or> Number m \<notin> set taking \<and> answers_enabled (answer (Number m)))) (inv_nodes iv)"
    by (rule filter_cong [OF refl]) (auto simp: is_peer_def intended_up_iff [OF assms(3)] l1_nodes_sub)
  moreover note state_sync_entries [OF assms(1,2) ids, of ?n up] state_sync_lengths [OF assms(1,2) ids, of ?n up]
  ultimately show ?thesis by auto
qed

definition sample_root :: file_system where
  "sample_root = [[''chains'', ''default'', ''node-config.json''] \<mapsto> File ''node'',
     [''chain-config.json''] \<mapsto> File ''chain'', [''subnet-config.json''] \<mapsto> File ''subnet'']"

definition sample_target :: "string node_deployment" where
  "sample_target = \<lparr>nd_node = sample_nodes ! 1, nd_identity = sample_node ''b'' 2 RoleValidator [] 100000, nd_httpPort = 9650\<rparr>"

lemma sample_iv_ok: "iv_ok sample_env sample_iv"
  using sample_iv_ready by (simp add: place_ready_def)

lemma sample_plain: "plain_hosts sample_iv"
  by (simp add: plain_hosts_def sample_iv_def base_inventory_def sample_nodes_def sample_manifest_def sample_node_def)

lemma sample_renders:
  "\<exists>rs. render_configs (\<lambda>_. Some Map.empty) sample_root unary_codec sample_iv [sample_target] up = Inr rs"
proof -
  have "\<exists>r. render_node (\<lambda>_. Some Map.empty) sample_root env (sample_nodes ! 1) g sid ports True boot peers = Inr r"
    for env sid ports boot peers and g :: "string public_node"
    by (simp add: render_node_def read_local_def shipped_path_def subnet_config_path_def file_exists_def sample_root_def
        sample_nodes_def chain_of_node_def effective_chain_def main_chain_def oracle_chain_def chain_config_variant_def
        read_history_def upgrades_path_def Let_def del: rbind_eq_Inr)
  moreover obtain m where "assigned_by_node sample_iv = Inr m" using assigned_by_node_ok [OF sample_iv_ok] by blast
  moreover have "assigned sample_iv (pchain_node sample_iv) = Inr (sample_node ''a'' 1 RolePChain [] 0)"
    by (simp add: assigned_def sample_iv_def base_inventory_def pchain_node_def sample_nodes_def sample_placement_def
        sample_manifest_def index_by_def sample_node_def)
  ultimately show ?thesis by (simp add: render_configs_def sample_target_def Let_def)
qed

theorem address_book_rendered_witness:
  "\<exists>rs addresses node_ids. render_configs (\<lambda>_. Some Map.empty) sample_root unary_codec sample_iv [sample_target]
      (\<lambda>k. k \<in> {2, 3, 4, 5, 6}) = Inr rs \<and>
    r_config (rs ! 0) ''state-sync-ips'' = Some (Text_Setting addresses) \<and>
    r_config (rs ! 0) ''state-sync-ids'' = Some (Text_Setting node_ids) \<and>
    map2 Pair (entries addresses) (entries node_ids) = map (peer_entry sample_iv) [sample_nodes ! 2, sample_nodes ! 5]"
proof -
  obtain up where up: "intended_up sample_iv (\<lambda>_. Some ''enabled'') [] [] = Inr up"
    using intended_up_total [OF sample_iv_ok] by blast
  have "up k \<longleftrightarrow> k \<in> {2, 3, 4, 5, 6}" for k
    unfolding intended_up_iff [OF up]
    by (auto simp: answers_enabled_def go_eval l1_nodes_def sample_iv_def base_inventory_def sample_nodes_def)
  then have eq: "up = (\<lambda>k. k \<in> {2, 3, 4, 5, 6})" by (simp add: fun_eq_iff)
  obtain rs where rs: "render_configs (\<lambda>_. Some Map.empty) sample_root unary_codec sample_iv [sample_target] up = Inr rs"
    using sample_renders by blast
  from address_book_rendered [OF sample_iv_ok sample_plain up rs, of 0] rs show ?thesis
    by (simp add: eq sample_target_def sample_iv_def base_inventory_def sample_nodes_def chain_of_node_def
        effective_chain_def main_chain_def answers_enabled_def go_eval) blast
qed

end
