(* ===== verification/Lifecycle.thy ===== *)
theory Lifecycle
  imports Address_Book
begin

text \<open>
  The fleet commands that change machines: start, stop, destroy and the P-chain verbs of
  \<^verbatim>\<open>internal/fleet/lifecycle.go\<close>, over the phase engine of \<^verbatim>\<open>internal/fleet/deploy.go\<close>, which
  Deploy, Place_Command, Upgrades and Pchain_Archive use too. Every remote step of a
  command is an event of a trace: machine number, operation, success. Whether an operation
  succeeds is an arbitrary function of the trace so far (\<^verbatim>\<open>ssh\<close>, \<^verbatim>\<open>rsync\<close> and the machines are
  not ours); what a command reads (service probes, API answers) is an arbitrary function of it
  too. The locale \<open>phase_action\<close> is what the phase engine asks of an action; the orderings the
  commands promise are proved from it over arbitrary traces and failures.
  \<^verbatim>\<open>phaseParallel\<close> is listed in machine order; nothing proved depends on that order.
\<close>

section \<open>Remote operations and traces\<close>

datatype remote_op =
    Preflight
  | StopNode | DisableAndStop | KillNode | RemoveChainData
  | StagePackage | UploadRender | UploadBinary | UploadPlugin | InstallFiles
  | InstallUnit | StageIdentity | UploadIdentity | InstallKeys
  | StageConfig | UploadConfig | InstallConfig
  | StartOnly | StartAndVerify | EnableAndStart | CheckActive | AwaitReady
  | StageSeed | UploadSeed | UnpackSeed
  | StageUpgrade | UploadUpgrade | InstallUpgrade
  | PackExport | RemoveExport | DownloadExport

type_synonym event = "int \<times> remote_op \<times> bool"
type_synonym trace = "event list"
type_synonym runner = "trace \<Rightarrow> int \<Rightarrow> remote_op \<Rightarrow> bool"

definition exec :: "runner \<Rightarrow> trace \<Rightarrow> int \<Rightarrow> remote_op \<Rightarrow> trace \<times> bool" where
  "exec runner tr n op = (tr @ [(n, op, runner tr n op)], runner tr n op)"

text \<open>The remote steps of one action, stopping at the first failure.\<close>

fun run_ops :: "runner \<Rightarrow> int \<Rightarrow> remote_op list \<Rightarrow> trace \<Rightarrow> trace \<times> bool" where
  "run_ops runner n [] tr = (tr, True)"
| "run_ops runner n (op # ops) tr =
     (let (tr', ok) = exec runner tr n op in if ok then run_ops runner n ops tr' else (tr', False))"

abbreviation num :: "'pop node_deployment \<Rightarrow> int" where
  "num nd \<equiv> Number (nd_node nd)"

type_synonym 'pop action = "'pop node_deployment \<Rightarrow> trace \<Rightarrow> trace \<times> bool"

definition ops_action :: "runner \<Rightarrow> ('pop node_deployment \<Rightarrow> remote_op list) \<Rightarrow> 'pop action" where
  "ops_action runner ops nd tr = run_ops runner (num nd) (ops nd) tr"

definition package_ops :: "'pop node_deployment \<Rightarrow> remote_op list" where
  "package_ops nd = [StagePackage, UploadRender, UploadBinary]
     @ (if Role (nd_node nd) \<noteq> RolePChain then [UploadPlugin] else []) @ [InstallFiles]"

definition identity_ops :: "'pop node_deployment \<Rightarrow> remote_op list" where
  "identity_ops nd = [StageIdentity, UploadIdentity, InstallKeys]"

definition config_ops :: "'pop node_deployment \<Rightarrow> remote_op list" where
  "config_ops nd = [StageConfig, UploadConfig, InstallConfig]"

definition seed_ops :: "remote_op list" where
  "seed_ops = [StageSeed, UploadSeed, UnpackSeed]"

text \<open>\<^verbatim>\<open>seedPChain\<close>: \<open>database\<close> is the answer of the remote check of the database directory.\<close>

definition seed_action :: "runner \<Rightarrow> (trace \<Rightarrow> string option) \<Rightarrow> 'pop action" where
  "seed_action runner database nd tr = (case database tr of
      None \<Rightarrow> (tr, False)
    | Some answer \<Rightarrow>
        if trim_space answer = ''present'' then (tr, True)
        else if trim_space answer = ''missing'' then run_ops runner (num nd) seed_ops tr
        else (tr, False))"

section \<open>Phases\<close>

datatype failure =
    PhaseFailed string int
  | SelectNothing
  | NoSelector
  | DCSelector string
  | BadSelector string
  | NoMatch string
  | NotCreated
  | SelectorsRequired
  | ProbeFailed int
  | RenderFailed render_error
  | KeyFiles int
  | FleetFailed fleet_error
  | ApplyFailed apply_error
  | PlaceFailed place_error
  | InvalidPlacement placement_error
  | PlacementUnsaved
  | PreflightFailed "int list"
  | BadMode string
  | BadArchive
  | ArchiveExists
  | NoPChain
  | ArchiveFailed "remote_op list"

type_synonym outcome = "trace \<times> failure option"

fun phase :: "string \<Rightarrow> 'pop action \<Rightarrow> 'pop node_deployment list \<Rightarrow> trace \<Rightarrow> outcome" where
  "phase name act [] tr = (tr, None)"
| "phase name act (nd # nds) tr = (let (tr', ok) = act nd tr
     in if ok then phase name act nds tr' else (tr', Some (PhaseFailed name (num nd))))"

text \<open>\<^verbatim>\<open>phaseParallel\<close>: every machine is tried; the numbers of those that failed.\<close>

fun phase_parallel :: "'pop action \<Rightarrow> 'pop node_deployment list \<Rightarrow> trace \<Rightarrow> trace \<times> int list" where
  "phase_parallel act [] tr = (tr, [])"
| "phase_parallel act (nd # nds) tr = (let (tr', ok) = act nd tr; (tr'', failed) = phase_parallel act nds tr'
     in (tr'', if ok then failed else num nd # failed))"

definition bind_outcome :: "outcome \<Rightarrow> (trace \<Rightarrow> outcome) \<Rightarrow> outcome" where
  "bind_outcome out k = (case out of (tr, None) \<Rightarrow> k tr | (tr, Some e) \<Rightarrow> (tr, Some e))"

fun run_phases :: "(string \<times> 'pop action) list \<Rightarrow> 'pop node_deployment list \<Rightarrow> trace \<Rightarrow> outcome" where
  "run_phases [] sel tr = (tr, None)"
| "run_phases ((name, act) # ps) sel tr = bind_outcome (phase name act sel tr) (run_phases ps sel)"

section \<open>Selectors\<close>

definition expand_selectors :: "string list \<Rightarrow> string list" where
  "expand_selectors selectors =
     filter (\<lambda>s. s \<noteq> []) (map trim_space (concat (map (go_split (CHR '','')) selectors)))"

definition choose_step :: "node list \<Rightarrow> int set \<Rightarrow> string \<Rightarrow> failure + int set" where
  "choose_step candidates chosen s =
    (if has_prefix s ''dc='' then Inl (DCSelector s)
     else case atoi s of
         None \<Rightarrow> Inl (BadSelector s)
       | Some number \<Rightarrow> if number \<in> Number ` set candidates then Inr (insert number chosen)
                         else Inl (NoMatch s))"

definition select_nodes :: "node list \<Rightarrow> string list \<Rightarrow> failure + node list" where
  "select_nodes candidates selectors =
    (if candidates = [] then Inl SelectNothing
     else if selectors = [] then Inr candidates
     else let expanded = expand_selectors selectors
          in if expanded = [] then Inl NoSelector
             else rbind (each (choose_step candidates) {} expanded) (\<lambda>chosen.
               Inr (filter (\<lambda>n. Number n \<in> chosen) candidates)))"

definition selectors_name :: "string list \<Rightarrow> int \<Rightarrow> bool" where
  "selectors_name selectors number =
    list_ex (\<lambda>s. list_ex (\<lambda>part. atoi (trim_space part) = Some number) (go_split (CHR '','') s)) selectors"

definition selected_numbers :: "'pop node_deployment list \<Rightarrow> int list" where
  "selected_numbers sel = map num sel"

definition lifecycle_targets ::
  "('cid, 'pop) inventory \<Rightarrow> string list \<Rightarrow> failure + 'pop node_deployment list" where
  "lifecycle_targets iv selectors =
    rbind (select_nodes (l1_nodes iv) selectors) (\<lambda>chosen.
      map_sum FleetFailed id (rmap (target iv) chosen))"

text \<open>\<^verbatim>\<open>placementTargets\<close>: \<open>files_ok\<close> is the check of the identity's key files.\<close>

definition placement_targets ::
  "('pop public_node \<Rightarrow> bool) \<Rightarrow> ('cid, 'pop) inventory \<Rightarrow> node list \<Rightarrow> failure + 'pop node_deployment list" where
  "placement_targets files_ok iv ns = rmap (\<lambda>n. rbind (map_sum FleetFailed id (target iv n)) (\<lambda>t.
     if files_ok (nd_identity t) then Inr t else Inl (KeyFiles (Number n)))) ns"

section \<open>Start, stop, destroy\<close>

text \<open>What the commands read, each after the events so far: the output of the activity probe, of
  the combined activity and intent probe, and of the boot intent probe of a machine (\<open>None\<close>: no
  answer), the node ID its API reports; and the deployment root with the parsers of its files.\<close>

record ('cid, 'pop) surroundings =
  sur_runner :: runner
  sur_service :: "trace \<Rightarrow> int \<Rightarrow> string option"
  sur_state :: "trace \<Rightarrow> int \<Rightarrow> string option"
  sur_intent :: "trace \<Rightarrow> int \<Rightarrow> string option"
  sur_node_id :: "trace \<Rightarrow> int \<Rightarrow> string option"
  sur_files :: file_system
  sur_decode :: "string \<Rightarrow> node_config option"
  sur_codec :: "'cid id_codec"
  sur_cert :: "string \<Rightarrow> string option"

definition sur_render ::
  "('cid, 'pop) surroundings \<Rightarrow> ('cid, 'pop) inventory \<Rightarrow> 'pop node_deployment list \<Rightarrow> (int \<Rightarrow> bool)
   \<Rightarrow> render_error + rendered list" where
  "sur_render sur iv = render_configs (sur_decode sur) (sur_files sur) (sur_codec sur) iv"

definition sur_keys :: "('cid, 'pop) surroundings \<Rightarrow> 'pop public_node \<Rightarrow> bool" where
  "sur_keys sur = validate_identity_files (sur_cert sur) (sur_files sur)"

definition act :: "('cid, 'pop) surroundings \<Rightarrow> ('pop node_deployment \<Rightarrow> remote_op list) \<Rightarrow> 'pop action" where
  "act sur ops = ops_action (sur_runner sur) ops"

text \<open>\<^verbatim>\<open>refreshAddressBook\<close>: best effort on every L1 machine once the book is rendered.\<close>

definition refresh_address_book ::
  "('cid, 'pop) surroundings \<Rightarrow> ('cid, 'pop) inventory \<Rightarrow> int list \<Rightarrow> int list \<Rightarrow> trace \<Rightarrow> outcome" where
  "refresh_address_book sur iv bringing_up taking_down tr =
    (case intended_up iv (sur_intent sur tr) bringing_up taking_down of
      Inl e \<Rightarrow> (tr, Some (FleetFailed e))
    | Inr up \<Rightarrow> (case placement_targets (sur_keys sur) iv (l1_nodes iv) of
        Inl e \<Rightarrow> (tr, Some e)
      | Inr all \<Rightarrow> (case sur_render sur iv all up of
          Inl e \<Rightarrow> (tr, Some (RenderFailed e))
        | Inr _ \<Rightarrow> (fst (phase_parallel (act sur config_ops) all tr), None))))"

definition probe_runtime_identity ::
  "('cid, 'pop) surroundings \<Rightarrow> trace \<Rightarrow> 'pop node_deployment \<Rightarrow> failure + bool \<times> string" where
  "probe_runtime_identity sur tr t = (case sur_service sur tr (num t) of
      None \<Rightarrow> Inl (ProbeFailed (num t))
    | Some out \<Rightarrow>
        if trim_space out \<noteq> ''active'' then Inr (False, [])
        else Inr (True, case sur_node_id sur tr (num t) of None \<Rightarrow> [] | Some i \<Rightarrow> i))"

definition probe_step ::
  "('cid, 'pop) surroundings \<Rightarrow> trace \<Rightarrow> 'pop node_deployment list \<Rightarrow> 'pop node_deployment
   \<Rightarrow> failure + 'pop node_deployment list" where
  "probe_step sur tr converge t = rbind (probe_runtime_identity sur tr t) (\<lambda>(active, runtime).
     Inr (if fst (plan_start t active runtime) then converge @ [t] else converge))"

definition start_phases :: "('cid, 'pop) surroundings \<Rightarrow> (string \<times> 'pop action) list" where
  "start_phases sur = [(''stop'', act sur (\<lambda>_. [StopNode])), (''identity'', act sur identity_ops),
     (''config'', act sur config_ops), (''start'', act sur (\<lambda>_. [EnableAndStart]))]"

definition fleet_start ::
  "('cid, 'pop) surroundings \<Rightarrow> ('cid, 'pop) inventory \<Rightarrow> string list \<Rightarrow> trace \<Rightarrow> outcome" where
  "fleet_start sur iv selectors tr = (case lifecycle_targets iv selectors of
      Inl e \<Rightarrow> (tr, Some e)
    | Inr sel \<Rightarrow>
      if \<not> inv_created iv then (tr, Some NotCreated)
      else (case each (probe_step sur tr) [] sel of
          Inl e \<Rightarrow> (tr, Some e)
        | Inr converge \<Rightarrow>
          if converge = [] then (tr, None)
          else (case intended_up iv (sur_intent sur tr) (selected_numbers converge) [] of
              Inl e \<Rightarrow> (tr, Some (FleetFailed e))
            | Inr up \<Rightarrow> (case sur_render sur iv converge up of
                Inl e \<Rightarrow> (tr, Some (RenderFailed e))
              | Inr _ \<Rightarrow> bind_outcome (run_phases (start_phases sur) converge tr)
                  (refresh_address_book sur iv (selected_numbers converge) [])))))"

definition fleet_stop ::
  "('cid, 'pop) surroundings \<Rightarrow> ('cid, 'pop) inventory \<Rightarrow> string list \<Rightarrow> trace \<Rightarrow> outcome" where
  "fleet_stop sur iv selectors tr = (case lifecycle_targets iv selectors of
      Inl e \<Rightarrow> (tr, Some e)
    | Inr sel \<Rightarrow> bind_outcome (run_phases [(''stop'', act sur (\<lambda>_. [DisableAndStop]))] sel tr)
        (refresh_address_book sur iv [] (selected_numbers sel)))"

definition destroy_phases :: "('cid, 'pop) surroundings \<Rightarrow> 'pop node_deployment list \<Rightarrow> trace \<Rightarrow> outcome" where
  "destroy_phases sur sel tr = run_phases [(''destroy kill'', act sur (\<lambda>_. [KillNode])),
     (''destroy chain data'', act sur (\<lambda>_. [RemoveChainData]))] sel tr"

definition fleet_destroy ::
  "('cid, 'pop) surroundings \<Rightarrow> ('cid, 'pop) inventory \<Rightarrow> string list \<Rightarrow> trace \<Rightarrow> outcome" where
  "fleet_destroy sur iv selectors tr =
    (if selectors = [] then (tr, Some SelectorsRequired)
     else case lifecycle_targets iv selectors of
      Inl e \<Rightarrow> (tr, Some e)
    | Inr sel \<Rightarrow>
      if \<not> inv_created iv then (tr, Some NotCreated)
      else bind_outcome (destroy_phases sur sel tr) (refresh_address_book sur iv [] (selected_numbers sel)))"

section \<open>The P-chain machine\<close>

definition pchain_target :: "('cid, 'pop) inventory \<Rightarrow> failure + 'pop node_deployment" where
  "pchain_target iv = (case inv_pchain iv of None \<Rightarrow> Inl NoPChain
    | Some n \<Rightarrow> map_sum FleetFailed id (target iv n))"

definition start_pchain :: "('cid, 'pop) surroundings \<Rightarrow> ('cid, 'pop) inventory \<Rightarrow> trace \<Rightarrow> outcome" where
  "start_pchain sur iv tr = (case pchain_target iv of Inl e \<Rightarrow> (tr, Some e)
    | Inr t \<Rightarrow> phase ''start P-chain'' (act sur (\<lambda>_. [EnableAndStart, CheckActive])) [t] tr)"

definition stop_pchain :: "('cid, 'pop) surroundings \<Rightarrow> ('cid, 'pop) inventory \<Rightarrow> trace \<Rightarrow> outcome" where
  "stop_pchain sur iv tr = (case pchain_target iv of Inl e \<Rightarrow> (tr, Some e)
    | Inr t \<Rightarrow> phase ''stop P-chain'' (act sur (\<lambda>_. [DisableAndStop])) [t] tr)"

section \<open>What a phase does to the trace\<close>

text \<open>\<open>always_before Q P tr\<close>: whenever an event with \<open>Q\<close> happens, \<open>P\<close> held of the events before it.\<close>

definition always_before :: "(event \<Rightarrow> bool) \<Rightarrow> (trace \<Rightarrow> bool) \<Rightarrow> trace \<Rightarrow> bool" where
  "always_before Q P tr \<longleftrightarrow> (\<forall>i < length tr. Q (tr ! i) \<longrightarrow> P (take i tr))"

definition lasting :: "(trace \<Rightarrow> bool) \<Rightarrow> bool" where
  "lasting P \<longleftrightarrow> (\<forall>tr evs. P tr \<longrightarrow> P (tr @ evs))"

lemma lasting_mem [simp]: "lasting (\<lambda>pre. e \<in> set pre)"
  and lasting_all [simp]: "lasting (\<lambda>pre. \<forall>t \<in> S. f t \<in> set pre)"
  by (simp_all add: lasting_def)

lemma always_before_Nil [simp]: "always_before Q P []"
  by (simp add: always_before_def)

lemma always_before_other:
  "always_before Q P tr \<Longrightarrow> (\<forall>e \<in> set evs. \<not> Q e) \<Longrightarrow> always_before Q P (tr @ evs)"
  by (auto simp: always_before_def nth_append)

lemma always_before_after:
  assumes "always_before Q P tr" "lasting P" "P tr"
  shows "always_before Q P (tr @ evs)"
  using assms by (auto simp: always_before_def nth_append lasting_def)

definition op_of :: "event \<Rightarrow> remote_op" where
  "op_of e = fst (snd e)"

definition succeeded :: "trace \<Rightarrow> 'pop node_deployment \<Rightarrow> remote_op \<Rightarrow> bool" where
  "succeeded tr nd op \<longleftrightarrow> (num nd, op, True) \<in> set tr"

lemma succeeded_append [simp]: "succeeded (tr @ evs) nd op \<longleftrightarrow> succeeded tr nd op \<or> succeeded evs nd op"
  by (auto simp: succeeded_def)

lemma lasting_succeeded [simp]: "lasting (\<lambda>pre. succeeded pre nd op)"
  and lasting_all_succeeded [simp]: "lasting (\<lambda>pre. \<forall>nd \<in> S. succeeded pre nd op)"
  by (auto simp: lasting_def)

text \<open>The interface of the phase engine: an action adds events of its own machine only, from a
  known set of operations. A complete action that reports success has done them all.\<close>

locale node_action =
  fixes action :: "'pop node_deployment \<Rightarrow> trace \<Rightarrow> trace \<times> bool"
    and allowed :: "'pop node_deployment \<Rightarrow> remote_op list"
  assumes extends: "action nd tr = (tr', ok) \<Longrightarrow>
    \<exists>evs. tr' = tr @ evs \<and> (\<forall>e \<in> set evs. fst e = num nd \<and> op_of e \<in> set (allowed nd))"
begin

lemma phase_extends:
  "phase name action nds tr = (tr', r) \<Longrightarrow>
   \<exists>evs. tr' = tr @ evs \<and> (\<forall>e \<in> set evs. \<exists>nd \<in> set nds. fst e = num nd \<and> op_of e \<in> set (allowed nd))"
proof (induction nds arbitrary: tr)
  case (Cons nd nds)
  obtain t1 ok where a: "action nd tr = (t1, ok)" by fastforce
  from extends [OF a] obtain e1 where e1: "t1 = tr @ e1" "\<forall>e \<in> set e1. fst e = num nd \<and> op_of e \<in> set (allowed nd)"
    by blast
  show ?case
  proof (cases ok)
    case True
    with Cons.prems a have "phase name action nds t1 = (tr', r)" by simp
    from Cons.IH [OF this] obtain e2 where "tr' = t1 @ e2"
      "\<forall>e \<in> set e2. \<exists>nd \<in> set nds. fst e = num nd \<and> op_of e \<in> set (allowed nd)" by blast
    with e1 show ?thesis by (intro exI [of _ "e1 @ e2"]) auto
  next
    case False
    with Cons.prems a e1 show ?thesis by auto
  qed
qed auto

lemma parallel_extends:
  "phase_parallel action nds tr = (tr', failed) \<Longrightarrow>
   \<exists>evs. tr' = tr @ evs \<and> (\<forall>e \<in> set evs. \<exists>nd \<in> set nds. fst e = num nd \<and> op_of e \<in> set (allowed nd))"
proof (induction nds arbitrary: tr tr' failed)
  case (Cons nd nds)
  obtain t1 ok where a: "action nd tr = (t1, ok)" by fastforce
  from extends [OF a] obtain e1 where e1: "t1 = tr @ e1" "\<forall>e \<in> set e1. fst e = num nd \<and> op_of e \<in> set (allowed nd)"
    by blast
  obtain t2 f where p: "phase_parallel action nds t1 = (t2, f)" by fastforce
  from Cons.IH [OF p] obtain e2 where "t2 = t1 @ e2"
    "\<forall>e \<in> set e2. \<exists>nd \<in> set nds. fst e = num nd \<and> op_of e \<in> set (allowed nd)" by blast
  with e1 Cons.prems a p show ?case by (intro exI [of _ "e1 @ e2"]) auto
qed auto

text \<open>A phase without guarded operations keeps an ordering; so does any phase once the guard holds.\<close>

lemma phase_unguarded:
  assumes "phase name action nds tr = (tr', r)" "always_before Q P tr"
    "\<And>nd e. nd \<in> set nds \<Longrightarrow> fst e = num nd \<Longrightarrow> op_of e \<in> set (allowed nd) \<Longrightarrow> \<not> Q e"
  shows "always_before Q P tr'"
  using phase_extends [OF assms(1)] assms(2,3) by (auto intro!: always_before_other)

lemma phase_guarded:
  assumes "phase name action nds tr = (tr', r)" "always_before Q P tr" "lasting P" "P tr"
  shows "always_before Q P tr' \<and> P tr'"
  using phase_extends [OF assms(1)] assms(2-4) by (auto intro: always_before_after simp: lasting_def)

end

locale complete_action = node_action action allowed
  for action :: "'pop node_deployment \<Rightarrow> trace \<Rightarrow> trace \<times> bool" and allowed +
  assumes completes: "action nd tr = (tr', True) \<Longrightarrow> op \<in> set (allowed nd) \<Longrightarrow> succeeded tr' nd op"
begin

lemma phase_completes:
  "phase name action nds tr = (tr', None) \<Longrightarrow> nd \<in> set nds \<Longrightarrow> op \<in> set (allowed nd) \<Longrightarrow> succeeded tr' nd op"
proof (induction nds arbitrary: tr)
  case (Cons m nds)
  obtain t1 ok where a: "action m tr = (t1, ok)" by fastforce
  with Cons.prems have ok: "ok" and rest: "phase name action nds t1 = (tr', None)" by (auto split: if_splits)
  show ?case
  proof (cases "nd = m")
    case True
    with completes [of m tr t1 op] a ok Cons.prems have "succeeded t1 nd op" by simp
    with phase_extends [OF rest] show ?thesis by auto
  next
    case False
    with Cons.IH [OF rest] Cons.prems show ?thesis by simp
  qed
qed simp

lemma parallel_completes:
  "phase_parallel action nds tr = (tr', []) \<Longrightarrow> nd \<in> set nds \<Longrightarrow> op \<in> set (allowed nd) \<Longrightarrow> succeeded tr' nd op"
proof (induction nds arbitrary: tr)
  case (Cons m nds)
  obtain t1 ok where a: "action m tr = (t1, ok)" by fastforce
  obtain t2 f where p: "phase_parallel action nds t1 = (t2, f)" by fastforce
  with Cons.prems a have ok: "ok" "t2 = tr'" "f = []" by (auto split: if_splits)
  show ?case
  proof (cases "nd = m")
    case True
    with completes [of m tr t1 op] a ok Cons.prems have "succeeded t1 nd op" by simp
    with parallel_extends [OF p] ok show ?thesis by auto
  next
    case False
    with Cons.IH [of t1] p ok Cons.prems show ?thesis by simp
  qed
qed simp

end

lemma run_ops_extends:
  "run_ops runner n ops tr = (tr', ok) \<Longrightarrow>
   \<exists>evs. tr' = tr @ evs \<and> (\<forall>e \<in> set evs. fst e = n \<and> op_of e \<in> set ops) \<and>
     (ok \<longrightarrow> (\<forall>op \<in> set ops. (n, op, True) \<in> set evs))"
proof (induction ops arbitrary: tr)
  case (Cons op ops)
  show ?case
  proof (cases "runner tr n op")
    case True
    with Cons.prems have "run_ops runner n ops (tr @ [(n, op, True)]) = (tr', ok)" by (simp add: exec_def)
    from Cons.IH [OF this] obtain evs where "tr' = (tr @ [(n, op, True)]) @ evs"
      "\<forall>e \<in> set evs. fst e = n \<and> op_of e \<in> set ops" "ok \<longrightarrow> (\<forall>op \<in> set ops. (n, op, True) \<in> set evs)" by blast
    then show ?thesis by (intro exI [of _ "(n, op, True) # evs"]) (auto simp: op_of_def)
  next
    case False
    with Cons.prems show ?thesis by (auto simp: exec_def op_of_def)
  qed
qed simp

interpretation ops: complete_action "ops_action runner ops" ops for runner :: runner and ops
proof unfold_locales
  fix nd tr tr' ok assume "ops_action runner ops nd tr = (tr', ok)"
  from run_ops_extends [OF this [unfolded ops_action_def]]
  show "\<exists>evs. tr' = tr @ evs \<and> (\<forall>e \<in> set evs. fst e = num nd \<and> op_of e \<in> set (ops nd))" by blast
next
  fix nd tr tr' op assume "ops_action runner ops nd tr = (tr', True)" "op \<in> set (ops nd)"
  with run_ops_extends [OF this(1) [unfolded ops_action_def]] show "succeeded tr' nd op"
    by (auto simp: succeeded_def)
qed

interpretation seed: node_action "seed_action runner database" "\<lambda>_. seed_ops" for runner database
proof unfold_locales
  fix nd tr tr' ok assume "seed_action runner database nd tr = (tr', ok)"
  then show "\<exists>evs. tr' = tr @ evs \<and> (\<forall>e \<in> set evs. fst e = num nd \<and> op_of e \<in> set seed_ops)"
    using run_ops_extends [of runner "num nd" seed_ops tr tr' ok]
    by (auto simp: seed_action_def split: option.splits if_splits)
qed


section \<open>Selections\<close>

lemma select_nodes_filter:
  "select_nodes candidates selectors = Inr chosen \<Longrightarrow> \<exists>P. chosen = filter P candidates"
  by (auto simp: select_nodes_def Let_def split: if_splits intro: exI [of _ "\<lambda>_. True"])

lemma target_node: "target iv n = Inr t \<Longrightarrow> nd_node t = n"
  by (auto simp: target_def)

lemma rmap_target_nodes: "rmap (target iv) ns = Inr ts \<Longrightarrow> map nd_node ts = ns"
  by (induction ns arbitrary: ts) (auto dest: target_node)

lemma lifecycle_targets_nodes:
  assumes "lifecycle_targets iv selectors = Inr sel"
  obtains P where "map nd_node sel = filter P (l1_nodes iv)"
proof -
  from assms obtain chosen where c: "select_nodes (l1_nodes iv) selectors = Inr chosen"
    "rmap (target iv) chosen = Inr sel" by (auto simp: lifecycle_targets_def)
  from select_nodes_filter [OF c(1)] rmap_target_nodes [OF c(2)] that show ?thesis by blast
qed

lemma lifecycle_targets_distinct:
  assumes "iv_ok env iv" "lifecycle_targets iv selectors = Inr sel"
  shows "distinct (map num sel)"
proof -
  from lifecycle_targets_nodes [OF assms(2)] obtain P where "map nd_node sel = filter P (l1_nodes iv)" .
  then have "map num sel = map Number (filter P (l1_nodes iv))"
    by (metis (no_types, lifting) map_map comp_apply map_eq_conv)
  with iv_ok_numbers [OF assms(1)] show ?thesis by (simp add: l1_nodes_def distinct_map_filter)
qed

section \<open>Start leaves a converged machine alone\<close>

text \<open>A machine is in service when its probe says active and its API reports the identity that
  placement assigns to it.\<close>

definition serving :: "('cid, 'pop) surroundings \<Rightarrow> trace \<Rightarrow> 'pop node_deployment \<Rightarrow> bool" where
  "serving sur tr t \<longleftrightarrow> (\<exists>out. sur_service sur tr (num t) = Some out \<and> trim_space out = ''active'') \<and>
     (case sur_node_id sur tr (num t) of None \<Rightarrow> pn_NodeID (nd_identity t) = []
      | Some i \<Rightarrow> i = pn_NodeID (nd_identity t))"

lemma probe_steps:
  "each (probe_step sur tr) acc ts = Inr converge \<Longrightarrow>
   converge = acc @ filter (\<lambda>t. \<not> serving sur tr t) ts"
proof (induction ts arbitrary: acc)
  case (Cons t ts)
  then obtain acc' where step: "probe_step sur tr acc t = Inr acc'"
    and rest: "each (probe_step sur tr) acc' ts = Inr converge" by auto
  from step have "acc' = acc @ (if serving sur tr t then [] else [t])"
    by (auto simp: probe_step_def probe_runtime_identity_def serving_def plan_start_def
        split: option.splits if_splits)
  with Cons.IH [OF rest] show ?case by simp
qed simp

text \<open>What the four phases of start do before the address book goes out.\<close>

lemma bind_outcome_cases:
  assumes "bind_outcome out k = (tr', r)"
  obtains (fail) e where "out = (tr', Some e)" "r = Some e"
    | (ok) tr1 where "out = (tr1, None)" "k tr1 = (tr', r)"
  using assms by (cases out; cases "snd out") (auto simp: bind_outcome_def)

lemma run_phases_touch:
  assumes "run_phases ps sel tr = (tr', r)" "\<forall>p \<in> set ps. \<exists>ops. snd p = act sur ops"
  shows "\<exists>evs. tr' = tr @ evs \<and> (\<forall>e \<in> set evs. fst e \<in> num ` set sel)"
  using assms
proof (induction ps arbitrary: tr)
  case (Cons p ps)
  obtain name action where p: "p = (name, action)" by fastforce
  with Cons.prems(2) obtain ops where a: "action = ops_action (sur_runner sur) ops" by (auto simp: act_def)
  from Cons.prems(1) have "bind_outcome (phase name action sel tr) (run_phases ps sel) = (tr', r)" by (simp add: p)
  then show ?case
  proof (cases rule: bind_outcome_cases)
    case (fail e)
    from ops.phase_extends [OF fail(1) [unfolded a]] show ?thesis by (metis image_eqI)
  next
    case (ok tr1)
    from ops.phase_extends [OF ok(1) [unfolded a]] obtain e1 where "tr1 = tr @ e1" "\<forall>e \<in> set e1. fst e \<in> num ` set sel"
      by (metis image_eqI)
    moreover from Cons.IH [OF ok(2)] Cons.prems(2) obtain e2 where "tr' = tr1 @ e2" "\<forall>e \<in> set e2. fst e \<in> num ` set sel"
      by auto
    ultimately show ?thesis by (intro exI [of _ "e1 @ e2"]) auto
  qed
qed simp

lemma refresh_touch:
  assumes "refresh_address_book sur iv bringing taking tr = (tr', r)"
  shows "\<exists>evs. tr' = tr @ evs \<and> (\<forall>e \<in> set evs. op_of e \<in> {StageConfig, UploadConfig, InstallConfig})"
proof -
  have "\<exists>evs. fst (phase_parallel (act sur config_ops) all tr) = tr @ evs \<and>
      (\<forall>e \<in> set evs. op_of e \<in> {StageConfig, UploadConfig, InstallConfig})" for all
    using ops.parallel_extends [of "sur_runner sur" config_ops all tr]
    by (cases "phase_parallel (act sur config_ops) all tr") (fastforce simp: act_def config_ops_def)
  with assms show ?thesis
    by (auto simp: refresh_address_book_def split: sum.splits)
qed

text \<open>C5: start touches nothing that is in order: in whatever way the remote operations succeed or
  fail, a selected machine that is up and serves its assigned identity when the command probes
  it is not stopped, gets no identity and is not started; it only receives the new address
  book. When all selected machines are in order the command does nothing at all.\<close>

theorem start_spares_serving:
  assumes "lifecycle_targets iv selectors = Inr sel" "iv_ok env iv" "t \<in> set sel"
    "serving sur tr t" "fleet_start sur iv selectors tr = (tr', r)"
  shows "(\<exists>evs. tr' = tr @ evs \<and> (\<forall>e \<in> set evs. fst e = num t \<longrightarrow>
      op_of e \<in> {StageConfig, UploadConfig, InstallConfig})) \<and>
    ((\<forall>s \<in> set sel. serving sur tr s) \<longrightarrow> tr' = tr)"
proof -
  consider (stay) "tr' = tr" | (go) converge tr1 r1 where
    "each (probe_step sur tr) [] sel = Inr converge" "converge \<noteq> []"
    "run_phases (start_phases sur) converge tr = (tr1, r1)"
    "\<exists>evs. tr' = tr1 @ evs \<and> (\<forall>e \<in> set evs. op_of e \<in> {StageConfig, UploadConfig, InstallConfig})"
  proof (cases "tr' = tr")
    case False
    with assms(1,5) obtain converge up rs where c: "each (probe_step sur tr) [] sel = Inr converge" "converge \<noteq> []"
      and b: "bind_outcome (run_phases (start_phases sur) converge tr)
        (refresh_address_book sur iv (selected_numbers converge) []) = (tr', r)"
      by (auto simp: fleet_start_def split: if_splits sum.splits)
    obtain tr1 r1 where run: "run_phases (start_phases sur) converge tr = (tr1, r1)" by fastforce
    from b show thesis
    proof (cases rule: bind_outcome_cases)
      case (fail e)
      with run go [OF c run] show thesis by auto
    next
      case (ok tr2)
      with run have "tr2 = tr1" by simp
      with refresh_touch [OF ok(2)] go [OF c run] show thesis by simp
    qed
  qed (use stay in blast)
  then show ?thesis
  proof cases
    case stay
    then show ?thesis by simp
  next
    case go
    from probe_steps [OF go(1)] have conv: "converge = filter (\<lambda>t. \<not> serving sur tr t) sel" by simp
    have "\<forall>p \<in> set (start_phases sur). \<exists>ops. snd p = act sur ops" by (auto simp: start_phases_def)
    from run_phases_touch [OF go(3) this] obtain e1 where e1: "tr1 = tr @ e1" "\<forall>e \<in> set e1. fst e \<in> num ` set converge"
      by blast
    have "num t \<notin> num ` set converge"
      using lifecycle_targets_distinct [OF assms(2,1)] assms(3,4) by (auto simp: conv distinct_map inj_on_def)
    moreover from go(4) obtain e2 where "tr' = tr1 @ e2"
      "\<forall>e \<in> set e2. op_of e \<in> {StageConfig, UploadConfig, InstallConfig}" by blast
    ultimately have "tr' = tr @ (e1 @ e2) \<and> (\<forall>e \<in> set (e1 @ e2). fst e = num t \<longrightarrow>
        op_of e \<in> {StageConfig, UploadConfig, InstallConfig})" using e1 by auto
    moreover have "\<not> (\<forall>s \<in> set sel. serving sur tr s)" using go(2) by (auto simp: conv filter_empty_conv)
    ultimately show ?thesis by blast
  qed
qed

section \<open>Destroy proves every machine gone first\<close>

text \<open>C6: destroy removes no chain data before every selected machine was killed and proven
  inactive: in whatever way the remote operations succeed or fail, any removal of chain data
  in the trace comes after a successful kill of every selected machine.\<close>

theorem destroy_kills_first:
  assumes "lifecycle_targets iv selectors = Inr sel" "fleet_destroy sur iv selectors [] = (tr', r)"
  shows "\<forall>i < length tr'. op_of (tr' ! i) = RemoveChainData \<longrightarrow>
    (\<forall>t \<in> set sel. (num t, KillNode, True) \<in> set (take i tr'))"
proof -
  let ?Q = "\<lambda>e. op_of e = RemoveChainData" and ?P = "\<lambda>pre. \<forall>t \<in> set sel. succeeded pre t KillNode"
  have "always_before ?Q ?P tr'"
  proof (cases "tr' = []")
    case False
    with assms have b: "bind_outcome (destroy_phases sur sel []) (refresh_address_book sur iv [] (selected_numbers sel)) = (tr', r)"
      by (auto simp: fleet_destroy_def split: if_splits)
    have d: "always_before ?Q ?P t1" if run: "destroy_phases sur sel [] = (t1, r1)" for t1 r1
    proof -
      from run have "bind_outcome (phase ''destroy kill'' (ops_action (sur_runner sur) (\<lambda>_. [KillNode])) sel [])
          (run_phases [(''destroy chain data'', act sur (\<lambda>_. [RemoveChainData]))] sel) = (t1, r1)"
        by (simp add: destroy_phases_def act_def)
      then show ?thesis
      proof (cases rule: bind_outcome_cases)
        case (fail e)
        from ops.phase_unguarded [OF fail(1) always_before_Nil] show ?thesis by auto
      next
        case (ok t2)
        from ops.phase_unguarded [OF ok(1) always_before_Nil] have "always_before ?Q ?P t2" by auto
        moreover have "\<forall>t \<in> set sel. succeeded t2 t KillNode" using ops.phase_completes [OF ok(1)] by simp
        moreover from run_phases_touch [OF ok(2)] obtain evs where "t1 = t2 @ evs" by auto
        ultimately show ?thesis by (auto intro: always_before_after)
      qed
    qed
    from b show ?thesis
    proof (cases rule: bind_outcome_cases)
      case (ok t1)
      from refresh_touch [OF ok(2)] obtain evs where "tr' = t1 @ evs"
        "\<forall>e \<in> set evs. op_of e \<in> {StageConfig, UploadConfig, InstallConfig}" by blast
      with d [OF ok(1)] show ?thesis by (auto intro!: always_before_other)
    qed (use d in blast)
  qed simp
  then show ?thesis by (simp add: always_before_def succeeded_def)
qed

section \<open>An example\<close>

definition sample_created :: "(nat, string) inventory" where
  "sample_created = sample_iv\<lparr>inv_created := True, inv_chainIDs := [main_chain \<mapsto> 5, oracle_chain \<mapsto> 8],
     inv_subnetIDs := [main_chain \<mapsto> 4, oracle_chain \<mapsto> 7], inv_managerSubnetID := Some 1\<rparr>"

definition sample_sur :: "(nat, string) surroundings" where
  "sample_sur = \<lparr>sur_runner = \<lambda>_ _ _. True, sur_service = \<lambda>_ _. Some ''active'', sur_state = \<lambda>_ _. Some ''active enabled'',
     sur_intent = \<lambda>_ _. Some ''enabled'', sur_node_id = \<lambda>_ _. Some ''nodeb'',
     sur_files = sample_root, sur_decode = \<lambda>_. Some Map.empty, sur_codec = unary_codec, sur_cert = Some\<rparr>"

lemma sample_created_ok: "iv_ok sample_env sample_created"
proof -
  have "set (chains_of sample_nodes) = {main_chain, oracle_chain}"
    by (auto simp: chains_of_def sort_chains_def sample_nodes_def effective_chain_def main_chain_def oracle_chain_def)
  then show ?thesis
    using sample_iv_ok by (auto simp: sample_created_def iv_ok_def sample_iv_def base_inventory_def)
qed

lemma sample_created_flag: "inv_created sample_created"
  by (simp add: sample_created_def)

lemma atoi_2: "atoi ''2'' = Some 2"
  by (simp add: go_eval)

lemma sample_selected: "lifecycle_targets sample_created [''2''] = Inr [sample_target]"
proof -
  have e: "expand_selectors [''2''] = [''2'']" by (simp add: expand_selectors_def go_eval)
  have l: "l1_nodes sample_created = tl sample_nodes"
    by (simp add: sample_created_def sample_iv_def base_inventory_def l1_nodes_def sample_nodes_def)
  have t: "target sample_created (sample_nodes ! 1) = Inr sample_target"
    by (simp add: target_def assigned_def sample_created_def sample_iv_def base_inventory_def sample_placement_def
        sample_manifest_def index_by_def sample_node_def sample_target_def ports_by_node_def port_step_def Let_def
        sample_nodes_def)
  have "select_nodes (l1_nodes sample_created) [''2''] = Inr [sample_nodes ! 1]"
    by (simp add: select_nodes_def e l choose_step_def atoi_2 has_prefix_def sample_nodes_def del: rbind_eq_Inr)
  with t show ?thesis by (simp add: lifecycle_targets_def del: rbind_eq_Inr)
qed

lemma sample_num: "num sample_target = 2"
  by (simp add: sample_target_def sample_nodes_def)

theorem start_spares_serving_witness:
  "fst (fleet_start sample_sur sample_created [''2''] []) = [] \<and> serving sample_sur [] sample_target"
proof -
  have s: "serving sample_sur [] sample_target"
    by (simp add: serving_def sample_sur_def sample_target_def sample_node_def go_eval)
  obtain tr' r where f: "fleet_start sample_sur sample_created [''2''] [] = (tr', r)" by fastforce
  from start_spares_serving [OF sample_selected sample_created_ok _ s f] s show ?thesis by (simp add: f)
qed

theorem destroy_kills_first_witness:
  "\<exists>evs. fst (fleet_destroy sample_sur sample_created [''2''] []) = [(2, KillNode, True), (2, RemoveChainData, True)] @ evs \<and>
    filter (\<lambda>i. op_of (([(2, KillNode, True), (2, RemoveChainData, True)] @ evs) ! i) = RemoveChainData \<and>
      (2, KillNode, True) \<notin> set (take i ([(2, KillNode, True), (2, RemoveChainData, True)] @ evs)))
      [0..<length evs + 2] = []"
proof -
  obtain tr' r where f: "fleet_destroy sample_sur sample_created [''2''] [] = (tr', r)" by fastforce
  have "destroy_phases sample_sur [sample_target] [] = ([(2, KillNode, True), (2, RemoveChainData, True)], None)"
    by (simp add: destroy_phases_def act_def ops_action_def exec_def sample_num sample_sur_def bind_outcome_def)
  with f obtain q where "refresh_address_book sample_sur sample_created [] q
      [(2, KillNode, True), (2, RemoveChainData, True)] = (tr', r)"
    by (auto simp: fleet_destroy_def sample_selected bind_outcome_def sample_created_flag)
  from refresh_touch [OF this] obtain evs where tr': "tr' = [(2, KillNode, True), (2, RemoveChainData, True)] @ evs" by blast
  have "filter (\<lambda>i. op_of (tr' ! i) = RemoveChainData \<and> (2, KillNode, True) \<notin> set (take i tr')) [0..<length tr'] = []"
    using destroy_kills_first [OF sample_selected f] by (auto simp: sample_num filter_empty_conv)
  with f tr' show ?thesis by (intro exI [of _ evs]) simp
qed

end
