(* ===== verification/Deploy.thy ===== *)
theory Deploy
  imports Lifecycle
begin

text \<open>
  Installing software on the fleet, \<^verbatim>\<open>internal/fleet/deploy.go\<close>: \<open>prepare\<close> with every check it
  makes before a machine is touched, the preflight of \<^verbatim>\<open>preflight.go\<close>, deploy in both forms (whole
  fleet, rolling) and the P-chain reinstall. Remote steps are events of
  the trace of Lifecycle; the readiness gates are the event \<open>AwaitReady\<close>. The lemmas show the
  order the commands promise in whatever way the steps fail.
\<close>

section \<open>Preparing\<close>

datatype prepare_error =
    BadMode string
  | PrepareFleet fleet_error
  | NoPublicIdentity int
  | RoleDiffers int role role
  | NodeCountDiffers nat nat
  | StateAbsent
  | PrepareState state_error
  | NoArtifact path
  | NotExecutable path
  | KeyFilesBad string
  | PrepareRender render_error

record ('id, 'cid, 'pop) prepared =
  pr_environment :: fleet_environment
  pr_pchain :: "'pop node_deployment"
  pr_selected :: "'pop node_deployment list"
  pr_chainIDs :: "string \<rightharpoonup> 'cid"
  pr_subnetIDs :: "string \<rightharpoonup> 'cid"
  pr_managerSubnetID :: "'cid option"
  pr_expected_manager :: "'id option set"
  pr_expected_by_chain :: "string \<Rightarrow> 'id option set"
  pr_frozen :: bool

definition plugin_id :: string where
  "plugin_id = ''srEXiWaHuhNyGwPUi444Tu47ZEDwxTWrbQiuD7FmgSAQ6X7Dy''"

definition check_public :: "'pop public \<Rightarrow> unit \<Rightarrow> node \<Rightarrow> prepare_error + unit" where
  "check_public p u n = (case index_by pn_Node id (Nodes p) (Number n) of
      None \<Rightarrow> Inl (NoPublicIdentity (Number n))
    | Some g \<Rightarrow> if pn_Role g \<noteq> Role n then Inl (RoleDiffers (Number n) (Role n) (pn_Role g)) else Inr ())"

text \<open>The required files in the order they are checked; \<open>first_seen\<close> drops the repeated ones.\<close>

definition required_files :: "file_system \<Rightarrow> node list \<Rightarrow> bool \<Rightarrow> path list" where
  "required_files fs nodes includeL1 =
    [''bin'', ''avalanchego''] # first_seen [] (map (\<lambda>n. shipped_path fs (chain_of_node n) ''node-config.json'') nodes)
    @ (if includeL1 then [''bin'', plugin_id] # map (subnet_config_path fs) (chains_of nodes)
         @ first_seen [] (map (\<lambda>n. shipped_path fs (chain_of_node n) (chain_config_variant (Role n)))
             (filter (\<lambda>n. Role n \<noteq> RolePChain) nodes))
       else [])"

definition expected_validators :: "(string \<Rightarrow> 'id option) \<Rightarrow> 'pop public \<Rightarrow> string \<Rightarrow> 'id option set" where
  "expected_validators parse p chain =
    set (map (\<lambda>g. parse (pn_NodeID g))
      (filter (\<lambda>g. pn_Role g = RoleValidator \<and> chain_name g = chain) (Nodes p)))"

definition require_file :: "file_system \<Rightarrow> unit \<Rightarrow> path \<Rightarrow> prepare_error + unit" where
  "require_file fs u p = (if file_exists fs p then Inr () else Inl (NoArtifact p))"

definition prepare_identity ::
  "('cid, 'pop) surroundings \<Rightarrow> ('cid, 'pop) inventory \<Rightarrow> node \<Rightarrow> prepare_error + 'pop public_node" where
  "prepare_identity sur iv n = rbind (map_sum PrepareFleet id (assigned iv n)) (\<lambda>g.
     if sur_keys sur g then Inr g else Inl (KeyFilesBad (pn_Identity g)))"

definition prepare_pchain ::
  "('cid, 'pop) surroundings \<Rightarrow> ('cid, 'pop) inventory \<Rightarrow> bool \<Rightarrow> prepare_error + 'pop node_deployment" where
  "prepare_pchain sur iv frozen = (let n = pchain_node iv in
    rbind (prepare_identity sur iv n) (\<lambda>g.
    rbind (map_sum PrepareRender id (render_node (sur_decode sur) (sur_files sur) (inv_environment iv) n g
        (id_text (sur_codec sur) (id_empty (sur_codec sur))) (port_pair (inv_ports iv) (Number n)) frozen ([], []) ([], [])))
      (\<lambda>_. Inr \<lparr>nd_node = n, nd_identity = g, nd_httpPort = fst (port_pair (inv_ports iv) (Number n))\<rparr>)))"

definition deploy_up :: "node list \<Rightarrow> int \<Rightarrow> bool" where
  "deploy_up nodes k = foldl (\<lambda>m n. m(Number n := (Role n \<noteq> RolePChain))) (\<lambda>_. False) nodes k"

definition prepare_l1 ::
  "('cid, 'pop) surroundings \<Rightarrow> ('cid, 'pop) inventory \<Rightarrow> (int \<rightharpoonup> 'pop public_node) \<Rightarrow> bool \<Rightarrow> 'pop node_deployment
   \<Rightarrow> node \<Rightarrow> prepare_error + 'pop node_deployment" where
  "prepare_l1 sur iv identities frozen pchain n = (let ports = port_pair (inv_ports iv) (Number n) in
    rbind (prepare_identity sur iv n) (\<lambda>g.
    rbind (map_sum PrepareRender id (render_node (sur_decode sur) (sur_files sur) (inv_environment iv) n g
        (subnet_text (sur_codec sur) iv n) ports frozen
        (host_port (Host (nd_node pchain)) (snd (port_pair (inv_ports iv) (Number (nd_node pchain)))),
         pn_NodeID (nd_identity pchain))
        (state_sync_peers n (inv_nodes iv) identities (inv_ports iv) (deploy_up (inv_nodes iv)))))
      (\<lambda>_. Inr \<lparr>nd_node = n, nd_identity = g, nd_httpPort = fst ports\<rparr>)))"

text \<open>\<open>prepare_state\<close>: unlike \<open>complete_inventory\<close>, every missing ID is an error here.\<close>

definition prepare_state ::
  "'cid id_codec \<Rightarrow> (string \<times> string) list option \<Rightarrow> ('cid, 'pop) inventory \<Rightarrow> prepare_error + ('cid, 'pop) inventory" where
  "prepare_state codec read iv = (case read of None \<Rightarrow> Inl StateAbsent
    | Some kvs \<Rightarrow> (let state = map_of kvs in
        if read_str state ''NETWORK'' \<noteq> fleet_Network (inv_environment iv)
        then Inl (PrepareFleet (WrongNetwork (read_str state ''NETWORK'')))
        else rbind (map_sum PrepareState id (required_id codec state ''MANAGER_SUBNET_ID'')) (\<lambda>manager.
             rbind (map_sum PrepareState id (each (chain_ids_step codec state) (Map.empty, Map.empty) (inv_chains iv)))
               (\<lambda>(chainIDs, subnetIDs). Inr (iv\<lparr>inv_created := True, inv_chainIDs := chainIDs,
                  inv_subnetIDs := subnetIDs, inv_managerSubnetID := Some manager\<rparr>)))))"

definition prepare_inventory ::
  "('id, 'pop) fleet_libs \<Rightarrow> 'cid id_codec \<Rightarrow> fleet_files \<Rightarrow> prepare_error + ('cid, 'pop) inventory" where
  "prepare_inventory libs codec files =
    rbind (map_sum PrepareFleet id (load_fleet libs files)) (\<lambda>(env, nodes).
    rbind (map_sum PrepareFleet id (public_file libs files)) (\<lambda>p.
    rbind (each (check_public p) () nodes) (\<lambda>_.
    if card (dom (index_by pn_Node id (Nodes p))) \<noteq> length nodes
    then Inl (NodeCountDiffers (card (dom (index_by pn_Node id (Nodes p)))) (length nodes))
    else
    rbind (map_sum (PrepareFleet \<circ> PlacementError) id (load_placement (lib_placement libs) (file_placement files))) (\<lambda>current.
    rbind (map_sum (PrepareFleet \<circ> PlacementError) id (validate_placement current p nodes)) (\<lambda>_.
    let iv = base_inventory env nodes p current in
    rbind (map_sum PrepareFleet id (assigned_by_node iv)) (\<lambda>_. prepare_state codec (file_state files) iv))))))"

definition prepare_files ::
  "('cid, 'pop) surroundings \<Rightarrow> (path \<Rightarrow> bool) \<Rightarrow> ('cid, 'pop) inventory \<Rightarrow> bool \<Rightarrow> prepare_error + unit" where
  "prepare_files sur executable iv includeL1 =
    rbind (each (require_file (sur_files sur)) () (required_files (sur_files sur) (inv_nodes iv) includeL1)) (\<lambda>_.
      if \<not> executable [''bin'', ''avalanchego''] then Inl (NotExecutable [''bin'', ''avalanchego''])
      else if includeL1 \<and> \<not> executable [''bin'', plugin_id] then Inl (NotExecutable [''bin'', plugin_id])
      else Inr ())"

definition prepare ::
  "('id, 'pop) fleet_libs \<Rightarrow> ('cid, 'pop) surroundings \<Rightarrow> (path \<Rightarrow> bool) \<Rightarrow> fleet_files \<Rightarrow> string \<Rightarrow> bool
   \<Rightarrow> prepare_error + ('id, 'cid, 'pop) prepared" where
  "prepare libs sur executable files mode includeL1 =
    (if mode \<noteq> ''frozen'' \<and> mode \<noteq> ''follow'' then Inl (BadMode mode)
     else rbind (prepare_inventory libs (sur_codec sur) files) (\<lambda>iv.
          rbind (prepare_files sur executable iv includeL1) (\<lambda>_.
          rbind (prepare_pchain sur iv (mode = ''frozen'')) (\<lambda>pchain.
          rbind (map_sum PrepareFleet id (assigned_by_node iv)) (\<lambda>identities.
          rbind (if includeL1 then rmap (prepare_l1 sur iv identities (mode = ''frozen'') pchain) (l1_nodes iv) else Inr [])
            (\<lambda>selected. Inr \<lparr>pr_environment = inv_environment iv, pr_pchain = pchain, pr_selected = selected,
               pr_chainIDs = inv_chainIDs iv, pr_subnetIDs = inv_subnetIDs iv,
               pr_managerSubnetID = inv_managerSubnetID iv,
               pr_expected_manager = (\<lambda>m. id_parse (lib_platform libs) (pm_NodeID m)) ` set (Managers (inv_public iv)),
               pr_expected_by_chain = expected_validators (id_parse (lib_platform libs)) (inv_public iv),
               pr_frozen = (mode = ''frozen'')\<rparr>))))))"

section \<open>Deploy\<close>

definition preflight_hosts :: "('cid, 'pop) surroundings \<Rightarrow> 'pop node_deployment list \<Rightarrow> trace \<Rightarrow> outcome" where
  "preflight_hosts sur targets tr = (let (tr', failed) = phase_parallel (act sur (\<lambda>_. [Preflight])) targets tr
     in (tr', if failed = [] then None else Some (PreflightFailed failed)))"

definition l1_deploy_phases :: "('cid, 'pop) surroundings \<Rightarrow> (string \<times> 'pop action) list" where
  "l1_deploy_phases sur = [(''stop'', act sur (\<lambda>_. [StopNode])), (''package'', act sur package_ops),
     (''systemd'', act sur (\<lambda>_. [InstallUnit])), (''identity'', act sur identity_ops),
     (''start'', act sur (\<lambda>_. [StartOnly])), (''readiness'', act sur (\<lambda>_. [AwaitReady]))]"

definition reconcile_phases ::
  "('cid, 'pop) surroundings \<Rightarrow> (trace \<Rightarrow> string option) \<Rightarrow> bool \<Rightarrow> (string \<times> 'pop action) list" where
  "reconcile_phases sur database seed = [(''P-chain stop'', act sur (\<lambda>_. [StopNode])),
     (''P-chain package'', act sur package_ops), (''P-chain systemd'', act sur (\<lambda>_. [InstallUnit])),
     (''P-chain identity'', act sur identity_ops)]
     @ (if seed then [(''P-chain seed'', seed_action (sur_runner sur) database)] else [])
     @ [(''P-chain start'', act sur (\<lambda>_. [StartAndVerify]))]"

definition reconcile_pchain ::
  "('cid, 'pop) surroundings \<Rightarrow> (trace \<Rightarrow> string option) \<Rightarrow> bool \<Rightarrow> 'pop node_deployment \<Rightarrow> trace \<Rightarrow> outcome" where
  "reconcile_pchain sur database seed pchain tr = run_phases (reconcile_phases sur database seed) [pchain] tr"

fun rolling :: "('cid, 'pop) surroundings \<Rightarrow> 'pop node_deployment list \<Rightarrow> trace \<Rightarrow> outcome" where
  "rolling sur [] tr = (tr, None)"
| "rolling sur (nd # nds) tr = bind_outcome (run_phases (l1_deploy_phases sur) [nd] tr) (rolling sur nds)"

definition pick :: "'pop node_deployment list \<Rightarrow> node list \<Rightarrow> 'pop node_deployment list" where
  "pick selected chosen = concat (map (\<lambda>want. case find (\<lambda>nd. num nd = Number want) selected of
      None \<Rightarrow> [] | Some nd \<Rightarrow> [nd]) chosen)"

definition deploy_full ::
  "('cid, 'pop) surroundings \<Rightarrow> (trace \<Rightarrow> string option) \<Rightarrow> ('id, 'cid, 'pop) prepared \<Rightarrow> trace \<Rightarrow> outcome" where
  "deploy_full sur database pr tr =
    bind_outcome (reconcile_pchain sur database (pr_frozen pr) (pr_pchain pr) tr) (\<lambda>tr.
    bind_outcome (phase ''P-chain readiness'' (act sur (\<lambda>_. [AwaitReady])) [pr_pchain pr] tr)
      (run_phases (l1_deploy_phases sur) (pr_selected pr)))"

text \<open>\<^verbatim>\<open>Deploy\<close> after \<^verbatim>\<open>prepare\<close>; \<open>archive_ok\<close> is the check of the frozen archive.\<close>

definition deploy ::
  "('cid, 'pop) surroundings \<Rightarrow> (trace \<Rightarrow> string option) \<Rightarrow> bool \<Rightarrow> ('id, 'cid, 'pop) prepared \<Rightarrow> string list \<Rightarrow> bool
   \<Rightarrow> trace \<Rightarrow> outcome" where
  "deploy sur database archive_ok pr selectors dry_run tr =
    (if pr_frozen pr \<and> \<not> archive_ok then (tr, Some BadArchive)
     else case (if selectors = [] then Inr (pr_selected pr)
                else map_sum id (pick (pr_selected pr)) (select_nodes (map nd_node (pr_selected pr)) selectors)) of
        Inl e \<Rightarrow> (tr, Some e)
      | Inr sel \<Rightarrow> bind_outcome (preflight_hosts sur (if selectors = [] then pr_pchain pr # sel else sel) tr)
          (\<lambda>tr. if dry_run then (tr, None)
                else if selectors = [] then deploy_full sur database pr tr
                else rolling sur sel tr))"

definition follow_pchain ::
  "('cid, 'pop) surroundings \<Rightarrow> (trace \<Rightarrow> string option) \<Rightarrow> ('id, 'cid, 'pop) prepared \<Rightarrow> trace \<Rightarrow> outcome" where
  "follow_pchain sur database pr tr = bind_outcome (preflight_hosts sur [pr_pchain pr] tr)
     (reconcile_pchain sur database False (pr_pchain pr))"

section \<open>The order of a deploy\<close>

definition ops_within :: "(remote_op \<Rightarrow> bool) \<Rightarrow> 'pop action \<Rightarrow> bool" where
  "ops_within good action \<longleftrightarrow> (\<exists>allowed. node_action action allowed \<and> (\<forall>nd. \<forall>op \<in> set (allowed nd). good op))"

lemma ops_within_act: "(\<And>nd op. op \<in> set (ops nd) \<Longrightarrow> good op) \<Longrightarrow> ops_within good (act sur ops)"
  unfolding ops_within_def act_def using ops.node_action_axioms by blast

lemma ops_within_seed: "good StageSeed \<Longrightarrow> good UploadSeed \<Longrightarrow> good UnpackSeed \<Longrightarrow> ops_within good (seed_action runner database)"
  unfolding ops_within_def using seed.node_action_axioms
  by (intro exI [of _ "\<lambda>_. seed_ops"]) (auto simp: seed_ops_def)

lemma run_phases_within:
  assumes "run_phases ps sel tr = (tr', r)" "\<forall>p \<in> set ps. ops_within good (snd p)"
  shows "\<exists>evs. tr' = tr @ evs \<and> (\<forall>e \<in> set evs. (\<exists>nd \<in> set sel. fst e = num nd) \<and> good (op_of e))"
  using assms
proof (induction ps arbitrary: tr)
  case (Cons p ps)
  obtain name action where p: "p = (name, action)" by fastforce
  with Cons.prems(2) obtain allowed where a: "node_action action allowed" "\<forall>nd. \<forall>op \<in> set (allowed nd). good op"
    by (auto simp: ops_within_def)
  from Cons.prems(1) have "bind_outcome (phase name action sel tr) (run_phases ps sel) = (tr', r)" by (simp add: p)
  then show ?case
  proof (cases rule: bind_outcome_cases)
    case (fail e)
    from node_action.phase_extends [OF a(1) fail(1)] a(2) show ?thesis by metis
  next
    case (ok tr1)
    from node_action.phase_extends [OF a(1) ok(1)] a(2) obtain e1 where "tr1 = tr @ e1"
      "\<forall>e \<in> set e1. (\<exists>nd \<in> set sel. fst e = num nd) \<and> good (op_of e)" by metis
    moreover from Cons.IH [OF ok(2)] Cons.prems(2) obtain e2 where "tr' = tr1 @ e2"
      "\<forall>e \<in> set e2. (\<exists>nd \<in> set sel. fst e = num nd) \<and> good (op_of e)" by auto
    ultimately show ?thesis by (intro exI [of _ "e1 @ e2"]) auto
  qed
qed simp

lemma run_phases_succeed:
  assumes "run_phases ps sel tr = (tr', None)" "\<forall>p \<in> set ps. ops_within good (snd p)"
    "(name, act sur ops) \<in> set ps" "nd \<in> set sel" "op \<in> set (ops nd)"
  shows "succeeded tr' nd op"
  using assms
proof (induction ps arbitrary: tr)
  case (Cons p ps)
  obtain pname action where p: "p = (pname, action)" by fastforce
  from Cons.prems(1) obtain tr1 where one: "phase pname action sel tr = (tr1, None)"
    and rest: "run_phases ps sel tr1 = (tr', None)" by (auto simp: p elim!: bind_outcome_cases)
  show ?case
  proof (cases "(name, act sur ops) \<in> set ps")
    case True
    with Cons.IH [OF rest] Cons.prems show ?thesis by simp
  next
    case False
    with Cons.prems(3) p have "action = ops_action (sur_runner sur) ops" by (simp add: act_def)
    with ops.phase_completes [of pname "sur_runner sur" ops sel tr tr1] one Cons.prems(4,5)
    have "succeeded tr1 nd op" by simp
    with run_phases_within [OF rest, of good] Cons.prems(2) show ?thesis by auto
  qed
qed simp

abbreviation changing :: "remote_op \<Rightarrow> bool" where
  "changing op \<equiv> op \<noteq> Preflight"

lemma l1_phases_within: "\<forall>p \<in> set (l1_deploy_phases sur). ops_within changing (snd p)"
  by (auto simp: l1_deploy_phases_def package_ops_def identity_ops_def intro!: ops_within_act split: if_splits)

lemma reconcile_phases_within: "\<forall>p \<in> set (reconcile_phases sur database seed). ops_within changing (snd p)"
  by (auto simp: reconcile_phases_def package_ops_def identity_ops_def
      intro!: ops_within_act ops_within_seed split: if_splits)

text \<open>A phase list run to its end on one machine after the other: the shape of the rolling deploy
  and of the chain upgrade.\<close>

fun one_by_one :: "(string \<times> 'pop action) list \<Rightarrow> 'pop node_deployment list \<Rightarrow> trace \<Rightarrow> outcome" where
  "one_by_one ps [] tr = (tr, None)"
| "one_by_one ps (nd # nds) tr = bind_outcome (run_phases ps [nd] tr) (one_by_one ps nds)"

lemma rolling_one_by_one: "rolling sur nds tr = one_by_one (l1_deploy_phases sur) nds tr"
proof (induction nds arbitrary: tr)
  case (Cons nd nds)
  then have "rolling sur nds = one_by_one (l1_deploy_phases sur) nds" by (intro ext)
  then show ?case by simp
qed simp

lemma one_by_one_within:
  assumes "\<forall>p \<in> set ps. ops_within good (snd p)"
  shows "one_by_one ps nds tr = (tr', r) \<Longrightarrow>
   \<exists>evs. tr' = tr @ evs \<and> (\<forall>e \<in> set evs. (\<exists>nd \<in> set nds. fst e = num nd) \<and> good (op_of e))"
proof (induction nds arbitrary: tr)
  case (Cons nd nds)
  from Cons.prems have "bind_outcome (run_phases ps [nd] tr) (one_by_one ps nds) = (tr', r)" by simp
  then show ?case
  proof (cases rule: bind_outcome_cases)
    case (fail e)
    from run_phases_within [OF fail(1) assms] show ?thesis by auto
  next
    case (ok tr1)
    from run_phases_within [OF ok(1) assms] Cons.IH [OF ok(2)] show ?thesis by fastforce
  qed
qed simp

lemma one_by_one_order:
  assumes "\<forall>p \<in> set ps. ops_within good (snd p)"
    and ready: "(name, act sur (\<lambda>_. [AwaitReady])) \<in> set ps"
  shows "one_by_one ps nds tr = (tr', r) \<Longrightarrow> distinct (map num nds) \<Longrightarrow> i < j \<Longrightarrow> j < length nds \<Longrightarrow>
    always_before (\<lambda>e. fst e = num (nds ! j) \<and> good (op_of e)) (\<lambda>pre. succeeded pre (nds ! i) AwaitReady) tr \<Longrightarrow>
    always_before (\<lambda>e. fst e = num (nds ! j) \<and> good (op_of e)) (\<lambda>pre. succeeded pre (nds ! i) AwaitReady) tr'"
proof (induction nds arbitrary: tr i j)
  case (Cons nd nds)
  let ?Q = "\<lambda>e. fst e = num ((nd # nds) ! j) \<and> good (op_of e)"
  let ?P = "\<lambda>pre. succeeded pre ((nd # nds) ! i) AwaitReady"
  obtain k where k: "j = Suc k" "k < length nds" using Cons.prems(3,4) by (cases j) auto
  then have "(nds ! k) \<in> set nds" by simp
  with Cons.prems(2) k have other: "num nd \<noteq> num ((nd # nds) ! j)" by (auto simp: image_iff)
  have step: "always_before ?Q ?P t" if "run_phases ps [nd] tr = (t, q)" for t q
    using run_phases_within [OF that assms(1)] Cons.prems(5) other by (auto intro!: always_before_other)
  from Cons.prems(1) have "bind_outcome (run_phases ps [nd] tr) (one_by_one ps nds) = (tr', r)" by simp
  then show ?case
  proof (cases rule: bind_outcome_cases)
    case (ok tr1)
    note b = step [OF ok(1)]
    show ?thesis
    proof (cases i)
      case 0
      from run_phases_succeed [OF ok(1) assms(1) ready, of nd AwaitReady] have "?P tr1" by (simp add: 0)
      moreover from one_by_one_within [OF assms(1) ok(2)] obtain evs where "tr' = tr1 @ evs" by blast
      ultimately show ?thesis using b by (simp add: always_before_after)
    next
      case (Suc m)
      with Cons.prems(2-4) k b Cons.IH [OF ok(2), of m k] show ?thesis by simp
    qed
  qed (use step in blast)
qed simp

lemma rolling_within:
  "rolling sur nds tr = (tr', r) \<Longrightarrow>
   \<exists>evs. tr' = tr @ evs \<and> (\<forall>e \<in> set evs. (\<exists>nd \<in> set nds. fst e = num nd) \<and> changing (op_of e))"
  unfolding rolling_one_by_one by (rule one_by_one_within [OF l1_phases_within])

lemma deploy_full_within:
  assumes "deploy_full sur database pr tr = (tr', r)"
  shows "\<exists>evs. tr' = tr @ evs \<and> (\<forall>e \<in> set evs. changing (op_of e))"
proof -
  from assms have "bind_outcome (reconcile_pchain sur database (pr_frozen pr) (pr_pchain pr) tr) (\<lambda>tr.
    bind_outcome (phase ''P-chain readiness'' (act sur (\<lambda>_. [AwaitReady])) [pr_pchain pr] tr)
      (run_phases (l1_deploy_phases sur) (pr_selected pr))) = (tr', r)" by (simp add: deploy_full_def)
  then show ?thesis
  proof (cases rule: bind_outcome_cases)
    case (fail e)
    from run_phases_within [OF fail(1) [unfolded reconcile_pchain_def] reconcile_phases_within]
    show ?thesis by auto
  next
    case (ok tr1)
    from run_phases_within [OF ok(1) [unfolded reconcile_pchain_def] reconcile_phases_within]
    obtain e1 where e1: "tr1 = tr @ e1" "\<forall>e \<in> set e1. changing (op_of e)" by blast
    from ok(2) show ?thesis
    proof (cases rule: bind_outcome_cases)
      case (fail e)
      from ops.phase_extends [OF fail(1) [unfolded act_def]] e1 show ?thesis by auto
    next
      case (ok tr2)
      from ops.phase_extends [OF ok(1) [unfolded act_def]]
        run_phases_within [OF ok(2) l1_phases_within] e1 show ?thesis by fastforce
    qed
  qed
qed

lemma preflight_events:
  assumes "preflight_hosts sur targets tr = (tr', r)"
  shows "\<exists>evs. tr' = tr @ evs \<and> (\<forall>e \<in> set evs. op_of e = Preflight \<and> (\<exists>nd \<in> set targets. fst e = num nd))"
    and "r = None \<Longrightarrow> \<forall>nd \<in> set targets. succeeded tr' nd Preflight"
proof -
  obtain failed where p: "phase_parallel (ops_action (sur_runner sur) (\<lambda>_. [Preflight])) targets tr = (tr', failed)"
    and r: "r = (if failed = [] then None else Some (PreflightFailed failed))"
    using assms by (auto simp: preflight_hosts_def act_def Let_def split: prod.splits)
  from ops.parallel_extends [OF p] 
  show "\<exists>evs. tr' = tr @ evs \<and> (\<forall>e \<in> set evs. op_of e = Preflight \<and> (\<exists>nd \<in> set targets. fst e = num nd))" by auto
  assume "r = None"
  with r p have "phase_parallel (ops_action (sur_runner sur) (\<lambda>_. [Preflight])) targets tr = (tr', [])"
    by (simp split: if_splits)
  from ops.parallel_completes [OF this] show "\<forall>nd \<in> set targets. succeeded tr' nd Preflight" by simp
qed

text \<open>The machines a deploy is about.\<close>

definition deploy_machines ::
  "('id, 'cid, 'pop) prepared \<Rightarrow> string list \<Rightarrow> failure + 'pop node_deployment list" where
  "deploy_machines pr selectors = (if selectors = [] then Inr (pr_selected pr)
     else map_sum id (pick (pr_selected pr)) (select_nodes (map nd_node (pr_selected pr)) selectors))"

lemma deploy_cases:
  assumes "deploy sur database archive_ok pr selectors dry_run tr = (tr', r)"
  obtains (refused) "tr' = tr" "r \<noteq> None"
    | (preflight) sel where "deploy_machines pr selectors = Inr sel" "r \<noteq> None"
        "preflight_hosts sur (if selectors = [] then pr_pchain pr # sel else sel) tr = (tr', r)"
    | (dry) sel where "deploy_machines pr selectors = Inr sel" "dry_run" "r = None"
        "preflight_hosts sur (if selectors = [] then pr_pchain pr # sel else sel) tr = (tr', None)"
    | (run) sel tr1 where "deploy_machines pr selectors = Inr sel" "\<not> dry_run"
        "preflight_hosts sur (if selectors = [] then pr_pchain pr # sel else sel) tr = (tr1, None)"
        "(if selectors = [] then deploy_full sur database pr tr1 else rolling sur sel tr1) = (tr', r)"
proof (cases "pr_frozen pr \<and> \<not> archive_ok")
  case True
  with assms refused show thesis by (auto simp: deploy_def)
next
  case False
  show thesis
  proof (cases "deploy_machines pr selectors")
    case (Inl e)
    with assms False refused show thesis by (auto simp: deploy_def deploy_machines_def)
  next
    case (Inr sel)
    with assms False have b: "bind_outcome (preflight_hosts sur (if selectors = [] then pr_pchain pr # sel else sel) tr)
        (\<lambda>tr. if dry_run then (tr, None) else if selectors = [] then deploy_full sur database pr tr
              else rolling sur sel tr) = (tr', r)"
      by (auto simp: deploy_def deploy_machines_def)
    then show thesis
    proof (cases rule: bind_outcome_cases)
      case (fail e)
      with Inr preflight show thesis by auto
    next
      case (ok tr1)
      with Inr dry run show thesis by (cases dry_run) auto
    qed
  qed
qed

text \<open>C1: a deploy that cannot succeed everywhere touches nothing: in whatever way the remote
  operations succeed or fail, the first operation that changes a machine comes after a
  successful preflight of every machine the deploy is about, the P-chain machine included for a
  deploy of the whole fleet; and a dry run makes no operation but preflights.\<close>

theorem deploy_preflights_first:
  assumes "deploy sur database archive_ok pr selectors dry_run [] = (tr', r)" "deploy_machines pr selectors = Inr sel"
  shows "(\<forall>i < length tr'. op_of (tr' ! i) \<noteq> Preflight \<longrightarrow>
      (\<forall>nd \<in> set (if selectors = [] then pr_pchain pr # sel else sel). succeeded (take i tr') nd Preflight)) \<and>
    (dry_run \<longrightarrow> (\<forall>e \<in> set tr'. op_of e = Preflight))"
proof -
  let ?T = "if selectors = [] then pr_pchain pr # sel else sel"
  let ?Q = "\<lambda>e. changing (op_of e)" and ?P = "\<lambda>pre. \<forall>nd \<in> set ?T. succeeded pre nd Preflight"
  from assms(1) have "always_before ?Q ?P tr' \<and> (dry_run \<longrightarrow> (\<forall>e \<in> set tr'. op_of e = Preflight))"
  proof (cases rule: deploy_cases)
    case refused
    then show ?thesis by simp
  next
    case (preflight s)
    from preflight_events(1) [OF preflight(3)] show ?thesis
      using always_before_other [OF always_before_Nil, of tr'] by auto
  next
    case (dry s)
    from preflight_events(1) [OF dry(4)] show ?thesis
      using always_before_other [OF always_before_Nil, of tr'] by auto
  next
    case (run s tr1)
    with assms(2) have s: "s = sel" by simp
    from preflight_events(1) [OF run(3)] have "always_before ?Q ?P tr1"
      using always_before_other [OF always_before_Nil, of tr1] by auto
    moreover have "?P tr1" using preflight_events(2) [OF run(3)] s by simp
    moreover have "\<exists>evs. tr' = tr1 @ evs"
    proof (cases "selectors = []")
      case True
      with run(4) deploy_full_within show ?thesis by fastforce
    next
      case False
      with run(4) rolling_within show ?thesis by fastforce
    qed
    ultimately have "always_before ?Q ?P tr'" using always_before_after [of ?Q ?P tr1] by auto
    with run(2) show ?thesis by simp
  qed
  then show ?thesis by (simp add: always_before_def)
qed


text \<open>The whole-fleet deploy: the barrier behind the P-chain node.\<close>

lemma deploy_full_barrier:
  assumes "deploy_full sur database pr tr = (tr', r)"
    "always_before (\<lambda>e. fst e \<noteq> num (pr_pchain pr) \<and> changing (op_of e)) (\<lambda>pre. succeeded pre (pr_pchain pr) AwaitReady) tr"
      (is "always_before ?Q ?P tr")
  shows "always_before ?Q ?P tr'"
proof -
  from assms(1) have "bind_outcome (reconcile_pchain sur database (pr_frozen pr) (pr_pchain pr) tr) (\<lambda>tr.
    bind_outcome (phase ''P-chain readiness'' (act sur (\<lambda>_. [AwaitReady])) [pr_pchain pr] tr)
      (run_phases (l1_deploy_phases sur) (pr_selected pr))) = (tr', r)" by (simp add: deploy_full_def)
  then show ?thesis
  proof (cases rule: bind_outcome_cases)
    case (fail e)
    from run_phases_within [OF fail(1) [unfolded reconcile_pchain_def] reconcile_phases_within] assms(2)
    show ?thesis by (auto intro!: always_before_other)
  next
    case (ok tr1)
    from run_phases_within [OF ok(1) [unfolded reconcile_pchain_def] reconcile_phases_within] assms(2)
    have k: "always_before ?Q ?P tr1" by (auto intro!: always_before_other)
    from ok(2) show ?thesis
    proof (cases rule: bind_outcome_cases)
      case (fail e)
      from ops.phase_unguarded [OF fail(1) [unfolded act_def] k] show ?thesis by auto
    next
      case (ok tr2)
      from ops.phase_unguarded [OF ok(1) [unfolded act_def] k] have "always_before ?Q ?P tr2" by auto
      moreover have "?P tr2" using ops.phase_completes [OF ok(1) [unfolded act_def]] by simp
      moreover from run_phases_within [OF ok(2) l1_phases_within] obtain evs where "tr' = tr2 @ evs" by blast
      ultimately show ?thesis by (simp add: always_before_after)
    qed
  qed
qed

text \<open>a deploy of the whole fleet holds every L1 machine back until the P-chain node is ready: in
  whatever way the remote operations succeed or fail, any operation other than a preflight on
  a machine other than the P-chain machine comes after a successful readiness wait there.\<close>

theorem deploy_waits_for_pchain:
  assumes "deploy sur database archive_ok pr [] dry_run [] = (tr', r)"
  shows "\<forall>i < length tr'. fst (tr' ! i) \<noteq> num (pr_pchain pr) \<and> op_of (tr' ! i) \<noteq> Preflight \<longrightarrow>
    succeeded (take i tr') (pr_pchain pr) AwaitReady"
proof -
  let ?Q = "\<lambda>e. fst e \<noteq> num (pr_pchain pr) \<and> changing (op_of e)" and ?P = "\<lambda>pre. succeeded pre (pr_pchain pr) AwaitReady"
  have pre: "always_before ?Q ?P t" if "preflight_hosts sur ts [] = (t, q)" for ts t q
    using preflight_events(1) [OF that] always_before_other [OF always_before_Nil, of t ?Q ?P] by auto
  from assms have "always_before ?Q ?P tr'"
  proof (cases rule: deploy_cases)
    case (run s tr1)
    with deploy_full_barrier [OF _ pre [OF run(3)]] show ?thesis by simp
  qed (use pre in auto)
  then show ?thesis by (simp add: always_before_def)
qed

text \<open>The rolling deploy: machine after machine.\<close>

lemma rolling_order:
  assumes "rolling sur nds tr = (tr', r)" "distinct (map num nds)" "i < j" "j < length nds"
    "always_before (\<lambda>e. fst e = num (nds ! j) \<and> changing (op_of e)) (\<lambda>pre. succeeded pre (nds ! i) AwaitReady) tr"
  shows "always_before (\<lambda>e. fst e = num (nds ! j) \<and> changing (op_of e)) (\<lambda>pre. succeeded pre (nds ! i) AwaitReady) tr'"
proof -
  have "(''readiness'', act sur (\<lambda>_. [AwaitReady])) \<in> set (l1_deploy_phases sur)" by (simp add: l1_deploy_phases_def)
  from one_by_one_order [OF l1_phases_within this assms(1) [unfolded rolling_one_by_one] assms(2-5)]
  show ?thesis .
qed

lemma find_holds: "find P xs = Some x \<Longrightarrow> P x"
  by (induction xs) (auto split: if_splits)

lemma pick_Cons: "pick selected (n # ns) = pick selected [n] @ pick selected ns"
  by (simp add: pick_def)

lemma pick_one: "pick selected [n] = [] \<or> (\<exists>nd. pick selected [n] = [nd] \<and> num nd = Number n)"
  by (cases "find (\<lambda>nd. num nd = Number n) selected") (auto simp: pick_def dest: find_holds)

lemma pick_numbers: "set (map num (pick selected ns)) \<subseteq> Number ` set ns"
proof (induction ns)
  case (Cons n ns)
  then show ?case unfolding pick_Cons [of selected n ns] using pick_one [of selected n] by auto
qed (simp add: pick_def)

lemma distinct_pick: "distinct (map Number chosen) \<Longrightarrow> distinct (map num (pick selected chosen))"
proof (induction chosen)
  case (Cons c cs)
  then have "Number c \<notin> set (map num (pick selected cs))" "distinct (map num (pick selected cs))"
    using pick_numbers [of selected cs] by auto
  then show ?case unfolding pick_Cons [of selected c cs] using pick_one [of selected c] by auto
qed (simp add: pick_def)

text \<open>C2: a rolling deploy never has two machines in work: in whatever way the remote operations
  succeed or fail, the first operation other than a preflight on a selected machine comes
  after a successful readiness wait on every machine selected before it, and the P-chain
  machine and the machines that were not selected are not touched.\<close>

theorem rolling_one_at_a_time:
  assumes "deploy sur database archive_ok pr selectors dry_run [] = (tr', r)" "selectors \<noteq> []"
    "deploy_machines pr selectors = Inr sel" "distinct (map num (pr_selected pr))"
  shows "(\<forall>a b i. a < b \<and> b < length sel \<and> i < length tr' \<and> fst (tr' ! i) = num (sel ! b) \<and> op_of (tr' ! i) \<noteq> Preflight \<longrightarrow>
      succeeded (take i tr') (sel ! a) AwaitReady) \<and>
    (\<forall>e \<in> set tr'. \<exists>nd \<in> set sel. fst e = num nd)"
proof -
  from assms(2,3) obtain chosen where c: "select_nodes (map nd_node (pr_selected pr)) selectors = Inr chosen"
    "sel = pick (pr_selected pr) chosen"
    by (cases "select_nodes (map nd_node (pr_selected pr)) selectors") (auto simp: deploy_machines_def)
  from select_nodes_filter [OF c(1)] assms(4) have "distinct (map Number chosen)"
    by (auto simp: distinct_map_filter comp_def)
  then have dist: "distinct (map num sel)" unfolding c(2) by (rule distinct_pick)
  have pre: "(\<forall>e \<in> set t. op_of e = Preflight) \<and> (\<forall>e \<in> set t. \<exists>nd \<in> set ts. fst e = num nd)"
    if "preflight_hosts sur ts [] = (t, q)" for ts t q
    using preflight_events(1) [OF that] by auto
  have quiet: "always_before (\<lambda>e. f e \<and> changing (op_of e)) P t" if "preflight_hosts sur ts [] = (t, q)" for ts t q f P
    using pre [OF that] by (auto simp: always_before_def)
  have b: "always_before (\<lambda>e. fst e = num (sel ! b) \<and> changing (op_of e)) (\<lambda>pre. succeeded pre (sel ! a) AwaitReady) tr'"
    if "a < b" "b < length sel" for a b
    using assms(1)
  proof (cases rule: deploy_cases)
    case (run s tr1)
    with assms(2,3) have "rolling sur sel tr1 = (tr', r)" "s = sel" by auto
    moreover have "always_before (\<lambda>e. fst e = num (sel ! b) \<and> changing (op_of e)) (\<lambda>pre. succeeded pre (sel ! a) AwaitReady) tr1"
      by (rule quiet [OF run(3)])
    ultimately show ?thesis using rolling_order [OF _ dist that] by blast
  next
    case (preflight s)
    then show ?thesis by (intro quiet)
  next
    case (dry s)
    show ?thesis by (rule quiet [OF dry(4)])
  qed simp
  moreover have "\<forall>e \<in> set tr'. \<exists>nd \<in> set sel. fst e = num nd"
    using assms(1)
  proof (cases rule: deploy_cases)
    case (run s tr1)
    with assms(2,3) have "rolling sur s tr1 = (tr', r)" "s = sel" by auto
    from rolling_within [OF this(1)] obtain evs where "tr' = tr1 @ evs"
      "\<forall>e \<in> set evs. (\<exists>nd \<in> set s. fst e = num nd) \<and> changing (op_of e)" by blast
    moreover have "\<forall>e \<in> set tr1. \<exists>nd \<in> set s. fst e = num nd" using pre [OF run(3)] assms(2) by simp
    ultimately show ?thesis unfolding \<open>s = sel\<close> [symmetric] by (metis Un_iff set_append)
  next
    case (preflight s)
    with pre [OF preflight(3)] assms(2,3) show ?thesis by (metis sum.inject(2))
  next
    case (dry s)
    with pre [OF dry(4)] assms(2,3) show ?thesis by (metis sum.inject(2))
  qed simp
  ultimately show ?thesis by (auto simp: always_before_def)
qed

section \<open>An example\<close>

definition sample_peer :: "string node_deployment" where
  "sample_peer = \<lparr>nd_node = sample_nodes ! 5, nd_identity = sample_node ''f'' 6 RoleValidator [] 100000, nd_httpPort = 9650\<rparr>"

definition sample_prepared :: "(string, nat, string) prepared" where
  "sample_prepared = \<lparr>pr_environment = sample_fleet_env,
     pr_pchain = \<lparr>nd_node = sample_nodes ! 0, nd_identity = sample_node ''a'' 1 RolePChain [] 0, nd_httpPort = 9650\<rparr>,
     pr_selected = [sample_target, sample_peer], pr_chainIDs = Map.empty, pr_subnetIDs = Map.empty,
     pr_managerSubnetID = Some 1, pr_expected_manager = {}, pr_expected_by_chain = (\<lambda>_. {}), pr_frozen = False\<rparr>"

lemma sample_peer_num: "num sample_peer = 6" and sample_pchain_num: "num (pr_pchain sample_prepared) = 1"
  by (simp_all add: sample_peer_def sample_prepared_def sample_nodes_def)

definition sample_deploy :: "string list \<Rightarrow> trace" where
  "sample_deploy selectors = fst (deploy sample_sur (\<lambda>_. None) True sample_prepared selectors False [])"

lemma sample_machines: "deploy_machines sample_prepared [] = Inr [sample_target, sample_peer]"
  by (simp add: deploy_machines_def sample_prepared_def)

lemma atoi_6: "atoi ''6'' = Some 6"
  by (simp add: go_eval)

lemma sample_rolling: "deploy_machines sample_prepared [''2,6''] = Inr [sample_target, sample_peer]"
proof -
  have e: "expand_selectors [''2,6''] = [''2'', ''6'']" by (simp add: expand_selectors_def go_eval)
  have "select_nodes [nd_node sample_target, nd_node sample_peer] [''2,6''] = Inr [nd_node sample_target, nd_node sample_peer]"
    by (simp add: select_nodes_def e choose_step_def atoi_2 atoi_6 has_prefix_def sample_num sample_peer_num
        del: rbind_eq_Inr)
  then show ?thesis by (simp add: deploy_machines_def sample_prepared_def pick_def sample_num sample_peer_num)
qed

lemma sample_deploy_pair: "\<exists>r. deploy sample_sur (\<lambda>_. None) True sample_prepared selectors False [] = (sample_deploy selectors, r)"
  by (cases "deploy sample_sur (\<lambda>_. None) True sample_prepared selectors False []") (auto simp: sample_deploy_def)

theorem deploy_preflights_first_witness:
  "filter (\<lambda>i. op_of (sample_deploy [] ! i) \<noteq> Preflight \<and>
     \<not> {(1, Preflight, True), (2, Preflight, True), (6, Preflight, True)} \<subseteq> set (take i (sample_deploy [])))
     [0..<length (sample_deploy [])] = []"
proof -
  obtain r where "deploy sample_sur (\<lambda>_. None) True sample_prepared [] False [] = (sample_deploy [], r)"
    using sample_deploy_pair by blast
  from deploy_preflights_first [OF this sample_machines] show ?thesis
    by (auto simp: succeeded_def sample_num sample_peer_num sample_pchain_num filter_empty_conv)
qed

theorem deploy_waits_for_pchain_witness:
  "filter (\<lambda>i. fst (sample_deploy [] ! i) \<noteq> 1 \<and> op_of (sample_deploy [] ! i) \<noteq> Preflight \<and>
     (1, AwaitReady, True) \<notin> set (take i (sample_deploy []))) [0..<length (sample_deploy [])] = []"
proof -
  obtain r where "deploy sample_sur (\<lambda>_. None) True sample_prepared [] False [] = (sample_deploy [], r)"
    using sample_deploy_pair by blast
  from deploy_waits_for_pchain [OF this] show ?thesis
    by (auto simp: succeeded_def sample_pchain_num filter_empty_conv)
qed

theorem rolling_one_at_a_time_witness:
  "filter (\<lambda>i. fst (sample_deploy [''2,6''] ! i) = 6 \<and> op_of (sample_deploy [''2,6''] ! i) \<noteq> Preflight \<and>
     (2, AwaitReady, True) \<notin> set (take i (sample_deploy [''2,6'']))) [0..<length (sample_deploy [''2,6''])] = []"
proof -
  obtain r where d: "deploy sample_sur (\<lambda>_. None) True sample_prepared [''2,6''] False [] = (sample_deploy [''2,6''], r)"
    using sample_deploy_pair by blast
  have "distinct (map num (pr_selected sample_prepared))"
    by (simp add: sample_prepared_def sample_num sample_peer_num)
  from conjunct1 [OF rolling_one_at_a_time [OF d _ sample_rolling this]]
  have "\<forall>i. i < length (sample_deploy [''2,6'']) \<and> fst (sample_deploy [''2,6''] ! i) = num sample_peer \<and>
      op_of (sample_deploy [''2,6''] ! i) \<noteq> Preflight \<longrightarrow> succeeded (take i (sample_deploy [''2,6''])) sample_target AwaitReady"
    by (metis (no_types, lifting) One_nat_def Suc_less_eq length_Cons less_Suc0 list.distinct(1) list.size(3)
        nth_Cons_0 nth_Cons_Suc zero_less_one)
  then show ?thesis by (auto simp: succeeded_def sample_num sample_peer_num filter_empty_conv)
qed

section \<open>Deploy and the other commands see the same fleet\<close>

lemma map_sum_comp_Inr [simp]: "map_sum f id m = Inr x \<longleftrightarrow> m = Inr x"
  by (cases m) auto

lemma prepare_state_complete:
  "prepare_state codec read iv = Inr iv' \<Longrightarrow> complete_inventory codec read iv = Inr iv' \<and> inv_created iv'"
  by (auto simp: prepare_state_def complete_inventory_def Let_def split: option.splits if_splits)

lemma prepare_inventory_loads:
  assumes "prepare_inventory libs codec files = Inr iv"
  shows "load_inventory libs codec files = Inr iv \<and> inv_created iv"
proof -
  from assms obtain env nodes p current where
    "load_fleet libs files = Inr (env, nodes)" "public_file libs files = Inr p"
    "load_placement (lib_placement libs) (file_placement files) = Inr current"
    "validate_placement current p nodes = Inr ()"
    "prepare_state codec (file_state files) (base_inventory env nodes p current) = Inr iv"
    by (auto simp: prepare_inventory_def Let_def split: if_splits)
  then show ?thesis using prepare_state_complete by (auto simp: load_inventory_def)
qed

lemma prepare_l1_target:
  "prepare_l1 sur iv identities frozen pchain n = Inr nd \<Longrightarrow> target iv n = Inr nd \<and> sur_keys sur (nd_identity nd)"
  by (auto simp: prepare_l1_def prepare_identity_def target_def port_pair_def Let_def split: option.splits if_splits)

lemma prepare_pchain_target:
  "prepare_pchain sur iv frozen = Inr nd \<Longrightarrow> target iv (pchain_node iv) = Inr nd \<and> sur_keys sur (nd_identity nd)"
  by (auto simp: prepare_pchain_def prepare_identity_def target_def port_pair_def Let_def split: option.splits if_splits)

text \<open>C8: deploy works on the same fleet as every other command: whenever its preparation succeeds,
  the inventory the other commands load from the same files loads too and is created, the
  machines deploy installs are exactly its L1 machines in inventory order, each with the
  identity placement assigns to it now and with its key files checked, and the P-chain machine
  is the one the P-chain verbs operate on.\<close>

theorem prepare_agrees_with_inventory:
  assumes "prepare libs sur executable files mode True = Inr pr"
  shows "\<exists>iv. load_inventory libs (sur_codec sur) files = Inr iv \<and> inv_created iv \<and>
    rmap (target iv) (l1_nodes iv) = Inr (pr_selected pr) \<and>
    pchain_target iv = Inr (pr_pchain pr) \<and>
    pr_chainIDs pr = inv_chainIDs iv \<and> pr_subnetIDs pr = inv_subnetIDs iv \<and>
    (\<forall>nd \<in> set (pr_pchain pr # pr_selected pr). sur_keys sur (nd_identity nd))"
proof -
  from assms obtain iv pchain identities selected where
    iv: "prepare_inventory libs (sur_codec sur) files = Inr iv"
    and pc: "prepare_pchain sur iv (mode = ''frozen'') = Inr pchain"
    and sel: "rmap (prepare_l1 sur iv identities (mode = ''frozen'') pchain) (l1_nodes iv) = Inr selected"
    and pr: "pr_pchain pr = pchain" "pr_selected pr = selected" "pr_chainIDs pr = inv_chainIDs iv" "pr_subnetIDs pr = inv_subnetIDs iv"
    by (auto simp: prepare_def split: if_splits)
  from prepare_inventory_loads [OF iv] have load: "load_inventory libs (sur_codec sur) files = Inr iv" "inv_created iv" by auto
  from load_inventory_ok [OF this(1)] have ok: "inventory_ok (inv_nodes iv)"
    "inv_pchain iv = find (\<lambda>n. Role n = RolePChain) (inv_nodes iv)" by (auto simp: iv_ok_def)
  have "filter (\<lambda>n. Role n = RolePChain) (inv_nodes iv) \<noteq> []"
    using ok(1) by (auto simp: inventory_ok_def)
  then have "inv_pchain iv \<noteq> None"
    using ok(2) by (auto simp: find_None_iff filter_empty_conv)
  then have "pchain_target iv = Inr pchain"
    using prepare_pchain_target [OF pc] by (auto simp: pchain_target_def pchain_node_def)
  moreover have t: "list_all2 (\<lambda>n nd. target iv n = Inr nd \<and> sur_keys sur (nd_identity nd)) (l1_nodes iv) selected"
    using sel unfolding rmap_Inr_iff by (rule list_all2_mono) (rule prepare_l1_target)
  then have "rmap (target iv) (l1_nodes iv) = Inr selected" by (auto simp: rmap_Inr_iff elim!: list_all2_mono)
  moreover have "\<forall>nd \<in> set selected. sur_keys sur (nd_identity nd)"
    using t by (auto simp: list_all2_conv_all_nth in_set_conv_nth)
  ultimately show ?thesis using load pr prepare_pchain_target [OF pc] by auto
qed


text \<open>A deployment root on which everything is in place.\<close>

definition sample_env_file :: "(string \<times> string) list" where
  "sample_env_file = [(''NETWORK'', ''fuji''), (''PCHAIN_API'', ''http://p''), (''SSH_USER'', ''ubuntu''), (''SSH_KEY_PATH'', ''key'')]"

definition sample_state_file :: "(string \<times> string) list" where
  "sample_state_file = [(''NETWORK'', ''fuji''), (''MANAGER_SUBNET_ID'', ''xx''), (''CHAIN_ID'', ''xxx''),
     (''SUBNET_ID'', ''xxxx''), (''ORACLE_CHAIN_ID'', ''xxxxx''), (''ORACLE_SUBNET_ID'', ''xxxxxx'')]"

definition sample_fleet_files :: fleet_files where
  "sample_fleet_files = \<lparr>file_env = Some sample_env_file, file_nodes = Some sample_inventory,
     file_public = Some ''public'', file_placement = Some ''placement'', file_state = Some sample_state_file\<rparr>"

definition sample_libs :: "(string, string) fleet_libs" where
  "sample_libs = \<lparr>lib_url = \<lambda>_. Some \<lparr>url_Scheme = ''http'', url_Host = ''p'', url_RawQuery = []\<rparr>,
     lib_stat = \<lambda>_. Some False, lib_platform = sample_env, lib_public = \<lambda>_. Some sample_manifest,
     lib_placement = \<lambda>_. Some sample_placement\<rparr>"

text \<open>Every regular file exists; a certificate is the node ID of its directory.\<close>

definition full_root :: file_system where
  "full_root p = (if last p = ''staker.crt'' then Some (File (''node'' @ p ! 2)) else Some (File []))"

definition full_sur :: "(nat, string) surroundings" where
  "full_sur = sample_sur\<lparr>sur_files := full_root\<rparr>"

lemma sample_fleet_loads: "load_fleet sample_libs sample_fleet_files = Inr (sample_fleet_env, sample_nodes)"
proof -
  have "load_fleet_environment (lib_url sample_libs) (lib_stat sample_libs) (Some sample_env_file) = Inr sample_fleet_env"
    by (simp add: load_fleet_environment_def sample_libs_def sample_env_file_def sample_fleet_env_def
        validate_environment_fields_def allowed_fields_def parse_network_environment_def required_field_def
        read_str_def go_eval Let_def del: rbind_eq_Inr)
  moreover have "each check_host () sample_nodes = Inr ()"
    by (simp add: sample_nodes_def check_host_def host_separator_def)
  ultimately show ?thesis
    by (simp add: load_fleet_def sample_fleet_files_def sample_loaded ssh_user_ok_def sample_fleet_env_def go_eval)
qed

lemma sample_public_loads: "public_file sample_libs sample_fleet_files = Inr sample_manifest"
  by (simp add: public_file_def sample_manifest_loads sample_fleet_files_def sample_libs_def)

lemma sample_placement_valid: "validate_placement sample_placement sample_manifest sample_nodes = Inr ()"
  using sample_iv_ok by (simp add: validate_placement_iff iv_ok_def sample_iv_def base_inventory_def)

lemma sample_chains: "chains_of sample_nodes = [''main'', ''oracle'']"
  by (simp add: sample_nodes_def config_eval)

definition full_iv :: "(nat, string) inventory" where
  "full_iv = sample_iv\<lparr>inv_created := True, inv_chainIDs := [''main'' \<mapsto> 2, ''oracle'' \<mapsto> 4],
     inv_subnetIDs := [''main'' \<mapsto> 3, ''oracle'' \<mapsto> 5], inv_managerSubnetID := Some 1\<rparr>"

lemma sample_prepares_inventory: "prepare_inventory sample_libs unary_codec sample_fleet_files = Inr full_iv"
proof -
  have pub: "each (check_public sample_manifest) () sample_nodes = Inr ()"
    by (simp add: check_public_def sample_manifest_def sample_nodes_def sample_node_def index_by_def)
  have card: "card (dom (index_by pn_Node id (Nodes sample_manifest))) = length sample_nodes"
    by (simp add: dom_index_by sample_manifest_def sample_node_def sample_nodes_def)
  obtain m where m: "assigned_by_node sample_iv = Inr m" using assigned_by_node_ok [OF sample_iv_ok] by blast
  have pl: "load_placement (lib_placement sample_libs) (file_placement sample_fleet_files) = Inr sample_placement"
    by (simp add: load_placement_def sample_libs_def sample_fleet_files_def sample_placement_def)
  have st: "prepare_state unary_codec (file_state sample_fleet_files) sample_iv = Inr full_iv"
    by (simp add: prepare_state_def sample_fleet_files_def sample_state_file_def sample_iv_def base_inventory_def
        sample_fleet_env_def required_id_def read_str_def sample_chains chain_ids_step_def chain_ids_from_state_def
        state_chain_keys_def main_chain_def oracle_chain_def unary_codec_def full_iv_def go_eval Let_def
        del: rbind_eq_Inr) (simp add: eval_nat_numeral)
  show ?thesis
    using pub card m pl st sample_placement_valid sample_fleet_loads sample_public_loads
    by (simp add: prepare_inventory_def sample_iv_def [symmetric] Let_def del: rbind_eq_Inr)
qed

lemma full_render: "\<exists>r. render_node (\<lambda>_. Some Map.empty) full_root env n g sid ports frozen boot peers = Inr r"
  by (simp add: render_node_def read_local_def shipped_path_def subnet_config_path_def file_exists_def full_root_def
      read_history_def upgrades_path_def Let_def split: if_splits del: rbind_eq_Inr)


lemma full_keys: "id_string sample_env i = i \<Longrightarrow> pn_NodeID g = ''node'' @ pn_Identity g \<Longrightarrow> sur_keys full_sur g"
  by (simp add: sur_keys_def full_sur_def sample_sur_def validate_identity_files_def file_exists_def full_root_def
      identity_file_names_def Let_def)

lemma full_iv_ok: "iv_ok sample_env full_iv"
  using load_inventory_ok [OF conjunct1 [OF prepare_inventory_loads [OF sample_prepares_inventory]]]
  by (simp add: sample_libs_def)

lemma full_identity: "n \<in> set sample_nodes \<Longrightarrow> \<exists>g. prepare_identity full_sur full_iv n = Inr g"
proof -
  assume "n \<in> set sample_nodes"
  then have "n \<in> set (inv_nodes full_iv)" by (simp add: full_iv_def sample_iv_def base_inventory_def)
  from assigned_ok [OF full_iv_ok this] obtain g where g: "assigned full_iv n = Inr g" "g \<in> set (Nodes (inv_public full_iv))"
    by blast
  from g(2) have "pn_NodeID g = ''node'' @ pn_Identity g"
    by (auto simp: full_iv_def sample_iv_def base_inventory_def sample_manifest_def sample_node_def)
  with full_keys [of "[]" g] g(1) show ?thesis by (simp add: prepare_identity_def sample_env_def)
qed

lemma prepare_one_ok:
  fixes sur :: "('cid, 'pop) surroundings" and g h :: "'pop public_node"
  assumes "\<And>n (g :: 'pop public_node) sid ports fr b ps. \<exists>r. render_node (sur_decode sur) (sur_files sur) (inv_environment iv) n g sid ports fr b ps = Inr r"
  shows "prepare_identity sur iv (pchain_node iv) = Inr g \<Longrightarrow> \<exists>nd. prepare_pchain sur iv frozen = Inr nd"
    and "prepare_identity sur iv n = Inr h \<Longrightarrow> \<exists>nd. prepare_l1 sur iv m frozen pchain n = Inr nd"
proof -
  let ?ports = "\<lambda>n. port_pair (inv_ports iv) (Number n)"
  obtain r where r: "render_node (sur_decode sur) (sur_files sur) (inv_environment iv) (pchain_node iv) g
      (id_text (sur_codec sur) (id_empty (sur_codec sur))) (?ports (pchain_node iv)) frozen ([], []) ([], []) = Inr r"
    using assms by blast
  assume "prepare_identity sur iv (pchain_node iv) = Inr g"
  with r show "\<exists>nd. prepare_pchain sur iv frozen = Inr nd" by (simp add: prepare_pchain_def Let_def)
next
  obtain r where r: "render_node (sur_decode sur) (sur_files sur) (inv_environment iv) n h
      (subnet_text (sur_codec sur) iv n) (port_pair (inv_ports iv) (Number n)) frozen
      (host_port (Host (nd_node pchain)) (snd (port_pair (inv_ports iv) (Number (nd_node pchain)))), pn_NodeID (nd_identity pchain))
      (state_sync_peers n (inv_nodes iv) m (inv_ports iv) (deploy_up (inv_nodes iv))) = Inr r"
    using assms by blast
  assume "prepare_identity sur iv n = Inr h"
  with r show "\<exists>nd. prepare_l1 sur iv m frozen pchain n = Inr nd" by (simp add: prepare_l1_def Let_def)
qed

lemma sample_prepares: "\<exists>pr. prepare sample_libs full_sur (\<lambda>_. True) sample_fleet_files ''frozen'' True = Inr pr"
proof -
  have nodes: "inv_nodes full_iv = sample_nodes" by (simp add: full_iv_def sample_iv_def base_inventory_def)
  have codec: "sur_codec full_sur = unary_codec" "sur_files full_sur = full_root" "sur_decode full_sur = (\<lambda>_. Some Map.empty)"
    by (simp_all add: full_sur_def sample_sur_def)
  have files: "prepare_files full_sur (\<lambda>_. True) full_iv True = Inr ()"
  proof -
    have "require_file full_root () p = Inr ()" for p
      by (simp add: require_file_def file_exists_def full_root_def)
    then have "each (require_file full_root) () ps = Inr ()" for ps
      by (induction ps) simp_all
    then show ?thesis by (simp add: prepare_files_def codec)
  qed
  have p: "pchain_node full_iv = sample_nodes ! 0"
    by (simp add: pchain_node_def full_iv_def sample_iv_def base_inventory_def sample_nodes_def)
  obtain g where g: "prepare_identity full_sur full_iv (sample_nodes ! 0) = Inr g"
    using full_identity [of "sample_nodes ! 0"] by (auto simp: sample_nodes_def)
  obtain pchain where pc: "prepare_pchain full_sur full_iv True = Inr pchain"
    using prepare_one_ok(1) [of full_sur full_iv g True, unfolded codec p, OF full_render g] by blast
  obtain m where m: "assigned_by_node full_iv = Inr m" using assigned_by_node_ok [OF full_iv_ok] by blast
  have "\<exists>nd. prepare_l1 full_sur full_iv m True pchain n = Inr nd" if "n \<in> set (l1_nodes full_iv)" for n
  proof -
    from that have "n \<in> set sample_nodes" by (simp add: l1_nodes_def nodes)
    from full_identity [OF this] obtain h where "prepare_identity full_sur full_iv n = Inr h" ..
    from prepare_one_ok(2) [of full_sur full_iv n h m True pchain, unfolded codec, OF full_render this] show ?thesis .
  qed
  then obtain sel where sel: "rmap (prepare_l1 full_sur full_iv m True pchain) (l1_nodes full_iv) = Inr sel"
    using rmap_total by metis
  show ?thesis
    using sample_prepares_inventory files pc m sel by (simp add: prepare_def codec)
qed

theorem prepare_agrees_with_inventory_witness:
  "\<exists>pr iv. prepare sample_libs full_sur (\<lambda>_. True) sample_fleet_files ''frozen'' True = Inr pr \<and>
    load_inventory sample_libs unary_codec sample_fleet_files = Inr iv \<and> inv_created iv \<and>
    rmap (target iv) (l1_nodes iv) = Inr (pr_selected pr)"
proof -
  from sample_prepares obtain pr where pr: "prepare sample_libs full_sur (\<lambda>_. True) sample_fleet_files ''frozen'' True = Inr pr" ..
  have "sur_codec full_sur = unary_codec" by (simp add: full_sur_def sample_sur_def)
  with prepare_agrees_with_inventory [OF pr] pr show ?thesis by auto
qed

end
