(* ===== verification/Place_Command.thy ===== *)
theory Place_Command
  imports Deploy
begin

text \<open>
  The place command of \<^verbatim>\<open>internal/fleet/place.go\<close>: reconcile, write the placement, reconcile. The
  placement file is part of the state, next to the trace of remote operations; the inventory
  is read again before each step, as the code does. The lemmas show that the placement file
  stays valid whatever fails, and that a move is one isolated transition.
\<close>

section \<open>Reconciling\<close>

text \<open>\<^verbatim>\<open>d.inventory\<close> with the current placement file, the other files being unchanged.\<close>

definition reload :: "('cid, 'pop) inventory \<Rightarrow> placement \<Rightarrow> failure + ('cid, 'pop) inventory" where
  "reload iv current = rbind (map_sum InvalidPlacement id (validate_placement current (inv_public iv) (inv_nodes iv)))
     (\<lambda>_. Inr (iv\<lparr>inv_placement := current\<rparr>))"

definition probe_placement ::
  "('cid, 'pop) surroundings \<Rightarrow> trace \<Rightarrow> ('cid, 'pop) inventory \<Rightarrow> (int \<rightharpoonup> placement_probe) \<Rightarrow> node
   \<Rightarrow> failure + (int \<rightharpoonup> placement_probe)" where
  "probe_placement sur tr iv probes n = rbind (map_sum FleetFailed id (target iv n)) (\<lambda>t.
     case sur_state sur tr (num t) of None \<Rightarrow> Inl (ProbeFailed (num t))
     | Some out \<Rightarrow> (case parse_probe out (sur_node_id sur tr (num t)) of
         None \<Rightarrow> Inl (ProbeFailed (num t))
       | Some probe \<Rightarrow> Inr (probes(Number n \<mapsto> probe))))"

definition restart_phases :: "('cid, 'pop) surroundings \<Rightarrow> (string \<times> 'pop action) list" where
  "restart_phases sur = [(''identity'', act sur identity_ops), (''stop'', act sur (\<lambda>_. [StopNode])),
     (''start'', act sur (\<lambda>_. [StartOnly]))]"

definition restart_machines ::
  "('cid, 'pop) surroundings \<Rightarrow> ('cid, 'pop) inventory \<Rightarrow> node list \<Rightarrow> trace \<Rightarrow> outcome" where
  "restart_machines sur iv restart tr = (case placement_targets (sur_keys sur) iv restart of
      Inl e \<Rightarrow> (tr, Some e)
    | Inr ts \<Rightarrow> run_phases (restart_phases sur) ts tr)"

definition push_configs ::
  "('cid, 'pop) surroundings \<Rightarrow> ('cid, 'pop) inventory \<Rightarrow> trace \<Rightarrow> outcome" where
  "push_configs sur iv tr = (case placement_targets (sur_keys sur) iv (l1_nodes iv) of
      Inl e \<Rightarrow> (tr, Some e)
    | Inr all \<Rightarrow> (case intended_up iv (sur_intent sur tr) [] [] of
        Inl e \<Rightarrow> (tr, Some (FleetFailed e))
      | Inr up \<Rightarrow> (case sur_render sur iv all up of
          Inl e \<Rightarrow> (tr, Some (RenderFailed e))
        | Inr _ \<Rightarrow> phase ''config'' (act sur config_ops) all tr)))"

definition reconcile_placement ::
  "('cid, 'pop) surroundings \<Rightarrow> ('cid, 'pop) inventory \<Rightarrow> trace \<Rightarrow> outcome" where
  "reconcile_placement sur iv tr =
    (if \<not> inv_created iv then (tr, Some NotCreated)
     else case each (probe_placement sur tr iv) Map.empty (l1_nodes iv) of
        Inl e \<Rightarrow> (tr, Some e)
      | Inr probes \<Rightarrow> (case plan_apply iv (l1_nodes iv) probes of
          Inl e \<Rightarrow> (tr, Some (ApplyFailed e))
        | Inr (restart, _) \<Rightarrow>
            if restart = [] then (tr, None)
            else bind_outcome (push_configs sur iv tr) (restart_machines sur iv restart)))"

section \<open>The command\<close>

text \<open>The result is the trace, the placement file, and the failure if any. \<open>saved\<close> is whether the next
  placement could be written beside the file and renamed over it; where it could not, the old file
  stays.\<close>

definition place_command ::
  "('cid, 'pop) surroundings \<Rightarrow> bool \<Rightarrow> ('cid, 'pop) inventory \<Rightarrow> string \<Rightarrow> int \<Rightarrow> trace \<Rightarrow> placement
   \<Rightarrow> trace \<times> placement \<times> failure option" where
  "place_command sur saved iv0 l number tr current = (case reload iv0 current of
      Inl e \<Rightarrow> (tr, current, Some e)
    | Inr iv \<Rightarrow> (case reconcile_placement sur iv tr of
        (tr1, Some e) \<Rightarrow> (tr1, current, Some e)
      | (tr1, None) \<Rightarrow> (case plan_place iv l number of
          Inl e \<Rightarrow> (tr1, current, Some (PlaceFailed e))
        | Inr (next', _) \<Rightarrow> (case validate_placement next' (inv_public iv) (inv_nodes iv) of
            Inl e \<Rightarrow> (tr1, current, Some (InvalidPlacement e))
          | Inr _ \<Rightarrow>
              if \<not> saved then (tr1, current, Some PlacementUnsaved)
              else if map_of next' = map_of current then (tr1, next', None)
              else (case reload iv0 next' of
                  Inl e \<Rightarrow> (tr1, next', Some e)
                | Inr iv' \<Rightarrow> (case reconcile_placement sur iv' tr1 of (tr2, r) \<Rightarrow> (tr2, next', r)))))))"

section \<open>What a move can do\<close>

lemma reload_ok: "reload iv current = Inr iv' \<longleftrightarrow>
  placement_ok current (inv_public iv) (inv_nodes iv) \<and> iv' = iv\<lparr>inv_placement := current\<rparr>"
  by (auto simp: reload_def validate_placement_iff)

text \<open>C3: in whatever way the remote operations and the writing of the file succeed or fail, and
  whatever the probes answer, the place command leaves a placement file that passes the check, and that file differs from the
  one before at most by one swap: it is the old file, or the requested identity is on the
  requested machine and the displaced one where the requested identity came from.\<close>

theorem place_keeps_placement_valid:
  assumes "place_ready env (iv\<lparr>inv_placement := current\<rparr>)"
    "place_command sur saved iv l number tr current = (tr', next', r)"
  shows "validate_placement next' (inv_public iv) (inv_nodes iv) = Inr () \<and>
    (next' = current \<or> (\<exists>source displaced. map_of current source = Some l \<and> map_of current number = Some displaced \<and>
      map_of next' = (map_of current)(number \<mapsto> l, source \<mapsto> displaced)))"
proof -
  let ?iv = "iv\<lparr>inv_placement := current\<rparr>"
  from assms(1) have ok: "placement_ok current (inv_public iv) (inv_nodes iv)"
    using place_readyD(2) [OF assms(1)] by simp
  then have "reload iv current = Inr ?iv" by (simp add: reload_ok)
  with assms(2) have "next' = current \<or> (\<exists>moves. plan_place ?iv l number = Inr (next', moves))"
    by (auto simp: place_command_def split: prod.splits option.splits sum.splits if_splits)
  then show ?thesis
  proof
    assume "\<exists>moves. plan_place ?iv l number = Inr (next', moves)"
    then obtain moves where plan: "plan_place ?iv l number = Inr (next', moves)" ..
    from plan_place_valid [OF assms(1) plan] have "placement_ok next' (inv_public iv) (inv_nodes iv)" by simp
    moreover have "inv_placement ?iv = current" by simp
    from plan_place_lookup [OF assms(1) plan, unfolded this] obtain source displaced where
      "map_of current source = Some l" "map_of current number = Some displaced"
      "\<And>k. map_of next' k = map_of current (swap_numbers source number k)" by blast
    moreover from this have "map_of next' = (map_of current)(number \<mapsto> l, source \<mapsto> displaced)"
      by (auto simp: fun_eq_iff swap_numbers_def)
    ultimately show ?thesis by (auto simp: validate_placement_iff)
  qed (use ok in \<open>simp add: validate_placement_iff\<close>)
qed

text \<open>A reconciliation that finds every machine converged does nothing.\<close>

lemma probe_all:
  "each (probe_placement sur tr iv) acc ns = Inr probes \<Longrightarrow> distinct (map Number ns) \<Longrightarrow>
   (\<forall>n \<in> set ns. \<exists>t out probe. target iv n = Inr t \<and> sur_state sur tr (Number n) = Some out \<and>
      parse_probe out (sur_node_id sur tr (Number n)) = Some probe \<and> probes (Number n) = Some probe) \<and>
   (\<forall>k. k \<notin> Number ` set ns \<longrightarrow> probes k = acc k)"
proof (induction ns arbitrary: acc)
  case (Cons n ns)
  then obtain acc' where step: "probe_placement sur tr iv acc n = Inr acc'"
    and rest: "each (probe_placement sur tr iv) acc' ns = Inr probes" by auto
  from step obtain t out probe where p: "target iv n = Inr t" "sur_state sur tr (num t) = Some out"
    "parse_probe out (sur_node_id sur tr (num t)) = Some probe" "acc' = acc(Number n \<mapsto> probe)"
    by (auto simp: probe_placement_def simp del: fun_upd_apply split: option.splits)
  moreover have "num t = Number n" using target_node [OF p(1)] by simp
  moreover have "Number n \<notin> Number ` set ns" using Cons.prems(2) by auto
  moreover note Cons.IH [OF rest]
  ultimately show ?case using Cons.prems(2) by auto
qed simp

text \<open>The machine serves its identity, or is down and not meant to be up.\<close>

definition settled :: "('cid, 'pop) surroundings \<Rightarrow> trace \<Rightarrow> ('cid, 'pop) inventory \<Rightarrow> node \<Rightarrow> bool" where
  "settled sur tr iv n \<longleftrightarrow> (case (sur_state sur tr (Number n), assigned iv n) of
      (Some out, Inr g) \<Rightarrow> (case parse_probe out (sur_node_id sur tr (Number n)) of
          Some probe \<Rightarrow> if probe_active probe then probe_nodeID probe = pn_NodeID g else \<not> probe_enabled probe
        | None \<Rightarrow> False)
    | _ \<Rightarrow> False)"

lemma restart_within:
  assumes "restart_machines sur iv restart tr = (tr', r)"
  shows "\<exists>evs. tr' = tr @ evs \<and> (\<forall>e \<in> set evs. fst e \<in> Number ` set restart)"
proof (cases "placement_targets (sur_keys sur) iv restart")
  case (Inr ts)
  have "map nd_node ts = restart"
    using Inr unfolding placement_targets_def
    by (induction restart arbitrary: ts) (auto dest: target_node split: if_splits)
  then have "num ` set ts = Number ` set restart" by (metis image_image list.set_map)
  moreover have "\<forall>p \<in> set (restart_phases sur). \<exists>ops. snd p = act sur ops" by (auto simp: restart_phases_def)
  moreover have "run_phases (restart_phases sur) ts tr = (tr', r)" using assms Inr by (simp add: restart_machines_def)
  ultimately show ?thesis using run_phases_touch by metis
qed (use assms in \<open>simp add: restart_machines_def\<close>)

lemma push_within:
  assumes "push_configs sur iv tr = (tr', r)"
  shows "\<exists>evs. tr' = tr @ evs \<and> (\<forall>e \<in> set evs. op_of e \<in> {StageConfig, UploadConfig, InstallConfig})"
proof -
  have "\<exists>evs. t = tr @ evs \<and> (\<forall>e \<in> set evs. op_of e \<in> {StageConfig, UploadConfig, InstallConfig})"
    if "phase ''config'' (act sur config_ops) all tr = (t, q)" for all t q
    using ops.phase_extends [OF that [unfolded act_def]] by (fastforce simp: config_ops_def)
  with assms show ?thesis by (auto simp: push_configs_def split: sum.splits)
qed

lemma parse_probe_runtime:
  assumes "parse_probe out runtime = Some probe" "probe_active probe"
  shows "probe_nodeID probe \<noteq> []"
proof -
  have "(if \<not> active then Some \<lparr>probe_active = False, probe_enabled = enabled, probe_nodeID = []\<rparr>
      else case runtime of None \<Rightarrow> None | Some i \<Rightarrow> if i = [] then None
        else Some \<lparr>probe_active = True, probe_enabled = enabled, probe_nodeID = i\<rparr>) = Some probe \<Longrightarrow> ?thesis" for active enabled
    using assms(2) by (auto split: if_splits option.splits)
  with assms(1) show ?thesis unfolding parse_probe_def Let_def by blast
qed

lemma settled_assigned:
  "settled sur tr iv n \<Longrightarrow> \<exists>out g probe. sur_state sur tr (Number n) = Some out \<and> assigned iv n = Inr g
     \<and> parse_probe out (sur_node_id sur tr (Number n)) = Some probe
     \<and> (if probe_active probe then probe_nodeID probe = pn_NodeID g \<and> probe_nodeID probe \<noteq> [] else \<not> probe_enabled probe)"
  using parse_probe_runtime by (fastforce simp: settled_def split: option.splits sum.splits if_splits)

lemma probes_settled:
  "\<forall>n \<in> set ns. settled sur tr iv n \<Longrightarrow> \<exists>probes. each (probe_placement sur tr iv) acc ns = Inr probes"
proof (induction ns arbitrary: acc)
  case (Cons n ns)
  from Cons.prems have "settled sur tr iv n" by simp
  from settled_assigned [OF this] obtain acc' where "probe_placement sur tr iv acc n = Inr acc'"
    by (auto simp: probe_placement_def target_def)
  then show ?case using Cons by simp
qed simp

lemma apply_settled:
  "\<forall>n \<in> set ns. \<exists>g probe. assigned iv n = Inr g \<and> probes (Number n) = Some probe
     \<and> (if probe_active probe then probe_nodeID probe = pn_NodeID g \<and> probe_nodeID probe \<noteq> [] else \<not> probe_enabled probe)
   \<Longrightarrow> \<exists>nts. each (apply_step iv probes) (r, t) ns = Inr (r, nts)"
proof (induction ns arbitrary: t)
  case (Cons n ns)
  from Cons.prems obtain g probe where "assigned iv n = Inr g" "probes (Number n) = Some probe"
    "if probe_active probe then probe_nodeID probe = pn_NodeID g \<and> probe_nodeID probe \<noteq> [] else \<not> probe_enabled probe"
    by auto
  then have "\<exists>t'. apply_step iv probes (r, t) n = Inr (r, t')"
    by (cases "probe_active probe") (auto simp: apply_step_def)
  then obtain t' where "apply_step iv probes (r, t) n = Inr (r, t')" ..
  then show ?case using Cons by simp
qed simp

lemma reconcile_settled:
  assumes "inv_created iv" "\<forall>n \<in> set (l1_nodes iv). settled sur tr iv n" "distinct (map Number (l1_nodes iv))"
  shows "reconcile_placement sur iv tr = (tr, None)"
proof -
  obtain probes where p: "each (probe_placement sur tr iv) Map.empty (l1_nodes iv) = Inr probes"
    using probes_settled [OF assms(2)] by blast
  have "\<exists>nts. each (apply_step iv probes) ([], []) (l1_nodes iv) = Inr ([], nts)"
  proof (rule apply_settled, rule ballI)
    fix n assume n: "n \<in> set (l1_nodes iv)"
    with assms(2) have "settled sur tr iv n" by blast
    from settled_assigned [OF this] conjunct1 [OF probe_all [OF p assms(3)], rule_format, OF n]
    show "\<exists>g probe. assigned iv n = Inr g \<and> probes (Number n) = Some probe
      \<and> (if probe_active probe then probe_nodeID probe = pn_NodeID g \<and> probe_nodeID probe \<noteq> [] else \<not> probe_enabled probe)"
      by (elim exE conjE) simp
  qed
  then show ?thesis using assms(1) p by (auto simp: reconcile_placement_def plan_apply_def)
qed

text \<open>C7: reconciling restarts only what is out of place: in whatever way the remote operations
  succeed or fail, a machine that serves the identity placement assigns to it, or that was
  taken down deliberately, receives at most the new address book; and when every L1 machine is
  in that state the step changes nothing and returns no error.\<close>

theorem reconcile_restarts_only_unsettled:
  assumes "iv_ok env iv" "reconcile_placement sur iv tr = (tr', r)"
  shows "(\<exists>evs. tr' = tr @ evs \<and> (\<forall>e \<in> set evs. op_of e \<in> {StageConfig, UploadConfig, InstallConfig} \<or>
      (\<exists>n \<in> set (l1_nodes iv). fst e = Number n \<and> \<not> settled sur tr iv n))) \<and>
    (inv_created iv \<and> (\<forall>n \<in> set (l1_nodes iv). settled sur tr iv n) \<longrightarrow> tr' = tr \<and> r = None)"
proof -
  have dist: "distinct (map Number (l1_nodes iv))"
    using iv_ok_numbers [OF assms(1)] by (simp add: l1_nodes_def distinct_map_filter)
  have idle: "tr' = tr \<and> r = None" if "inv_created iv \<and> (\<forall>n \<in> set (l1_nodes iv). settled sur tr iv n)"
    using reconcile_settled [of iv sur tr] that dist assms(2) by simp
  show ?thesis
  proof (cases "tr' = tr")
  case False
  with assms(2) obtain probes restart nts where
    p: "each (probe_placement sur tr iv) Map.empty (l1_nodes iv) = Inr probes"
    and plan: "plan_apply iv (l1_nodes iv) probes = Inr (restart, nts)" and ne: "restart \<noteq> []"
    and b: "bind_outcome (push_configs sur iv tr) (restart_machines sur iv restart) = (tr', r)"
    by (auto simp: reconcile_placement_def split: if_splits sum.splits)
  have "converged iv probes n \<longleftrightarrow> settled sur tr iv n" if "n \<in> set (l1_nodes iv)" for n
    using conjunct1 [OF probe_all [OF p dist]] that
    by (fastforce simp: converged_def settled_def split: sum.splits)
  then have restart: "set restart = {n \<in> set (l1_nodes iv). \<not> settled sur tr iv n}"
    using apply_steps [of iv probes "[]" "[]" "l1_nodes iv" restart nts] plan by (auto simp: plan_apply_def)
  have "\<exists>evs. tr' = tr @ evs \<and> (\<forall>e \<in> set evs. op_of e \<in> {StageConfig, UploadConfig, InstallConfig} \<or>
      fst e \<in> Number ` set restart)"
    using b
  proof (cases rule: bind_outcome_cases)
    case (fail e)
    from push_within [OF fail(1)] show ?thesis by blast
  next
    case (ok tr1)
    from push_within [OF ok(1)] restart_within [OF ok(2)] show ?thesis by fastforce
  qed
  then obtain evs where "tr' = tr @ evs" "\<forall>e \<in> set evs. op_of e \<in> {StageConfig, UploadConfig, InstallConfig} \<or>
      fst e \<in> Number ` set restart" by blast
  then show ?thesis using restart idle by blast
  qed (use idle in simp)
qed

section \<open>An example\<close>

lemma sample_created_ready: "place_ready sample_env sample_created"
  using sample_created_ok sample_iv_ready by (simp add: place_ready_def sample_created_def)

theorem place_keeps_placement_valid_witness:
  "\<exists>next'. fst (snd (place_command sample_sur True sample_created ''b'' 6 [] sample_placement)) = next' \<and>
    validate_placement next' sample_manifest sample_nodes = Inr ()"
proof -
  have "sample_created\<lparr>inv_placement := sample_placement\<rparr> = sample_created"
    by (simp add: sample_created_def sample_iv_def base_inventory_def)
  with sample_created_ready have r: "place_ready sample_env (sample_created\<lparr>inv_placement := sample_placement\<rparr>)" by simp
  obtain tr' next' r' where p: "place_command sample_sur True sample_created ''b'' 6 [] sample_placement = (tr', next', r')"
    by (cases "place_command sample_sur True sample_created ''b'' 6 [] sample_placement") auto
  from place_keeps_placement_valid [OF r p] p show ?thesis
    by (simp add: sample_created_def sample_iv_def base_inventory_def)
qed

theorem reconcile_restarts_only_unsettled_witness:
  "\<exists>evs. fst (reconcile_placement sample_sur sample_created []) = evs \<and>
    settled sample_sur [] sample_created (sample_nodes ! 1) \<and>
    filter (\<lambda>e. fst e = 2 \<and> op_of e \<notin> {StageConfig, UploadConfig, InstallConfig}) evs = []"
proof -
  obtain tr' r where c: "reconcile_placement sample_sur sample_created [] = (tr', r)" by fastforce
  have "assigned sample_created (sample_nodes ! 1) = Inr (sample_node ''b'' 2 RoleValidator [] 100000)"
    by (simp add: assigned_def sample_created_def sample_iv_def base_inventory_def sample_placement_def
        sample_manifest_def index_by_def sample_node_def sample_nodes_def)
  then have s: "settled sample_sur [] sample_created (sample_nodes ! 1)"
    by (simp add: settled_def sample_sur_def parse_probe_def go_eval sample_nodes_def sample_node_def)
  have "n = sample_nodes ! 1" if "n \<in> set (l1_nodes sample_created)" "Number n = 2" for n
    using that by (auto simp: sample_created_def sample_iv_def base_inventory_def l1_nodes_def sample_nodes_def)
  with reconcile_restarts_only_unsettled [OF sample_created_ok c] c s show ?thesis by (auto simp: filter_empty_conv; metis)
qed

end
