(* ===== verification/Pchain_Read.thy ===== *)
theory Pchain_Read
  imports Network_State
begin

text \<open>
  Reading L1 validators from the P-chain API, shared by the fee commands
  (\<^verbatim>\<open>internal/weights/report.go\<close>) and by set-weight (\<^verbatim>\<open>internal/setweight/setweight.go\<close>): the
  records of the platform client the two packages use, and their height-consistent read. The API
  server is a parameter: for every validation ID it gives the answer to each attempt. A node ID is
  its canonical text.
\<close>

section \<open>The client interface\<close>

record owners =
  ow_Locktime :: u64
  ow_Threshold :: "32 word"
  ow_Addrs :: "string list"

record 'key l1_validator =
  lv_NodeID :: string
  lv_Weight :: u64
  lv_Balance :: u64
  lv_MinNonce :: u64
  lv_PublicKey :: "'key option"
  lv_StartTime :: u64
  lv_RemainingBalanceOwner :: "owners option"
  lv_DeactivationOwner :: "owners option"

text \<open>An answer of \<^verbatim>\<open>GetL1Validator\<close>: the three results of the call, the error last.\<close>

record 'key state_answer =
  an_Validator :: "'key l1_validator"
  an_Height :: u64
  an_Err :: "string option"

record ('id, 'key) pchain_client =
  pc_Height :: "string + u64"
  pc_FeePrice :: "string + u64"
  pc_Members :: "'id \<Rightarrow> string + (string \<times> 'id option) list"
  pc_State :: "'id \<Rightarrow> nat \<Rightarrow> 'key state_answer"
  pc_Cancelled :: "'id \<Rightarrow> nat \<Rightarrow> bool"

datatype read_error =
    ReadError string
  | ReadCancelled
  | StaleHeight u64 u64

section \<open>The read loop\<close>

text \<open>
  One loop of \<open>limit\<close> attempts: an answer without error at a height of at least \<open>minimum\<close> is
  returned; an error in the last attempt is the result; between attempts the caller's context may
  be cancelled. \<open>note\<close> is what becomes of the last height seen, which only the message of a stale
  read shows and in which the two copies of the loop differ.
\<close>

definition fresh :: "u64 \<Rightarrow> 'key state_answer \<Rightarrow> bool" where
  "fresh minimum a \<longleftrightarrow> an_Err a = None \<and> minimum \<le> an_Height a"

fun read_loop ::
  "(u64 \<Rightarrow> 'key state_answer \<Rightarrow> u64) \<Rightarrow> nat \<Rightarrow> (nat \<Rightarrow> 'key state_answer) \<Rightarrow> (nat \<Rightarrow> bool)
   \<Rightarrow> u64 \<Rightarrow> u64 \<Rightarrow> nat \<Rightarrow> read_error + 'key l1_validator" where
  "read_loop note limit answers cancelled minimum seen 0 = Inl (StaleHeight seen minimum)"
| "read_loop note limit answers cancelled minimum seen (Suc left) =
    (let attempt = limit - Suc left; a = answers attempt in
     if fresh minimum a then Inr (an_Validator a)
     else if an_Err a \<noteq> None \<and> attempt = limit - 1 then Inl (ReadError (the (an_Err a)))
     else if cancelled attempt then Inl ReadCancelled
     else read_loop note limit answers cancelled minimum (note seen a) left)"

definition state_read_attempts :: nat where
  "state_read_attempts = 10"

text \<open>\<^verbatim>\<open>weights.getL1ValidatorAt\<close> keeps the height of the last answer without error,
  \<^verbatim>\<open>setweight.getL1ValidatorAt\<close> that of the last answer.\<close>

definition report_l1_validator_at ::
  "('id, 'key) pchain_client \<Rightarrow> 'id \<Rightarrow> u64 \<Rightarrow> read_error + 'key l1_validator" where
  "report_l1_validator_at c v minimum =
     read_loop (\<lambda>seen a. if an_Err a \<noteq> None then seen else an_Height a) state_read_attempts
       (pc_State c v) (pc_Cancelled c v) minimum 0 state_read_attempts"

definition setweight_l1_validator_at ::
  "('id, 'key) pchain_client \<Rightarrow> 'id \<Rightarrow> u64 \<Rightarrow> read_error + 'key l1_validator" where
  "setweight_l1_validator_at c v minimum =
     read_loop (\<lambda>seen a. an_Height a) state_read_attempts
       (pc_State c v) (pc_Cancelled c v) minimum 0 state_read_attempts"

section \<open>What a read returns\<close>

text \<open>The first consistent answer decides, unless the context is cancelled before it.\<close>

definition first_fresh :: "nat \<Rightarrow> (nat \<Rightarrow> 'key state_answer) \<Rightarrow> u64 \<Rightarrow> nat option" where
  "first_fresh limit answers minimum = find (\<lambda>i. fresh minimum (answers i)) [0..<limit]"

lemma read_loop_Inr:
  "left \<le> limit \<Longrightarrow> read_loop note limit answers cancelled minimum seen left = Inr v \<longleftrightarrow>
   (\<exists>i. find (\<lambda>i. fresh minimum (answers i)) [limit - left..<limit] = Some i \<and>
     (\<forall>j \<in> {limit - left..<i}. \<not> cancelled j) \<and> v = an_Validator (answers i))"
proof (induction left arbitrary: seen)
  case (Suc left)
  define a where "a = limit - Suc left"
  have upt: "[a..<limit] = a # [limit - left..<limit]"
    using Suc.prems by (subst upt_conv_Cons) (auto simp: a_def Suc_diff_Suc)
  have ivl: "(\<forall>j \<in> {a..<i}. \<not> cancelled j) \<longleftrightarrow>
      \<not> cancelled a \<and> (\<forall>j \<in> {limit - left..<i}. \<not> cancelled j)" if "limit - left \<le> i" for i
  proof -
    have "{a..<i} = insert a {limit - left..<i}" using that Suc.prems by (auto simp: a_def)
    then show ?thesis by simp
  qed
  have ge: "limit - left \<le> i" if "find (\<lambda>i. fresh minimum (answers i)) [limit - left..<limit] = Some i" for i
    using that by (auto simp: find_Some_iff)
  have last_err: "a = limit - 1 \<Longrightarrow> [limit - left..<limit] = []"
    using Suc.prems by (auto simp: a_def)
  show ?case
  proof (cases "fresh minimum (answers a)")
    case True
    then show ?thesis by (auto simp: upt a_def [symmetric] Let_def)
  next
    case False
    have IH: "read_loop note limit answers cancelled minimum l left = Inr v \<longleftrightarrow>
       (\<exists>i. find (\<lambda>i. fresh minimum (answers i)) [limit - left..<limit] = Some i \<and>
         (\<forall>j \<in> {limit - left..<i}. \<not> cancelled j) \<and> v = an_Validator (answers i))" for l
      using Suc.IH Suc.prems by simp
    have R: "(\<exists>i. find (\<lambda>i. fresh minimum (answers i)) [a..<limit] = Some i \<and>
         (\<forall>j \<in> {a..<i}. \<not> cancelled j) \<and> v = an_Validator (answers i)) \<longleftrightarrow>
       \<not> cancelled a \<and> (\<exists>i. find (\<lambda>i. fresh minimum (answers i)) [limit - left..<limit] = Some i \<and>
         (\<forall>j \<in> {limit - left..<i}. \<not> cancelled j) \<and> v = an_Validator (answers i))"
      unfolding upt using False ivl ge by (auto simp del: find_Some_iff)
    show ?thesis
      unfolding R [unfolded a_def] using False last_err IH
      by (auto simp: Let_def a_def [symmetric])
  qed
qed simp

lemma read_at_Inr:
  "report_l1_validator_at c v minimum = Inr s \<longleftrightarrow>
   (\<exists>i. first_fresh state_read_attempts (pc_State c v) minimum = Some i \<and>
     (\<forall>j < i. \<not> pc_Cancelled c v j) \<and> s = an_Validator (pc_State c v i))"
  "setweight_l1_validator_at c v minimum = Inr s \<longleftrightarrow>
   (\<exists>i. first_fresh state_read_attempts (pc_State c v) minimum = Some i \<and>
     (\<forall>j < i. \<not> pc_Cancelled c v j) \<and> s = an_Validator (pc_State c v i))"
  by (auto simp: report_l1_validator_at_def setweight_l1_validator_at_def read_loop_Inr
      first_fresh_def)

lemma find_upt:
  "find P [0..<n] = Some i \<longleftrightarrow> i < n \<and> P i \<and> (\<forall>j<i. \<not> P j)"
proof
  assume "find P [0..<n] = Some i"
  then obtain k where "k < n" "P k" "i = k" "\<forall>j<k. \<not> P ([0..<n] ! j)"
    unfolding find_Some_iff by auto
  then show "i < n \<and> P i \<and> (\<forall>j<i. \<not> P j)" by simp
next
  assume "i < n \<and> P i \<and> (\<forall>j<i. \<not> P j)"
  then show "find P [0..<n] = Some i"
    unfolding find_Some_iff by (intro exI [of _ i]) auto
qed

text \<open>C37: the two copies of \<^verbatim>\<open>getL1ValidatorAt\<close> (the fee report's and set-weight's) agree on
  every validator they return, and they return one exactly when, within ten attempts and before
  the context is cancelled, the API answers without error at the required height or above: then
  it is the first such answer. So a successful read is never older than the height the caller
  asked for, and a read that sees one consistent answer in its ten attempts fails only when it is
  cancelled before that answer.\<close>

theorem reads_are_height_consistent:
  "(report_l1_validator_at c v minimum = Inr s) = (setweight_l1_validator_at c v minimum = Inr s) \<and>
   (report_l1_validator_at c v minimum = Inr s) =
     (\<exists>i. i < 10 \<and> fresh minimum (pc_State c v i) \<and> s = an_Validator (pc_State c v i) \<and>
       filter (\<lambda>j. fresh minimum (pc_State c v j) \<or> pc_Cancelled c v j) [0..<i] = [])"
proof -
  have "(first_fresh state_read_attempts (pc_State c v) minimum = Some i \<and>
        (\<forall>j<i. \<not> pc_Cancelled c v j) \<and> s = an_Validator (pc_State c v i)) \<longleftrightarrow>
      (i < 10 \<and> fresh minimum (pc_State c v i) \<and> s = an_Validator (pc_State c v i) \<and>
       filter (\<lambda>j. fresh minimum (pc_State c v j) \<or> pc_Cancelled c v j) [0..<i] = [])" for i
  proof -
    have "filter (\<lambda>j. fresh minimum (pc_State c v j) \<or> pc_Cancelled c v j) [0..<i] = [] \<longleftrightarrow>
        (\<forall>j<i. \<not> fresh minimum (pc_State c v j)) \<and> (\<forall>j<i. \<not> pc_Cancelled c v j)"
      unfolding filter_empty_conv by (simp add: Ball_def) blast
    then show ?thesis
      unfolding first_fresh_def find_upt state_read_attempts_def by argo
  qed
  then show ?thesis unfolding read_at_Inr by (simp only: simp_thms)
qed

end
