(* ===== verification/Funding.thy ===== *)
theory Funding
  imports Placement
begin

text \<open>
  The funding key, \<^verbatim>\<open>internal/funding/funding.go\<close>: writing a generated key into the environment
  file, and inspecting the address the key controls. The secp256k1 library, the address format
  and the RPC client are parameters; the file is a text, replaced by a rename or left alone.
\<close>

section \<open>Generating the key\<close>

definition funding_prefix :: string where
  "funding_prefix = ''FUNDING_PRIVATE_KEY=''"

datatype funding_error =
    EnvironmentUnreadable
  | DuplicateFundingKey
  | FundingKeyExists
  | FundingKeyAbsent
  | KeyGenerationFailed
  | PublishFailed nat

definition funding_line :: "string \<Rightarrow> bool" where
  "funding_line line = (let trimmed = trim_space line in
     \<not> (has_prefix trimmed ''#'' \<or> \<not> has_prefix trimmed funding_prefix))"

definition funding_value :: "string \<Rightarrow> string" where
  "funding_value line = fst (snd (cut (CHR ''='') (trim_space line)))"

text \<open>The loop over the lines: \<open>found\<close> is the flag, the second component the rewritten lines.\<close>

definition insert_key_step ::
  "string option \<Rightarrow> bool \<times> string list \<Rightarrow> string \<Rightarrow> funding_error + bool \<times> string list" where
  "insert_key_step key st line = (case st of (found, kept) \<Rightarrow>
     if \<not> funding_line line then Inr (found, kept @ [line])
     else if found then Inl DuplicateFundingKey
     else if trim_space (funding_value line) \<noteq> [] then Inl FundingKeyExists
     else case key of
         None \<Rightarrow> Inl KeyGenerationFailed
       | Some k \<Rightarrow> Inr (True, kept @ [funding_prefix @ k]))"

text \<open>
  The new contents are written to a temporary file and renamed over the environment file: the
  five calls of the sequence (create, protect, write, close, rename) answer in order, and the
  file changes only when the last one succeeds.
\<close>

fun first_failure :: "nat \<Rightarrow> bool list \<Rightarrow> nat option" where
  "first_failure i [] = None"
| "first_failure i (ok # oks) = (if ok then first_failure (i + 1) oks else Some i)"

definition generate_into_environment ::
  "string option \<Rightarrow> bool list \<Rightarrow> string option \<Rightarrow> (funding_error + unit) \<times> string option" where
  "generate_into_environment key publish file = (case file of
      None \<Rightarrow> (Inl EnvironmentUnreadable, file)
    | Some contents \<Rightarrow>
       (case each (insert_key_step key) (False, []) (go_split (CHR 0x0A) contents) of
          Inl e \<Rightarrow> (Inl e, file)
        | Inr (found, lines) \<Rightarrow>
            if \<not> found then (Inl FundingKeyAbsent, file)
            else (case first_failure 0 publish of
                Some i \<Rightarrow> (Inl (PublishFailed i), file)
              | None \<Rightarrow> (Inr (), Some (join_with [CHR 0x0A] lines)))))"

section \<open>Inspecting the funds\<close>

record addresses =
  addr_PChain :: string
  addr_EVM :: string

record info =
  info_Addresses :: addresses
  info_Balance :: u64

datatype inspect_error =
    FundingKeyNotHex
  | FundingKeyRejected
  | UnknownFundingNetwork string
  | AddressFormatFailed
  | BalanceUnreadable

text \<open>
  What the platform library offers for keys: \<open>load_key\<close> is \<^verbatim>\<open>secp256k1.ToPrivateKey\<close>,
  \<open>format_p\<close> the bech32 text of the key's P-chain address on a network, \<open>evm_text\<close> the checksummed
  EVM address, \<open>short_id\<close> the address itself, \<open>balance\<close> the RPC's answer.
\<close>

record 'key key_library =
  load_key :: "nat list \<Rightarrow> 'key option"
  format_p :: "string \<Rightarrow> 'key \<Rightarrow> string option"
  evm_text :: "'key \<Rightarrow> string"
  short_id :: "'key \<Rightarrow> string"
  unlocked_balance :: "string \<Rightarrow> u64 option"

definition parse_private_key :: "'key key_library \<Rightarrow> string \<Rightarrow> inspect_error + 'key" where
  "parse_private_key lib raw = (case hex_decode raw of
      None \<Rightarrow> Inl FundingKeyNotHex
    | Some bytes \<Rightarrow> (case load_key lib bytes of
        None \<Rightarrow> Inl FundingKeyRejected
      | Some k \<Rightarrow> Inr k))"

definition derive_addresses :: "'key key_library \<Rightarrow> string \<Rightarrow> 'key \<Rightarrow> inspect_error + addresses" where
  "derive_addresses lib network key =
    (if network \<noteq> ''fuji'' \<and> network \<noteq> ''mainnet'' then Inl (UnknownFundingNetwork network)
     else case format_p lib network key of
         None \<Rightarrow> Inl AddressFormatFailed
       | Some p \<Rightarrow> Inr \<lparr>addr_PChain = p, addr_EVM = evm_text lib key\<rparr>)"

definition inspect_funds :: "'key key_library \<Rightarrow> environment \<Rightarrow> inspect_error + info" where
  "inspect_funds lib env =
    rbind (parse_private_key lib (FundingPrivateKey env)) (\<lambda>key.
    rbind (derive_addresses lib (Network env) key) (\<lambda>addrs.
      case unlocked_balance lib (short_id lib key) of
        None \<Rightarrow> Inl BalanceUnreadable
      | Some b \<Rightarrow> Inr \<lparr>info_Addresses = addrs, info_Balance = b\<rparr>))"

section \<open>The generated file\<close>

lemma insert_key_step_simps:
  "\<not> funding_line l \<Longrightarrow> insert_key_step key (found, kept) l = Inr (found, kept @ [l])"
  "funding_line l \<Longrightarrow> insert_key_step key (True, kept) l = Inl DuplicateFundingKey"
  "funding_line l \<Longrightarrow> insert_key_step key (False, kept) l =
     (if trim_space (funding_value l) \<noteq> [] then Inl FundingKeyExists
      else case key of None \<Rightarrow> Inl KeyGenerationFailed
       | Some k \<Rightarrow> Inr (True, kept @ [funding_prefix @ k]))"
  by (simp_all add: insert_key_step_def)

lemma insert_key_found:
  "each (insert_key_step key) (True, kept) lines = Inr r \<longleftrightarrow>
   filter funding_line lines = [] \<and> r = (True, kept @ lines)"
proof (induction lines arbitrary: kept)
  case (Cons l lines)
  then show ?case by (cases "funding_line l") (simp_all add: insert_key_step_simps)
qed auto

lemma insert_key_lines:
  "each (insert_key_step key) (False, kept) lines = Inr (True, kept') \<Longrightarrow>
   \<exists>k pre line post. key = Some k \<and> lines = pre @ line # post \<and> funding_line line \<and>
     trim_space (funding_value line) = [] \<and> filter funding_line (pre @ post) = [] \<and>
     kept' = kept @ pre @ (funding_prefix @ k) # post"
proof (induction lines arbitrary: kept)
  case (Cons l lines)
  show ?case
  proof (cases "funding_line l")
    case True
    with Cons.prems obtain k where "key = Some k" "trim_space (funding_value l) = []"
      "each (insert_key_step key) (True, kept @ [funding_prefix @ k]) lines = Inr (True, kept')"
      by (auto simp: insert_key_step_simps split: if_splits option.splits)
    with True show ?thesis
      by (intro exI [of _ k] exI [of _ "[]"] exI [of _ l] exI [of _ lines])
        (simp add: insert_key_found)
  next
    case False
    with Cons.prems have "each (insert_key_step key) (False, kept @ [l]) lines = Inr (True, kept')"
      by (simp add: insert_key_step_simps)
    from Cons.IH [OF this] obtain k pre line post where
      "key = Some k" "lines = pre @ line # post" "funding_line line"
      "trim_space (funding_value line) = []" "filter funding_line (pre @ post) = []"
      "kept' = (kept @ [l]) @ pre @ (funding_prefix @ k) # post" by blast
    with False show ?thesis
      by (intro exI [of _ k] exI [of _ "l # pre"] exI [of _ line] exI [of _ post]) simp
  qed
qed simp

lemma insert_key_refuses:
  assumes "filter funding_line pre = []" "funding_line line" "trim_space (funding_value line) \<noteq> []"
  shows "each (insert_key_step key) (False, kept) (pre @ line # post) = Inl FundingKeyExists"
  using assms
  by (induction pre arbitrary: kept) (auto simp: insert_key_step_simps split: if_splits)

lemma trim_left_id: "xs \<noteq> [] \<Longrightarrow> \<not> p (hd xs) \<Longrightarrow> trim_left p xs = xs"
  by (cases xs) (auto simp: trim_left_def)

lemma trim_right_id: "xs \<noteq> [] \<Longrightarrow> \<not> p (last xs) \<Longrightarrow> trim_right p xs = xs"
  by (cases xs rule: rev_cases) (auto simp: trim_right_def)

lemma trim_space_id: "xs \<noteq> [] \<Longrightarrow> \<not> is_space (hd xs) \<Longrightarrow> \<not> is_space (last xs) \<Longrightarrow> trim_space xs = xs"
  by (simp add: trim_space_def trim_left_id trim_right_id)

lemma written_line:
  assumes "k \<noteq> []" "list_all (\<lambda>c. \<not> is_space c) k"
  shows "funding_line (funding_prefix @ k)" "funding_value (funding_prefix @ k) = k"
    "trim_space k = k"
proof -
  have k: "\<not> is_space (hd k)" "\<not> is_space (last k)"
    using assms by (auto simp: list_all_iff)
  have t: "trim_space (funding_prefix @ k) = funding_prefix @ k"
    by (rule trim_space_id) (use k assms in \<open>auto simp: funding_prefix_def is_space_def\<close>)
  show "funding_line (funding_prefix @ k)"
    unfolding funding_line_def t by (simp add: has_prefix_def funding_prefix_def)
  show "funding_value (funding_prefix @ k) = k"
    unfolding funding_value_def t by (simp add: cut_def funding_prefix_def)
  show "trim_space k = k" by (rule trim_space_id) (use k assms in auto)
qed

text \<open>\<^verbatim>\<open>GenerateIntoEnvironment\<close> never replaces a key and never half-writes the file. When
  it fails, whatever the step, the file holds its old text. When it succeeds, the old text had
  exactly one line assigning the funding key, with no value, and the new text is the old one with
  that line, and no other, now assigning the generated key; running the command again on it is
  refused and leaves it as it is.\<close>

theorem generate_writes_key_once:
  assumes "generate_into_environment key publish (Some old) = (r, file)"
    and "\<forall>k \<in> set_option key. k \<noteq> [] \<and> list_all (\<lambda>c. \<not> is_space c) k"
  shows "case r of
      Inl _ \<Rightarrow> file = Some old
    | Inr _ \<Rightarrow> \<exists>k pre line post new. key = Some k \<and> file = Some new \<and>
        go_split (CHR 0x0A) old = pre @ line # post \<and>
        funding_line line \<and> trim_space (funding_value line) = [] \<and>
        filter funding_line (pre @ post) = [] \<and>
        go_split (CHR 0x0A) new = pre @ (funding_prefix @ k) # post \<and>
        (\<forall>key' publish'. generate_into_environment key' publish' (Some new) =
           (Inl FundingKeyExists, Some new))"
proof (cases r)
  case (Inl e)
  with assms(1) show ?thesis
    by (auto simp: generate_into_environment_def split: sum.splits if_splits option.splits)
next
  case (Inr u)
  with assms(1) obtain lines where
    l: "each (insert_key_step key) (False, []) (go_split (CHR 0x0A) old) = Inr (True, lines)"
    and f: "file = Some (join_with [CHR 0x0A] lines)"
    by (auto simp: generate_into_environment_def split: sum.splits if_splits option.splits)
  from insert_key_lines [OF l] obtain k pre line post where
    k: "key = Some k" and old: "go_split (CHR 0x0A) old = pre @ line # post"
    and line: "funding_line line" "trim_space (funding_value line) = []"
    and only: "filter funding_line (pre @ post) = []"
    and lines: "lines = pre @ (funding_prefix @ k) # post" by auto
  from assms(2) k have k_ok: "k \<noteq> []" "list_all (\<lambda>c. \<not> is_space c) k" by auto
  have "CHR 0x0A \<notin> set k" using k_ok(2) by (auto simp: list_all_iff is_space_def)
  then have "\<forall>x \<in> set lines. CHR 0x0A \<notin> set x"
    using go_split_clean [of _ "CHR 0x0A" old] unfolding lines old
    by (auto simp: funding_prefix_def)
  then have new: "go_split (CHR 0x0A) (join_with [CHR 0x0A] lines) = lines"
    by (intro split_join) (auto simp: lines)
  have "generate_into_environment key' publish' (Some (join_with [CHR 0x0A] lines)) =
      (Inl FundingKeyExists, Some (join_with [CHR 0x0A] lines))" for key' publish'
  proof -
    have "each (insert_key_step key') (False, []) lines = Inl FundingKeyExists"
      unfolding lines by (rule insert_key_refuses) (use only written_line [OF k_ok] k_ok in auto)
    then show ?thesis by (simp add: generate_into_environment_def new)
  qed
  with Inr k old line only f new lines show ?thesis by auto
qed

lemma sample_generate:
  "generate_into_environment (Some ''ab12'') [True, True, True, True, True]
     (Some ''NETWORK=fuji\<newline>FUNDING_PRIVATE_KEY=\<newline>SSH_USER=x'') =
   (Inr (), Some ''NETWORK=fuji\<newline>FUNDING_PRIVATE_KEY=ab12\<newline>SSH_USER=x'')"
  by (simp add: generate_into_environment_def insert_key_step_def funding_line_def
      funding_prefix_def funding_value_def go_eval)

theorem generate_writes_key_once_witness:
  "\<exists>pre line post new. 
        go_split (CHR 0x0A) ''NETWORK=fuji\<newline>FUNDING_PRIVATE_KEY=\<newline>SSH_USER=x'' = pre @ line # post \<and>
        funding_line line \<and> go_split (CHR 0x0A) new = pre @ (funding_prefix @ ''ab12'') # post \<and>
        (\<forall>key' publish'. generate_into_environment key' publish' (Some new) =
           (Inl FundingKeyExists, Some new))"
  using generate_writes_key_once [OF sample_generate]
  by (simp add: is_space_def) blast


end
