(* ===== verification/Fees.thy ===== *)
theory Fees
  imports Pchain_Read Funding
begin

text \<open>
  The fee commands: the report of every validator's balance (\<^verbatim>\<open>fetch\<close> and \<^verbatim>\<open>fetchValidators\<close> of
  \<^verbatim>\<open>internal/weights/report.go\<close>), \<^verbatim>\<open>internal/topup/topup.go\<close>, which brings every validator to a
  number of days, and \<^verbatim>\<open>internal/destroy/destroy.go\<close>, which takes every balance back. Amounts are
  64-bit words. The wallet is a function from the number of the transaction to its answer; the
  transactions issued are a trace. The float \<^verbatim>\<open>DaysLeft\<close> is only displayed and is not modelled.
\<close>

section \<open>The report\<close>

record 'id validator =
  v_L1 :: string
  v_NodeID :: string
  v_ValidationID :: 'id
  v_Weight :: u64
  v_Balance :: u64
  v_RemainingBalanceOwner :: "owners option"
  v_DeactivationOwner :: "owners option"

record 'id report =
  ManagementChainID_of :: 'id
  OracleChainID_of :: 'id
  MainChainID_of :: 'id
  ExtraChainIDs :: "(string \<times> 'id) list"
  FeePrice :: u64
  Validators :: "'id validator list"

datatype fetch_error =
    HeightUnreadable string
  | FeePriceUnreadable string
  | FeePriceZero
  | MembersUnreadable string string
  | MissingValidation string string
  | ValidatorUnreadable string string read_error
  | NoActiveValidators

definition fetch_validator ::
  "('id, 'key) pchain_client \<Rightarrow> string \<Rightarrow> u64 \<Rightarrow> 'id validator list \<Rightarrow> string \<times> 'id option
   \<Rightarrow> fetch_error + 'id validator list" where
  "fetch_validator c l1 minimum rows m = (case m of (nodeID, validation) \<Rightarrow>
     (case validation of
        None \<Rightarrow> Inl (MissingValidation l1 nodeID)
      | Some vid \<Rightarrow> (case report_l1_validator_at c vid minimum of
          Inl e \<Rightarrow> Inl (ValidatorUnreadable l1 nodeID e)
        | Inr s \<Rightarrow>
            if lv_Balance s = 0 then Inr rows
            else Inr (rows @ [\<lparr>v_L1 = l1, v_NodeID = lv_NodeID s, v_ValidationID = vid,
              v_Weight = lv_Weight s, v_Balance = lv_Balance s,
              v_RemainingBalanceOwner = lv_RemainingBalanceOwner s,
              v_DeactivationOwner = lv_DeactivationOwner s\<rparr>]))))"

definition fetch_validators ::
  "('id, 'key) pchain_client \<Rightarrow> string \<Rightarrow> 'id \<Rightarrow> u64 \<Rightarrow> fetch_error + 'id validator list" where
  "fetch_validators c l1 subnetID minimum = (case pc_Members c subnetID of
      Inl e \<Rightarrow> Inl (MembersUnreadable l1 e)
    | Inr members \<Rightarrow> each (fetch_validator c l1 minimum) [] members)"

definition management_l1 :: string where
  "management_l1 = ''management''"

text \<open>The L1s in the order they are read: the named ones whose subnet is recorded, then the
  additional chains by name.\<close>

definition extra_names :: "'id deployment \<Rightarrow> string list" where
  "extra_names d = sorted_list_of_set (dom (extra_chains d))"

definition recorded_l1s :: "'id id_codec \<Rightarrow> 'id deployment \<Rightarrow> (string \<times> 'id) list" where
  "recorded_l1s codec d =
     filter (\<lambda>(_, subnet). subnet \<noteq> id_empty codec)
       [(management_l1, ManagementSubnetID d), (oracle_chain, OracleSubnetID d), (main_chain, MainSubnetID d)] @
     map (\<lambda>name. (name, fst (the (extra_chains d name)))) (extra_names d)"

text \<open>Management first, then main, then the others by name; within an L1 by node ID.\<close>

definition row_less :: "'id validator \<Rightarrow> 'id validator \<Rightarrow> bool" where
  "row_less a b =
    (if v_L1 a \<noteq> v_L1 b then
       (if v_L1 a = management_l1 \<or> v_L1 b = management_l1 then v_L1 a = management_l1
        else if v_L1 a = main_chain \<or> v_L1 b = main_chain then v_L1 a = main_chain
        else v_L1 a < v_L1 b)
     else v_NodeID a < v_NodeID b)"

definition fetch ::
  "'id id_codec \<Rightarrow> ('id, 'key) pchain_client \<Rightarrow> 'id deployment \<Rightarrow> bool \<Rightarrow> fetch_error + 'id report" where
  "fetch codec c d requireValidators = (case pc_Height c of
      Inl e \<Rightarrow> Inl (HeightUnreadable e)
    | Inr height \<Rightarrow> (case pc_FeePrice c of
        Inl e \<Rightarrow> Inl (FeePriceUnreadable e)
      | Inr price \<Rightarrow>
          if price = 0 then Inl FeePriceZero
          else rbind (rmap (\<lambda>(l1, subnet). fetch_validators c l1 subnet height) (recorded_l1s codec d)) (\<lambda>rows.
            if requireValidators \<and> concat rows = [] then Inl NoActiveValidators
            else Inr \<lparr>ManagementChainID_of = ManagementChainID d, OracleChainID_of = OracleChainID d,
              MainChainID_of = MainChainID d,
              ExtraChainIDs = map (\<lambda>name. (name, snd (the (extra_chains d name)))) (extra_names d),
              FeePrice = price, Validators = go_sort row_less (concat rows)\<rparr>)))"

lemma main_not_management: "main_chain \<noteq> management_l1"
  by (simp add: main_chain_def management_l1_def)

text \<open>The order on the L1s alone: a rank, then the name.\<close>

definition l1_rank :: "string \<Rightarrow> nat" where
  "l1_rank l1 = (if l1 = management_l1 then 0 else if l1 = main_chain then 1 else 2)"

definition l1_less :: "string \<Rightarrow> string \<Rightarrow> bool" where
  "l1_less a b \<longleftrightarrow> l1_rank a < l1_rank b \<or> l1_rank a = l1_rank b \<and> a < b"

lemma row_less_l1: "row_less a b \<longleftrightarrow>
    (if v_L1 a \<noteq> v_L1 b then l1_less (v_L1 a) (v_L1 b) else v_NodeID a < v_NodeID b)"
  using main_not_management by (simp add: row_less_def l1_less_def l1_rank_def)

lemma l1_less_order: "\<not> l1_less a a" "l1_less a b \<Longrightarrow> \<not> l1_less b a"
  "l1_less a c \<Longrightarrow> l1_less a b \<or> l1_less b c"
  by (auto simp: l1_less_def)

lemma l1_less_total: "a \<noteq> b \<Longrightarrow> l1_less a b \<or> l1_less b a"
  using linorder_less_linear [of a b] linorder_less_linear [of "l1_rank a" "l1_rank b"]
  by (auto simp: l1_less_def)

interpretation row_order: go_less "row_less :: 'id validator \<Rightarrow> 'id validator \<Rightarrow> bool"
proof
  fix a b c :: "'id validator"
  show "a \<noteq> b \<Longrightarrow> row_less a b \<Longrightarrow> \<not> row_less b a"
    using l1_less_order(2) [of "v_L1 a" "v_L1 b"]
    by (cases "v_L1 a = v_L1 b") (simp_all add: row_less_l1 order_less_not_sym)
  show "row_less a b \<or> row_less b c" if "row_less a c"
  proof (cases "v_L1 a = v_L1 b \<and> v_L1 b = v_L1 c")
    case True
    with that show ?thesis using less_le_trans [of "v_NodeID a" "v_NodeID c" "v_NodeID b"]
      by (auto simp: row_less_l1 not_less)
  next
    case False
    with that show ?thesis
      using l1_less_order(3) [of "v_L1 a" "v_L1 c" "v_L1 b"] l1_less_order(1) l1_less_total
      by (cases "v_L1 a = v_L1 c") (auto simp: row_less_l1)
  qed
qed

section \<open>Topping up\<close>

definition seconds_per_day :: u64 where
  "seconds_per_day = 24 * 60 * 60"

definition settlement_buffer :: u64 where
  "settlement_buffer = 60 * 60"

text \<open>One AVAX is \<open>10 ^ 9\<close> of the amounts' unit; the fee reserve is a tenth of it.\<close>

definition avax :: u64 where
  "avax = 1000000000"

definition transaction_fees :: u64 where
  "transaction_fees = avax div 10"

datatype amount_error =
    NoFeePrice
  | DaysOverflow u64
  | TargetOverflow
  | BalanceOverflow

definition balance_for_seconds :: "u64 \<Rightarrow> u64 \<Rightarrow> amount_error + u64" where
  "balance_for_seconds seconds price =
    (if price = 0 then Inl NoFeePrice
     else if seconds > (- 1) div price then Inl TargetOverflow
     else Inr (seconds * price))"

definition target_balance :: "u64 \<Rightarrow> u64 \<Rightarrow> amount_error + u64" where
  "target_balance days price =
    (if price = 0 then Inl NoFeePrice
     else if days > (- 1) div seconds_per_day then Inl (DaysOverflow days)
     else balance_for_seconds (days * seconds_per_day) price)"

definition add_amounts :: "u64 \<Rightarrow> u64 \<Rightarrow> amount_error + u64" where
  "add_amounts a b = (if a > (- 1) - b then Inl BalanceOverflow else Inr (a + b))"

record 'id topup_action =
  ta_validator :: "'id validator"
  ta_shortfall :: u64

definition topup_plan_step ::
  "u64 \<Rightarrow> u64 \<Rightarrow> 'id topup_action list \<times> u64 \<Rightarrow> 'id validator
   \<Rightarrow> amount_error + 'id topup_action list \<times> u64" where
  "topup_plan_step minimum aim st v = (case st of (actions, owed) \<Rightarrow>
     if v_Balance v < minimum then
       (let shortfall = aim - v_Balance v in
        rbind (add_amounts owed shortfall) (\<lambda>owed.
          Inr (actions @ [\<lparr>ta_validator = v, ta_shortfall = shortfall\<rparr>], owed)))
     else Inr (actions @ [\<lparr>ta_validator = v, ta_shortfall = 0\<rparr>], owed))"

definition topup_plan ::
  "'id validator list \<Rightarrow> u64 \<Rightarrow> u64 \<Rightarrow> amount_error + 'id topup_action list \<times> u64" where
  "topup_plan vs minimum aim = each (topup_plan_step minimum aim) ([], 0) vs"

datatype 'id fee_event =
    AlreadyHad 'id
  | ToppedUp 'id u64
  | Disabled 'id

datatype 'id fee_error =
    DaysZero
  | Report fetch_error
  | Amount amount_error
  | Preflight inspect_error
  | Underfunded u64 u64
  | Connect string
  | Issue 'id string
  | NilWallet 'id
  | NotDeactivationOwner 'id
  | NotBalanceOwner 'id

text \<open>A wallet answers the \<open>k\<close>-th transaction; \<^verbatim>\<open>nil\<close> is no wallet, and issuing through it panics.\<close>

fun topup_execute ::
  "(nat \<Rightarrow> string + 'tx) option \<Rightarrow> nat \<Rightarrow> 'id topup_action list \<Rightarrow> 'id fee_event list \<times> ('id fee_error + unit)" where
  "topup_execute wallet k [] = ([], Inr ())"
| "topup_execute wallet k (a # rest) =
    (let vid = v_ValidationID (ta_validator a) in
     if ta_shortfall a = 0 then apfst (Cons (AlreadyHad vid)) (topup_execute wallet k rest)
     else case wallet of
         None \<Rightarrow> ([], Inl (NilWallet vid))
       | Some issue \<Rightarrow> (case issue k of
           Inl e \<Rightarrow> ([], Inl (Issue vid e))
         | Inr _ \<Rightarrow> apfst (Cons (ToppedUp vid (ta_shortfall a))) (topup_execute wallet (Suc k) rest)))"

definition topup_amounts ::
  "'id report \<Rightarrow> u64 \<Rightarrow> amount_error + 'id topup_action list \<times> u64" where
  "topup_amounts report days =
    rbind (target_balance days (FeePrice report)) (\<lambda>minimum.
    rbind (balance_for_seconds settlement_buffer (FeePrice report)) (\<lambda>buffer.
    rbind (add_amounts minimum buffer) (\<lambda>aim.
      topup_plan (Validators report) minimum aim)))"

text \<open>\<open>connect\<close> is \<^verbatim>\<open>primary.MakePWallet\<close>, \<open>lib\<close> the key library with the balance RPC.\<close>

definition topup ::
  "'id id_codec \<Rightarrow> 'key key_library \<Rightarrow> (string + (nat \<Rightarrow> string + 'tx)) \<Rightarrow> ('id, 'bls) pchain_client
   \<Rightarrow> environment \<Rightarrow> 'id deployment \<Rightarrow> u64 \<Rightarrow> 'id fee_event list \<times> ('id fee_error + unit)" where
  "topup codec lib connect c env d days =
    (if days = 0 then ([], Inl DaysZero)
     else case fetch codec c d True of
         Inl e \<Rightarrow> ([], Inl (Report e))
       | Inr report \<Rightarrow> (case topup_amounts report days of
           Inl e \<Rightarrow> ([], Inl (Amount e))
         | Inr (actions, owed) \<Rightarrow>
             if owed = 0 then topup_execute (None :: (nat \<Rightarrow> string + 'tx) option) 0 actions
             else (case inspect_funds lib env of
                 Inl e \<Rightarrow> ([], Inl (Preflight e))
               | Inr funds \<Rightarrow> (case add_amounts owed transaction_fees of
                   Inl e \<Rightarrow> ([], Inl (Amount e))
                 | Inr required \<Rightarrow>
                     if info_Balance funds < required
                     then ([], Inl (Underfunded (info_Balance funds) required))
                     else (case parse_private_key lib (FundingPrivateKey env) of
                         Inl e \<Rightarrow> ([], Inl (Preflight e))
                       | Inr key \<Rightarrow> (case connect of
                           Inl e \<Rightarrow> ([], Inl (Connect e))
                         | Inr wallet \<Rightarrow> topup_execute (Some wallet) 0 actions))))))"

section \<open>Destroying\<close>

definition reclaimable_main_before_management :: "'id validator list \<Rightarrow> 'id validator list" where
  "reclaimable_main_before_management vs =
     filter (\<lambda>v. v_L1 v \<noteq> management_l1 \<and> v_Balance v > 0) vs @
     filter (\<lambda>v. v_L1 v = management_l1 \<and> v_Balance v > 0) vs"

definition owned_by :: "owners option \<Rightarrow> string \<Rightarrow> bool" where
  "owned_by owner address = (case owner of
      None \<Rightarrow> False
    | Some w \<Rightarrow> ow_Locktime w = 0 \<and> ow_Threshold w = 1 \<and> length (ow_Addrs w) = 1 \<and>
        ow_Addrs w ! 0 = address)"

definition check_owner :: "string \<Rightarrow> 'id validator \<Rightarrow> 'id fee_error + unit" where
  "check_owner address v =
    (if \<not> owned_by (v_DeactivationOwner v) address then Inl (NotDeactivationOwner (v_ValidationID v))
     else if \<not> owned_by (v_RemainingBalanceOwner v) address then Inl (NotBalanceOwner (v_ValidationID v))
     else Inr ())"

fun destroy_execute ::
  "(nat \<Rightarrow> string + 'tx) \<Rightarrow> nat \<Rightarrow> 'id validator list \<Rightarrow> 'id fee_event list \<times> ('id fee_error + unit)" where
  "destroy_execute issue k [] = ([], Inr ())"
| "destroy_execute issue k (v # vs) = (case issue k of
     Inl e \<Rightarrow> ([], Inl (Issue (v_ValidationID v) e))
   | Inr _ \<Rightarrow> apfst (Cons (Disabled (v_ValidationID v))) (destroy_execute issue (Suc k) vs))"

definition destroy_run ::
  "'id id_codec \<Rightarrow> 'key key_library \<Rightarrow> (string + (nat \<Rightarrow> string + 'tx)) \<Rightarrow> ('id, 'bls) pchain_client
   \<Rightarrow> environment \<Rightarrow> 'id deployment \<Rightarrow> 'id fee_event list \<times> ('id fee_error + unit)" where
  "destroy_run codec lib connect c env d =
    (if MainSubnetID d = id_empty codec \<and> ManagementSubnetID d = id_empty codec then ([], Inr ())
     else case parse_private_key lib (FundingPrivateKey env) of
         Inl e \<Rightarrow> ([], Inl (Preflight e))
       | Inr key \<Rightarrow> (case derive_addresses lib (Network env) key of
           Inl e \<Rightarrow> ([], Inl (Preflight e))
         | Inr _ \<Rightarrow> (case fetch codec c d False of
             Inl e \<Rightarrow> ([], Inl (Report e))
           | Inr report \<Rightarrow>
               (let vs = reclaimable_main_before_management (Validators report) in
                if vs = [] then ([], Inr ())
                else case rmap (check_owner (short_id lib key)) vs of
                    Inl e \<Rightarrow> ([], Inl e)
                  | Inr _ \<Rightarrow> (case connect of
                      Inl e \<Rightarrow> ([], Inl (Connect e))
                    | Inr issue \<Rightarrow> destroy_execute issue 0 vs)))))"

section \<open>The checked arithmetic is exact\<close>

lemma unat_max_u64 [simp]: "unat (- 1 :: u64) = 18446744073709551615"
  by (simp add: unsigned_minus_1_eq_mask mask_eq_exp_minus_1)

lemma balance_for_seconds_Inr:
  "balance_for_seconds s p = Inr b \<longleftrightarrow>
   p \<noteq> 0 \<and> unat s * unat p < 2 ^ 64 \<and> unat b = unat s * unat p"
proof (cases "p = 0")
  case False
  then have pos: "0 < unat p" by (simp add: word_neq_0_conv unat_gt_0)
  have "s > (- 1) div p \<longleftrightarrow> \<not> unat s \<le> (2 ^ 64 - 1) div unat p"
    by (simp add: word_less_nat_alt unat_div not_le)
  also have "\<dots> \<longleftrightarrow> \<not> unat s * unat p < 2 ^ 64"
    using pos by (auto simp: less_eq_div_iff_mult_less_eq)
  finally have over: "s > (- 1) div p \<longleftrightarrow> \<not> unat s * unat p < 2 ^ 64" .
  show ?thesis
  proof (cases "unat s * unat p < 2 ^ 64")
    case True
    then have "unat (s * p) = unat s * unat p" by (rule unat_u64_mult_exact)
    then have "s * p = b \<longleftrightarrow> unat b = unat s * unat p" by (metis word_unat_eq_iff)
    with False over True show ?thesis by (simp add: balance_for_seconds_def)
  next
    case no: False
    with False over show ?thesis by (simp add: balance_for_seconds_def)
  qed
qed (simp add: balance_for_seconds_def)

lemma add_amounts_Inr:
  "add_amounts a b = Inr c \<longleftrightarrow> unat a + unat b < 2 ^ 64 \<and> unat c = unat a + unat b"
proof -
  have "unat ((- 1) - b) = 2 ^ 64 - 1 - unat b"
    by (subst unat_u64_sub_exact) (simp_all)
  then have "a > (- 1) - b \<longleftrightarrow> \<not> unat a + unat b < 2 ^ 64"
    using unat_u64_less [of b] by (auto simp: word_less_nat_alt)
  moreover have "unat a + unat b < 2 ^ 64 \<Longrightarrow> (a + b = c \<longleftrightarrow> unat c = unat a + unat b)"
    by (metis unat_u64_add_exact word_unat_eq_iff)
  ultimately show ?thesis by (simp add: add_amounts_def)
qed

lemma target_balance_Inr:
  "target_balance d p = Inr b \<longleftrightarrow>
   p \<noteq> 0 \<and> unat d * 86400 * unat p < 2 ^ 64 \<and> unat b = unat d * 86400 * unat p"
proof -
  have spd: "unat seconds_per_day = 86400" by (simp add: seconds_per_day_def)
  have over: "d > (- 1) div seconds_per_day \<longleftrightarrow> \<not> unat d * 86400 < 2 ^ 64"
    by (auto simp: word_less_nat_alt unat_div spd)
  show ?thesis
  proof (cases "unat d * 86400 < 2 ^ 64")
    case True
    then have "unat (d * seconds_per_day) = unat d * 86400"
      using unat_u64_mult_exact [of d seconds_per_day] by (simp add: spd)
    with True over show ?thesis by (auto simp: target_balance_def balance_for_seconds_Inr)
  next
    case False
    have "\<not> unat d * 86400 * unat p < 2 ^ 64" if "p \<noteq> 0"
    proof -
      have "1 \<le> unat p" using that by (simp add: Suc_le_eq unat_gt_0)
      then have "unat d * 86400 * 1 \<le> unat d * 86400 * unat p" by (rule mult_le_mono2)
      moreover from False have "2 ^ 64 \<le> unat d * 86400 * 1" by (simp only: not_less mult_1_right)
      ultimately show ?thesis by (simp only: not_less)
    qed
    with False over show ?thesis by (auto simp: target_balance_def)
  qed
qed

section \<open>Topping up reaches the target\<close>

text \<open>The plan in unbounded arithmetic: \<open>minimum\<close> and \<open>aim\<close> are natural numbers.\<close>

definition shortfall :: "nat \<Rightarrow> nat \<Rightarrow> 'id validator \<Rightarrow> nat" where
  "shortfall minimum aim v =
     (if unat (v_Balance v) < minimum then aim - unat (v_Balance v) else 0)"

definition topup_event :: "nat \<Rightarrow> nat \<Rightarrow> 'id validator \<Rightarrow> 'id fee_event" where
  "topup_event minimum aim v =
     (if unat (v_Balance v) < minimum
      then ToppedUp (v_ValidationID v) (of_nat (aim - unat (v_Balance v)))
      else AlreadyHad (v_ValidationID v))"

lemma topup_plan_step_simps:
  "v_Balance v < minimum \<Longrightarrow> topup_plan_step minimum aim (acts, owed) v =
     rbind (add_amounts owed (aim - v_Balance v)) (\<lambda>owed.
       Inr (acts @ [\<lparr>ta_validator = v, ta_shortfall = aim - v_Balance v\<rparr>], owed))"
  "\<not> v_Balance v < minimum \<Longrightarrow> topup_plan_step minimum aim (acts, owed) v =
     Inr (acts @ [\<lparr>ta_validator = v, ta_shortfall = 0\<rparr>], owed)"
  by (simp_all add: topup_plan_step_def Let_def)

lemma topup_plan_exact:
  assumes "minimum \<le> aim"
  shows "each (topup_plan_step minimum aim) (acts, owed) vs = Inr (acts', owed') \<Longrightarrow>
    map ta_validator acts' = map ta_validator acts @ vs \<and>
    map (unat \<circ> ta_shortfall) acts' =
      map (unat \<circ> ta_shortfall) acts @ map (shortfall (unat minimum) (unat aim)) vs \<and>
    unat owed' = unat owed + sum_list (map (shortfall (unat minimum) (unat aim)) vs)"
proof (induction vs arbitrary: acts owed)
  case (Cons v vs)
  show ?case
  proof (cases "v_Balance v < minimum")
    case True
    then have "v_Balance v \<le> aim" using assms by simp
    then have diff: "unat (aim - v_Balance v) = unat aim - unat (v_Balance v)"
      by (rule unat_u64_sub_exact)
    from True have less: "unat (v_Balance v) < unat minimum" by (simp add: word_less_nat_alt)
    from True Cons.prems obtain o' where o: "add_amounts owed (aim - v_Balance v) = Inr o'"
      "each (topup_plan_step minimum aim)
         (acts @ [\<lparr>ta_validator = v, ta_shortfall = aim - v_Balance v\<rparr>], o') vs = Inr (acts', owed')"
      by (auto simp: topup_plan_step_simps)
    from Cons.IH [OF o(2)] o(1) diff less show ?thesis
      by (simp add: add_amounts_Inr shortfall_def)
  next
    case False
    then have less: "\<not> unat (v_Balance v) < unat minimum" by (simp add: word_less_nat_alt)
    from False Cons.prems have "each (topup_plan_step minimum aim)
        (acts @ [\<lparr>ta_validator = v, ta_shortfall = 0\<rparr>], owed) vs = Inr (acts', owed')"
      by (simp add: topup_plan_step_simps)
    from Cons.IH [OF this] less show ?thesis by (simp add: shortfall_def)
  qed
qed simp

definition action_event :: "'id topup_action \<Rightarrow> 'id fee_event" where
  "action_event a = (if ta_shortfall a = 0 then AlreadyHad (v_ValidationID (ta_validator a))
     else ToppedUp (v_ValidationID (ta_validator a)) (ta_shortfall a))"

lemma topup_execute_events:
  assumes "wallet = None \<Longrightarrow> \<forall>a \<in> set actions. ta_shortfall a = 0"
  shows "topup_execute wallet k actions = (events, r) \<Longrightarrow>
    events = take (length events) (map action_event actions) \<and>
    (r = Inr () \<longrightarrow> events = map action_event actions) \<and>
    (\<forall>vid. r \<noteq> Inl (NilWallet vid))"
  using assms
proof (induction actions arbitrary: k events)
  case (Cons a actions)
  from Cons.prems(2) have none: "wallet = None \<Longrightarrow> ta_shortfall a = 0"
    "wallet = None \<Longrightarrow> \<forall>a \<in> set actions. ta_shortfall a = 0" by auto
  show ?case
  proof (cases "ta_shortfall a = 0")
    case True
    with Cons.prems(1) obtain rest where "events = AlreadyHad (v_ValidationID (ta_validator a)) # rest"
      "topup_execute wallet k actions = (rest, r)"
      by (auto simp: Let_def apfst_def map_prod_def split: prod.splits)
    with Cons.IH [OF this(2) none(2)] True show ?thesis by (simp add: action_event_def)
  next
    case False
    with none obtain issue where w: "wallet = Some issue" by auto
    show ?thesis
    proof (cases "issue k")
      case (Inl e)
      with False w Cons.prems(1) show ?thesis by (auto simp: Let_def)
    next
      case (Inr t)
      with False w Cons.prems(1) obtain rest where
        "events = ToppedUp (v_ValidationID (ta_validator a)) (ta_shortfall a) # rest"
        "topup_execute wallet (Suc k) actions = (rest, r)"
        by (auto simp: Let_def apfst_def map_prod_def split: prod.splits)
      with Cons.IH [OF this(2) none(2)] False show ?thesis by (simp add: action_event_def)
    qed
  qed
qed auto

lemma topup_amounts_exact:
  assumes "topup_amounts report days = Inr (actions, owed)"
  defines "m \<equiv> unat days * 86400 * unat (FeePrice report)"
    and "t \<equiv> (unat days * 86400 + 3600) * unat (FeePrice report)"
  shows "t < 2 ^ 64" "map ta_validator actions = Validators report"
    "map (unat \<circ> ta_shortfall) actions = map (shortfall m t) (Validators report)"
    "unat owed = sum_list (map (shortfall m t) (Validators report))"
proof -
  have buf: "unat settlement_buffer = 3600" by (simp add: settlement_buffer_def)
  from assms(1) obtain lo bu hi where lo: "target_balance days (FeePrice report) = Inr lo"
    and bu: "balance_for_seconds settlement_buffer (FeePrice report) = Inr bu"
    and hi: "add_amounts lo bu = Inr hi"
    and plan: "each (topup_plan_step lo hi) ([], 0) (Validators report) = Inr (actions, owed)"
    by (auto simp: topup_amounts_def topup_plan_def)
  have m: "unat lo = m" using lo by (simp add: target_balance_Inr m_def)
  have t: "unat hi = t" and small: "t < 2 ^ 64"
    using lo bu hi
    by (simp_all add: target_balance_Inr balance_for_seconds_Inr add_amounts_Inr t_def buf algebra_simps)
  have "lo \<le> hi" using hi by (simp add: word_le_nat_alt add_amounts_Inr)
  from topup_plan_exact [OF this plan] small m t
  show "t < 2 ^ 64" "map ta_validator actions = Validators report"
    "map (unat \<circ> ta_shortfall) actions = map (shortfall m t) (Validators report)"
    "unat owed = sum_list (map (shortfall m t) (Validators report))"
    by simp_all
qed

text \<open>The actions of the plan, as the events that carry them out.\<close>

lemma action_events:
  assumes "map ta_validator actions = vs" "map (unat \<circ> ta_shortfall) actions = map (shortfall m t) vs"
    and "m < t \<or> m = 0" "t < 2 ^ 64"
  shows "map action_event actions = map (topup_event m t) vs"
  using assms
proof (induction actions arbitrary: vs)
  case (Cons a actions)
  then obtain v rest where vs: "vs = v # rest" by (cases vs) auto
  with Cons.prems have v: "ta_validator a = v" and sf: "unat (ta_shortfall a) = shortfall m t v"
    and rest: "map action_event actions = map (topup_event m t) rest"
    using Cons.IH [of rest] by auto
  have "ta_shortfall a = of_nat (shortfall m t v)" by (simp add: sf [symmetric])
  moreover have "ta_shortfall a = 0 \<longleftrightarrow> \<not> unat (v_Balance v) < m"
    using sf Cons.prems(3) by (auto simp: shortfall_def unat_eq_zero [symmetric])
  ultimately have "action_event a = topup_event m t v"
    by (auto simp: action_event_def topup_event_def shortfall_def v)
  with rest vs show ?case by simp
qed simp

text \<open>A run either issues nothing and reports an error, or carries out a funded plan.\<close>

definition funded :: "'key key_library \<Rightarrow> environment \<Rightarrow> nat \<Rightarrow> bool" where
  "funded lib env owed \<longleftrightarrow> owed = 0 \<or> (case inspect_funds lib env of
     Inl _ \<Rightarrow> False | Inr funds \<Rightarrow> owed + 100000000 \<le> unat (info_Balance funds))"

definition carries_out ::
  "'id report \<Rightarrow> u64 \<Rightarrow> (nat \<Rightarrow> string + 'tx) option \<Rightarrow> 'id topup_action list \<Rightarrow> u64
   \<Rightarrow> 'id fee_event list \<times> ('id fee_error + unit) \<Rightarrow> bool" where
  "carries_out report days wallet actions owed result \<longleftrightarrow>
     days \<noteq> 0 \<and> topup_amounts report days = Inr (actions, owed) \<and>
     topup_execute wallet 0 actions = result \<and> (wallet = None \<longrightarrow> owed = 0)"

lemma topup_cases:
  fixes connect :: "string + (nat \<Rightarrow> string + 'tx)"
  assumes "topup codec lib connect c env d days = (events, r)"
  shows "(events = [] \<and> r \<noteq> Inr () \<and> (\<forall>vid. r \<noteq> Inl (NilWallet vid))) \<or>
    (\<exists>report (wallet :: (nat \<Rightarrow> string + 'tx) option) actions owed.
       fetch codec c d True = Inr report \<and> funded lib env (unat owed) \<and>
       carries_out report days wallet actions owed (events, r))"
proof (cases "days = 0")
  case True
  with assms show ?thesis by (auto simp: topup_def)
next
  case days: False
  have fee: "unat transaction_fees = 100000000" by (simp add: transaction_fees_def avax_def unat_div)
  show ?thesis
  proof (cases "fetch codec c d True")
    case (Inl e)
    with assms days show ?thesis by (auto simp: topup_def)
  next
    case report: (Inr report)
    show ?thesis
    proof (cases "topup_amounts report days")
      case (Inl e)
      with assms days report show ?thesis by (auto simp: topup_def)
    next
      case (Inr ao)
      obtain actions owed where ao: "ao = (actions, owed)" by (cases ao)
      note start = assms days report Inr ao
      show ?thesis
      proof (cases "owed = 0")
        case True
        with start have "topup_execute (None :: (nat \<Rightarrow> string + 'tx) option) 0 actions = (events, r)"
          by (simp add: topup_def)
        with start True have "carries_out report days (None :: (nat \<Rightarrow> string + 'tx) option) actions owed (events, r)"
          by (simp add: carries_out_def)
        moreover have "funded lib env (unat owed)" using True by (simp add: funded_def)
        ultimately show ?thesis using report by blast
      next
        case owed: False
        show ?thesis
        proof (cases "\<exists>funds required key wallet. inspect_funds lib env = Inr funds \<and>
            add_amounts owed transaction_fees = Inr required \<and> \<not> info_Balance funds < required \<and>
            parse_private_key lib (FundingPrivateKey env) = Inr key \<and> connect = Inr wallet")
          case True
          then obtain funds required key wallet where f: "inspect_funds lib env = Inr funds"
            "add_amounts owed transaction_fees = Inr required" "\<not> info_Balance funds < required"
            "parse_private_key lib (FundingPrivateKey env) = Inr key" "connect = Inr wallet" by blast
          with start owed have "carries_out report days (Some wallet) actions owed (events, r)"
            by (simp add: topup_def carries_out_def)
          moreover from f have "funded lib env (unat owed)"
            by (simp add: funded_def add_amounts_Inr fee word_less_nat_alt)
          ultimately show ?thesis using report by blast
        next
          case False
          with start owed show ?thesis
            by (auto simp: topup_def split: sum.splits if_splits)
        qed
      qed
    qed
  qed
qed

lemma carries_out_events:
  assumes "carries_out report days wallet actions owed (events, r)"
  defines "m \<equiv> unat days * 86400 * unat (FeePrice report)"
    and "t \<equiv> (unat days * 86400 + 3600) * unat (FeePrice report)"
  shows "t < 2 ^ 64" "events = take (length events) (map (topup_event m t) (Validators report))"
    "r = Inr () \<Longrightarrow> events = map (topup_event m t) (Validators report)"
    "\<forall>vid. r \<noteq> Inl (NilWallet vid)"
    "unat owed = sum_list (map (shortfall m t) (Validators report))"
proof -
  from assms(1) have am: "topup_amounts report days = Inr (actions, owed)"
    and ex: "topup_execute wallet 0 actions = (events, r)" and nil: "wallet = None \<longrightarrow> owed = 0"
    by (auto simp: carries_out_def)
  note facts = topup_amounts_exact [OF am, folded m_def t_def]
  have mt: "m < t \<or> m = 0" by (cases "FeePrice report = 0") (auto simp: m_def t_def unat_gt_0)
  note ev = action_events [OF facts(2,3) mt facts(1)]
  have "\<forall>a \<in> set actions. ta_shortfall a = 0" if "wallet = None"
  proof -
    from that nil facts(4) have "\<forall>x \<in> set (map (shortfall m t) (Validators report)). x = 0" by simp
    then have "\<forall>a \<in> set actions. unat (ta_shortfall a) = 0"
      by (simp only: facts(3) [symmetric]) simp
    then show ?thesis by (simp add: unat_eq_zero)
  qed
  from topup_execute_events [OF this ex] ev facts(1,4)
  show "t < 2 ^ 64" "events = take (length events) (map (topup_event m t) (Validators report))"
    "r = Inr () \<Longrightarrow> events = map (topup_event m t) (Validators report)"
    "\<forall>vid. r \<noteq> Inl (NilWallet vid)"
    "unat owed = sum_list (map (shortfall m t) (Validators report))"
    by simp_all
qed

text \<open>C27: a top-up that reports success has brought every validator to the number of days asked
  for. In unbounded arithmetic, with \<open>m\<close> the price of the days and \<open>t\<close> that of the days and the
  settlement hour: \<open>t\<close> fits 64 bits, the transactions issued are, for every reported validator
  with less than \<open>m\<close> and only for those, an increase by exactly the difference to \<open>t\<close>, in the
  order of the report, and their sum and the fee reserve were in the funding address. No addition,
  subtraction or multiplication of the plan wraps.\<close>

theorem topup_reaches_target:
  fixes connect :: "string + (nat \<Rightarrow> string + 'tx)"
  assumes "topup codec lib connect c env d days = (events, Inr ())"
  shows "\<exists>report m t. fetch codec c d True = Inr report \<and>
    m = unat days * 86400 * unat (FeePrice report) \<and>
    t = m + 3600 * unat (FeePrice report) \<and> t < 2 ^ 64 \<and>
    events = map (topup_event m t) (Validators report) \<and>
    funded lib env (sum_list (map (shortfall m t) (Validators report)))"
proof -
  from topup_cases [OF assms] obtain report wallet actions owed where
    r: "fetch codec c d True = Inr report" "funded lib env (unat owed)"
    and run: "carries_out report days (wallet :: (nat \<Rightarrow> string + 'tx) option) actions owed (events, Inr ())"
    by blast
  from carries_out_events [OF run] r show ?thesis
    by (intro exI [of _ report] exI) (auto simp: algebra_simps)
qed

text \<open>whatever happens, a top-up issues its transactions only in the order of a plan whose sum
  and fee reserve it has seen in the funding address, and never through the missing wallet of a
  run that had nothing to do; when the preflight fails, nothing has been issued.\<close>

theorem topup_spends_within_funds:
  fixes connect :: "string + (nat \<Rightarrow> string + 'tx)"
  shows "case topup codec lib connect c env d days of (events, r) \<Rightarrow>
     (\<forall>vid. r \<noteq> Inl (NilWallet vid)) \<and>
     (events = [] \<or> (\<exists>report m t. fetch codec c d True = Inr report \<and>
        m = unat days * 86400 * unat (FeePrice report) \<and>
        t = m + 3600 * unat (FeePrice report) \<and>
        events = take (length events) (map (topup_event m t) (Validators report)) \<and>
        funded lib env (sum_list (map (shortfall m t) (Validators report)))))"
proof -
  obtain events r where run: "topup codec lib connect c env d days = (events, r)" by fastforce
  from topup_cases [OF this] show ?thesis
  proof (elim disjE exE conjE)
    assume "events = []" "\<forall>vid. r \<noteq> Inl (NilWallet vid)"
    with run show ?thesis by simp
  next
    fix report wallet actions owed
    assume r: "fetch codec c d True = Inr report" "funded lib env (unat owed)"
      and c: "carries_out report days (wallet :: (nat \<Rightarrow> string + 'tx) option) actions owed (events, r)"
    from carries_out_events [OF c] r run show ?thesis
      by (auto simp: algebra_simps intro!: exI [of _ report])
  qed
qed

section \<open>Destroying takes everything back, management last\<close>

lemma fetch_validator_rows:
  "fetch_validator c l1 minimum rows m = Inr rows' \<Longrightarrow>
   \<exists>new. rows' = rows @ new \<and> list_all (\<lambda>v. v_Balance v \<noteq> 0 \<and> v_L1 v = l1) new"
  by (auto simp: fetch_validator_def split: prod.splits option.splits sum.splits if_splits)

lemma fetch_validators_rows:
  assumes "fetch_validators c l1 subnet minimum = Inr rows"
  shows "list_all (\<lambda>v. v_Balance v \<noteq> 0 \<and> v_L1 v = l1) rows"
proof -
  from assms obtain members where "each (fetch_validator c l1 minimum) [] members = Inr rows"
    by (auto simp: fetch_validators_def split: sum.splits)
  then show ?thesis
    by (rule each_invariant [where P = "\<lambda>_ rows. list_all (\<lambda>v. v_Balance v \<noteq> 0 \<and> v_L1 v = l1) rows"])
      (auto dest!: fetch_validator_rows)
qed

lemma fetch_positive:
  assumes "fetch codec c d active = Inr report"
  shows "\<forall>v \<in> set (Validators report). v_Balance v > 0"
proof -
  from assms obtain height rows where
    "rmap (\<lambda>(l1, subnet). fetch_validators c l1 subnet height) (recorded_l1s codec d) = Inr rows"
    "set (Validators report) = set (concat rows)"
    by (auto simp: fetch_def split: sum.splits if_splits)
  moreover have "\<forall>r \<in> set rows. \<forall>v \<in> set r. v_Balance v \<noteq> 0"
    if "list_all2 (\<lambda>(l1, subnet) r. fetch_validators c l1 subnet height = Inr r) ls rows" for ls
    using that
    by (induction rule: list_all2_induct) (auto dest!: fetch_validators_rows simp: list_all_iff)
  ultimately show ?thesis
    unfolding rmap_Inr_iff by (fastforce simp: word_neq_0_conv case_prod_unfold)
qed

lemma destroy_execute_events:
  "destroy_execute issue k vs = (events, r) \<Longrightarrow>
   events = take (length events) (map (Disabled \<circ> v_ValidationID) vs) \<and>
   (r = Inr () \<longrightarrow> events = map (Disabled \<circ> v_ValidationID) vs)"
proof (induction vs arbitrary: k events)
  case (Cons v vs)
  show ?case
  proof (cases "issue k")
    case (Inr t)
    with Cons.prems obtain rest where "events = Disabled (v_ValidationID v) # rest"
      "destroy_execute issue (Suc k) vs = (rest, r)"
      by (auto simp: apfst_def map_prod_def split: prod.splits)
    with Cons.IH [OF this(2)] show ?thesis by simp
  qed (use Cons.prems in auto)
qed auto

lemma check_owners_ok:
  "rmap (check_owner address) vs = Inr us \<Longrightarrow>
   filter (\<lambda>v. \<not> owned_by (v_DeactivationOwner v) address \<or>
     \<not> owned_by (v_RemainingBalanceOwner v) address) vs = []"
  by (induction vs arbitrary: us) (auto simp: check_owner_def split: if_splits)

definition destroys ::
  "'id report \<Rightarrow> string \<Rightarrow> (nat \<Rightarrow> string + 'tx) \<Rightarrow> 'id fee_event list \<times> ('id fee_error + unit) \<Rightarrow> bool" where
  "destroys report address issue result \<longleftrightarrow>
     (let vs = reclaimable_main_before_management (Validators report) in
      (vs = [] \<and> result = ([], Inr ())) \<or>
      (\<exists>us. rmap (check_owner address) vs = Inr us \<and> destroy_execute issue 0 vs = result))"

lemma destroy_cases:
  fixes connect :: "string + (nat \<Rightarrow> string + 'tx)"
  assumes "destroy_run codec lib connect c env d = (events, r)"
  shows "(events = [] \<and> r \<noteq> Inr ()) \<or>
    (events = [] \<and> MainSubnetID d = id_empty codec \<and> ManagementSubnetID d = id_empty codec) \<or>
    (\<exists>key report (issue :: nat \<Rightarrow> string + 'tx). parse_private_key lib (FundingPrivateKey env) = Inr key \<and>
       fetch codec c d False = Inr report \<and> destroys report (short_id lib key) issue (events, r))"
proof (cases "MainSubnetID d = id_empty codec \<and> ManagementSubnetID d = id_empty codec")
  case True
  with assms show ?thesis by (simp add: destroy_run_def)
next
  case some: False
  show ?thesis
  proof (cases "\<exists>key a report. parse_private_key lib (FundingPrivateKey env) = Inr key \<and>
      derive_addresses lib (Network env) key = Inr a \<and> fetch codec c d False = Inr report")
    case False
    with some assms show ?thesis by (auto simp: destroy_run_def split: sum.splits if_splits)
  next
    case True
    then obtain key a report where f: "parse_private_key lib (FundingPrivateKey env) = Inr key"
      "derive_addresses lib (Network env) key = Inr a" "fetch codec c d False = Inr report" by blast
    define vs where "vs = reclaimable_main_before_management (Validators report)"
    have run: "destroy_run codec lib connect c env d = (if vs = [] then ([], Inr ())
      else case rmap (check_owner (short_id lib key)) vs of Inl e \<Rightarrow> ([], Inl e)
        | Inr _ \<Rightarrow> (case connect of Inl e \<Rightarrow> ([], Inl (Connect e)) | Inr issue \<Rightarrow> destroy_execute issue 0 vs))"
      unfolding destroy_run_def if_not_P [OF some] f sum.case vs_def Let_def by (rule refl)
    note run = run [unfolded assms]
    show ?thesis
    proof (cases "vs = []")
      case True
      with run have "destroys report (short_id lib key) (\<lambda>_. Inl [] :: string + 'tx) (events, r)"
        by (simp add: destroys_def vs_def [symmetric])
      with f show ?thesis by blast
    next
      case ne: False
      show ?thesis
      proof (cases "\<exists>us issue. rmap (check_owner (short_id lib key)) vs = Inr us \<and> connect = Inr issue")
        case True
        then obtain us issue where ok: "rmap (check_owner (short_id lib key)) vs = Inr us" "connect = Inr issue"
          by blast
        with run ne have "destroys report (short_id lib key) issue (events, r)"
          by (simp add: destroys_def vs_def [symmetric])
        with f show ?thesis by blast
      next
        case False
        with run ne show ?thesis by (auto split: sum.splits)
      qed
    qed
  qed
qed

text \<open>C28: \<^verbatim>\<open>l1 destroy\<close> disables nothing unless the funding key is the sole owner, for deactivation
  and for the remaining balance, of every active validator of the report; it disables in the
  order that puts every management validator after all others, so that a run that stops midway
  has left the management chain for last; and a run that reports success, where the subnet of the
  main chain or that of the management chain is recorded, has disabled every active validator.\<close>

theorem destroy_reclaims_management_last:
  fixes connect :: "string + (nat \<Rightarrow> string + 'tx)"
  assumes "destroy_run codec lib connect c env d = (events, r)"
    and "events \<noteq> [] \<or> r = Inr () \<and> (MainSubnetID d \<noteq> id_empty codec \<or> ManagementSubnetID d \<noteq> id_empty codec)"
  shows "\<exists>key report vs. parse_private_key lib (FundingPrivateKey env) = Inr key \<and>
    fetch codec c d False = Inr report \<and>
    vs = filter (\<lambda>v. v_L1 v \<noteq> management_l1) (Validators report) @
         filter (\<lambda>v. v_L1 v = management_l1) (Validators report) \<and>
    filter (\<lambda>v. \<not> owned_by (v_DeactivationOwner v) (short_id lib key) \<or>
      \<not> owned_by (v_RemainingBalanceOwner v) (short_id lib key)) vs = [] \<and>
    events = take (length events) (map (Disabled \<circ> v_ValidationID) vs) \<and>
    (r = Inr ()) = (events = map (Disabled \<circ> v_ValidationID) vs \<and> r = Inr ())"
proof -
  from destroy_cases [OF assms(1)] assms(2) obtain key report and issue :: "nat \<Rightarrow> string + 'tx" where
    f: "parse_private_key lib (FundingPrivateKey env) = Inr key" "fetch codec c d False = Inr report"
    and ds: "destroys report (short_id lib key) issue (events, r)" by blast
  let ?vs = "filter (\<lambda>v. v_L1 v \<noteq> management_l1) (Validators report) @
         filter (\<lambda>v. v_L1 v = management_l1) (Validators report)"
  have "reclaimable_main_before_management (Validators report) = ?vs"
  proof -
    have "filter (\<lambda>v. P v \<and> v_Balance v > 0) (Validators report) = filter P (Validators report)" for P
      by (rule filter_cong) (use fetch_positive [OF f(2)] in auto)
    then show ?thesis by (simp add: reclaimable_main_before_management_def)
  qed
  with ds consider "?vs = []" "events = []" "r = Inr ()" | us where
      "rmap (check_owner (short_id lib key)) ?vs = Inr us" "destroy_execute issue 0 ?vs = (events, r)"
    unfolding destroys_def Let_def by auto
  then show ?thesis
  proof cases
    case 1
    then show ?thesis using f by (intro exI [of _ key] exI [of _ report] exI [of _ ?vs]) simp
  next
    case 2
    from destroy_execute_events [OF 2(2)] check_owners_ok [OF 2(1)] f show ?thesis
      by (intro exI [of _ key] exI [of _ report] exI [of _ ?vs]) (simp only: simp_thms, blast)
  qed
qed

section \<open>A deployment with three validators\<close>

text \<open>Price 2; the second main validator is short of a day, and the API answers its first read
  one block behind.\<close>

definition sample_codec :: "nat id_codec" where
  "sample_codec = \<lparr>id_empty = 0, id_text = itoa_nat, id_of_text = parse_nat\<rparr>"

definition sample_owner :: "owners option" where
  "sample_owner = Some \<lparr>ow_Locktime = 0, ow_Threshold = 1, ow_Addrs = [''addr'']\<rparr>"

definition sample_l1_validator :: "string \<Rightarrow> u64 \<Rightarrow> unit l1_validator" where
  "sample_l1_validator node balance = \<lparr>lv_NodeID = node, lv_Weight = 100000, lv_Balance = balance,
     lv_MinNonce = 0, lv_PublicKey = Some (), lv_StartTime = 7,
     lv_RemainingBalanceOwner = sample_owner, lv_DeactivationOwner = sample_owner\<rparr>"

definition sample_answer :: "nat \<Rightarrow> nat \<Rightarrow> unit state_answer" where
  "sample_answer vid attempt =
     (if vid = 101 then \<lparr>an_Validator = sample_l1_validator ''NodeID-B'' 500000, an_Height = 12, an_Err = None\<rparr>
      else if vid = 102 then \<lparr>an_Validator = sample_l1_validator ''NodeID-A'' 300000, an_Height = 12, an_Err = None\<rparr>
      else \<lparr>an_Validator = sample_l1_validator ''NodeID-C'' 100000,
             an_Height = (if attempt = 0 then 11 else 12), an_Err = None\<rparr>)"

definition sample_client :: "(nat, unit) pchain_client" where
  "sample_client = \<lparr>pc_Height = Inr 12, pc_FeePrice = Inr 2,
     pc_Members = (\<lambda>subnet. if subnet = 1 then Inr [(''NodeID-B'', Some 101)]
       else Inr [(''NodeID-C'', Some 103), (''NodeID-A'', Some 102)]),
     pc_State = sample_answer, pc_Cancelled = (\<lambda>_ _. False)\<rparr>"

definition fee_deployment :: "nat deployment" where
  "fee_deployment = \<lparr>ManagementSubnetID = 1, ManagementChainID = 2, ManagementConvertTxID = 3,
     OracleSubnetID = 0, OracleChainID = 0, MainSubnetID = 4, MainChainID = 5,
     extra_chains = Map.empty, ManagerAddress = ''0xa''\<rparr>"

definition sample_library :: "nat key_library" where
  "sample_library = \<lparr>load_key = (\<lambda>bs. Some 7), format_p = (\<lambda>_ _. Some ''P-addr''),
     evm_text = (\<lambda>_. ''0xb''), short_id = (\<lambda>_. ''addr''), unlocked_balance = (\<lambda>_. Some 5000000000)\<rparr>"

definition fee_environment :: environment where
  "fee_environment = \<lparr>Network = ''fuji'', PChainAPI = ''http://node'', FundingPrivateKey = ''ab'',
     SSHUser = ''u'', SSHKeyPath = ''k''\<rparr>"

lemmas sample_fee_defs = sample_codec_def sample_owner_def sample_l1_validator_def sample_answer_def
  sample_client_def fee_deployment_def sample_library_def fee_environment_def

lemma sample_read:
  "report_l1_validator_at sample_client vid 12 = Inr (an_Validator (sample_answer vid 1))"
proof -
  have "first_fresh state_read_attempts (sample_answer vid) 12 =
      Some (if vid = 101 \<or> vid = 102 then 0 else 1)"
    unfolding first_fresh_def find_upt state_read_attempts_def
    by (auto simp: sample_answer_def fresh_def)
  then show ?thesis
    by (auto simp: read_at_Inr sample_client_def sample_answer_def)
qed

lemma sample_client_simps: "pc_Height sample_client = Inr 12" "pc_FeePrice sample_client = Inr 2"
  "pc_Members sample_client subnet = (if subnet = 1 then Inr [(''NodeID-B'', Some 101)]
     else Inr [(''NodeID-C'', Some 103), (''NodeID-A'', Some 102)])"
  by (simp_all add: sample_client_def)

definition sample_row :: "string \<Rightarrow> string \<Rightarrow> nat \<Rightarrow> u64 \<Rightarrow> nat validator" where
  "sample_row l1 node vid balance = \<lparr>v_L1 = l1, v_NodeID = node, v_ValidationID = vid,
     v_Weight = 100000, v_Balance = balance, v_RemainingBalanceOwner = sample_owner,
     v_DeactivationOwner = sample_owner\<rparr>"

definition sample_report :: "nat report" where
  "sample_report = \<lparr>ManagementChainID_of = 2, OracleChainID_of = 0, MainChainID_of = 5,
     ExtraChainIDs = [], FeePrice = 2,
     Validators = [sample_row management_l1 ''NodeID-B'' 101 500000,
       sample_row main_chain ''NodeID-A'' 102 300000, sample_row main_chain ''NodeID-C'' 103 100000]\<rparr>"

lemma sample_fetch: "fetch sample_codec sample_client fee_deployment active = Inr sample_report"
proof -
  have "fetch_validators sample_client management_l1 1 12 =
      Inr [sample_row management_l1 ''NodeID-B'' 101 500000]"
    by (simp add: fetch_validators_def fetch_validator_def sample_read sample_client_simps
        sample_answer_def sample_l1_validator_def sample_row_def)
  moreover have "fetch_validators sample_client main_chain 4 12 =
      Inr [sample_row main_chain ''NodeID-C'' 103 100000, sample_row main_chain ''NodeID-A'' 102 300000]"
    by (simp add: fetch_validators_def fetch_validator_def sample_read sample_client_simps
        sample_answer_def sample_l1_validator_def sample_row_def)
  moreover have "recorded_l1s sample_codec fee_deployment = [(management_l1, 1), (main_chain, 4)]"
    by (simp add: recorded_l1s_def extra_names_def fee_deployment_def sample_codec_def)
  moreover have "go_sort row_less [sample_row management_l1 ''NodeID-B'' 101 500000,
      sample_row main_chain ''NodeID-C'' 103 100000, sample_row main_chain ''NodeID-A'' 102 300000] =
      Validators sample_report"
    using main_not_management
    by (simp add: sample_report_def go_sort_def row_less_def sample_row_def less_char_def)
  ultimately show ?thesis
    by (simp add: fetch_def sample_client_simps) (simp add: sample_report_def fee_deployment_def extra_names_def)
qed

text \<open>A day costs 172800 and the hour 7200: the second main validator is brought to 180000.\<close>

lemma sample_keys:
  "inspect_funds sample_library fee_environment = Inr \<lparr>info_Addresses =
      \<lparr>addr_PChain = ''P-addr'', addr_EVM = ''0xb''\<rparr>, info_Balance = 5000000000\<rparr>"
  "parse_private_key sample_library (FundingPrivateKey fee_environment) = Inr 7"
  "derive_addresses sample_library (Network fee_environment) 7 =
       Inr \<lparr>addr_PChain = ''P-addr'', addr_EVM = ''0xb''\<rparr>"
  by (simp_all add: inspect_funds_def parse_private_key_def derive_addresses_def sample_library_def
        fee_environment_def hex_digit_def is_digit_def less_eq_char_def)

lemma sample_topup:
  "topup sample_codec sample_library (Inr Inr :: string + (nat \<Rightarrow> string + nat)) sample_client
     fee_environment fee_deployment 1 = ([AlreadyHad 101, AlreadyHad 102, ToppedUp 103 80000], Inr ())"
proof -
  have "topup_amounts sample_report 1 = Inr (map2 (\<lambda>v s. \<lparr>ta_validator = v, ta_shortfall = s\<rparr>)
      (Validators sample_report) [0, 0, 80000], 80000)"
    by (simp add: topup_amounts_def topup_plan_def target_balance_def balance_for_seconds_def
        add_amounts_def seconds_per_day_def settlement_buffer_def topup_plan_step_def sample_report_def
        sample_row_def)
  then show ?thesis
    by (simp add: topup_def add_amounts_def transaction_fees_def avax_def sample_fetch sample_keys)
      (simp add: sample_report_def sample_row_def)
qed

theorem topup_reaches_target_witness:
  "[AlreadyHad 101, AlreadyHad 102, ToppedUp 103 80000] =
     map (topup_event 172800 180000) (Validators sample_report) \<and>
   funded sample_library fee_environment 80000"
  using topup_reaches_target [OF sample_topup]
  by (simp add: sample_fetch) (simp add: sample_report_def sample_row_def shortfall_def)

lemma sample_destroy:
  "destroy_run sample_codec sample_library (Inr Inr :: string + (nat \<Rightarrow> string + nat)) sample_client
     fee_environment fee_deployment = ([Disabled 102, Disabled 103, Disabled 101], Inr ())"
proof -
  have "MainSubnetID fee_deployment \<noteq> id_empty sample_codec" "short_id sample_library 7 = ''addr''"
    by (simp_all add: fee_deployment_def sample_codec_def sample_library_def)
  then show ?thesis using main_not_management
    by (simp add: destroy_run_def sample_fetch sample_keys)
      (simp add: reclaimable_main_before_management_def check_owner_def owned_by_def
        sample_owner_def sample_report_def sample_row_def)
qed

theorem destroy_reclaims_management_last_witness:
  "\<exists>vs. [Disabled 102, Disabled 103, Disabled 101] = map (Disabled \<circ> v_ValidationID) vs \<and>
     vs = filter (\<lambda>v. v_L1 v \<noteq> management_l1) (Validators sample_report) @
          filter (\<lambda>v. v_L1 v = management_l1) (Validators sample_report)"
proof -
  have "[Disabled (102 :: nat), Disabled 103, Disabled 101] \<noteq> [] \<or> Inr () = (Inr () :: nat fee_error + unit) \<and>
      (MainSubnetID fee_deployment \<noteq> id_empty sample_codec \<or> ManagementSubnetID fee_deployment \<noteq> id_empty sample_codec)" by simp
  from destroy_reclaims_management_last [OF sample_destroy this] show ?thesis
    unfolding sample_fetch sum.inject simp_thms by (elim exE conjE) (rule exI conjI | assumption | simp only:)+
qed

end
