(* ===== verification/Conversion_Search.thy ===== *)
theory Conversion_Search
  imports Network_State
begin

text \<open>
  Locating the P-chain block that converted an L1: \<^verbatim>\<open>findConversionHeight\<close> of
  \<^verbatim>\<open>internal/setweight/setweight.go\<close>, of which \<^verbatim>\<open>internal/oraclerelay/epoch.go\<close> holds a second copy.
  Heights are 64-bit words and the loops are written on them, with the word arithmetic of the
  code; times are seconds of the Unix epoch, and the zero time of Go, which stands for a block
  without a timestamp, is the first second of year 1. The block reader is a parameter.
\<close>

section \<open>Reading blocks\<close>

definition zero_time :: int where
  "zero_time = - 62135596800"

text \<open>What the platform's codec makes of a block: its timestamp where it is a Banff block, and its
  transactions. A block of an older kind reads as the zero time without transactions.\<close>

record 'tx parsed_block =
  pb_Timestamp :: "int option"
  pb_Txs :: "'tx list"

type_synonym 'tx block_reader = "u64 \<Rightarrow> string + int \<times> 'tx list"

definition read_block ::
  "(u64 \<Rightarrow> string + 'raw) \<Rightarrow> ('raw \<Rightarrow> string + 'tx parsed_block) \<Rightarrow> 'tx block_reader" where
  "read_block get parse height = (case get height of
      Inl e \<Rightarrow> Inl e
    | Inr raw \<Rightarrow> (case parse raw of
        Inl e \<Rightarrow> Inl e
      | Inr b \<Rightarrow> (case pb_Timestamp b of
          None \<Rightarrow> Inr (zero_time, [])
        | Some t \<Rightarrow> Inr (t, pb_Txs b))))"

section \<open>The search\<close>

datatype search_error = BlockUnreadable u64 string | ConversionNotFound

lemma midpoint:
  assumes "(low :: u64) < high"
  shows "unat (low + (high - low) div 2) = unat low + (unat high - unat low) div 2"
    "low + (high - low) div 2 < high" "low \<le> low + (high - low) div 2"
    "unat (low + (high - low) div 2 + 1) = unat (low + (high - low) div 2) + 1"
proof -
  have less: "unat low < unat high" using assms by (simp add: word_less_nat_alt)
  have "unat ((high - low) div 2) = (unat high - unat low) div 2"
    using assms by (simp add: unat_div unat_u64_sub_exact)
  moreover have "unat low + (unat high - unat low) div 2 < 2 ^ 64"
    using less unat_u64_less [of high] by linarith
  ultimately show mid: "unat (low + (high - low) div 2) = unat low + (unat high - unat low) div 2"
    by (subst unat_u64_add_exact) simp_all
  show lt: "low + (high - low) div 2 < high"
    unfolding word_less_nat_alt mid using less by linarith
  show "low \<le> low + (high - low) div 2"
    unfolding word_le_nat_alt mid by simp
  have "unat (low + (high - low) div 2) + 1 < 2 ^ 64"
    using lt unat_u64_less [of high] unfolding word_less_nat_alt by linarith
  then show "unat (low + (high - low) div 2 + 1) = unat (low + (high - low) div 2) + 1"
    by (subst unat_u64_add_exact) simp_all
qed

function search_height ::
  "'tx block_reader \<Rightarrow> int \<Rightarrow> u64 \<Rightarrow> u64 \<Rightarrow> search_error + u64" where
  "search_height blocks converted low high =
    (if low < high then
       (let mid = low + (high - low) div 2 in
        case blocks mid of
          Inl e \<Rightarrow> Inl (BlockUnreadable mid e)
        | Inr (timestamp, _) \<Rightarrow>
            if timestamp = zero_time \<or> timestamp < converted
            then search_height blocks converted (mid + 1) high
            else search_height blocks converted low mid)
     else Inr low)"
  by pat_completeness auto

termination
proof (relation "measure (\<lambda>(_, _, low, high). unat high - unat low)")
  fix blocks :: "'tx block_reader" and converted :: int and low high mid :: u64
  assume less: "low < high" and mid: "mid = low + (high - low) div 2"
  have lh: "unat low < unat high" using less by (simp add: word_less_nat_alt)
  show "((blocks, converted, mid + 1, high), (blocks, converted, low, high))
      \<in> measure (\<lambda>(_, _, low, high). unat high - unat low)"
    using midpoint [OF less] lh unfolding mid by simp
  show "((blocks, converted, low, mid), (blocks, converted, low, high))
      \<in> measure (\<lambda>(_, _, low, high). unat high - unat low)"
    using midpoint [OF less] lh unfolding mid by simp
qed simp

declare search_height.simps [simp del]

lemma circle_distance:
  assumes "(height :: u64) \<noteq> tip"
  shows "unat (tip - (height + 1)) < unat (tip - height)"
proof -
  have "tip - height \<noteq> 0" using assms by simp
  moreover have "tip - (height + 1) = (tip - height) - 1" by simp
  ultimately show ?thesis by (metis measure_unat)
qed

text \<open>The blocks of the conversion second, from \<open>height\<close> up to the tip. The height would wrap
  around past the largest word; the measure is the distance to the tip on the circle.\<close>

function scan_height ::
  "'tx block_reader \<Rightarrow> int \<Rightarrow> 'tx \<Rightarrow> u64 \<Rightarrow> u64 \<Rightarrow> search_error + u64" where
  "scan_height blocks converted tx tip height = (case blocks height of
      Inl e \<Rightarrow> Inl (BlockUnreadable height e)
    | Inr (timestamp, txs) \<Rightarrow>
        if timestamp \<noteq> converted then Inl ConversionNotFound
        else if tx \<in> set txs then Inr height
        else if height = tip then Inl ConversionNotFound
        else scan_height blocks converted tx tip (height + 1))"
  by pat_completeness auto

termination
  by (relation "measure (\<lambda>(_, _, _, tip, height). unat (tip - height))") (auto intro: circle_distance)

declare scan_height.simps [simp del]

definition find_conversion_height ::
  "'tx block_reader \<Rightarrow> u64 \<Rightarrow> int \<Rightarrow> 'tx \<Rightarrow> search_error + u64" where
  "find_conversion_height blocks tip converted tx =
     rbind (search_height blocks converted 0 tip) (scan_height blocks converted tx tip)"

section \<open>The validators' shared start time\<close>

text \<open>\<^verbatim>\<open>time.Unix(int64(startTime), 0)\<close> reads the 64 bits as a signed number.\<close>

datatype start_error = NoValidators | NoStartTime | DifferentStartTimes u64 u64

definition check_start_time :: "u64 \<Rightarrow> unit \<Rightarrow> u64 \<Rightarrow> start_error + unit" where
  "check_start_time start u other =
     (if other \<noteq> start then Inl (DifferentStartTimes start other) else Inr ())"

definition conversion_time :: "u64 list \<Rightarrow> start_error + int" where
  "conversion_time starts = (case starts of
      [] \<Rightarrow> Inl NoValidators
    | start # others \<Rightarrow>
        if start = 0 then Inl NoStartTime
        else rbind (each (check_start_time start) () others) (\<lambda>_. Inr (sint start)))"

section \<open>The search finds the conversion\<close>

text \<open>
  What the P-chain promises: every block up to the tip can be read and its timestamps never
  decrease (the old blocks without a timestamp come first).
\<close>

definition chain_readable :: "'tx block_reader \<Rightarrow> u64 \<Rightarrow> bool" where
  "chain_readable blocks tip \<longleftrightarrow> (\<forall>h \<le> tip. \<not> isl (blocks h)) \<and>
     (\<forall>h \<le> tip. \<forall>g \<le> h. fst (projr (blocks g)) \<le> fst (projr (blocks h))) \<and>
     (\<forall>h \<le> tip. zero_time \<le> fst (projr (blocks h)))"

definition converts :: "'tx block_reader \<Rightarrow> int \<Rightarrow> 'tx \<Rightarrow> u64 \<Rightarrow> bool" where
  "converts blocks converted tx h \<longleftrightarrow>
     fst (projr (blocks h)) = converted \<and> tx \<in> set (snd (projr (blocks h)))"

lemma chain_block:
  assumes "chain_readable blocks tip" "h \<le> tip"
  obtains t txs where "blocks h = Inr (t, txs)" "fst (projr (blocks h)) = t"
  using assms unfolding chain_readable_def by (cases "blocks h") auto

text \<open>The bisection returns the first height stamped at the conversion second or later, or the tip.\<close>

lemma search_height_first:
  assumes "chain_readable blocks tip" "zero_time < converted"
  shows "high \<le> tip \<Longrightarrow> low \<le> high \<Longrightarrow>
    \<forall>h < low. fst (projr (blocks h)) < converted \<Longrightarrow>
    high = tip \<or> converted \<le> fst (projr (blocks high)) \<Longrightarrow>
    \<exists>r. search_height blocks converted low high = Inr r \<and> r \<le> tip \<and>
      (\<forall>h < r. fst (projr (blocks h)) < converted) \<and>
      (r = tip \<or> converted \<le> fst (projr (blocks r)))"
proof (induction "unat high - unat low" arbitrary: low high rule: less_induct)
  case less
  show ?case
  proof (cases "low < high")
    case False
    with less.prems have "low = high" by simp
    with False less.prems show ?thesis by (subst search_height.simps) auto
  next
    case True
    define mid where "mid = low + (high - low) div 2"
    note mp = midpoint [OF True, folded mid_def]
    have lh: "unat low < unat high" using True by (simp add: word_less_nat_alt)
    have mt: "mid \<le> tip" using mp(2) less.prems(1) by simp
    from chain_block [OF assms(1) mt] obtain t txs where
      b: "blocks mid = Inr (t, txs)" "fst (projr (blocks mid)) = t" by blast
    have mono: "fst (projr (blocks g)) \<le> t" if "g \<le> mid" for g
      using assms(1) mt that b(2) unfolding chain_readable_def by blast
    have step: "search_height blocks converted low high =
        (if t < converted then search_height blocks converted (mid + 1) high
         else search_height blocks converted low mid)"
      using True b(1) assms(2) by (subst search_height.simps) (auto simp: mid_def Let_def)
    show ?thesis
    proof (cases "t < converted")
      case True
      have "unat high - unat (mid + 1) < unat high - unat low"
        using mp(1,4) lh by linarith
      moreover have "mid + 1 \<le> high" using mp(2,4) by (simp add: word_le_nat_alt word_less_nat_alt)
      moreover have "\<forall>h < mid + 1. fst (projr (blocks h)) < converted"
      proof (intro allI impI)
        fix h assume "h < mid + 1"
        then have "h \<le> mid" using mp(4) by (simp add: word_le_nat_alt word_less_nat_alt)
        with mono True show "fst (projr (blocks h)) < converted" by (meson le_less_trans)
      qed
      ultimately show ?thesis using less.hyps less.prems(1,4) True step by simp
    next
      case False
      have "unat mid - unat low < unat high - unat low"
        using mp(2) lh by (simp add: word_less_nat_alt)
      with less.hyps [OF this mt mp(3) less.prems(3)] False b(2) step show ?thesis by simp
    qed
  qed
qed

text \<open>The scan from a height below which nothing is stamped at the conversion second.\<close>

lemma scan_height_Inr:
  assumes "chain_readable blocks tip"
  shows "height \<le> tip \<Longrightarrow>
    scan_height blocks converted tx tip height = Inr h \<longleftrightarrow>
    height \<le> h \<and> h \<le> tip \<and> converts blocks converted tx h \<and>
    (\<forall>g. height \<le> g \<longrightarrow> g < h \<longrightarrow>
       fst (projr (blocks g)) = converted \<and> \<not> converts blocks converted tx g)"
proof (induction "unat tip - unat height" arbitrary: height rule: less_induct)
  case less
  from chain_block [OF assms less.prems] obtain t txs where
    b: "blocks height = Inr (t, txs)" "fst (projr (blocks height)) = t" by blast
  show ?case
  proof (cases "t = converted \<and> tx \<notin> set txs \<and> height \<noteq> tip")
    case False
    have here: "converts blocks converted tx height \<longleftrightarrow> t = converted \<and> tx \<in> set txs"
      using b by (simp add: converts_def)
    have step: "scan_height blocks converted tx tip height =
        (if t = converted \<and> tx \<in> set txs then Inr height else Inl ConversionNotFound)"
      using b False by (subst scan_height.simps) auto
    let ?R = "height \<le> h \<and> h \<le> tip \<and> converts blocks converted tx h \<and>
      (\<forall>g. height \<le> g \<longrightarrow> g < h \<longrightarrow>
         fst (projr (blocks g)) = converted \<and> \<not> converts blocks converted tx g)"
    have only: "h = height \<and> t = converted \<and> tx \<in> set txs" if ?R
    proof (cases "h = height")
      case True
      with that here show ?thesis by blast
    next
      case ne: False
      with that have "height < h" by (simp add: order_less_le)
      with that have "fst (projr (blocks height)) = converted" "\<not> converts blocks converted tx height"
        by blast+
      with here b(2) False have "height = tip" by simp
      with that ne show ?thesis using order_antisym by blast
    qed
    have "?R" if "h = height" "t = converted" "tx \<in> set txs"
      using that here less.prems by (metis leD order_refl)
    with only show ?thesis unfolding step by (metis (full_types) Inl_Inr_False sum.inject(2))
  next
    case True
    then have lt: "height < tip" using less.prems by (simp add: order_less_le)
    have s: "unat (height + 1) = unat height + 1"
      using lt unat_u64_less [of tip] by (subst unat_u64_add_exact) (auto simp: word_less_nat_alt)
    have le: "height + 1 \<le> tip" using lt s by (simp add: word_le_nat_alt word_less_nat_alt)
    have "unat tip - unat (height + 1) < unat tip - unat height"
      using lt s by (simp add: word_less_nat_alt)
    from less.hyps [OF this le] have IH: "scan_height blocks converted tx tip (height + 1) = Inr h \<longleftrightarrow>
      height + 1 \<le> h \<and> h \<le> tip \<and> converts blocks converted tx h \<and>
      (\<forall>g. height + 1 \<le> g \<longrightarrow> g < h \<longrightarrow>
         fst (projr (blocks g)) = converted \<and> \<not> converts blocks converted tx g)" .
    have ge: "height + 1 \<le> g \<longleftrightarrow> height \<le> g \<and> g \<noteq> height" for g
      using s by (auto simp: word_le_nat_alt word_unat_eq_iff)
    have no: "\<not> converts blocks converted tx height" using True b by (simp add: converts_def)
    have step: "scan_height blocks converted tx tip height = scan_height blocks converted tx tip (height + 1)"
      using True b by (subst scan_height.simps) simp
    have "fst (projr (blocks height)) = converted" using True b(2) by simp
    with no show ?thesis unfolding step IH ge by blast
  qed
qed

text \<open>C18: on a P-chain whose blocks can be read and whose timestamps never decrease, the search
  returns a height exactly when a block up to the tip is stamped at the conversion second and
  contains the conversion transaction, and then it is the first such block, whatever the number
  of blocks that share the second. It reads the chain by bisection in 64-bit arithmetic that
  never wraps, and always ends.\<close>

theorem conversion_is_found:
  assumes "chain_readable blocks tip" "zero_time < converted"
  shows "(find_conversion_height blocks tip converted tx = Inr h) =
    (h \<le> tip \<and> converts blocks converted tx h \<and> (\<forall>g < h. \<not> converts blocks converted tx g))"
proof -
  obtain r where r: "search_height blocks converted 0 tip = Inr r" "r \<le> tip"
    "\<forall>g < r. fst (projr (blocks g)) < converted" "r = tip \<or> converted \<le> fst (projr (blocks r))"
    using search_height_first [OF assms, of tip 0] by auto
  have before: "\<not> converts blocks converted tx g" if "g < r" for g
    using r(3) that unfolding converts_def by (metis less_irrefl)
  have mono: "fst (projr (blocks g)) \<le> fst (projr (blocks k))" if "g \<le> k" "k \<le> tip" for g k
    using assms(1) that unfolding chain_readable_def by blast
  have "(\<forall>g. r \<le> g \<longrightarrow> g < h \<longrightarrow>
           fst (projr (blocks g)) = converted \<and> \<not> converts blocks converted tx g) \<longleftrightarrow>
        (\<forall>g < h. \<not> converts blocks converted tx g)"
    if h: "r \<le> h" "h \<le> tip" "converts blocks converted tx h"
  proof -
    have "fst (projr (blocks g)) = converted" if "r \<le> g" "g < h" for g
    proof -
      have "r \<noteq> tip" using that h(2) by auto
      then have "converted \<le> fst (projr (blocks r))" using r(4) by blast
      also have "\<dots> \<le> fst (projr (blocks g))" using mono that h(2) by simp
      finally have "converted \<le> fst (projr (blocks g))" .
      moreover have "fst (projr (blocks g)) \<le> converted"
        using mono [of g h] that h(2,3) by (simp add: converts_def)
      ultimately show ?thesis by simp
    qed
    with before show ?thesis by (meson not_le)
  qed
  moreover have "r \<le> h" if "converts blocks converted tx h"
    using before that not_le by blast
  ultimately show ?thesis
    unfolding find_conversion_height_def r(1) rbind_simps scan_height_Inr [OF assms(1) r(2)] by blast
qed

text \<open>Four blocks, two of them in the conversion second.\<close>

definition sample_blocks :: "nat block_reader" where
  "sample_blocks h = (if h = 0 then Inr (zero_time, []) else if h = 1 then Inr (50, [4])
     else if h = 2 then Inr (70, [5]) else Inr (70, [6, 7]))"

lemma sample_readable: "chain_readable sample_blocks 3"
proof -
  have t: "fst (projr (sample_blocks h)) =
      (if unat h = 0 then zero_time else if unat h = 1 then 50 else 70)" for h
  proof -
    have "h = 0 \<longleftrightarrow> unat h = 0" "h = 1 \<longleftrightarrow> unat h = 1"
      by (metis unat_0 word_unat_eq_iff, metis unat_1 word_unat_eq_iff)
    then show ?thesis by (simp add: sample_blocks_def)
  qed
  show ?thesis
    unfolding chain_readable_def t word_le_nat_alt
    by (auto simp: sample_blocks_def zero_time_def)
qed

theorem conversion_is_found_witness:
  "find_conversion_height sample_blocks 3 70 7 = Inr 3"
proof -
  have "\<not> converts sample_blocks 70 7 g" if "g < 3" for g
  proof -
    have "unat g < 3" using that by (simp add: word_less_nat_alt)
    then have "g = 0 \<or> g = 1 \<or> g = 2" by (auto simp: word_unat_eq_iff)
    then show ?thesis by (auto simp: converts_def sample_blocks_def)
  qed
  moreover have "converts sample_blocks 70 7 3" by (simp add: converts_def sample_blocks_def)
  ultimately show ?thesis
    using conversion_is_found [OF sample_readable, of 70 7 3] by (simp add: zero_time_def)
qed

end
