(* ===== verification/Set_Weight.thy ===== *)
theory Set_Weight
  imports Manifest Fees Conversion_Search
begin

text \<open>
  The set-weight command, \<^verbatim>\<open>internal/setweight/setweight.go\<close>: it finds the identity's validator
  at a consistent height, waits until Warp verifiers see the management L1, signs the weight
  message with the local management keys, submits it and reads the result back. RPC clients, the
  wallet, BLS and the Warp message codec are the fields of \<open>sw_world\<close>; what happened outside is
  a trace of events. Times are nanoseconds of the Unix epoch, conversion times seconds.
\<close>

section \<open>Data\<close>

record ('id, 'key) registered_validator =
  rv_NodeID :: string
  rv_ValidationID :: 'id
  rv_Weight :: u64
  rv_Balance :: u64
  rv_MinNonce :: u64
  rv_PublicKey :: "'key option"
  rv_StartTime :: u64

record warp_set =
  ws_Validators :: "(string \<times> u64) list"
  ws_TotalWeight :: u64

record epoch =
  ep_PChainHeight :: u64
  ep_Number :: u64
  ep_StartTime :: int

record ('id, 'key, 'raw, 'signer, 'sig, 'nid, 'pop) sw_world =
  sw_platform :: "('nid, 'pop) platform"
  sw_client :: "('id, 'key) pchain_client"
  sw_get_block :: "u64 \<Rightarrow> string + 'raw"
  sw_parse_block :: "'raw \<Rightarrow> string + 'id parsed_block"
  sw_epoch :: "nat \<Rightarrow> string + epoch"
  sw_now :: int
  sw_sleep :: "int \<Rightarrow> string option"
  sw_nudge :: "nat \<Rightarrow> string + 'id"
  sw_wallet :: "string + (string \<Rightarrow> string + 'id)"
  sw_network_id :: "string \<Rightarrow> 32 word option"
  sw_epoch_duration :: "32 word \<Rightarrow> int"
  sw_manager_dir :: "(string \<times> bool) list option"
  sw_signer_file :: "string \<Rightarrow> string option"
  sw_load_signer :: "string \<Rightarrow> 'signer option"
  sw_signer_key :: "'signer \<Rightarrow> string"
  sw_sign :: "'signer \<Rightarrow> string \<Rightarrow> string + 'sig"
  sw_aggregate :: "'sig list \<Rightarrow> string + 'sig"
  sw_flatten :: "(string \<rightharpoonup> 'key option \<times> u64) \<Rightarrow> string + warp_set"
  sw_new_weight :: "'id \<Rightarrow> u64 \<Rightarrow> u64 \<Rightarrow> string + string"
  sw_new_call :: "string \<Rightarrow> string \<Rightarrow> string + string"
  sw_new_unsigned :: "32 word \<Rightarrow> 'id \<Rightarrow> string \<Rightarrow> string + string"
  sw_quorum :: "string \<Rightarrow> 32 word \<Rightarrow> warp_set \<Rightarrow> nat list \<Rightarrow> 'sig \<Rightarrow> nat \<Rightarrow> nat \<Rightarrow> string option"
  sw_new_message :: "string \<Rightarrow> nat list \<Rightarrow> 'sig \<Rightarrow> string + string"
  sw_reads :: "nat \<Rightarrow> 'key state_answer"
  sw_expired :: "nat \<Rightarrow> bool"
  sw_stopped :: "nat \<Rightarrow> bool"

datatype setweight_error =
    BadWeight u64
  | PublicManifest manifest_error
  | BadIdentityName index_error
  | IdentityAbsent string
  | IdentityNotValidator string
  | BadTargetNodeID string
  | NoRecordedChain string
  | HeightUnread string
  | MembersUnread string
  | NoValidationID string
  | ValidatorUnread read_error
  | TargetNotActive string
  | TargetInactive string
  | UnknownNetwork string
  | ManagerDirUnreadable
  | UnexpectedManagerFile string
  | BadManagerName index_error
  | SignerUnreadable string
  | SignerRejected string
  | NoManagerIdentities
  | ManagerCount nat nat
  | Conversion start_error
  | ConversionSearch search_error
  | EpochUnreadable string
  | SleepFailed string
  | NudgeFailed string
  | NotVisible u64 u64
  | FlattenFailed string
  | MessageFailed string
  | SignFailed string
  | NoLocalSigner
  | QuorumNotMet string
  | WalletFailed string
  | SubmitFailed string
  | VerifyUnreadable string
  | VerifyMismatch u64
  | VerifyStopped

section \<open>Finding the validator\<close>

definition dead_weight :: u64 where "dead_weight = 1"
definition spare_weight :: u64 where "spare_weight = 1000"
definition active_weight :: u64 where "active_weight = 100000"

definition validate_weight :: "u64 \<Rightarrow> setweight_error + unit" where
  "validate_weight w = (if w = dead_weight \<or> w = spare_weight \<or> w = active_weight then Inr ()
     else Inl (BadWeight w))"

definition validate_identity ::
  "'pop public_node list \<Rightarrow> string \<Rightarrow> setweight_error + 'pop public_node" where
  "validate_identity nodes name = (case identity_index name of
      Inl e \<Rightarrow> Inl (BadIdentityName e)
    | Inr index \<Rightarrow>
        if index \<ge> length nodes then Inl (IdentityAbsent name)
        else if pn_Role (nodes ! index) \<noteq> RoleValidator then Inl (IdentityNotValidator name)
        else Inr (nodes ! index))"

definition register_validator ::
  "('id, 'key) pchain_client \<Rightarrow> u64 \<Rightarrow> string \<times> 'id option \<Rightarrow> setweight_error + ('id, 'key) registered_validator" where
  "register_validator c minimum m = (case snd m of
      None \<Rightarrow> Inl (NoValidationID (fst m))
    | Some vid \<Rightarrow> (case setweight_l1_validator_at c vid minimum of
        Inl e \<Rightarrow> Inl (ValidatorUnread e)
      | Inr s \<Rightarrow> Inr \<lparr>rv_NodeID = lv_NodeID s, rv_ValidationID = vid, rv_Weight = lv_Weight s,
          rv_Balance = lv_Balance s, rv_MinNonce = lv_MinNonce s, rv_PublicKey = lv_PublicKey s,
          rv_StartTime = lv_StartTime s\<rparr>))"

definition fetch_validators_at ::
  "('id, 'key) pchain_client \<Rightarrow> 'id \<Rightarrow> u64 \<Rightarrow> setweight_error + ('id, 'key) registered_validator list" where
  "fetch_validators_at c subnetID minimum = (case pc_Members c subnetID of
      Inl e \<Rightarrow> Inl (MembersUnread e)
    | Inr members \<Rightarrow> rmap (register_validator c minimum) members)"

definition find_target ::
  "('id, 'key) registered_validator list \<Rightarrow> string \<Rightarrow> setweight_error + ('id, 'key) registered_validator" where
  "find_target vs nodeID = (case find (\<lambda>v. rv_NodeID v = nodeID) vs of
      None \<Rightarrow> Inl (TargetNotActive nodeID)
    | Some v \<Rightarrow> Inr v)"

text \<open>The subnet of the identity's chain: the main field, else the record of the chain by name.\<close>

definition target_subnet :: "'id deployment \<Rightarrow> string \<Rightarrow> setweight_error + 'id" where
  "target_subnet d chain = (if chain \<noteq> main_chain then
      (case extra_chains d chain of None \<Rightarrow> Inl (NoRecordedChain chain) | Some r \<Rightarrow> Inr (fst r))
    else Inr (MainSubnetID d))"

text \<open>The first part of \<^verbatim>\<open>Run\<close>: the height everything is read at, and the identity's validator.\<close>

definition select_target ::
  "('id, 'key, 'raw, 'signer, 'sig, 'nid, 'pop) sw_world \<Rightarrow> 'id deployment \<Rightarrow> manifest_error + 'pop public
   \<Rightarrow> string \<Rightarrow> u64 \<Rightarrow> setweight_error + u64 \<times> ('id, 'key) registered_validator" where
  "select_target w d public name weight =
    rbind (validate_weight weight) (\<lambda>_.
    case public of Inl e \<Rightarrow> Inl (PublicManifest e) | Inr p \<Rightarrow>
    rbind (validate_identity (Nodes p) name) (\<lambda>node.
    case id_parse (sw_platform w) (pn_NodeID node) of None \<Rightarrow> Inl (BadTargetNodeID (pn_NodeID node))
    | Some nid \<Rightarrow>
    rbind (target_subnet d (chain_name node)) (\<lambda>subnet.
    case pc_Height (sw_client w) of Inl e \<Rightarrow> Inl (HeightUnread e) | Inr height \<Rightarrow>
    rbind (fetch_validators_at (sw_client w) subnet height) (\<lambda>vs.
    rbind (find_target vs (id_string (sw_platform w) nid)) (\<lambda>target.
      if rv_Balance target = 0 then Inl (TargetInactive name) else Inr (height, target))))))"

section \<open>The management L1 must be visible to Warp\<close>

definition load_manager_signer ::
  "('id, 'key, 'raw, 'signer, 'sig, 'nid, 'pop) sw_world \<Rightarrow> string \<times> bool \<Rightarrow> setweight_error + 'signer" where
  "load_manager_signer w entry = (case entry of (name, is_dir) \<Rightarrow>
     if \<not> is_dir then Inl (UnexpectedManagerFile name)
     else case identity_index name of
         Inl e \<Rightarrow> Inl (BadManagerName e)
       | Inr _ \<Rightarrow> (case sw_signer_file w name of
           None \<Rightarrow> Inl (SignerUnreadable name)
         | Some contents \<Rightarrow> (case sw_load_signer w contents of
             None \<Rightarrow> Inl (SignerRejected name)
           | Some s \<Rightarrow> Inr s)))"

definition load_manager_signers ::
  "('id, 'key, 'raw, 'signer, 'sig, 'nid, 'pop) sw_world \<Rightarrow> setweight_error + 'signer list" where
  "load_manager_signers w = (case sw_manager_dir w of
      None \<Rightarrow> Inl ManagerDirUnreadable
    | Some dir \<Rightarrow> rbind (rmap (load_manager_signer w) dir) (\<lambda>signers.
        if signers = [] then Inl NoManagerIdentities else Inr signers))"

text \<open>\<^verbatim>\<open>managerConversionTime\<close>, \<open>conversion_time\<close> of the start times.\<close>

definition manager_conversion_time ::
  "('id, 'key) registered_validator list \<Rightarrow> start_error + int" where
  "manager_conversion_time vs = conversion_time (map rv_StartTime vs)"

datatype 'id sw_event = Slept int | Nudged 'id | Submitted string

definition second :: int where
  "second = 1000000000"

definition max_duration :: int where
  "max_duration = 2 ^ 63 - 1"

fun nudge_rounds ::
  "('id, 'key, 'raw, 'signer, 'sig, 'nid, 'pop) sw_world \<Rightarrow> u64 \<Rightarrow> epoch \<Rightarrow> nat \<Rightarrow> nat
   \<Rightarrow> 'id sw_event list \<times> (setweight_error + unit)" where
  "nudge_rounds w height ep k 0 = ([], Inl (NotVisible height (ep_PChainHeight ep)))"
| "nudge_rounds w height ep k (Suc left) = (case sw_nudge w k of
      Inl e \<Rightarrow> ([], Inl (NudgeFailed e))
    | Inr tx \<Rightarrow> (case sw_epoch w (Suc k) of
        Inl e \<Rightarrow> ([Nudged tx], Inl (EpochUnreadable e))
      | Inr ep' \<Rightarrow>
          if height \<le> ep_PChainHeight ep' then ([Nudged tx], Inr ())
          else apfst (Cons (Nudged tx)) (nudge_rounds w height ep' (Suc k) left)))"

text \<open>\<^verbatim>\<open>Time.Sub\<close> saturates at the largest duration.\<close>

definition gate_management_conversion ::
  "('id, 'key, 'raw, 'signer, 'sig, 'nid, 'pop) sw_world \<Rightarrow> u64 \<Rightarrow> int
   \<Rightarrow> 'id sw_event list \<times> (setweight_error + unit)" where
  "gate_management_conversion w height duration = (case sw_epoch w 0 of
      Inl e \<Rightarrow> ([], Inl (EpochUnreadable e))
    | Inr ep \<Rightarrow>
        if height \<le> ep_PChainHeight ep then ([], Inr ())
        else (let seal = ep_StartTime ep * second + duration in
          if sw_now w < seal then
            (let remaining = min (seal - sw_now w) max_duration in
             case sw_sleep w remaining of
               Some e \<Rightarrow> ([Slept remaining], Inl (SleepFailed e))
             | None \<Rightarrow> apfst (Cons (Slept remaining)) (nudge_rounds w height ep 0 2))
          else nudge_rounds w height ep 0 2))"

section \<open>Signing\<close>

definition canonical_warp_set ::
  "('id, 'key, 'raw, 'signer, 'sig, 'nid, 'pop) sw_world \<Rightarrow> ('id, 'key) registered_validator list
   \<Rightarrow> string + warp_set" where
  "canonical_warp_set w vs = sw_flatten w (index_by rv_NodeID (\<lambda>v.
     (if rv_Weight v = 0 \<or> rv_Balance v = 0 then None else rv_PublicKey v, rv_Weight v)) vs)"

text \<open>The loop over the canonical set: index and signature of every validator with a local key.\<close>

definition sign_step ::
  "('id, 'key, 'raw, 'signer, 'sig, 'nid, 'pop) sw_world \<Rightarrow> (string \<rightharpoonup> 'signer) \<Rightarrow> string
   \<Rightarrow> (nat \<times> 'sig) list \<Rightarrow> nat \<times> string \<times> u64 \<Rightarrow> setweight_error + (nat \<times> 'sig) list" where
  "sign_step w by_key msg acc iv = (case by_key (fst (snd iv)) of
      None \<Rightarrow> Inr acc
    | Some s \<Rightarrow> (case sw_sign w s msg of
        Inl e \<Rightarrow> Inl (SignFailed e)
      | Inr sig \<Rightarrow> Inr (acc @ [(fst iv, sig)])))"

definition quorum_numerator :: nat where "quorum_numerator = 67"
definition quorum_denominator :: nat where "quorum_denominator = 100"

definition sign_and_aggregate ::
  "('id, 'key, 'raw, 'signer, 'sig, 'nid, 'pop) sw_world \<Rightarrow> 32 word \<Rightarrow> string \<Rightarrow> warp_set
   \<Rightarrow> 'signer list \<Rightarrow> setweight_error + string" where
  "sign_and_aggregate w network body ws signers =
    rbind (each (sign_step w (index_by (sw_signer_key w) id signers) body) []
             (enumerate 0 (ws_Validators ws))) (\<lambda>sigs.
      if sigs = [] then Inl NoLocalSigner
      else (case sw_aggregate w (map snd sigs) of
          Inl e \<Rightarrow> Inl (SignFailed e)
        | Inr agg \<Rightarrow> (case sw_quorum w body network ws (map fst sigs) agg
                          quorum_numerator quorum_denominator of
            Some e \<Rightarrow> Inl (QuorumNotMet e)
          | None \<Rightarrow> (case sw_new_message w body (map fst sigs) agg of
              Inl e \<Rightarrow> Inl (MessageFailed e)
            | Inr m \<Rightarrow> Inr m))))"

definition weight_message ::
  "('id, 'key, 'raw, 'signer, 'sig, 'nid, 'pop) sw_world \<Rightarrow> 'id deployment \<Rightarrow> 32 word
   \<Rightarrow> ('id, 'key) registered_validator \<Rightarrow> u64 \<Rightarrow> string + string" where
  "weight_message w d network target weight =
    rbind (sw_new_weight w (rv_ValidationID target) (rv_MinNonce target) weight) (\<lambda>payload.
    rbind (sw_new_call w (ManagerAddress d) payload) (\<lambda>call.
      sw_new_unsigned w network (ManagementChainID d) call))"

section \<open>Submitting and verifying\<close>

text \<open>
  The verification loop reads until the weight is there, the deadline has passed or the context
  is cancelled; nothing bounds the number of reads but the clock, so the loop is a partial
  function whose value \<open>None\<close> is not returning.
\<close>

partial_function (option) verify_weight ::
  "(nat \<Rightarrow> 'key state_answer) \<Rightarrow> (nat \<Rightarrow> bool) \<Rightarrow> (nat \<Rightarrow> bool) \<Rightarrow> u64 \<Rightarrow> nat
   \<Rightarrow> (setweight_error + unit) option" where
  "verify_weight reads expired stopped weight k =
    (if an_Err (reads k) = None \<and> lv_Weight (an_Validator (reads k)) = weight then Some (Inr ())
     else if expired k then Some (Inl (case an_Err (reads k) of
         Some e \<Rightarrow> VerifyUnreadable e
       | None \<Rightarrow> VerifyMismatch (lv_Weight (an_Validator (reads k)))))
     else if stopped k then Some (Inl VerifyStopped)
     else verify_weight reads expired stopped weight (Suc k))"

definition submit_and_verify ::
  "('id, 'key, 'raw, 'signer, 'sig, 'nid, 'pop) sw_world \<Rightarrow> (string \<Rightarrow> string + 'id) \<Rightarrow> string \<Rightarrow> u64
   \<Rightarrow> ('id sw_event list \<times> (setweight_error + unit)) option" where
  "submit_and_verify w issue msg weight = (case issue msg of
      Inl e \<Rightarrow> Some ([], Inl (SubmitFailed e))
    | Inr _ \<Rightarrow> map_option (Pair [Submitted msg])
        (verify_weight (sw_reads w) (sw_expired w) (sw_stopped w) weight 0))"

section \<open>The command\<close>

text \<open>The second part of \<^verbatim>\<open>Run\<close>, up to the conversion height.\<close>

definition prepare_conversion ::
  "('id, 'key, 'raw, 'signer, 'sig, 'nid, 'pop) sw_world \<Rightarrow> environment \<Rightarrow> 'id deployment \<Rightarrow> u64
   \<Rightarrow> setweight_error + 32 word \<times> ('id, 'key) registered_validator list \<times> 'signer list \<times> u64" where
  "prepare_conversion w env d height =
    (case sw_network_id w (Network env) of None \<Rightarrow> Inl (UnknownNetwork (Network env))
    | Some network \<Rightarrow>
      rbind (fetch_validators_at (sw_client w) (ManagementSubnetID d) height) (\<lambda>managers.
      rbind (load_manager_signers w) (\<lambda>signers.
      if length managers \<noteq> length signers then Inl (ManagerCount (length managers) (length signers))
      else case manager_conversion_time managers of Inl e \<Rightarrow> Inl (Conversion e)
        | Inr converted \<Rightarrow>
          (case find_conversion_height (read_block (sw_get_block w) (sw_parse_block w)) height
                  converted (ManagementConvertTxID d) of
             Inl e \<Rightarrow> Inl (ConversionSearch e)
           | Inr conversion \<Rightarrow> Inr (network, managers, signers, conversion)))))"

definition build_signed ::
  "('id, 'key, 'raw, 'signer, 'sig, 'nid, 'pop) sw_world \<Rightarrow> 'id deployment \<Rightarrow> 32 word
   \<Rightarrow> ('id, 'key) registered_validator list \<Rightarrow> 'signer list \<Rightarrow> ('id, 'key) registered_validator \<Rightarrow> u64
   \<Rightarrow> setweight_error + string" where
  "build_signed w d network managers signers target weight =
    (case canonical_warp_set w managers of Inl e \<Rightarrow> Inl (FlattenFailed e)
     | Inr ws \<Rightarrow> (case weight_message w d network target weight of Inl e \<Rightarrow> Inl (MessageFailed e)
       | Inr body \<Rightarrow> sign_and_aggregate w network body ws signers))"

definition set_weight ::
  "('id, 'key, 'raw, 'signer, 'sig, 'nid, 'pop) sw_world \<Rightarrow> environment \<Rightarrow> 'id deployment
   \<Rightarrow> manifest_error + 'pop public \<Rightarrow> string \<Rightarrow> u64
   \<Rightarrow> ('id sw_event list \<times> (setweight_error + unit)) option" where
  "set_weight w env d public name weight = (case select_target w d public name weight of
      Inl e \<Rightarrow> Some ([], Inl e)
    | Inr (height, target) \<Rightarrow>
        if rv_Weight target = weight then Some ([], Inr ())
        else (case prepare_conversion w env d height of
            Inl e \<Rightarrow> Some ([], Inl e)
          | Inr (network, managers, signers, conversion) \<Rightarrow>
              (case gate_management_conversion w conversion (sw_epoch_duration w network) of
                 (gate, Inl e) \<Rightarrow> Some (gate, Inl e)
               | (gate, Inr _) \<Rightarrow> (case build_signed w d network managers signers target weight of
                   Inl e \<Rightarrow> Some (gate, Inl e)
                 | Inr msg \<Rightarrow> (case sw_wallet w of
                     Inl e \<Rightarrow> Some (gate, Inl (WalletFailed e))
                   | Inr issue \<Rightarrow> map_option (apfst (append gate))
                       (submit_and_verify w issue msg weight))))))"

section \<open>The gate\<close>

definition visible :: "('id, 'key, 'raw, 'signer, 'sig, 'nid, 'pop) sw_world \<Rightarrow> u64 \<Rightarrow> nat \<Rightarrow> bool" where
  "visible w height k \<longleftrightarrow> (case sw_epoch w k of Inl _ \<Rightarrow> False | Inr ep \<Rightarrow> height \<le> ep_PChainHeight ep)"

lemma nudge_rounds_bound:
  "nudge_rounds w height ep k left = (events, r) \<Longrightarrow>
   (\<forall>e \<in> set events. \<exists>tx. e = Nudged tx) \<and> length events \<le> left \<and>
   (r = Inr () \<longrightarrow> visible w height (k + length events) \<and>
      (\<forall>j. k < j \<and> j < k + length events \<longrightarrow> \<not> visible w height j))"
proof (induction left arbitrary: ep k events)
  case (Suc left)
  show ?case
  proof (cases "sw_nudge w k")
    case (Inl e)
    with Suc.prems show ?thesis by auto
  next
    case tx: (Inr tx)
    show ?thesis
    proof (cases "sw_epoch w (Suc k)")
      case (Inl e)
      with Suc.prems tx show ?thesis by auto
    next
      case (Inr ep')
      show ?thesis
      proof (cases "height \<le> ep_PChainHeight ep'")
        case True
        with Suc.prems tx Inr show ?thesis by (auto simp: visible_def)
      next
        case False
        with Suc.prems tx Inr obtain more where more: "events = Nudged tx # more"
          "nudge_rounds w height ep' (Suc k) left = (more, r)"
          by (auto simp: apfst_def map_prod_def split: prod.splits)
        have no: "\<not> visible w height (Suc k)" using False Inr by (simp add: visible_def)
        have j: "j = Suc k \<or> Suc k < j" if "k < j" for j using that by auto
        from Suc.IH [OF more(2)] more(1) no j show ?thesis
          by (auto simp: less_Suc_eq_le)
      qed
    qed
  qed
qed auto

lemma gate_ok:
  assumes "gate_management_conversion w height duration = (events, r)"
  shows "(\<forall>e \<in> set events. \<forall>m. e \<noteq> Submitted m)"
    "r = Inr () \<Longrightarrow> \<exists>k \<le> 2. visible w height k \<and> length (filter (\<lambda>e. \<forall>d. e \<noteq> Slept d) events) = k"
proof -
  have rounds: "(\<forall>e \<in> set more. \<forall>m. e \<noteq> Submitted m) \<and>
      (r' = Inr () \<longrightarrow> (\<exists>k \<le> 2. visible w height k \<and>
         length (filter (\<lambda>e. \<forall>d. e \<noteq> Slept d) more) = k))"
    if "nudge_rounds w height ep 0 2 = (more, r')" for ep more r'
  proof -
    from nudge_rounds_bound [OF that] have b: "\<forall>e \<in> set more. \<exists>tx. e = Nudged tx" "length more \<le> 2"
      "r' = Inr () \<longrightarrow> visible w height (length more)" by auto
    then have "filter (\<lambda>e. \<forall>d. e \<noteq> Slept d) more = more"
      by (intro filter_True) auto
    with b show ?thesis by auto
  qed
  show "(\<forall>e \<in> set events. \<forall>m. e \<noteq> Submitted m)"
    "r = Inr () \<Longrightarrow> \<exists>k \<le> 2. visible w height k \<and> length (filter (\<lambda>e. \<forall>d. e \<noteq> Slept d) events) = k"
    using assms rounds
    by (force simp: gate_management_conversion_def Let_def visible_def apfst_def map_prod_def
        simp del: nudge_rounds.simps split: sum.splits if_splits option.splits prod.splits)+
qed

section \<open>Verification\<close>

lemma verify_weight_Some:
  fixes reads :: "nat \<Rightarrow> 'a state_answer"
  assumes "verify_weight reads expired stopped weight k = Some r"
  shows "r = Inr () \<longrightarrow>
    (\<exists>i \<ge> k. an_Err (reads i) = None \<and> lv_Weight (an_Validator (reads i)) = weight)"
proof (rule verify_weight.raw_induct [where P = "\<lambda>reads expired stopped weight k r. r = Inr () \<longrightarrow>
    (\<exists>i \<ge> k. an_Err (reads i) = None \<and> lv_Weight (an_Validator (reads i)) = weight)", OF _ assms])
  fix f :: "(nat \<Rightarrow> 'a state_answer) \<Rightarrow> (nat \<Rightarrow> bool) \<Rightarrow> (nat \<Rightarrow> bool) \<Rightarrow> u64 \<Rightarrow> nat
      \<Rightarrow> (setweight_error + unit) option"
    and reads :: "nat \<Rightarrow> 'a state_answer" and expired stopped weight k r
  assume IH: "\<And>reads expired stopped weight k r. f reads expired stopped weight k = Some r \<Longrightarrow>
      r = Inr () \<longrightarrow>
      (\<exists>i \<ge> k. an_Err (reads i) = None \<and> lv_Weight (an_Validator (reads i)) = weight)"
    and step: "(if an_Err (reads k) = None \<and> lv_Weight (an_Validator (reads k)) = weight then Some (Inr ())
     else if expired k then Some (Inl (case an_Err (reads k) of
         Some e \<Rightarrow> VerifyUnreadable e
       | None \<Rightarrow> VerifyMismatch (lv_Weight (an_Validator (reads k)))))
     else if stopped k then Some (Inl VerifyStopped)
     else f reads expired stopped weight (Suc k)) = Some r"
  show "r = Inr () \<longrightarrow>
      (\<exists>i \<ge> k. an_Err (reads i) = None \<and> lv_Weight (an_Validator (reads i)) = weight)"
  proof (cases "an_Err (reads k) = None \<and> lv_Weight (an_Validator (reads k)) = weight")
    case True
    then show ?thesis by blast
  next
    case False
    show ?thesis
    proof (cases "expired k \<or> stopped k")
      case True
      with False step have "r \<noteq> Inr ()" by (auto split: if_splits)
      then show ?thesis by blast
    next
      case no: False
      with False step have "f reads expired stopped weight (Suc k) = Some r" by (simp split: if_splits)
      from IH [OF this] show ?thesis using Suc_leD by blast
    qed
  qed
qed

lemma verify_weight_returns:
  "expired n \<Longrightarrow> k \<le> n \<Longrightarrow> \<exists>r. verify_weight reads expired stopped weight k = Some r"
proof (induction "n - k" arbitrary: k)
  case 0
  then have "k = n" by simp
  with 0 show ?case by (subst verify_weight.simps) auto
next
  case (Suc m)
  then have "\<exists>r. verify_weight reads expired stopped weight (Suc k) = Some r" by auto
  then show ?case by (subst verify_weight.simps) auto
qed

section \<open>What the command guarantees\<close>

lemma find_target_Inr: "find_target vs n = Inr t \<Longrightarrow> t \<in> set vs \<and> rv_NodeID t = n"
  using find_Some_iff [of "\<lambda>v. rv_NodeID v = n" vs t]
  by (auto simp: find_target_def simp del: find_Some_iff split: option.splits)

lemma select_target_ok:
  assumes "select_target w d public name weight = Inr (height, target)"
  shows "weight = 1 \<or> weight = 1000 \<or> weight = 100000" "rv_Balance target \<noteq> 0"
    "pc_Height (sw_client w) = Inr height"
    "\<exists>p node subnet vs nid. public = Inr p \<and> validate_identity (Nodes p) name = Inr node \<and>
       target_subnet d (chain_name node) = Inr subnet \<and>
       fetch_validators_at (sw_client w) subnet height = Inr vs \<and> target \<in> set vs \<and>
       id_parse (sw_platform w) (pn_NodeID node) = Some nid \<and>
       rv_NodeID target = id_string (sw_platform w) nid"
proof -
  from assms obtain p node nid subnet vs where
    f: "validate_weight weight = Inr ()" "public = Inr p" "validate_identity (Nodes p) name = Inr node"
      "id_parse (sw_platform w) (pn_NodeID node) = Some nid" "target_subnet d (chain_name node) = Inr subnet"
      "pc_Height (sw_client w) = Inr height" "fetch_validators_at (sw_client w) subnet height = Inr vs"
      "find_target vs (id_string (sw_platform w) nid) = Inr target" "rv_Balance target \<noteq> 0"
    unfolding select_target_def
    by (auto simp del: rbind_eq_Inr elim!: rbind_InrE split: sum.splits option.splits if_splits)
  then show "weight = 1 \<or> weight = 1000 \<or> weight = 100000" "rv_Balance target \<noteq> 0"
    "pc_Height (sw_client w) = Inr height"
    by (auto simp: validate_weight_def dead_weight_def spare_weight_def active_weight_def split: if_splits)
  from f find_target_Inr [OF f(8)] show "\<exists>p node subnet vs nid. public = Inr p \<and>
       validate_identity (Nodes p) name = Inr node \<and>
       target_subnet d (chain_name node) = Inr subnet \<and>
       fetch_validators_at (sw_client w) subnet height = Inr vs \<and> target \<in> set vs \<and>
       id_parse (sw_platform w) (pn_NodeID node) = Some nid \<and>
       rv_NodeID target = id_string (sw_platform w) nid" by blast
qed

lemma set_weight_cases:
  assumes "set_weight w env d public name weight = Some (events, r)"
  shows "(\<forall>m. Submitted m \<notin> set events) \<and>
      (r = Inr () \<longrightarrow> (\<exists>height target. select_target w d public name weight = Inr (height, target) \<and>
         rv_Weight target = weight)) \<or>
    (\<exists>height target network managers signers conversion gate m.
       select_target w d public name weight = Inr (height, target) \<and> rv_Weight target \<noteq> weight \<and>
       prepare_conversion w env d height = Inr (network, managers, signers, conversion) \<and>
       gate_management_conversion w conversion (sw_epoch_duration w network) = (gate, Inr ()) \<and>
       build_signed w d network managers signers target weight = Inr m \<and>
       events = gate @ [Submitted m] \<and>
       verify_weight (sw_reads w) (sw_expired w) (sw_stopped w) weight 0 = Some r)"
proof (cases "select_target w d public name weight")
  case (Inl e)
  with assms show ?thesis by (auto simp: set_weight_def)
next
  case sel: (Inr ht)
  obtain height target where ht: "ht = (height, target)" by (cases ht)
  show ?thesis
  proof (cases "rv_Weight target = weight")
    case True
    with assms sel ht show ?thesis by (auto simp: set_weight_def)
  next
    case ne: False
    show ?thesis
    proof (cases "prepare_conversion w env d height")
      case (Inl e)
      with assms sel ht ne show ?thesis by (auto simp: set_weight_def)
    next
      case prep: (Inr nmsc)
      obtain network managers signers conversion where n: "nmsc = (network, managers, signers, conversion)"
        by (cases nmsc)
      obtain gate g where gate: "gate_management_conversion w conversion (sw_epoch_duration w network) = (gate, g)"
        by fastforce
      have quiet: "\<forall>m. Submitted m \<notin> set gate" using gate_ok(1) [OF gate] by blast
      note start = assms sel ht ne prep n gate
      show ?thesis
      proof (cases "\<exists>m issue. g = Inr () \<and> build_signed w d network managers signers target weight = Inr m \<and>
          sw_wallet w = Inr issue")
        case False
        with start have "events = gate" "r \<noteq> Inr ()"
          by (auto simp: set_weight_def split: sum.splits)
        with quiet show ?thesis by blast
      next
        case True
        then obtain m issue where m: "g = Inr ()"
          "build_signed w d network managers signers target weight = Inr m" "sw_wallet w = Inr issue" by blast
        with start have sub: "map_option (apfst (append gate)) (submit_and_verify w issue m weight) = Some (events, r)"
          by (simp add: set_weight_def)
        show ?thesis
        proof (cases "issue m")
          case (Inl e)
          with sub quiet show ?thesis by (auto simp: submit_and_verify_def)
        next
          case (Inr tx)
          with sub have "events = gate @ [Submitted m]"
            "verify_weight (sw_reads w) (sw_expired w) (sw_stopped w) weight 0 = Some r"
            by (auto simp: submit_and_verify_def)
          with start m show ?thesis by blast
        qed
      qed
    qed
  qed
qed

text \<open>A validator as the P-chain shows it: the subnet's member list, which is read without a height, holds
  its validation ID, and its fields are those of one answer about that ID, without an error and at or
  above the height.\<close>

definition shown_at :: "('id, 'key) pchain_client \<Rightarrow> 'id \<Rightarrow> u64 \<Rightarrow> ('id, 'key) registered_validator \<Rightarrow> bool" where
  "shown_at c subnet height v \<longleftrightarrow> (\<exists>members node j. pc_Members c subnet = Inr members
     \<and> (node, Some (rv_ValidationID v)) \<in> set members
     \<and> (let a = pc_State c (rv_ValidationID v) j; s = an_Validator a in
          an_Err a = None \<and> height \<le> an_Height a \<and> rv_NodeID v = lv_NodeID s \<and> rv_Weight v = lv_Weight s
          \<and> rv_Balance v = lv_Balance s \<and> rv_MinNonce v = lv_MinNonce s))"

lemma fetched_shown:
  assumes "fetch_validators_at c subnet height = Inr vs" "v \<in> set vs"
  shows "shown_at c subnet height v"
proof -
  from assms(1) obtain members where m: "pc_Members c subnet = Inr members"
    "list_all2 (\<lambda>x y. register_validator c height x = Inr y) members vs"
    by (auto simp: fetch_validators_at_def rmap_Inr_iff split: sum.splits)
  from assms(2) obtain k where "k < length vs" "v = vs ! k" by (auto simp: in_set_conv_nth)
  with m(2) have k: "members ! k \<in> set members" "register_validator c height (members ! k) = Inr v"
    by (auto simp: list_all2_conv_all_nth)
  then obtain s where s: "snd (members ! k) = Some (rv_ValidationID v)"
    "setweight_l1_validator_at c (rv_ValidationID v) height = Inr s"
    "rv_NodeID v = lv_NodeID s" "rv_Weight v = lv_Weight s" "rv_Balance v = lv_Balance s" "rv_MinNonce v = lv_MinNonce s"
    by (auto simp: register_validator_def split: option.splits sum.splits)
  from s(2) obtain j where "fresh height (pc_State c (rv_ValidationID v) j)"
    "s = an_Validator (pc_State c (rv_ValidationID v) j)"
    by (auto simp: read_at_Inr first_fresh_def find_upt simp del: find_Some_iff)
  moreover have "(fst (members ! k), Some (rv_ValidationID v)) \<in> set members"
    using k(1) by (simp add: s(1) [symmetric])
  ultimately show ?thesis using m(1) s(3-6)
    unfolding shown_at_def fresh_def by (auto simp: Let_def intro!: exI [of _ j] exI [of _ "fst (members ! k)"])
qed

text \<open>The identity's validator, told by the manifest: the identity's entry is a validator, and its
  validator has the entry's node ID and is a member of the subnet recorded for the entry's chain.\<close>

definition validator_of ::
  "('id, 'key, 'raw, 'signer, 'sig, 'nid, 'pop) sw_world \<Rightarrow> 'id deployment \<Rightarrow> 'pop public \<Rightarrow> string \<Rightarrow> u64
   \<Rightarrow> ('id, 'key) registered_validator \<Rightarrow> bool" where
  "validator_of w d p name height v \<longleftrightarrow> (\<exists>i node nid subnet. identity_index name = Inr i \<and> i < length (Nodes p)
     \<and> node = Nodes p ! i \<and> pn_Role node = RoleValidator \<and> id_parse (sw_platform w) (pn_NodeID node) = Some nid
     \<and> rv_NodeID v = id_string (sw_platform w) nid
     \<and> (if chain_name node = main_chain then subnet = MainSubnetID d
        else \<exists>record. extra_chains d (chain_name node) = Some record \<and> subnet = fst record)
     \<and> shown_at (sw_client w) subnet height v)"

lemma selected_validator:
  assumes "select_target w d public name weight = Inr (height, target)"
  shows "\<exists>p. public = Inr p \<and> validator_of w d p name height target"
proof -
  from select_target_ok(4) [OF assms] obtain p node subnet vs nid where
    f: "public = Inr p" "validate_identity (Nodes p) name = Inr node" "target_subnet d (chain_name node) = Inr subnet"
      "fetch_validators_at (sw_client w) subnet height = Inr vs" "target \<in> set vs"
      "id_parse (sw_platform w) (pn_NodeID node) = Some nid" "rv_NodeID target = id_string (sw_platform w) nid" by blast
  from f(2) obtain i where "identity_index name = Inr i" "i < length (Nodes p)" "node = Nodes p ! i"
    "pn_Role node = RoleValidator"
    by (auto simp: validate_identity_def not_le split: sum.splits if_splits)
  moreover have "if chain_name node = main_chain then subnet = MainSubnetID d
      else \<exists>record. extra_chains d (chain_name node) = Some record \<and> subnet = fst record"
    using f(3) by (auto simp: target_subnet_def split: if_splits option.splits)
  moreover note fetched_shown [OF f(4,5)]
  ultimately show ?thesis using f(1,6,7) unfolding validator_of_def by blast
qed

lemma prepared_managers:
  assumes "prepare_conversion w env d height = Inr (network, managers, signers, conversion)"
  shows "fetch_validators_at (sw_client w) (ManagementSubnetID d) height = Inr managers"
    and "\<forall>v \<in> set managers. shown_at (sw_client w) (ManagementSubnetID d) height v"
    and "\<exists>converted. manager_conversion_time managers = Inr converted
      \<and> find_conversion_height (read_block (sw_get_block w) (sw_parse_block w)) height converted
          (ManagementConvertTxID d) = Inr conversion"
  using assms fetched_shown [of "sw_client w" "ManagementSubnetID d" height managers]
  by (auto simp: prepare_conversion_def simp del: rbind_eq_Inr elim!: rbind_InrE
      split: option.splits sum.splits if_splits)

text \<open>C17: when \<^verbatim>\<open>l1 set-weight\<close> submits a transaction, it is the only one and its last action,
  the weight is one of the three allowed, and its target is the validator of the identity: the manifest
  lists the identity as a validator, the target has the node ID recorded there, is a member of the
  subnet recorded for the identity's chain, and is active with another weight. One P-chain height was
  read first; the member lists carry no height, but the target and every management validator were
  read in a state at or above it, and the block of the management conversion was searched up to it. One
  of at most three reads of the Warp epoch (the first, or the one after the first or second nudge) has
  pinned a height that covers that block; the message is the one built and aggregated for that
  validator. Success after a submission means that the new weight has been read back.\<close>

theorem set_weight_submits_safely:
  assumes "set_weight w env d public name weight = Some (events, r)" and "Submitted m \<in> set events"
  shows "\<exists>p height target network managers signers conversion k i.
    public = Inr p \<and> pc_Height (sw_client w) = Inr height \<and> validator_of w d p name height target \<and>
    weight \<in> {1, 1000, 100000} \<and> rv_Balance target \<noteq> 0 \<and> rv_Weight target \<noteq> weight \<and>
    fetch_validators_at (sw_client w) (ManagementSubnetID d) height = Inr managers \<and>
    (\<forall>v \<in> set managers. shown_at (sw_client w) (ManagementSubnetID d) height v) \<and>
    (\<exists>converted. manager_conversion_time managers = Inr converted \<and>
       find_conversion_height (read_block (sw_get_block w) (sw_parse_block w)) height converted
         (ManagementConvertTxID d) = Inr conversion) \<and>
    k \<le> 2 \<and> visible w conversion k \<and>
    build_signed w d network managers signers target weight = Inr m \<and>
    last events = Submitted m \<and> filter (\<lambda>e. \<exists>m. e = Submitted m) events = [Submitted m] \<and>
    (r = Inr ()) = (r = Inr () \<and> an_Err (sw_reads w i) = None \<and>
       lv_Weight (an_Validator (sw_reads w i)) = weight)"
  using set_weight_cases [OF assms(1)]
proof (elim disjE exE conjE)
  assume "\<forall>m. Submitted m \<notin> set events"
  with assms(2) show ?thesis by blast
next
  fix height target network managers signers conversion gate m'
  assume sel: "select_target w d public name weight = Inr (height, target)" "rv_Weight target \<noteq> weight"
    and prep: "prepare_conversion w env d height = Inr (network, managers, signers, conversion)"
    and gate: "gate_management_conversion w conversion (sw_epoch_duration w network) = (gate, Inr ())"
    and built: "build_signed w d network managers signers target weight = Inr m'"
    and ev: "events = gate @ [Submitted m']"
    and ver: "verify_weight (sw_reads w) (sw_expired w) (sw_stopped w) weight 0 = Some r"
  have quiet: "\<forall>e \<in> set gate. \<not> (\<exists>m. e = Submitted m)" using gate_ok(1) [OF gate] by blast
  then have m: "m' = m" using assms(2) ev by auto
  from quiet have f: "filter (\<lambda>e. \<exists>m. e = Submitted m) gate = []" by (simp add: filter_empty_conv)
  from gate_ok(2) [OF gate] obtain k where k: "k \<le> 2" "visible w conversion k" by blast
  from verify_weight_Some [OF ver] obtain i where
    i: "(r = Inr ()) = (r = Inr () \<and> an_Err (sw_reads w i) = None \<and>
       lv_Weight (an_Validator (sw_reads w i)) = weight)" by blast
  note facts = select_target_ok(1-3) [OF sel(1)] prepared_managers [OF prep]
  obtain p where p: "public = Inr p" "validator_of w d p name height target" using selected_validator [OF sel(1)] by blast
  show ?thesis
    apply (rule exI [of _ p], rule exI [of _ height], rule exI [of _ target], rule exI [of _ network],
        rule exI [of _ managers], rule exI [of _ signers], rule exI [of _ conversion],
        rule exI [of _ k], rule exI [of _ i])
    using facts p sel built m k i ev f by auto
qed

text \<open>set-weight returns. It has no bound on its verification reads but the clock, and once
  the deadline has passed at some read it has a result; everything before the verification ends
  by itself, the search of the conversion block included.\<close>

theorem set_weight_returns:
  assumes "sw_expired w n"
  shows "\<exists>result. set_weight w env d public name weight = Some result"
proof -
  from verify_weight_returns [of "sw_expired w" n 0 "sw_reads w" "sw_stopped w" weight] assms
  obtain r where "verify_weight (sw_reads w) (sw_expired w) (sw_stopped w) weight 0 = Some r" by auto
  then show ?thesis
    by (auto simp: set_weight_def submit_and_verify_def split: sum.splits prod.splits)
qed

section \<open>Who signs\<close>

lemma sign_step_simps:
  "by_key (fst (snd iv)) = None \<Longrightarrow> sign_step w by_key body acc iv = Inr acc"
  "by_key (fst (snd iv)) = Some s \<Longrightarrow> sign_step w by_key body acc iv =
     (case sw_sign w s body of Inl e \<Rightarrow> Inl (SignFailed e) | Inr sig \<Rightarrow> Inr (acc @ [(fst iv, sig)]))"
  by (simp_all add: sign_step_def)

lemma sign_steps:
  "each (sign_step w by_key body) acc xs = Inr sigs \<Longrightarrow>
   \<exists>new. sigs = acc @ new \<and> map fst new = map fst (filter (\<lambda>iv. by_key (fst (snd iv)) \<noteq> None) xs) \<and>
     list_all2 (\<lambda>iv ks. \<exists>s. by_key (fst (snd iv)) = Some s \<and> sw_sign w s body = Inr (snd ks))
       (filter (\<lambda>iv. by_key (fst (snd iv)) \<noteq> None) xs) new"
proof (induction xs arbitrary: acc)
  case (Cons iv xs)
  show ?case
  proof (cases "by_key (fst (snd iv))")
    case None
    with Cons.prems have "each (sign_step w by_key body) acc xs = Inr sigs"
      by (simp add: sign_step_simps)
    from Cons.IH [OF this] None show ?thesis by simp
  next
    case (Some s)
    with Cons.prems obtain sig where sig: "sw_sign w s body = Inr sig"
      "each (sign_step w by_key body) (acc @ [(fst iv, sig)]) xs = Inr sigs"
      by (cases "sw_sign w s body") (simp_all add: sign_step_simps)
    from Cons.IH [OF sig(2)] obtain new where
      "sigs = (acc @ [(fst iv, sig)]) @ new"
      "map fst new = map fst (filter (\<lambda>iv. by_key (fst (snd iv)) \<noteq> None) xs)"
      "list_all2 (\<lambda>iv ks. \<exists>s. by_key (fst (snd iv)) = Some s \<and> sw_sign w s body = Inr (snd ks))
       (filter (\<lambda>iv. by_key (fst (snd iv)) \<noteq> None) xs) new" by blast
    with Some sig(1) show ?thesis by (intro exI [of _ "(fst iv, sig) # new"]) simp
  qed
qed simp

text \<open>C19: a weight message is sent only with the signatures of the management set. Its payload names
  the target's validation ID, its next nonce and the new weight, addressed from the manager
  address on the management chain; the signers are exactly the indices of the canonical set of
  the management validators whose public key a local signer has, in ascending order, at least one,
  and the library has verified two thirds (67 of 100) of the weight for them.\<close>

theorem signed_by_local_quorum:
  assumes "build_signed w d network managers signers target weight = Inr m"
  shows "\<exists>ws payload call body indices agg.
    canonical_warp_set w managers = Inr ws \<and>
    sw_new_weight w (rv_ValidationID target) (rv_MinNonce target) weight = Inr payload \<and>
    sw_new_call w (ManagerAddress d) payload = Inr call \<and>
    sw_new_unsigned w network (ManagementChainID d) call = Inr body \<and>
    indices = filter (\<lambda>i. fst (ws_Validators ws ! i) \<in> sw_signer_key w ` set signers)
      [0..<length (ws_Validators ws)] \<and> indices \<noteq> [] \<and>
    sw_quorum w body network ws indices agg 67 100 = None \<and>
    sw_new_message w body indices agg = Inr m"
proof -
  define by_key where "by_key = index_by (sw_signer_key w) id signers"
  from assms obtain ws payload call body sigs agg where
    ws: "canonical_warp_set w managers = Inr ws"
    and msg: "sw_new_weight w (rv_ValidationID target) (rv_MinNonce target) weight = Inr payload"
      "sw_new_call w (ManagerAddress d) payload = Inr call"
      "sw_new_unsigned w network (ManagementChainID d) call = Inr body"
    and sigs: "each (sign_step w by_key body) [] (enumerate 0 (ws_Validators ws)) = Inr sigs" "sigs \<noteq> []"
    and q: "sw_quorum w body network ws (map fst sigs) agg 67 100 = None"
      "sw_new_message w body (map fst sigs) agg = Inr m"
    unfolding build_signed_def weight_message_def sign_and_aggregate_def by_key_def
      quorum_numerator_def quorum_denominator_def
    by (auto simp del: rbind_eq_Inr elim!: rbind_InrE split: sum.splits option.splits if_splits)
  have has: "by_key key \<noteq> None \<longleftrightarrow> key \<in> sw_signer_key w ` set signers" for key
    by (simp add: by_key_def index_by_None)
  have "filter (\<lambda>iv. by_key (fst (snd iv)) \<noteq> None) (enumerate 0 (ws_Validators ws)) =
      filter (\<lambda>iv. fst (ws_Validators ws ! fst iv) \<in> sw_signer_key w ` set signers)
        (enumerate 0 (ws_Validators ws))"
    unfolding has by (rule filter_cong) (auto simp: in_set_enumerate_eq)
  then have "map fst sigs = map fst (filter
      ((\<lambda>i. fst (ws_Validators ws ! i) \<in> sw_signer_key w ` set signers) \<circ> fst)
        (enumerate 0 (ws_Validators ws)))"
    using sign_steps [OF sigs(1)] by (simp add: comp_def)
  also have "\<dots> = filter (\<lambda>i. fst (ws_Validators ws ! i) \<in> sw_signer_key w ` set signers)
      [0..<length (ws_Validators ws)]"
    unfolding filter_map [symmetric] by (simp add: enumerate_map_upt enumerate_eq_zip)
  finally show ?thesis using ws msg sigs(2) q
    by (intro exI [of _ ws] exI [of _ payload] exI [of _ call] exI [of _ body]
        exI [of _ "map fst sigs"] exI [of _ agg]) auto
qed

text \<open>The oracle chain's identities are validators of the manifest, but creation records the oracle
  chain in its own keys and never among the additional chains: set-weight refuses them all.\<close>

lemma oracle_weight_refused:
  assumes "chain_names_ok s"
  shows "target_subnet (deployment_of codec s) oracle_chain = Inl (NoRecordedChain oracle_chain)"
proof -
  have "oracle_chain \<notin> fst ` set (st_Chains s)" using assms by (auto simp: chain_names_ok_def)
  then have "map_of (st_Chains s) oracle_chain = None" by (simp add: map_of_eq_None_iff)
  then show ?thesis
    by (simp add: target_subnet_def deployment_of_def oracle_chain_def main_chain_def)
qed

section \<open>A run that needs one nudge\<close>

definition sample_parse :: "u64 \<Rightarrow> string + nat parsed_block" where
  "sample_parse h = Inr \<lparr>pb_Timestamp = (if h < 5 then None else Some (if h = 5 then 7 else 20)),
     pb_Txs = (if h = 5 then [3] else [])\<rparr>"

definition sample_epoch :: "nat \<Rightarrow> string + epoch" where
  "sample_epoch k = Inr \<lparr>ep_PChainHeight = (if k = 0 then 4 else 12), ep_Number = 1, ep_StartTime = 0\<rparr>"

definition sample_reads :: "nat \<Rightarrow> unit state_answer" where
  "sample_reads k = \<lparr>an_Validator = (sample_l1_validator ''NodeID-A'' 300000)
       \<lparr>lv_Weight := (if k = 0 then 100000 else 1000)\<rparr>, an_Height = 13, an_Err = None\<rparr>"

definition sample_world :: "(nat, unit, u64, unit, unit, string, unit) sw_world" where
  "sample_world = \<lparr>sw_platform = \<lparr>id_string = id, id_parse = Some, pop_verify = (\<lambda>_. True),
       is_hex_address = (\<lambda>_. True)\<rparr>,
     sw_client = sample_client, sw_get_block = Inr, sw_parse_block = sample_parse,
     sw_epoch = sample_epoch, sw_now = 0, sw_sleep = (\<lambda>_. None), sw_nudge = (\<lambda>_. Inr 9),
     sw_wallet = Inr (\<lambda>_. Inr 8), sw_network_id = (\<lambda>_. Some 5), sw_epoch_duration = (\<lambda>_. 30),
     sw_manager_dir = Some [(''a'', True)], sw_signer_file = (\<lambda>_. Some ''key''),
     sw_load_signer = (\<lambda>_. Some ()), sw_signer_key = (\<lambda>_. ''pk''), sw_sign = (\<lambda>_ _. Inr ()),
     sw_aggregate = (\<lambda>_. Inr ()),
     sw_flatten = (\<lambda>_. Inr \<lparr>ws_Validators = [(''pk'', 100000)], ws_TotalWeight = 100000\<rparr>),
     sw_new_weight = (\<lambda>_ _ _. Inr ''w''), sw_new_call = (\<lambda>_ p. Inr (''c'' @ p)),
     sw_new_unsigned = (\<lambda>_ _ c. Inr (''u'' @ c)), sw_quorum = (\<lambda>_ _ _ _ _ _ _. None),
     sw_new_message = (\<lambda>b _ _. Inr (''m'' @ b)), sw_reads = sample_reads,
     sw_expired = (\<lambda>k. k = 9), sw_stopped = (\<lambda>_. False)\<rparr>"

definition sample_public :: "unit public" where
  "sample_public = \<lparr>GenesisAddress = [], FeederAddress = [],
     Nodes = [\<lparr>pn_Identity = ''a'', pn_Node = 1, pn_Role = RoleValidator, pn_Chain = [],
       pn_NodeID = ''NodeID-A'', pn_Weight = 100000, pn_ExplicitWeight = False, pn_Signer = None\<rparr>],
     Managers = []\<rparr>"

lemma sample_setweight_read:
  "setweight_l1_validator_at sample_client vid 12 = Inr (an_Validator (sample_answer vid 1))"
  using sample_read [of vid] unfolding read_at_Inr by blast

definition sample_registered :: "nat \<Rightarrow> string \<Rightarrow> u64 \<Rightarrow> (nat, unit) registered_validator" where
  "sample_registered vid node balance = \<lparr>rv_NodeID = node, rv_ValidationID = vid, rv_Weight = 100000,
     rv_Balance = balance, rv_MinNonce = 0, rv_PublicKey = Some (), rv_StartTime = 7\<rparr>"

lemma sample_registers:
  "fetch_validators_at sample_client 4 12 = Inr [sample_registered 103 ''NodeID-C'' 100000,
     sample_registered 102 ''NodeID-A'' 300000]"
  "fetch_validators_at sample_client 1 12 = Inr [sample_registered 101 ''NodeID-B'' 500000]"
  by (simp_all add: fetch_validators_at_def register_validator_def sample_client_simps
      sample_setweight_read sample_registered_def sample_answer_def sample_l1_validator_def)

lemma sample_identity: "identity_index ''a'' = Inr 0"
  by (simp add: identity_index_def letter_value_def is_lower_def less_eq_char_def max_int_def)

lemma sample_select:
  "select_target sample_world fee_deployment (Inr sample_public) ''a'' 1000 =
     Inr (12, sample_registered 102 ''NodeID-A'' 300000)"
proof -
  have "sw_client sample_world = sample_client" "id_parse (sw_platform sample_world) n = Some n"
    "id_string (sw_platform sample_world) n = n" "target_subnet fee_deployment main_chain = Inr 4" for n
    by (simp_all add: sample_world_def target_subnet_def fee_deployment_def)
  then show ?thesis
    by (simp add: select_target_def validate_weight_def spare_weight_def validate_identity_def
        sample_identity sample_public_def chain_name_def effective_chain_def sample_client_simps
        sample_registers find_target_def sample_registered_def)
qed

lemma sample_search:
  "find_conversion_height (read_block (sw_get_block sample_world) (sw_parse_block sample_world)) 12 7 3 = Inr 5"
proof -
  have "read_block (sw_get_block sample_world) (sw_parse_block sample_world) =
      (\<lambda>h. Inr (if h < 5 then (zero_time, []) else if h = 5 then (7, [3]) else (20, [])))"
    by (rule ext) (simp add: read_block_def sample_world_def sample_parse_def)
  then show ?thesis
    by (simp add: find_conversion_height_def search_height.simps scan_height.simps zero_time_def)
qed

lemma sample_prepare:
  "prepare_conversion sample_world fee_environment fee_deployment 12 =
     Inr (5, [sample_registered 101 ''NodeID-B'' 500000], [()], 5)"
proof -
  have "load_manager_signers sample_world = Inr [()]"
    by (simp add: load_manager_signers_def load_manager_signer_def sample_world_def sample_identity)
  moreover have "sw_client sample_world = sample_client" "sw_network_id sample_world n = Some 5" for n
    by (simp_all add: sample_world_def)
  moreover have "ManagementSubnetID fee_deployment = 1" "ManagementConvertTxID fee_deployment = 3"
    by (simp_all add: fee_deployment_def)
  ultimately show ?thesis
    by (simp add: prepare_conversion_def sample_registers [unfolded One_nat_def] sample_search manager_conversion_time_def
        conversion_time_def sample_registered_def)
qed

lemma sample_gate: "gate_management_conversion sample_world 5 30 = ([Slept 30, Nudged 9], Inr ())"
proof -
  have "nudge_rounds sample_world 5 ep 0 2 = ([Nudged 9], Inr ())" for ep
    unfolding numeral_2_eq_2 by (simp add: sample_world_def sample_epoch_def)
  moreover have "sw_epoch sample_world 0 = Inr \<lparr>ep_PChainHeight = 4, ep_Number = 1, ep_StartTime = 0\<rparr>"
    "sw_now sample_world = 0" "sw_sleep sample_world t = None" for t
    by (simp_all add: sample_world_def sample_epoch_def)
  ultimately show ?thesis by (simp add: gate_management_conversion_def max_duration_def)
qed

lemma sample_build:
  "build_signed sample_world fee_deployment 5 [sample_registered 101 ''NodeID-B'' 500000] [()]
     (sample_registered 102 ''NodeID-A'' 300000) 1000 = Inr ''mucw''"
  by (simp add: build_signed_def canonical_warp_set_def weight_message_def sign_and_aggregate_def
      sample_world_def sign_step_def index_by_def)

lemma sample_set_weight:
  "set_weight sample_world fee_environment fee_deployment (Inr sample_public) ''a'' 1000 =
     Some ([Slept 30, Nudged 9, Submitted ''mucw''], Inr ())"
proof -
  have "verify_weight sample_reads (\<lambda>k. k = 9) (\<lambda>_. False) 1000 0 = Some (Inr ())"
    by (subst verify_weight.simps, subst verify_weight.simps) (simp add: sample_reads_def sample_l1_validator_def)
  then have "submit_and_verify sample_world (\<lambda>_. Inr 8) ''mucw'' 1000 = Some ([Submitted ''mucw''], Inr ())"
    by (simp add: submit_and_verify_def sample_world_def)
  moreover have "rv_Weight (sample_registered 102 ''NodeID-A'' 300000) \<noteq> 1000"
    by (simp add: sample_registered_def)
  moreover have "sw_epoch_duration sample_world n = 30" "sw_wallet sample_world = Inr (\<lambda>_. Inr 8)" for n
    by (simp_all add: sample_world_def)
  ultimately show ?thesis
    by (simp add: set_weight_def sample_select sample_prepare sample_gate sample_build)
qed

theorem set_weight_submits_safely_witness:
  "\<exists>conversion k. k \<le> 2 \<and> visible sample_world conversion k \<and>
     last [Slept 30, Nudged 9, Submitted ''mucw''] = (Submitted ''mucw'' :: nat sw_event)"
  using set_weight_submits_safely [OF sample_set_weight, of "''mucw''"] by fastforce

theorem set_weight_returns_witness:
  "\<exists>result. set_weight sample_world fee_environment fee_deployment (Inr sample_public) ''a'' 1000 = Some result"
  by (rule set_weight_returns [of sample_world 9]) (simp add: sample_world_def)

theorem signed_by_local_quorum_witness:
  "\<exists>ws indices. canonical_warp_set sample_world [sample_registered 101 ''NodeID-B'' 500000] = Inr ws \<and>
     indices = filter (\<lambda>i. fst (ws_Validators ws ! i) \<in> sw_signer_key sample_world ` {()})
       [0..<length (ws_Validators ws)] \<and> indices \<noteq> []"
  using signed_by_local_quorum [OF sample_build] by auto

end
