(* ===== verification/Pchain_Archive.thy ===== *)
theory Pchain_Archive
  imports Deploy
begin

text \<open>
  The P-chain archive, \<^verbatim>\<open>internal/fleet/deploy.go\<close>: what is accepted as an archive
  (\<^verbatim>\<open>validatePChainArchive\<close>, \<^verbatim>\<open>validateFrozenDeployArchive\<close>) and \<^verbatim>\<open>ArchivePChain\<close>, which stops
  the P-chain node, packs its database, starts it again and downloads the result. Remote steps are
  events of the trace of Lifecycle; the local file system is that of Identity. Decompressing and
  splitting a tar file is the function \<open>read_tar\<close>: the headers in order, and whether the reading
  ended without an error.
\<close>

section \<open>What an archive may contain\<close>

datatype tar_type = TarDir | TarReg | TarOther

type_synonym tar_header = "string \<times> tar_type"

datatype archive_error =
    NotReadable
  | UnexpectedPath string
  | UnsupportedEntry string
  | NoDatabaseFiles
  | ArchiveNotFound
  | ArchiveNotRegular

definition archive_step :: "bool \<Rightarrow> tar_header \<Rightarrow> archive_error + bool" where
  "archive_step has_file h = (case h of (raw, kind) \<Rightarrow>
     (let name = path_clean raw in
      if name \<noteq> ''db'' \<and> \<not> has_prefix name ''db/'' then Inl (UnexpectedPath raw)
      else case kind of
          TarDir \<Rightarrow> Inr has_file
        | TarReg \<Rightarrow> Inr (has_file \<or> has_prefix name ''db/'')
        | TarOther \<Rightarrow> Inl (UnsupportedEntry raw)))"

definition validate_pchain_archive :: "(tar_header list \<times> bool) option \<Rightarrow> archive_error + unit" where
  "validate_pchain_archive tar = (case tar of
      None \<Rightarrow> Inl NotReadable
    | Some (headers, complete) \<Rightarrow>
        rbind (each archive_step False headers) (\<lambda>has_file.
          if \<not> complete then Inl NotReadable
          else if \<not> has_file then Inl NoDatabaseFiles
          else Inr ()))"

definition pchain_archive :: path where
  "pchain_archive = [''pchain.tar.gz'']"

definition pchain_partial :: path where
  "pchain_partial = [''pchain.tar.gz.partial'']"

definition validate_frozen_deploy_archive ::
  "(string \<Rightarrow> (tar_header list \<times> bool) option) \<Rightarrow> file_system \<Rightarrow> archive_error + unit" where
  "validate_frozen_deploy_archive read_tar fs = (case fs pchain_archive of
      None \<Rightarrow> Inl ArchiveNotFound
    | Some Dir \<Rightarrow> Inl ArchiveNotRegular
    | Some (File contents) \<Rightarrow> validate_pchain_archive (read_tar contents))"

section \<open>Making one\<close>

text \<open>Local calls that may fail for reasons the file system model does not show.\<close>

record local_calls =
  lc_stat :: bool
  lc_remove :: bool
  lc_rename :: bool

datatype archive_failure =
    ArchiveAlreadyThere
  | ArchiveStat
  | ArchiveFleet fleet_error
  | PChainNotRunning
  | StopUncertain bool
  | PackFailed bool bool bool
  | StalePartial bool
  | DownloadFailed bool "archive_error option" bool
  | PublishFailure bool
  | RemoteLeft

text \<open>
  \<open>download\<close> is the text the download leaves in the partial file when it succeeds. The flags of a
  failure tell which of the steps joined into the error succeeded. The deferred removal of the
  partial file is the last step of every path after it was set up.
\<close>

definition archive_pchain ::
  "runner \<Rightarrow> (string \<Rightarrow> (tar_header list \<times> bool) option) \<Rightarrow> local_calls \<Rightarrow> (trace \<Rightarrow> string) \<Rightarrow> file_system
   \<Rightarrow> fleet_error + int \<Rightarrow> file_system \<times> trace \<times> archive_failure option" where
  "archive_pchain runner read_tar lc download fs pchain =
    (if fs pchain_archive \<noteq> None then (fs, [], Some ArchiveAlreadyThere)
     else if \<not> lc_stat lc then (fs, [], Some ArchiveStat)
     else case pchain of Inl e \<Rightarrow> (fs, [], Some (ArchiveFleet e))
       | Inr n \<Rightarrow>
      (let (t1, active) = exec runner [] n CheckActive in
       if \<not> active then (fs, t1, Some PChainNotRunning) else
       let (t2, stopped) = exec runner t1 n StopNode in
       if \<not> stopped then (let (t3, restarted) = exec runner t2 n StartOnly
         in (fs, t3, Some (StopUncertain restarted))) else
       let (t3, packed) = exec runner t2 n PackExport;
           (t4, restarted) = exec runner t3 n StartOnly in
       if \<not> packed \<or> \<not> restarted then (let (t5, cleaned) = exec runner t4 n RemoveExport
         in (fs, t5, Some (PackFailed packed restarted cleaned))) else
       if \<not> lc_remove lc then (let (t5, cleaned) = exec runner t4 n RemoveExport
         in (fs, t5, Some (StalePartial cleaned))) else
       let fs = fs(pchain_partial := None);
           (t5, downloaded) = exec runner t4 n DownloadExport;
           invalid = (if downloaded then (case validate_pchain_archive (read_tar (download t5)) of
              Inl e \<Rightarrow> Some e | Inr _ \<Rightarrow> None) else None);
           (t6, cleaned) = exec runner t5 n RemoveExport in
       if \<not> downloaded \<or> invalid \<noteq> None then (fs, t6, Some (DownloadFailed downloaded invalid cleaned))
       else if \<not> lc_rename lc then (fs, t6, Some (PublishFailure cleaned))
       else (fs(pchain_archive \<mapsto> File (download t5)), t6, if cleaned then None else Some RemoteLeft)))"

section \<open>An accepted archive stays below its database directory\<close>

definition proper :: "string \<Rightarrow> bool" where
  "proper c \<longleftrightarrow> c \<noteq> [] \<and> c \<noteq> ''.'' \<and> c \<noteq> ''..'' \<and> CHR ''/'' \<notin> set c"

definition cleaned_stack :: "string list \<Rightarrow> bool" where
  "cleaned_stack st \<longleftrightarrow> (\<exists>k names. st = replicate k ''..'' @ names \<and> list_all proper names)"

lemma clean_step_stack:
  assumes "cleaned_stack st" "CHR ''/'' \<notin> set c"
  shows "cleaned_stack (clean_step False st c)"
proof -
  from assms(1) obtain k names where st: "st = replicate k ''..'' @ names" "list_all proper names"
    by (auto simp: cleaned_stack_def)
  show ?thesis
  proof (cases "c = ''..''")
    case True
    show ?thesis
    proof (cases "names = []")
      case nil: True
      have "st = [] \<or> last st = ''..''"
        using st(1) nil by (cases "k = 0") (simp_all add: last_replicate)
      then have "clean_step False st c = replicate (Suc k) ''..'' @ []"
        using st nil True by (auto simp: clean_step_def replicate_append_same)
      then show ?thesis unfolding cleaned_stack_def by (intro exI [of _ "Suc k"] exI [of _ "[]"]) simp
    next
      case False
      then have "last names \<in> set names" by simp
      then have "proper (last names)" using st(2) unfolding list_all_iff by blast
      then have "last st \<noteq> ''..''" using st(1) False by (simp add: proper_def)
      then have "clean_step False st c = replicate k ''..'' @ butlast names"
        using st(1) False True by (simp add: clean_step_def butlast_append)
      moreover have "list_all proper (butlast names)"
        using st(2) by (auto simp: list_all_iff dest: in_set_butlastD)
      ultimately show ?thesis unfolding cleaned_stack_def by blast
    qed
  next
    case False
    show ?thesis
    proof (cases "c = [] \<or> c = ''.''")
      case True
      with assms(1) show ?thesis by (auto simp: clean_step_def)
    next
      case no: False
      with False assms(2) have "proper c" by (simp add: proper_def)
      moreover have "clean_step False st c = replicate k ''..'' @ (names @ [c])"
        using no False st(1) by (simp add: clean_step_def)
      ultimately show ?thesis using st(2) unfolding cleaned_stack_def
        by (intro exI [of _ k] exI [of _ "names @ [c]"]) simp
    qed
  qed
qed

lemma clean_fold_stack:
  "cleaned_stack st \<Longrightarrow> \<forall>c \<in> set cs. CHR ''/'' \<notin> set c \<Longrightarrow> cleaned_stack (foldl (clean_step False) st cs)"
  by (induction cs arbitrary: st) (auto intro: clean_step_stack)

lemma cleaned_db:
  assumes "path_clean raw = ''db'' \<or> has_prefix (path_clean raw) ''db/''"
  shows "\<exists>names. go_split (CHR ''/'') (path_clean raw) = ''db'' # names \<and> list_all proper names"
proof -
  have ne: "raw \<noteq> []" using assms by (auto simp: path_clean_def has_prefix_def)
  have hd: "hd raw \<noteq> CHR ''/''"
  proof
    assume "hd raw = CHR ''/''"
    then have "hd (path_clean raw) = CHR ''/''" using ne by (simp add: path_clean_def Let_def)
    with assms show False by (cases "path_clean raw") (auto simp: has_prefix_def)
  qed
  define st where "st = foldl (clean_step False) [] (go_split (CHR ''/'') raw)"
  have "cleaned_stack st" unfolding st_def
  proof (rule clean_fold_stack)
    show "cleaned_stack []" unfolding cleaned_stack_def by (intro exI [of _ 0] exI [of _ "[]"]) simp
    show "\<forall>c \<in> set (go_split (CHR ''/'') raw). CHR ''/'' \<notin> set c" using go_split_clean by blast
  qed
  then obtain k names where st: "st = replicate k ''..'' @ names" "list_all proper names"
    by (auto simp: cleaned_stack_def)
  have pc: "path_clean raw = (if join_with ''/'' st = [] then ''.'' else join_with ''/'' st)"
    using ne hd by (simp add: path_clean_def st_def Let_def)
  have "st \<noteq> []" using assms pc by (auto simp: has_prefix_def)
  moreover have "\<forall>x \<in> set st. CHR ''/'' \<notin> set x"
  proof
    fix x assume "x \<in> set st"
    then have "x = ''..'' \<or> x \<in> set names" using st(1) by (auto split: if_splits)
    then show "CHR ''/'' \<notin> set x"
    proof
      assume "x \<in> set names"
      with st(2) have "proper x" unfolding list_all_iff by blast
      then show ?thesis by (simp add: proper_def)
    qed simp
  qed
  ultimately have split: "go_split (CHR ''/'') (join_with ''/'' st) = st" by (rule split_join)
  have join: "path_clean raw = join_with ''/'' st" using assms pc by (auto simp: has_prefix_def split: if_splits)
  have "hd (go_split (CHR ''/'') (path_clean raw)) = ''db''"
  proof (cases "path_clean raw = ''db''")
    case False
    with assms obtain rest where "path_clean raw = ''db'' @ CHR ''/'' # rest"
      by (auto simp: has_prefix_def) (metis append_Cons append_Nil append_take_drop_id)
    then show ?thesis by (simp add: go_split_def)
  qed (simp add: go_split_def)
  then have h: "hd st = ''db''" using split join by simp
  have "k = 0"
  proof (cases k)
    case (Suc j)
    then show ?thesis using h st(1) by simp
  qed simp
  with st \<open>st \<noteq> []\<close> h obtain more where "st = ''db'' # more" "list_all proper more" by (cases st) auto
  with split join show ?thesis by simp
qed

lemma archive_steps:
  "each archive_step has headers = Inr has' \<Longrightarrow>
   (\<forall>h \<in> set headers. (path_clean (fst h) = ''db'' \<or> has_prefix (path_clean (fst h)) ''db/'') \<and> snd h \<noteq> TarOther) \<and>
   (has' \<longrightarrow> has \<or> (\<exists>h \<in> set headers. snd h = TarReg \<and> has_prefix (path_clean (fst h)) ''db/''))"
proof (induction headers arbitrary: has)
  case (Cons h headers)
  then obtain has1 where s: "archive_step has h = Inr has1" "each archive_step has1 headers = Inr has'" by auto
  have "(path_clean (fst h) = ''db'' \<or> has_prefix (path_clean (fst h)) ''db/'') \<and> snd h \<noteq> TarOther \<and>
      (has1 \<longrightarrow> has \<or> snd h = TarReg \<and> has_prefix (path_clean (fst h)) ''db/'')"
    using s(1) by (auto simp: archive_step_def Let_def split: prod.splits if_splits tar_type.splits)
  with Cons.IH [OF s(2)] show ?case by auto
qed simp

text \<open>C36: an archive that is accepted can be unpacked without leaving its database directory. The
  cleaned path of every entry has \<^verbatim>\<open>db\<close> as its first component and only proper names after it
  (none empty, none a dot or a double dot), every entry is a directory or a regular file, and at
  least one regular file lies below \<^verbatim>\<open>db/\<close>; an archive whose reading stops with an error is
  rejected whatever it contains.\<close>

theorem accepted_archive_is_confined:
  assumes "validate_pchain_archive tar = Inr ()"
  shows "\<exists>headers. tar = Some (headers, True) \<and>
    list_all (\<lambda>(raw, kind). kind \<noteq> TarOther \<and>
      (\<exists>names. go_split (CHR ''/'') (path_clean raw) = ''db'' # names \<and> list_all proper names)) headers \<and>
    filter (\<lambda>(raw, kind). kind = TarReg \<and> has_prefix (path_clean raw) ''db/'') headers \<noteq> []"
proof -
  from assms obtain headers has where h: "tar = Some (headers, True)" "each archive_step False headers = Inr has" "has"
    by (auto simp: validate_pchain_archive_def split: option.splits prod.splits if_splits)
  note steps = archive_steps [OF h(2)]
  have "list_all (\<lambda>(raw, kind). kind \<noteq> TarOther \<and>
      (\<exists>names. go_split (CHR ''/'') (path_clean raw) = ''db'' # names \<and> list_all proper names)) headers"
  proof -
    have "\<exists>names. go_split (CHR ''/'') (path_clean (fst h)) = ''db'' # names \<and> list_all proper names"
      if "h \<in> set headers" for h
      by (rule cleaned_db) (use steps that in blast)
    then show ?thesis using steps by (simp add: list_all_iff case_prod_unfold)
  qed
  moreover have "filter (\<lambda>(raw, kind). kind = TarReg \<and> has_prefix (path_clean raw) ''db/'') headers \<noteq> []"
    using steps h(3) by (auto simp: filter_empty_conv)
  ultimately show ?thesis using h(1) by blast
qed

theorem accepted_archive_is_confined_witness:
  "\<exists>names. go_split (CHR ''/'') (path_clean ''./db//x/../000.ldb'') = ''db'' # names \<and> list_all proper names"
proof -
  have "validate_pchain_archive (Some ([(''db/'', TarDir), (''./db//x/../000.ldb'', TarReg)], True)) = Inr ()"
    by (simp add: validate_pchain_archive_def archive_step_def path_clean_def clean_step_def go_split_def
        has_prefix_def del: rbind_eq_Inr)
  from accepted_archive_is_confined [OF this] show ?thesis by simp
qed

section \<open>The node comes back\<close>

text \<open>archiving never leaves the P-chain node down for good and never publishes a bad archive. In
  whatever way the remote and local steps fail: every stop of the node is followed by an attempt
  to start it, after at most the packing; every packing by an attempt to remove the remote export;
  the archive path is written only when it was free, and then with a text that validates, packed
  while the node was stopped; and the partial download does not outlive the command.\<close>

theorem archive_restarts_pchain:
  assumes "archive_pchain runner read_tar lc download fs pchain = (fs', tr, r)"
  shows "(map op_of tr \<in> {[], [CheckActive], [CheckActive, StopNode, StartOnly],
      [CheckActive, StopNode, PackExport, StartOnly, RemoveExport],
      [CheckActive, StopNode, PackExport, StartOnly, DownloadExport, RemoveExport]}) \<and>
    (fs' pchain_archive = fs pchain_archive \<or>
      fs pchain_archive = None \<and> take 5 (map (snd \<circ> snd) tr) = [True, True, True, True, True] \<and>
      (\<exists>text. fs' pchain_archive = Some (File text) \<and> validate_pchain_archive (read_tar text) = Inr ())) \<and>
    (r = None \<longrightarrow> fs' pchain_archive \<noteq> fs pchain_archive) \<and>
    (fs' pchain_partial = None \<or> fs' pchain_partial = fs pchain_partial)"
proof -
  have ne: "pchain_archive \<noteq> pchain_partial" by (simp add: pchain_archive_def pchain_partial_def)
  show ?thesis
    using assms ne
    by (auto simp: archive_pchain_def exec_def Let_def op_of_def split: if_splits sum.splits)
qed

theorem archive_restarts_pchain_witness:
  "\<exists>fs' tr. archive_pchain (\<lambda>_ _ _. True) (\<lambda>_. Some ([(''db/000.ldb'', TarReg)], True))
       \<lparr>lc_stat = True, lc_remove = True, lc_rename = True\<rparr> (\<lambda>_. ''A'') [[] \<mapsto> Dir] (Inr 1) = (fs', tr, None) \<and>
     fs' pchain_archive \<noteq> None \<and> length tr = 6"
proof -
  have valid: "validate_pchain_archive (Some ([(''db/000.ldb'', TarReg)], True)) = Inr ()"
    by (simp add: validate_pchain_archive_def archive_step_def path_clean_def clean_step_def go_split_def
        has_prefix_def del: rbind_eq_Inr)
  have free: "[[] \<mapsto> Dir] pchain_archive = None" by (simp add: pchain_archive_def)
  obtain fs' tr where run: "archive_pchain (\<lambda>_ _ _. True) (\<lambda>_. Some ([(''db/000.ldb'', TarReg)], True))
       \<lparr>lc_stat = True, lc_remove = True, lc_rename = True\<rparr> (\<lambda>_. ''A'') [[] \<mapsto> Dir] (Inr 1) = (fs', tr, None)"
    "length tr = 6"
    using free valid by (simp add: archive_pchain_def exec_def Let_def)
  from archive_restarts_pchain [OF run(1)] free run show ?thesis by auto
qed

end
