(* ===== verification/Json.thy ===== *)
theory Json
  imports Go_Prelude
begin

text \<open>
  JSON as \<^verbatim>\<open>encoding/json\<close> reads and writes it, for the components that keep JSON documents: the
  chain upgrades, the genesis files and the health reports. A document is a value of \<open>json\<close>;
  its text belongs to the functions of \<open>json_text\<close>. Objects are association lists without
  repeated keys.
\<close>

section \<open>JSON values\<close>

datatype json =
    JNull
  | JBool bool
  | JInt int
  | JFrac string
  | JString string
  | JArray "json list"
  | JObject "(string \<times> json) list"

record json_text =
  js_parse :: "string \<Rightarrow> json option"
  js_encode :: "json \<Rightarrow> string"

text \<open>\<^verbatim>\<open>json.Unmarshal\<close> into a struct field: keys match up to case, an absent key and \<^verbatim>\<open>null\<close>
  leave the zero value, a value of another kind is an error (\<open>None\<close>).\<close>

definition json_field :: "string \<Rightarrow> (string \<times> json) list \<Rightarrow> json" where
  "json_field name fs = (case find (\<lambda>(k, _). map lower_char k = map lower_char name) fs of
      None \<Rightarrow> JNull | Some (_, v) \<Rightarrow> v)"

text \<open>A field kept as its raw value, absent or not.\<close>

definition json_raw :: "string \<Rightarrow> (string \<times> json) list \<Rightarrow> json option" where
  "json_raw name fs = map_option snd (find (\<lambda>(k, _). map lower_char k = map lower_char name) fs)"

fun json_object :: "json \<Rightarrow> (string \<times> json) list option" where
  "json_object JNull = Some []"
| "json_object (JObject fs) = Some fs"
| "json_object _ = None"

fun json_array :: "json \<Rightarrow> json list option" where
  "json_array JNull = Some []"
| "json_array (JArray xs) = Some xs"
| "json_array _ = None"

fun json_string :: "json \<Rightarrow> string option" where
  "json_string JNull = Some []"
| "json_string (JString s) = Some s"
| "json_string _ = None"

fun json_int64 :: "json \<Rightarrow> int option" where
  "json_int64 JNull = Some 0"
| "json_int64 (JInt i) = (if - (2 ^ 63) \<le> i \<and> i < 2 ^ 63 then Some i else None)"
| "json_int64 _ = None"

text \<open>All of a list, or nothing.\<close>

fun all_some :: "('a \<Rightarrow> 'b option) \<Rightarrow> 'a list \<Rightarrow> 'b list option" where
  "all_some f [] = Some []"
| "all_some f (x # xs) = (case (f x, all_some f xs) of (Some y, Some ys) \<Rightarrow> Some (y # ys) | _ \<Rightarrow> None)"

definition decode_pairs :: "(json \<Rightarrow> 'a option) \<Rightarrow> json \<Rightarrow> (string \<times> 'a) list option" where
  "decode_pairs f j = Option.bind (json_object j) (all_some (\<lambda>(k, v). map_option (Pair k) (f v)))"

end
