(* ===== verification/Upgrades.thy ===== *)
theory Upgrades
  imports Deploy Json
begin

text \<open>
  The chain upgrade command, \<^verbatim>\<open>internal/fleet/upgrade.go\<close>: the checks of an upgrade fragment, the
  append-only merge into the recorded history, and \<^verbatim>\<open>UpgradeChain\<close>, which records the history,
  pushes it to every machine of the chain and restarts them one at a time. JSON documents are
  those of theory Json; decoding them into the structures of the code is defined here.
\<close>

section \<open>The upgrade file\<close>

record account =
  ac_Code :: string
  ac_Storage :: "(string \<times> string) list"

record state_upgrade =
  su_BlockTimestamp :: int
  su_Accounts :: "(string \<times> account) list"

record upgrade_file =
  uf_StateUpgrades :: "state_upgrade list"
  uf_PrecompileUpgrades :: "json list"

record raw_upgrade_file =
  ru_StateUpgrades :: "json list"
  ru_PrecompileUpgrades :: "json list"

definition decode_account :: "json \<Rightarrow> account option" where
  "decode_account j = Option.bind (json_object j) (\<lambda>fs.
     Option.bind (json_string (json_field ''code'' fs)) (\<lambda>code.
     Option.bind (decode_pairs json_string (json_field ''storage'' fs)) (\<lambda>storage.
       Some \<lparr>ac_Code = code, ac_Storage = storage\<rparr>)))"

definition decode_timestamp :: "json \<Rightarrow> int option" where
  "decode_timestamp j = Option.bind (json_object j) (\<lambda>fs. json_int64 (json_field ''blockTimestamp'' fs))"

definition decode_state_upgrade :: "json \<Rightarrow> state_upgrade option" where
  "decode_state_upgrade j = Option.bind (json_object j) (\<lambda>fs.
     Option.bind (decode_timestamp j) (\<lambda>ts.
     Option.bind (decode_pairs decode_account (json_field ''accounts'' fs)) (\<lambda>accounts.
       Some \<lparr>su_BlockTimestamp = ts, su_Accounts = accounts\<rparr>)))"

definition decode_raw :: "json \<Rightarrow> raw_upgrade_file option" where
  "decode_raw j = Option.bind (json_object j) (\<lambda>fs.
     Option.bind (json_array (json_field ''stateUpgrades'' fs)) (\<lambda>states.
     Option.bind (json_array (json_field ''precompileUpgrades'' fs)) (\<lambda>precompiles.
       Some \<lparr>ru_StateUpgrades = states, ru_PrecompileUpgrades = precompiles\<rparr>)))"

definition decode_upgrade :: "json \<Rightarrow> upgrade_file option" where
  "decode_upgrade j = Option.bind (decode_raw j) (\<lambda>raw.
     Option.bind (all_some decode_state_upgrade (ru_StateUpgrades raw)) (\<lambda>states.
       Some \<lparr>uf_StateUpgrades = states, uf_PrecompileUpgrades = ru_PrecompileUpgrades raw\<rparr>))"

definition encode_raw :: "raw_upgrade_file \<Rightarrow> json" where
  "encode_raw raw = JObject
     ((if ru_StateUpgrades raw = [] then [] else [(''stateUpgrades'', JArray (ru_StateUpgrades raw))]) @
      (if ru_PrecompileUpgrades raw = [] then [] else [(''precompileUpgrades'', JArray (ru_PrecompileUpgrades raw))]))"

datatype upgrade_error =
    FragmentUnreadable
  | HistoryUnreadable
  | NotJSON
  | NothingToUpgrade
  | InThePast nat int
  | NoAccounts nat
  | EmptyAccount nat string
  | EmptyCode nat string
  | ZeroSlot nat string string
  | RawNotJSON
  | HistoryNotJSON
  | HistoryEntry nat
  | FragmentEntry nat
  | NotAfter int int
  | UpgradeTargets failure
  | UpgradeNotCreated
  | ChainNotDeclared string
  | HistoryNotWritten keygen_error
  | PushFailed "int list"
  | RestartFailed failure

section \<open>Validating a fragment\<close>

definition zero_text :: "string \<Rightarrow> bool" where
  "zero_text v \<longleftrightarrow> trim_right (\<lambda>c. c = CHR ''0'') (trim_left (\<lambda>c. c = CHR ''0'')
     (trim_prefix (map lower_char v) ''0x'')) = []"

definition check_slot :: "nat \<Rightarrow> string \<Rightarrow> string \<times> string \<Rightarrow> upgrade_error + unit" where
  "check_slot index address sv = (if zero_text (snd sv) then Inl (ZeroSlot index address (fst sv)) else Inr ())"

definition check_account :: "nat \<Rightarrow> string \<times> account \<Rightarrow> upgrade_error + unit" where
  "check_account index aa = (case aa of (address, account) \<Rightarrow>
     if (ac_Code account = [] \<or> ac_Code account = ''0x'') \<and> ac_Storage account = [] then Inl (EmptyAccount index address)
     else if ac_Code account = ''0x'' then Inl (EmptyCode index address)
     else map_sum id (\<lambda>_. ()) (rmap (check_slot index address) (ac_Storage account)))"

definition check_state_upgrade :: "int \<Rightarrow> nat \<times> state_upgrade \<Rightarrow> upgrade_error + unit" where
  "check_state_upgrade now iu = (case iu of (index, u) \<Rightarrow>
     if su_BlockTimestamp u \<le> now then Inl (InThePast index (su_BlockTimestamp u))
     else if su_Accounts u = [] then Inl (NoAccounts index)
     else map_sum id (\<lambda>_. ()) (rmap (check_account index) (su_Accounts u)))"

text \<open>The warning about a rolling restart that may take longer than the time left is printed, not
  an error, and is not modelled; with it goes the node count.\<close>

definition validate_upgrade_contents :: "json_text \<Rightarrow> string \<Rightarrow> int \<Rightarrow> upgrade_error + unit" where
  "validate_upgrade_contents js contents now = (case Option.bind (js_parse js contents) decode_upgrade of
      None \<Rightarrow> Inl NotJSON
    | Some u \<Rightarrow>
        if uf_StateUpgrades u = [] \<and> uf_PrecompileUpgrades u = [] then Inl NothingToUpgrade
        else map_sum id (\<lambda>_. ()) (rmap (check_state_upgrade now) (enumerate 0 (uf_StateUpgrades u))))"

section \<open>Merging\<close>

definition entry_timestamp :: "(nat \<Rightarrow> upgrade_error) \<Rightarrow> nat \<times> json \<Rightarrow> upgrade_error + int" where
  "entry_timestamp err ij = (case decode_timestamp (snd ij) of None \<Rightarrow> Inl (err (fst ij)) | Some t \<Rightarrow> Inr t)"

definition state_upgrade_timestamps :: "(nat \<Rightarrow> upgrade_error) \<Rightarrow> json list \<Rightarrow> upgrade_error + int list" where
  "state_upgrade_timestamps err raws = rmap (entry_timestamp err) (enumerate 0 raws)"

definition check_after :: "int list \<Rightarrow> int \<Rightarrow> upgrade_error + unit" where
  "check_after fragment recorded = (case find (\<lambda>t. t \<le> recorded) fragment of
      None \<Rightarrow> Inr () | Some t \<Rightarrow> Inl (NotAfter t recorded))"

definition merge_upgrades :: "json_text \<Rightarrow> string \<Rightarrow> string \<Rightarrow> int \<Rightarrow> upgrade_error + string" where
  "merge_upgrades js existing fragment now =
    rbind (validate_upgrade_contents js fragment now) (\<lambda>_.
    case Option.bind (js_parse js fragment) decode_raw of None \<Rightarrow> Inl RawNotJSON
    | Some f \<Rightarrow>
      rbind (if existing = [] then Inr f
        else case Option.bind (js_parse js existing) decode_raw of None \<Rightarrow> Inl HistoryNotJSON
          | Some h \<Rightarrow>
            rbind (state_upgrade_timestamps HistoryEntry (ru_StateUpgrades h)) (\<lambda>hs.
            rbind (state_upgrade_timestamps FragmentEntry (ru_StateUpgrades f)) (\<lambda>fs.
            rbind (rmap (check_after fs) hs) (\<lambda>_.
              Inr \<lparr>ru_StateUpgrades = ru_StateUpgrades h @ ru_StateUpgrades f,
                   ru_PrecompileUpgrades = ru_PrecompileUpgrades h @ ru_PrecompileUpgrades f\<rparr>))))
        (\<lambda>merged. Inr (js_encode js (encode_raw merged) @ [CHR 0x0A])))"

section \<open>The command\<close>

definition upgrade_ops :: "'pop node_deployment \<Rightarrow> remote_op list" where
  "upgrade_ops nd = [StageUpgrade, UploadUpgrade, InstallUpgrade]"

definition upgrade_phases :: "('cid, 'pop) surroundings \<Rightarrow> (string \<times> 'pop action) list" where
  "upgrade_phases sur = [(''stop'', act sur (\<lambda>_. [StopNode])), (''start'', act sur (\<lambda>_. [EnableAndStart])),
     (''readiness'', act sur (\<lambda>_. [AwaitReady]))]"

text \<open>The atomic write: a temporary file beside the history, renamed over it.\<close>

definition record_history :: "file_system \<Rightarrow> path \<Rightarrow> string \<Rightarrow> keygen_error + file_system" where
  "record_history fs canonical merged =
    (let temporary = butlast canonical @ [last canonical @ ''.tmp'']
     in rbind (write_file fs temporary merged) (\<lambda>fs.
        if fs canonical = Some Dir then Inl (NoDirectory canonical)
        else Inr ((fs(canonical := fs temporary))(temporary := None))))"

definition upgrade_targets ::
  "('cid, 'pop) inventory \<Rightarrow> string \<Rightarrow> upgrade_error + 'pop node_deployment list" where
  "upgrade_targets iv chain = (case lifecycle_targets iv [] of
      Inl e \<Rightarrow> Inl (UpgradeTargets e)
    | Inr sel \<Rightarrow>
        if \<not> inv_created iv then Inl UpgradeNotCreated
        else if chain \<notin> set (inv_chains iv) then Inl (ChainNotDeclared chain)
        else Inr (filter (\<lambda>nd. chain_of_node (nd_node nd) = chain) sel))"

definition upgrade_chain ::
  "json_text \<Rightarrow> ('cid, 'pop) surroundings \<Rightarrow> ('cid, 'pop) inventory \<Rightarrow> int \<Rightarrow> file_system \<Rightarrow> string \<Rightarrow> path
   \<Rightarrow> file_system \<times> trace \<times> upgrade_error option" where
  "upgrade_chain js sur iv now fs chain path = (case fs path of
      Some (File fragment) \<Rightarrow> (case (case fs (upgrades_path chain) of
            Some (File contents) \<Rightarrow> Inr contents | None \<Rightarrow> Inr [] | Some Dir \<Rightarrow> Inl HistoryUnreadable) of
          Inl e \<Rightarrow> (fs, [], Some e)
        | Inr existing \<Rightarrow> (case upgrade_targets iv chain of
            Inl e \<Rightarrow> (fs, [], Some e)
          | Inr targets \<Rightarrow> (case merge_upgrades js existing fragment now of
              Inl e \<Rightarrow> (fs, [], Some e)
            | Inr merged \<Rightarrow> (case record_history fs (upgrades_path chain) merged of
                Inl e \<Rightarrow> (fs, [], Some (HistoryNotWritten e))
              | Inr fs' \<Rightarrow> (case phase_parallel (act sur upgrade_ops) targets [] of
                  (tr, failed) \<Rightarrow>
                    if failed \<noteq> [] then (fs', tr, Some (PushFailed failed))
                    else (case one_by_one (upgrade_phases sur) targets tr of
                        (tr', None) \<Rightarrow> (fs', tr', None)
                      | (tr', Some e) \<Rightarrow> (fs', tr', Some (RestartFailed e))))))))
    | _ \<Rightarrow> (fs, [], Some FragmentUnreadable))"

section \<open>The history only grows\<close>

text \<open>The history a text stands for: no text, no entries.\<close>

definition history :: "json_text \<Rightarrow> string \<Rightarrow> raw_upgrade_file option" where
  "history js text = (if text = [] then Some \<lparr>ru_StateUpgrades = [], ru_PrecompileUpgrades = []\<rparr>
     else Option.bind (js_parse js text) decode_raw)"

text \<open>What the JSON library promises of a document it has written: it reads back, with the trailing
  newline.\<close>

definition js_reads_back :: "json_text \<Rightarrow> string \<Rightarrow> bool" where
  "js_reads_back js text \<longleftrightarrow> (\<forall>j. text = js_encode js j @ [CHR 0x0A] \<longrightarrow> js_parse js text = Some j)"

lemma decode_encode_raw: "decode_raw (encode_raw r) = Some r"
proof -
  have "map lower_char ''stateUpgrades'' \<noteq> map lower_char ''precompileUpgrades''"
    by (simp add: lower_char_def is_upper_def less_eq_char_def)
  then show ?thesis
    by (cases r) (auto simp: encode_raw_def decode_raw_def json_field_def)
qed

lemma timestamps_Inr:
  "state_upgrade_timestamps err js = Inr ts \<longleftrightarrow> map decode_timestamp js = map Some ts"
proof -
  have "list_all2 (\<lambda>x y. entry_timestamp err x = Inr y) (enumerate n js) ts \<longleftrightarrow>
      map decode_timestamp js = map Some ts" for n
    by (induction js arbitrary: n ts)
      (auto simp: list_all2_Cons1 entry_timestamp_def map_eq_Cons_conv Cons_eq_map_conv split: option.splits)
  then show ?thesis by (simp add: state_upgrade_timestamps_def rmap_Inr_iff)
qed

lemma check_after_Inr: "check_after ts r = Inr u \<longleftrightarrow> (\<forall>t \<in> set ts. r < t)"
  by (auto simp: check_after_def find_None_iff not_le split: option.splits)
    (metis find_None_iff not_le option.distinct(1))

lemma check_all_after: "rmap (check_after ts) rs = Inr us \<Longrightarrow> \<forall>r \<in> set rs. \<forall>t \<in> set ts. r < t"
  by (induction rs arbitrary: us) (auto simp: check_after_Inr)

lemma decode_state_upgrade_timestamp:
  "decode_state_upgrade j = Some u \<Longrightarrow> decode_timestamp j = Some (su_BlockTimestamp u)"
  by (auto simp: decode_state_upgrade_def bind_eq_Some_conv)

lemma all_some_map: "all_some f xs = Some ys \<longleftrightarrow> map f xs = map Some ys"
proof (induction xs arbitrary: ys)
  case (Cons x xs)
  show ?case
  proof (cases ys)
    case Nil
    then show ?thesis by (auto split: option.splits)
  next
    case (Cons y zs)
    with Cons.IH [of zs] show ?thesis by (auto split: option.splits)
  qed
qed auto

definition upgrade_ok :: "int \<Rightarrow> state_upgrade \<Rightarrow> bool" where
  "upgrade_ok now u \<longleftrightarrow> now < su_BlockTimestamp u \<and> su_Accounts u \<noteq> [] \<and>
     list_all (\<lambda>(_, account). ac_Code account \<noteq> ''0x'' \<and>
       (ac_Code account \<noteq> [] \<or> ac_Storage account \<noteq> []) \<and>
       list_all (\<lambda>(_, v). \<not> zero_text v) (ac_Storage account)) (su_Accounts u)"

lemma map_sum_unit: "map_sum id (\<lambda>_. ()) m = Inr u \<longleftrightarrow> (\<exists>x. m = Inr x)"
  by (cases m) auto

lemma rmap_checks: "(\<exists>us. rmap f xs = Inr (us :: unit list)) \<longleftrightarrow> (\<forall>x \<in> set xs. f x = Inr ())"
  by (induction xs) auto

lemma check_state_upgrade_ok: "check_state_upgrade now (i, u) = Inr () \<longleftrightarrow> upgrade_ok now u"
proof -
  have slot: "check_slot i a sv = Inr () \<longleftrightarrow> \<not> zero_text (snd sv)" for a sv
    by (simp add: check_slot_def)
  have account: "check_account i aa = Inr () \<longleftrightarrow> ac_Code (snd aa) \<noteq> ''0x'' \<and>
      (ac_Code (snd aa) \<noteq> [] \<or> ac_Storage (snd aa) \<noteq> []) \<and>
      list_all (\<lambda>(_, v). \<not> zero_text v) (ac_Storage (snd aa))" for aa
    by (auto simp: check_account_def map_sum_unit rmap_checks slot list_all_iff split: prod.splits)
  show ?thesis
    by (auto simp: check_state_upgrade_def map_sum_unit rmap_checks account upgrade_ok_def list_all_iff
        case_prod_unfold not_le)
qed

lemma validate_ok:
  assumes "validate_upgrade_contents js contents now = Inr ()"
  obtains u where "Option.bind (js_parse js contents) decode_upgrade = Some u"
    "list_all (upgrade_ok now) (uf_StateUpgrades u)"
    "uf_StateUpgrades u \<noteq> [] \<or> uf_PrecompileUpgrades u \<noteq> []"
proof -
  from assms obtain u where u: "Option.bind (js_parse js contents) decode_upgrade = Some u"
    "uf_StateUpgrades u \<noteq> [] \<or> uf_PrecompileUpgrades u \<noteq> []"
    "\<forall>x \<in> set (enumerate 0 (uf_StateUpgrades u)). check_state_upgrade now x = Inr ()"
    by (auto simp: validate_upgrade_contents_def map_sum_unit rmap_checks split: option.splits if_splits)
  have "upgrade_ok now v" if "v \<in> set (uf_StateUpgrades u)" for v
  proof -
    from that obtain i where "i < length (uf_StateUpgrades u)" "v = uf_StateUpgrades u ! i"
      by (auto simp: in_set_conv_nth)
    then have "(i, v) \<in> set (enumerate 0 (uf_StateUpgrades u))" by (simp add: in_set_enumerate_eq)
    with u(3) check_state_upgrade_ok show ?thesis by auto
  qed
  with that u(1,2) show thesis by (simp add: list_all_iff)
qed

text \<open>C32: merging an upgrade fragment only appends. When it succeeds, the text written reads reread as
  the entries of the recorded history, unchanged and in their place, followed by the entries of
  the fragment; every state upgrade of the fragment activates after the present time and strictly
  after every recorded state upgrade, and none of its accounts has an explicitly empty code, a
  zero storage value, or neither code nor storage. A history that cannot be read is never
  replaced.\<close>

theorem merge_appends_history:
  assumes "merge_upgrades js existing fragment now = Inr merged" "js_reads_back js merged"
  shows "\<exists>h f u ts. history js existing = Some h \<and>
    Option.bind (js_parse js fragment) decode_raw = Some f \<and>
    history js merged = Some \<lparr>ru_StateUpgrades = ru_StateUpgrades h @ ru_StateUpgrades f,
      ru_PrecompileUpgrades = ru_PrecompileUpgrades h @ ru_PrecompileUpgrades f\<rparr> \<and>
    map decode_timestamp (ru_StateUpgrades h) = map Some ts \<and>
    map decode_state_upgrade (ru_StateUpgrades f) = map Some u \<and>
    list_all (\<lambda>v. upgrade_ok now v \<and> list_all (\<lambda>t. t < su_BlockTimestamp v) ts) u"
proof -
  from assms(1) have "validate_upgrade_contents js fragment now = Inr ()"
    by (auto simp: merge_upgrades_def simp del: rbind_eq_Inr elim!: rbind_InrE)
  then obtain u where u: "Option.bind (js_parse js fragment) decode_upgrade = Some u"
    "list_all (upgrade_ok now) (uf_StateUpgrades u)" by (rule validate_ok)
  then obtain f where f: "Option.bind (js_parse js fragment) decode_raw = Some f"
    and fu: "map decode_state_upgrade (ru_StateUpgrades f) = map Some (uf_StateUpgrades u)"
    by (auto simp: decode_upgrade_def bind_eq_Some_conv all_some_map)
  have fts: "map decode_timestamp (ru_StateUpgrades f) = map Some (map su_BlockTimestamp (uf_StateUpgrades u))"
    using fu by (auto simp: list_eq_iff_nth_eq decode_state_upgrade_timestamp)
  have reread: "history js merged = Some r" if "merged = js_encode js (encode_raw r) @ [CHR 0x0A]" for r
    using assms(2) that by (simp add: history_def js_reads_back_def decode_encode_raw)
  show ?thesis
  proof (cases "existing = []")
    case True
    with assms(1) f \<open>validate_upgrade_contents js fragment now = Inr ()\<close>
    have "merged = js_encode js (encode_raw f) @ [CHR 0x0A]" by (simp add: merge_upgrades_def)
    with True f fu u(2) reread show ?thesis
      by (intro exI [of _ "\<lparr>ru_StateUpgrades = [], ru_PrecompileUpgrades = []\<rparr>"] exI [of _ f]
          exI [of _ "uf_StateUpgrades u"] exI [of _ "[]"]) (simp add: history_def list_all_iff)
  next
    case False
    from assms(1) False f obtain h hs fs us where h: "Option.bind (js_parse js existing) decode_raw = Some h"
      "state_upgrade_timestamps HistoryEntry (ru_StateUpgrades h) = Inr hs"
      "state_upgrade_timestamps FragmentEntry (ru_StateUpgrades f) = Inr fs"
      "rmap (check_after fs) hs = Inr us"
      "merged = js_encode js (encode_raw \<lparr>ru_StateUpgrades = ru_StateUpgrades h @ ru_StateUpgrades f,
                   ru_PrecompileUpgrades = ru_PrecompileUpgrades h @ ru_PrecompileUpgrades f\<rparr>) @ [CHR 0x0A]"
      by (auto simp: merge_upgrades_def simp del: rbind_eq_Inr elim!: rbind_InrE split: option.splits if_splits)
    have "fs = map su_BlockTimestamp (uf_StateUpgrades u)"
      using h(3) fts by (metis timestamps_Inr inj_map_eq_map inj_Some)
    with check_all_after [OF h(4)] u(2)
    have "list_all (\<lambda>v. upgrade_ok now v \<and> list_all (\<lambda>t. t < su_BlockTimestamp v) hs) (uf_StateUpgrades u)"
      by (auto simp: list_all_iff)
    with False f fu h reread [OF h(5)] show ?thesis
      by (intro exI [of _ h] exI [of _ f] exI [of _ "uf_StateUpgrades u"] exI [of _ hs])
        (simp add: history_def timestamps_Inr)
  qed
qed

section \<open>No restart before every machine has the history\<close>

definition restarting :: "remote_op \<Rightarrow> bool" where
  "restarting op \<longleftrightarrow> op \<in> {StopNode, EnableAndStart, AwaitReady}"

lemma upgrade_phases_within: "\<forall>p \<in> set (upgrade_phases sur). ops_within restarting (snd p)"
  by (auto simp: upgrade_phases_def restarting_def intro!: ops_within_act)

lemma push_events:
  assumes "phase_parallel (act sur upgrade_ops) targets [] = (tr, failed)"
  shows "\<forall>e \<in> set tr. \<not> restarting (op_of e) \<and> (\<exists>nd \<in> set targets. fst e = num nd)"
    "failed = [] \<Longrightarrow> \<forall>nd \<in> set targets. succeeded tr nd InstallUpgrade"
proof -
  note p = assms [unfolded act_def]
  from ops.parallel_extends [OF p]
  show "\<forall>e \<in> set tr. \<not> restarting (op_of e) \<and> (\<exists>nd \<in> set targets. fst e = num nd)"
    by (auto simp: upgrade_ops_def restarting_def)
  assume "failed = []"
  with p have "phase_parallel (ops_action (sur_runner sur) upgrade_ops) targets [] = (tr, [])" by simp
  from ops.parallel_completes [OF this] show "\<forall>nd \<in> set targets. succeeded tr nd InstallUpgrade"
    by (simp add: upgrade_ops_def)
qed

lemma upgrade_chain_cases:
  assumes "upgrade_chain js sur iv now fs chain path = (fs', tr, r)" "upgrade_targets iv chain = Inr targets"
  shows "(tr = [] \<and> r \<noteq> None \<and> fs' = fs) \<or>
    (\<exists>existing fragment merged tr1 failed. merge_upgrades js existing fragment now = Inr merged \<and>
       fs path = Some (File fragment) \<and>
       existing = (case fs (upgrades_path chain) of Some (File c) \<Rightarrow> c | _ \<Rightarrow> []) \<and>
       record_history fs (upgrades_path chain) merged = Inr fs' \<and>
       phase_parallel (act sur upgrade_ops) targets [] = (tr1, failed) \<and>
       ((failed \<noteq> [] \<and> tr = tr1 \<and> r = Some (PushFailed failed)) \<or>
        (failed = [] \<and> (\<exists>r'. one_by_one (upgrade_phases sur) targets tr1 = (tr, r') \<and>
           r = map_option RestartFailed r'))))"
proof (cases "fs path")
  case None
  with assms show ?thesis by (auto simp: upgrade_chain_def)
next
  case (Some entry)
  show ?thesis
  proof (cases entry)
    case Dir
    with Some assms show ?thesis by (auto simp: upgrade_chain_def)
  next
    case (File fragment)
    define old where "old = (case fs (upgrades_path chain) of
            Some (File contents) \<Rightarrow> Inr contents | None \<Rightarrow> Inr [] | Some Dir \<Rightarrow> Inl HistoryUnreadable)"
    show ?thesis
    proof (cases "\<exists>existing merged fs1. old = Inr existing \<and> merge_upgrades js existing fragment now = Inr merged \<and>
        record_history fs (upgrades_path chain) merged = Inr fs1")
      case False
      with Some File assms show ?thesis
        by (auto simp: upgrade_chain_def old_def [symmetric] split: sum.splits)
    next
      case True
      then obtain existing merged fs1 where m: "old = Inr existing"
        "merge_upgrades js existing fragment now = Inr merged"
        "record_history fs (upgrades_path chain) merged = Inr fs1" by blast
      have ex: "existing = (case fs (upgrades_path chain) of Some (File c) \<Rightarrow> c | _ \<Rightarrow> [])"
        using m(1) by (auto simp: old_def split: option.splits entry.splits)
      obtain tr1 failed where p: "phase_parallel (act sur upgrade_ops) targets [] = (tr1, failed)" by fastforce
      obtain tr2 r2 where q: "one_by_one (upgrade_phases sur) targets tr1 = (tr2, r2)" by fastforce
      have "upgrade_chain js sur iv now fs chain path =
          (if failed \<noteq> [] then (fs1, tr1, Some (PushFailed failed)) else (fs1, tr2, map_option RestartFailed r2))"
        using Some File m p q assms(2)
        by (cases r2) (simp_all add: upgrade_chain_def old_def [symmetric])
      with assms(1) m p q ex Some File show ?thesis by (auto split: if_splits)
    qed
  qed
qed

lemma upgrade_chain_work:
  assumes "upgrade_chain js sur iv now fs chain path = (fs', tr, r)" "upgrade_targets iv chain = Inr targets"
    "tr \<noteq> []"
  shows "(\<exists>existing fragment merged tr1 failed. merge_upgrades js existing fragment now = Inr merged \<and>
       fs path = Some (File fragment) \<and>
       existing = (case fs (upgrades_path chain) of Some (File c) \<Rightarrow> c | _ \<Rightarrow> []) \<and>
       record_history fs (upgrades_path chain) merged = Inr fs' \<and>
       phase_parallel (act sur upgrade_ops) targets [] = (tr1, failed) \<and>
       ((failed \<noteq> [] \<and> tr = tr1 \<and> r = Some (PushFailed failed)) \<or>
        (failed = [] \<and> (\<exists>r'. one_by_one (upgrade_phases sur) targets tr1 = (tr, r') \<and>
           r = map_option RestartFailed r'))))"
  using upgrade_chain_cases [OF assms(1,2)]
proof (rule disjE)
  assume "tr = [] \<and> r \<noteq> None \<and> fs' = fs"
  with assms(3) show ?thesis by simp
qed

lemma record_history_written:
  assumes "record_history fs p merged = Inr fs'" "p \<noteq> []"
  shows "fs' p = Some (File merged)"
proof -
  have "butlast p @ [last p @ ''.tmp''] \<noteq> p"
    using assms(2) by (metis append_butlast_last_id append_self_conv last_snoc list.distinct(1))
  with assms(1) show ?thesis
    by (auto simp: record_history_def write_file_def Let_def split: if_splits)
qed

text \<open>C33: a chain upgrade cannot leave the chain half upgraded by its order of work. In whatever way
  the remote operations succeed or fail: nothing is done to a machine before the merged history
  is in its file under \<^verbatim>\<open>deployment/\<close>; no machine is stopped, started or waited for before the
  history has been installed on every machine of the chain; each machine is only taken down
  after every machine before it has become ready again; and machines of other chains are not
  touched.\<close>

theorem upgrade_pushes_before_restarts:
  assumes "upgrade_chain js sur iv now fs chain path = (fs', tr, r)" "upgrade_targets iv chain = Inr targets"
    and "distinct (map num targets)"
  shows "(tr \<noteq> [] \<longrightarrow> (\<exists>existing fragment merged. fs path = Some (File fragment) \<and>
       existing = (case fs (upgrades_path chain) of Some (File c) \<Rightarrow> c | _ \<Rightarrow> []) \<and>
       merge_upgrades js existing fragment now = Inr merged \<and>
       fs' (upgrades_path chain) = Some (File merged))) \<and>
    (\<forall>i < length tr. restarting (op_of (tr ! i)) \<longrightarrow>
       (\<forall>nd \<in> set targets. succeeded (take i tr) nd InstallUpgrade)) \<and>
    (\<forall>a b i. a < b \<and> b < length targets \<and> i < length tr \<and> fst (tr ! i) = num (targets ! b) \<and>
       restarting (op_of (tr ! i)) \<longrightarrow> succeeded (take i tr) (targets ! a) AwaitReady) \<and>
    (\<forall>e \<in> set tr. \<exists>nd \<in> set targets. fst e = num nd \<and> chain_of_node (nd_node nd) = chain)"
proof -
  have mine: "\<forall>nd \<in> set targets. chain_of_node (nd_node nd) = chain"
    using assms(2) by (auto simp: upgrade_targets_def split: sum.splits if_splits)
  show ?thesis
  proof (cases "tr = []")
    case True
    then show ?thesis by simp
  next
    case False
    from upgrade_chain_work [OF assms(1,2) False] show ?thesis
    proof (elim exE conjE)
      fix existing fragment merged tr1 failed
      assume m0: "merge_upgrades js existing fragment now = Inr merged" "fs path = Some (File fragment)"
          "existing = (case fs (upgrades_path chain) of Some (File c) \<Rightarrow> c | _ \<Rightarrow> [])"
        and rec: "record_history fs (upgrades_path chain) merged = Inr fs'"
        and push: "phase_parallel (act sur upgrade_ops) targets [] = (tr1, failed)"
        and rest: "(failed \<noteq> [] \<and> tr = tr1 \<and> r = Some (PushFailed failed)) \<or>
          (failed = [] \<and> (\<exists>r'. one_by_one (upgrade_phases sur) targets tr1 = (tr, r') \<and>
             r = map_option RestartFailed r'))"
      have "fs' (upgrades_path chain) = Some (File merged)"
        by (rule record_history_written [OF rec]) (simp add: upgrades_path_def)
      then have m: "\<exists>existing fragment merged. fs path = Some (File fragment) \<and>
         existing = (case fs (upgrades_path chain) of Some (File c) \<Rightarrow> c | _ \<Rightarrow> []) \<and>
         merge_upgrades js existing fragment now = Inr merged \<and>
         fs' (upgrades_path chain) = Some (File merged)" using m0 by blast
      note ev = push_events(1) [OF push]
      from rest show ?thesis
      proof (elim disjE exE conjE)
        assume tr: "tr = tr1"
        have "\<not> restarting (op_of (tr ! i))" if "i < length tr" for i using ev that tr by simp
        moreover have "\<forall>e \<in> set tr. \<exists>nd \<in> set targets. fst e = num nd \<and> chain_of_node (nd_node nd) = chain"
          using ev mine tr by blast
        ultimately show ?thesis using m by blast
      next
        fix r'
        assume none: "failed = []" and run: "one_by_one (upgrade_phases sur) targets tr1 = (tr, r')"
        from one_by_one_within [OF upgrade_phases_within run] obtain evs where evs: "tr = tr1 @ evs"
          "\<forall>e \<in> set evs. (\<exists>nd \<in> set targets. fst e = num nd) \<and> restarting (op_of e)" by blast
        have all: "\<forall>nd \<in> set targets. succeeded tr1 nd InstallUpgrade" by (rule push_events(2) [OF push none])
        have q: "always_before (\<lambda>e. f e \<and> restarting (op_of e)) P tr1" for f P
          using ev by (auto simp: always_before_def)
        have "always_before (\<lambda>e. True \<and> restarting (op_of e)) (\<lambda>pre. \<forall>nd \<in> set targets. succeeded pre nd InstallUpgrade) tr"
          unfolding evs(1) by (rule always_before_after [OF q lasting_all_succeeded all])
        moreover have "always_before (\<lambda>e. fst e = num (targets ! b) \<and> restarting (op_of e))
            (\<lambda>pre. succeeded pre (targets ! a) AwaitReady) tr" if "a < b" "b < length targets" for a b
        proof (rule one_by_one_order [OF upgrade_phases_within _ run assms(3) that q])
          show "(''readiness'', act sur (\<lambda>_. [AwaitReady])) \<in> set (upgrade_phases sur)"
            by (simp add: upgrade_phases_def)
        qed
        moreover have "\<forall>e \<in> set tr. \<exists>nd \<in> set targets. fst e = num nd \<and> chain_of_node (nd_node nd) = chain"
          using ev evs mine by auto
        ultimately show ?thesis using m unfolding always_before_def by blast
      qed
    qed
  qed
qed

section \<open>Examples\<close>

definition upgrade_entry :: "int \<Rightarrow> (string \<times> json) list \<Rightarrow> json" where
  "upgrade_entry ts accounts = JObject [(''blockTimestamp'', JInt ts), (''accounts'', JObject accounts)]"

definition code_account :: "(string \<times> json) list" where
  "code_account = [(''0xaa'', JObject [(''code'', JString ''0x60'')])]"

definition upgrade_doc :: "json list \<Rightarrow> json" where
  "upgrade_doc es = JObject [(''stateUpgrades'', JArray es)]"

definition merged_doc :: json where
  "merged_doc = upgrade_doc [upgrade_entry 50 [], upgrade_entry 200 code_account]"

definition sample_js :: json_text where
  "sample_js = \<lparr>js_parse = (\<lambda>t. if t = ''F'' then Some (upgrade_doc [upgrade_entry 200 code_account])
      else if t = ''H'' then Some (upgrade_doc [upgrade_entry 50 []])
      else if t = ''U'' then Some (upgrade_doc [upgrade_entry 200 code_account, upgrade_entry 150 code_account])
      else if t = ''M'' @ [CHR 0x0A] then Some merged_doc else None),
    js_encode = (\<lambda>j. if j = merged_doc then ''M'' else ''X'')\<rparr>"

lemmas upgrade_eval = upgrade_doc_def upgrade_entry_def code_account_def json_field_def decode_raw_def
  decode_upgrade_def decode_state_upgrade_def decode_timestamp_def decode_pairs_def decode_account_def
  lower_char_def is_upper_def less_eq_char_def

lemma sample_documents:
  "decode_raw (upgrade_doc es) = Some \<lparr>ru_StateUpgrades = es, ru_PrecompileUpgrades = []\<rparr>"
  "decode_timestamp (upgrade_entry ts acs) = (if - (2 ^ 63) \<le> ts \<and> ts < 2 ^ 63 then Some ts else None)"
  "decode_state_upgrade (upgrade_entry 200 code_account) =
     Some \<lparr>su_BlockTimestamp = 200, su_Accounts = [(''0xaa'', \<lparr>ac_Code = ''0x60'', ac_Storage = []\<rparr>)]\<rparr>"
  "decode_state_upgrade (upgrade_entry 150 code_account) =
     Some \<lparr>su_BlockTimestamp = 150, su_Accounts = [(''0xaa'', \<lparr>ac_Code = ''0x60'', ac_Storage = []\<rparr>)]\<rparr>"
  by (simp_all add: upgrade_eval)

lemma sample_merge: "merge_upgrades sample_js ''H'' ''F'' 100 = Inr ''M\<newline>''"
  by (simp add: merge_upgrades_def validate_upgrade_contents_def sample_js_def decode_upgrade_def
      sample_documents check_state_upgrade_def check_account_def state_upgrade_timestamps_def
      entry_timestamp_def check_after_def encode_raw_def merged_doc_def del: rbind_eq_Inr)
    (simp add: upgrade_doc_def)

theorem merge_appends_history_witness:
  "\<exists>h. history sample_js ''H'' = Some h \<and>
     history sample_js ''M\<newline>'' = Some \<lparr>ru_StateUpgrades = ru_StateUpgrades h @ [upgrade_entry 200 code_account],
       ru_PrecompileUpgrades = ru_PrecompileUpgrades h\<rparr>"
proof -
  have "js_reads_back sample_js ''M\<newline>''"
    by (auto simp: js_reads_back_def sample_js_def split: if_splits)
  from merge_appends_history [OF sample_merge this] show ?thesis
    by (auto simp: sample_js_def sample_documents)
qed

text \<open>The entries of one fragment are not compared with each other: a fragment whose entries are out
  of order is accepted, recorded and installed.\<close>

lemma merge_accepts_unordered: "\<exists>text. merge_upgrades sample_js [] ''U'' 100 = Inr text"
  by (simp add: merge_upgrades_def validate_upgrade_contents_def sample_js_def decode_upgrade_def
      sample_documents check_state_upgrade_def check_account_def del: rbind_eq_Inr)

definition upgrade_root :: file_system where
  "upgrade_root = [[] \<mapsto> Dir, [''deployment''] \<mapsto> Dir, [''deployment'', ''upgrades.json''] \<mapsto> File ''H'',
     [''fragment.json''] \<mapsto> File ''F'']"

lemma sample_upgrade_targets:
  "\<exists>a b c. upgrade_targets full_iv main_chain = Inr [a, b, c] \<and> num a = 2 \<and> num b = 3 \<and> num c = 6"
proof -
  have "\<exists>ts. rmap (target full_iv) (l1_nodes full_iv) = Inr ts"
    using target_ok [OF full_iv_ok] by (intro rmap_total) (auto simp: l1_nodes_def)
  then obtain ts where ts: "rmap (target full_iv) (l1_nodes full_iv) = Inr ts" by blast
  have l: "l1_nodes full_iv = tl sample_nodes"
    by (simp add: full_iv_def sample_iv_def base_inventory_def l1_nodes_def sample_nodes_def)
  from rmap_target_nodes [OF ts] have nodes: "map nd_node ts = tl sample_nodes" by (simp add: l)
  then obtain a b x y c where abc: "ts = [a, b, x, y, c]" by (auto simp: sample_nodes_def)
  have "inv_created full_iv" "main_chain \<in> set (inv_chains full_iv)"
    by (simp_all add: full_iv_def sample_iv_def base_inventory_def sample_chains main_chain_def)
  moreover have "lifecycle_targets full_iv [] = Inr ts"
    using ts by (simp add: lifecycle_targets_def select_nodes_def l sample_nodes_def)
  ultimately show ?thesis using nodes abc
    by (simp add: upgrade_targets_def sample_nodes_def chain_of_node_def effective_chain_def main_chain_def)
qed

theorem upgrade_pushes_before_restarts_witness:
  "\<exists>fs' tr. upgrade_chain sample_js full_sur full_iv 100 upgrade_root main_chain [''fragment.json''] = (fs', tr, None) \<and>
     fs' [''deployment'', ''upgrades.json''] = Some (File ''M\<newline>'') \<and> length tr = 18 \<and>
     filter (\<lambda>i. restarting (op_of (tr ! i)) \<and>
       \<not> {(2, InstallUpgrade, True), (3, InstallUpgrade, True), (6, InstallUpgrade, True)} \<subseteq> set (take i tr)) [0..<length tr] = [] \<and>
     filter (\<lambda>i. restarting (op_of (tr ! i)) \<and> fst (tr ! i) = 6 \<and> (3, AwaitReady, True) \<notin> set (take i tr)) [0..<length tr] = []"
proof -
  obtain a b c where t: "upgrade_targets full_iv main_chain = Inr [a, b, c]"
    and n: "num a = 2" "num b = 3" "num c = 6" using sample_upgrade_targets by blast
  have run: "sur_runner full_sur = (\<lambda>_ _ _. True)" by (simp add: full_sur_def sample_sur_def)
  obtain fs' where fs: "record_history upgrade_root (upgrades_path main_chain) ''M\<newline>'' = Inr fs'"
    by (simp add: record_history_def write_file_def upgrade_root_def upgrades_path_def)
  obtain tr where u: "upgrade_chain sample_js full_sur full_iv 100 upgrade_root main_chain [''fragment.json''] = (fs', tr, None)"
    "length tr = 18"
    using t fs sample_merge
    by (simp add: upgrade_chain_def upgrade_root_def upgrades_path_def main_chain_def act_def ops_action_def
        upgrade_ops_def exec_def run n upgrade_phases_def bind_outcome_def)
  have "distinct (map num [a, b, c])" using n by simp
  note facts = upgrade_pushes_before_restarts [OF u(1) t this]
  have "fs' [''deployment'', ''upgrades.json''] = Some (File ''M\<newline>'')"
    using record_history_written [OF fs] by (simp add: upgrades_path_def main_chain_def)
  moreover have "\<forall>i < length tr. restarting (op_of (tr ! i)) \<longrightarrow>
      {(2, InstallUpgrade, True), (3, InstallUpgrade, True), (6, InstallUpgrade, True)} \<subseteq> set (take i tr)"
    using facts n by (simp add: succeeded_def)
  moreover have "\<forall>i < length tr. restarting (op_of (tr ! i)) \<and> fst (tr ! i) = 6 \<longrightarrow> (3, AwaitReady, True) \<in> set (take i tr)"
    using conjunct1 [OF conjunct2 [OF conjunct2 [OF facts]], THEN spec, THEN spec, of 1 2] n
    by (simp add: succeeded_def)
  ultimately show ?thesis using u by (intro exI [of _ fs'] exI [of _ tr]) (auto simp: filter_empty_conv)
qed

end
