(* ===== verification/App_Install.thy ===== *)
theory App_Install
  imports Upgrades
begin

text \<open>
  Installing an application on a running chain, \<^verbatim>\<open>internal/fleet/app.go\<close>: the manifest
  \<^verbatim>\<open>apps/<name>/app.json\<close>, the choice of the target chain, the renderer, which is another program and
  a parameter, and the hand-over of what it wrote to the chain upgrade of theory Upgrades. The name of
  an application is one path component.
\<close>

section \<open>The manifest\<close>

record app_manifest =
  am_Name :: string
  am_Description :: string
  am_Chain :: string
  am_Render :: "string list"
  am_Output :: string

datatype app_error =
    AppNotJSON
  | AppNamed string
  | AppNoRenderer
  | AppBadChain string
  | AppBadOutput string
  | AppNoManifest
  | AppManifestUnreadable
  | AppInventory fleet_error
  | AppChainNotDeclared string
  | AppRenderFailed
  | AppNotWritten
  | AppUpgrade upgrade_error

definition app_manifest_path :: "string \<Rightarrow> path" where
  "app_manifest_path name = [''apps'', name, ''app.json'']"

definition decode_app_manifest :: "json \<Rightarrow> app_manifest option" where
  "decode_app_manifest j = Option.bind (json_object j) (\<lambda>fs.
     Option.bind (json_string (json_field ''name'' fs)) (\<lambda>name.
     Option.bind (json_string (json_field ''description'' fs)) (\<lambda>description.
     Option.bind (json_string (json_field ''chain'' fs)) (\<lambda>chain.
     Option.bind (Option.bind (json_array (json_field ''render'' fs)) (all_some json_string)) (\<lambda>render.
     Option.bind (json_string (json_field ''output'' fs)) (\<lambda>output'.
       Some \<lparr>am_Name = name, am_Description = description, am_Chain = chain, am_Render = render, am_Output = output'\<rparr>))))))"

definition parse_app_manifest :: "json_text \<Rightarrow> string \<Rightarrow> string \<Rightarrow> app_error + app_manifest" where
  "parse_app_manifest js contents dir = (case Option.bind (js_parse js contents) decode_app_manifest of
      None \<Rightarrow> Inl AppNotJSON
    | Some m \<Rightarrow>
        if am_Name m \<noteq> dir then Inl (AppNamed (am_Name m))
        else if am_Render m = [] \<or> hd (am_Render m) = [] then Inl AppNoRenderer
        else if am_Chain m \<noteq> [] \<and> \<not> valid_chain_name (am_Chain m) then Inl (AppBadChain (am_Chain m))
        else let m' = (if am_Output m = [] then m\<lparr>am_Output := ''upgrade.json''\<rparr> else m) in
          if has_prefix (am_Output m') ''/'' \<or> contains (am_Output m') ''..'' then Inl (AppBadOutput (am_Output m'))
          else Inr m')"

definition load_app_manifest :: "json_text \<Rightarrow> file_system \<Rightarrow> string \<Rightarrow> app_error + app_manifest" where
  "load_app_manifest js fs name = (case fs (app_manifest_path name) of
      None \<Rightarrow> Inl AppNoManifest
    | Some Dir \<Rightarrow> Inl AppManifestUnreadable
    | Some (File contents) \<Rightarrow> parse_app_manifest js contents name)"

definition resolve_app_chain :: "string \<Rightarrow> string \<Rightarrow> string" where
  "resolve_app_chain flag manifest = (if flag \<noteq> [] then flag else if manifest \<noteq> [] then manifest else main_chain)"

definition require_declared_chain :: "string list \<Rightarrow> string \<Rightarrow> app_error + unit" where
  "require_declared_chain declared chain = (if chain \<in> set declared then Inr () else Inl (AppChainNotDeclared chain))"

section \<open>Installing\<close>

text \<open>\<^verbatim>\<open>filepath.Join\<close> of the deployment root and an output without \<^verbatim>\<open>..\<close>.\<close>

definition app_output_path :: "string \<Rightarrow> path" where
  "app_output_path output' = filter (\<lambda>c. c \<noteq> [] \<and> c \<noteq> ''.'') (go_split (CHR ''/'') output')"

text \<open>\<open>load\<close> is the inventory the commands load from the deployment root, \<open>render\<close> what a run of the
  renderer makes of the root and whether it succeeds. The upgrade loads the inventory again.\<close>

definition install_app ::
  "json_text \<Rightarrow> ('cid, 'pop) surroundings \<Rightarrow> (file_system \<Rightarrow> fleet_error + ('cid, 'pop) inventory)
   \<Rightarrow> (string list \<Rightarrow> file_system \<Rightarrow> file_system \<times> bool) \<Rightarrow> int \<Rightarrow> file_system \<Rightarrow> string \<Rightarrow> string
   \<Rightarrow> file_system \<times> trace \<times> app_error option" where
  "install_app js sur load render now fs name flag = (case load_app_manifest js fs name of
      Inl e \<Rightarrow> (fs, [], Some e)
    | Inr m \<Rightarrow> (let chain = resolve_app_chain flag (am_Chain m) in
        case load fs of
          Inl e \<Rightarrow> (fs, [], Some (AppInventory e))
        | Inr iv \<Rightarrow> (case require_declared_chain (inv_chains iv) chain of
            Inl e \<Rightarrow> (fs, [], Some e)
          | Inr _ \<Rightarrow> (case render (am_Render m) fs of
              (fs1, False) \<Rightarrow> (fs1, [], Some AppRenderFailed)
            | (fs1, True) \<Rightarrow>
                if fs1 (app_output_path (am_Output m)) = None then (fs1, [], Some AppNotWritten)
                else (case load fs1 of
                    Inl e \<Rightarrow> (fs1, [], Some (AppInventory e))
                  | Inr iv1 \<Rightarrow> (case upgrade_chain js sur iv1 now fs1 chain (app_output_path (am_Output m)) of
                      (fs2, tr, r) \<Rightarrow> (fs2, tr, map_option AppUpgrade r)))))))"

section \<open>Listing\<close>

datatype app_line = AppWarning string | AppLine string string string

text \<open>The directories under \<^verbatim>\<open>apps/\<close> in the order of \<^verbatim>\<open>ReadDir\<close>: the lines printed, and the error
  that ends them.\<close>

fun list_apps :: "json_text \<Rightarrow> file_system \<Rightarrow> string list \<Rightarrow> app_line list \<times> app_error option" where
  "list_apps js fs [] = ([], None)"
| "list_apps js fs (name # names) = (if fs [''apps'', name] \<noteq> Some Dir then list_apps js fs names
     else case load_app_manifest js fs name of
       Inl AppNoManifest \<Rightarrow> (let (ls, e) = list_apps js fs names in (AppWarning name # ls, e))
     | Inl e \<Rightarrow> ([], Some e)
     | Inr m \<Rightarrow> (let (ls, e) = list_apps js fs names in
         (AppLine (am_Name m) (resolve_app_chain [] (am_Chain m)) (am_Description m) # ls, e)))"

section \<open>What is installed\<close>

lemma go_split_no_dots:
  "c \<in> set (go_split (CHR ''/'') s) \<Longrightarrow> \<exists>a b. s = a @ c @ b"
proof -
  have split: "c \<in> set (split_acc d cur s) \<Longrightarrow> \<exists>a b. rev cur @ s = a @ c @ b" for d cur
  proof (induction s arbitrary: cur)
    case Nil
    then show ?case by (intro exI [of _ "[]"]) simp
  next
    case (Cons x s)
    show ?case
    proof (cases "x = d")
      case True
      then have "c = rev cur \<or> c \<in> set (split_acc d [] s)" using Cons.prems by simp
      then show ?thesis
      proof
        assume "c = rev cur"
        then have "rev cur @ x # s = [] @ c @ (x # s)" by simp
        then show ?thesis by blast
      next
        assume "c \<in> set (split_acc d [] s)"
        from Cons.IH [OF this] obtain a b where "s = a @ c @ b" by auto
        then show ?thesis by (intro exI [of _ "rev cur @ x # a"] exI [of _ b]) simp
      qed
    next
      case False
      then show ?thesis using Cons.IH [of "x # cur"] Cons.prems by simp
    qed
  qed
  assume "c \<in> set (go_split (CHR ''/'') s)"
  then show ?thesis using split [of "CHR ''/''" "[]"] by (simp add: go_split_def)
qed

lemma contains_infix: "contains (a @ part @ b) part"
proof -
  have "has_prefix (drop (length a) (a @ part @ b)) part" by (simp add: has_prefix_def)
  moreover have "length a \<in> set [0..<Suc (length (a @ part @ b))]" by simp
  ultimately show ?thesis unfolding contains_def list_ex_iff by blast
qed

text \<open>The output stays inside the deployment root.\<close>

lemma output_inside:
  assumes "parse_app_manifest js contents dir = Inr m"
  shows "\<forall>c \<in> set (app_output_path (am_Output m)). c \<noteq> ''..'' \<and> c \<noteq> ''.'' \<and> c \<noteq> []"
proof
  fix c assume c: "c \<in> set (app_output_path (am_Output m))"
  have "\<not> contains (am_Output m) ''..''"
    using assms by (auto simp: parse_app_manifest_def Let_def split: option.splits if_splits)
  moreover from c obtain a b where "am_Output m = a @ c @ b"
    using go_split_no_dots by (fastforce simp: app_output_path_def)
  ultimately have "c \<noteq> ''..''" using contains_infix by metis
  with c show "c \<noteq> ''..'' \<and> c \<noteq> ''.'' \<and> c \<noteq> []" by (simp add: app_output_path_def)
qed

section \<open>Only the chosen chain\<close>

lemma upgrade_chain_confined:
  assumes "upgrade_chain js sur iv now fs chain path = (fs', tr, r)" "tr \<noteq> []"
  shows "chain \<in> set (inv_chains iv) \<and> inv_created iv"
    and "\<forall>e \<in> set tr. \<exists>n \<in> set (l1_nodes iv). fst e = Number n \<and> chain_of_node n = chain"
    and "\<exists>existing fragment merged. fs path = Some (File fragment)
      \<and> existing = (case fs (upgrades_path chain) of Some (File c) \<Rightarrow> c | _ \<Rightarrow> [])
      \<and> merge_upgrades js existing fragment now = Inr merged \<and> fs' (upgrades_path chain) = Some (File merged)"
proof -
  have "\<exists>targets. upgrade_targets iv chain = Inr targets"
    using assms by (cases "upgrade_targets iv chain") (auto simp: upgrade_chain_def split: option.splits entry.splits)
  then obtain targets where t: "upgrade_targets iv chain = Inr targets" ..
  then obtain sel where sel: "lifecycle_targets iv [] = Inr sel" "inv_created iv" "chain \<in> set (inv_chains iv)"
    "targets = filter (\<lambda>nd. chain_of_node (nd_node nd) = chain) sel"
    by (auto simp: upgrade_targets_def split: sum.splits if_splits)
  then show "chain \<in> set (inv_chains iv) \<and> inv_created iv" by simp
  from upgrade_chain_work [OF assms(1) t assms(2)] obtain existing fragment merged tr1 failed where w:
    "merge_upgrades js existing fragment now = Inr merged" "fs path = Some (File fragment)"
    "existing = (case fs (upgrades_path chain) of Some (File c) \<Rightarrow> c | _ \<Rightarrow> [])"
    "record_history fs (upgrades_path chain) merged = Inr fs'"
    "phase_parallel (act sur upgrade_ops) targets [] = (tr1, failed)"
    "tr = tr1 \<or> (\<exists>q. one_by_one (upgrade_phases sur) targets tr1 = (tr, q))" by blast
  have "\<forall>e \<in> set tr. \<exists>nd \<in> set targets. fst e = num nd"
  proof (cases "tr = tr1")
    case True
    then show ?thesis using push_events(1) [OF w(5)] by blast
  next
    case False
    with w(6) obtain q where "one_by_one (upgrade_phases sur) targets tr1 = (tr, q)" by blast
    from one_by_one_within [OF upgrade_phases_within this] push_events(1) [OF w(5)] show ?thesis by fastforce
  qed
  moreover have "\<exists>n \<in> set (l1_nodes iv). num nd = Number n \<and> chain_of_node n = chain" if "nd \<in> set targets" for nd
  proof -
    from that sel have nd: "nd \<in> set sel" "chain_of_node (nd_node nd) = chain" by auto
    from sel(1) have "rmap (target iv) (l1_nodes iv) = Inr sel"
      by (auto simp: lifecycle_targets_def select_nodes_def split: sum.splits if_splits)
    from rmap_target_nodes [OF this] have "nd_node nd \<in> set (l1_nodes iv)" using nd(1) by (metis image_eqI list.set_map)
    then show ?thesis using nd(2) by blast
  qed
  ultimately show "\<forall>e \<in> set tr. \<exists>n \<in> set (l1_nodes iv). fst e = Number n \<and> chain_of_node n = chain" by fastforce
  have "fs' (upgrades_path chain) = Some (File merged)"
    by (rule record_history_written [OF w(4)]) (simp add: upgrades_path_def)
  then show "\<exists>existing fragment merged. fs path = Some (File fragment)
      \<and> existing = (case fs (upgrades_path chain) of Some (File c) \<Rightarrow> c | _ \<Rightarrow> [])
      \<and> merge_upgrades js existing fragment now = Inr merged \<and> fs' (upgrades_path chain) = Some (File merged)"
    using w(1-3) by blast
qed

lemma install_app_cases:
  assumes "install_app js sur load render now fs name flag = (fs2, tr, r)"
  obtains (early) "tr = []" "r \<noteq> None"
  | (upgraded) m iv fs1 iv1 r1 where "load_app_manifest js fs name = Inr m" "load fs = Inr iv"
      "resolve_app_chain flag (am_Chain m) \<in> set (inv_chains iv)" "render (am_Render m) fs = (fs1, True)"
      "load fs1 = Inr iv1"
      "upgrade_chain js sur iv1 now fs1 (resolve_app_chain flag (am_Chain m)) (app_output_path (am_Output m)) = (fs2, tr, r1)"
      "r = map_option AppUpgrade r1"
  using assms by (auto simp: install_app_def require_declared_chain_def Let_def
      split: sum.splits if_splits prod.splits bool.splits)

lemma load_app_manifest_name: "load_app_manifest js fs name = Inr m \<Longrightarrow> am_Name m = name"
  by (auto simp: load_app_manifest_def parse_app_manifest_def Let_def split: option.splits entry.splits if_splits)

text \<open>installing an application is confined to the one chain it targets. Whenever it touches a
  machine: the application's manifest has been read and carries its name; the chain is the one of the
  flag, else of the manifest, else main, and was declared before the renderer ran; the renderer
  succeeded; the file it names, which lies inside the deployment root, merged into the recorded history
  of that chain and the history with it is what stands in its file; and only L1 machines of that chain
  are touched. A chain that is not declared stops the command before the renderer runs.\<close>

theorem install_app_one_chain:
  assumes "install_app js sur load render now fs name flag = (fs2, tr, r)"
    and "load_app_manifest js fs name = Inr m" "chain = resolve_app_chain flag (am_Chain m)" "load fs = Inr iv"
  shows "(chain \<notin> set (inv_chains iv) \<longrightarrow> fs2 = fs \<and> tr = [] \<and> r = Some (AppChainNotDeclared chain)) \<and>
    (tr \<noteq> [] \<longrightarrow> am_Name m = name \<and> chain \<in> set (inv_chains iv) \<and>
      (\<exists>fs1 iv1 existing fragment merged. render (am_Render m) fs = (fs1, True) \<and> load fs1 = Inr iv1 \<and>
        fs1 (app_output_path (am_Output m)) = Some (File fragment) \<and> ''..'' \<notin> set (app_output_path (am_Output m)) \<and>
        existing = (case fs1 (upgrades_path chain) of Some (File c) \<Rightarrow> c | _ \<Rightarrow> []) \<and>
        merge_upgrades js existing fragment now = Inr merged \<and> fs2 (upgrades_path chain) = Some (File merged) \<and>
        (\<forall>e \<in> set tr. \<exists>n \<in> set (l1_nodes iv1). fst e = Number n \<and> chain_of_node n = chain)))"
proof (rule conjI; rule impI)
  assume "chain \<notin> set (inv_chains iv)"
  then show "fs2 = fs \<and> tr = [] \<and> r = Some (AppChainNotDeclared chain)"
    using assms by (simp add: install_app_def require_declared_chain_def)
next
  assume tr: "tr \<noteq> []"
  from assms(1) show "am_Name m = name \<and> chain \<in> set (inv_chains iv) \<and>
      (\<exists>fs1 iv1 existing fragment merged. render (am_Render m) fs = (fs1, True) \<and> load fs1 = Inr iv1 \<and>
        fs1 (app_output_path (am_Output m)) = Some (File fragment) \<and> ''..'' \<notin> set (app_output_path (am_Output m)) \<and>
        existing = (case fs1 (upgrades_path chain) of Some (File c) \<Rightarrow> c | _ \<Rightarrow> []) \<and>
        merge_upgrades js existing fragment now = Inr merged \<and> fs2 (upgrades_path chain) = Some (File merged) \<and>
        (\<forall>e \<in> set tr. \<exists>n \<in> set (l1_nodes iv1). fst e = Number n \<and> chain_of_node n = chain))"
  proof (cases rule: install_app_cases)
    case early
    with tr show ?thesis by simp
  next
    case (upgraded m' iv' fs1 iv1 r1)
    have eq: "m' = m" "iv' = iv" using upgraded(1,2) assms(2,4) by auto
    from assms(2) have "\<exists>contents. parse_app_manifest js contents name = Inr m"
      by (auto simp: load_app_manifest_def split: option.splits entry.splits)
    then have "''..'' \<notin> set (app_output_path (am_Output m))" using output_inside by blast
    moreover note u = upgraded(6) [unfolded eq, folded assms(3)]
    moreover note upgrade_chain_confined(2,3) [OF u tr]
    ultimately show ?thesis using upgraded(3-5) load_app_manifest_name [OF assms(2)]
      unfolding eq assms(3) [symmetric] by blast
  qed
qed

text \<open>The check that the output exists after the renderer does not see who wrote it: a file left by an
  earlier run is installed when the renderer writes none.\<close>

lemma stale_output_installed:
  assumes "load_app_manifest js fs name = Inr m" "load fs = Inr iv"
    "resolve_app_chain flag (am_Chain m) \<in> set (inv_chains iv)" "fs (app_output_path (am_Output m)) \<noteq> None"
    "upgrade_chain js sur iv now fs (resolve_app_chain flag (am_Chain m)) (app_output_path (am_Output m)) = (fs2, tr, None)"
  shows "install_app js sur load (\<lambda>_ fs. (fs, True)) now fs name flag = (fs2, tr, None)"
  using assms by (simp add: install_app_def require_declared_chain_def)

section \<open>An example\<close>

text \<open>The sample upgrade of theory Upgrades as an application.\<close>

definition app_js :: json_text where
  "app_js = sample_js\<lparr>js_parse := (\<lambda>t. if t = ''A'' then Some (JObject [(''name'', JString ''feed''),
      (''render'', JArray [JString ''bin/oracle'']), (''output'', JString ''./out/upgrade.json'')])
    else js_parse sample_js t)\<rparr>"

definition app_root :: file_system where
  "app_root = [[] \<mapsto> Dir, [''deployment''] \<mapsto> Dir, [''deployment'', ''upgrades.json''] \<mapsto> File ''H'',
     [''apps'', ''feed'', ''app.json''] \<mapsto> File ''A'']"

definition app_render :: "string list \<Rightarrow> file_system \<Rightarrow> file_system \<times> bool" where
  "app_render argv fs = (fs([''out'', ''upgrade.json''] \<mapsto> File ''F''), argv = [''bin/oracle''])"

lemma app_loads: "load_app_manifest app_js app_root ''feed'' = Inr \<lparr>am_Name = ''feed'', am_Description = [],
    am_Chain = [], am_Render = [''bin/oracle''], am_Output = ''./out/upgrade.json''\<rparr>"
  by (simp add: load_app_manifest_def app_root_def app_manifest_path_def parse_app_manifest_def app_js_def
      decode_app_manifest_def json_field_def contains_def go_eval)

lemma app_merge: "merge_upgrades app_js ''H'' ''F'' 100 = Inr ''M\<newline>''"
proof -
  have "js_parse app_js ''F'' = js_parse sample_js ''F''" "js_parse app_js ''H'' = js_parse sample_js ''H''"
    "js_encode app_js = js_encode sample_js" by (simp_all add: app_js_def)
  then show ?thesis using sample_merge unfolding merge_upgrades_def validate_upgrade_contents_def by (simp only:)
qed

theorem install_app_one_chain_witness:
  "\<exists>fs' tr. install_app app_js full_sur (\<lambda>_. Inr full_iv) app_render 100 app_root ''feed'' [] = (fs', tr, None)
    \<and> tr \<noteq> [] \<and> fs' [''deployment'', ''upgrades.json''] = Some (File ''M\<newline>'')"
proof -
  obtain a b c where t: "upgrade_targets full_iv main_chain = Inr [a, b, c]"
    and n: "num a = 2" "num b = 3" "num c = 6" using sample_upgrade_targets by blast
  have run: "sur_runner full_sur = (\<lambda>_ _ _. True)" by (simp add: full_sur_def sample_sur_def)
  have path: "app_output_path ''./out/upgrade.json'' = [''out'', ''upgrade.json'']"
    by (simp add: app_output_path_def go_eval)
  have chain: "resolve_app_chain [] [] = main_chain" by (simp add: resolve_app_chain_def)
  have main: "main_chain \<in> set (inv_chains full_iv)"
    by (simp add: full_iv_def sample_iv_def base_inventory_def sample_chains main_chain_def)
  define fs0 where "fs0 = app_root([''out'', ''upgrade.json''] \<mapsto> File ''F'')"
  have files: "fs0 (upgrades_path main_chain) = Some (File ''H'')" "fs0 [''out'', ''upgrade.json''] = Some (File ''F'')"
    by (simp_all add: fs0_def app_root_def upgrades_path_def main_chain_def)
  obtain fs' where fs: "record_history fs0 (upgrades_path main_chain) ''M\<newline>'' = Inr fs'"
    by (simp add: record_history_def write_file_def fs0_def app_root_def upgrades_path_def main_chain_def)
  have "\<exists>tr. upgrade_chain app_js full_sur full_iv 100 fs0 main_chain [''out'', ''upgrade.json''] = (fs', tr, None) \<and> tr \<noteq> []"
    using t fs app_merge
    by (simp add: upgrade_chain_def files act_def ops_action_def upgrade_ops_def exec_def run n
        upgrade_phases_def bind_outcome_def)
  then obtain tr where u: "upgrade_chain app_js full_sur full_iv 100 fs0 main_chain [''out'', ''upgrade.json''] = (fs', tr, None)"
    "tr \<noteq> []" by blast
  have i: "install_app app_js full_sur (\<lambda>_. Inr full_iv) app_render 100 app_root ''feed'' [] = (fs', tr, None)"
    using u(1) main by (simp add: install_app_def app_loads chain require_declared_chain_def app_render_def path
        Let_def fs0_def [symmetric] files(2))
  have render: "app_render [''bin/oracle''] app_root = (fs0, True)" by (simp add: app_render_def fs0_def)
  from install_app_one_chain [OF i app_loads refl refl] u(2) obtain fragment merged where
    "fs0 [''out'', ''upgrade.json''] = Some (File fragment)"
    "merge_upgrades app_js (case fs0 (upgrades_path main_chain) of Some (File c) \<Rightarrow> c | _ \<Rightarrow> []) fragment 100 = Inr merged"
    "fs' (upgrades_path main_chain) = Some (File merged)"
    by (auto simp: chain render path)
  then have "fs' (upgrades_path main_chain) = Some (File ''M\<newline>'')" using app_merge by (simp add: files)
  then show ?thesis using i u(2) by (auto simp: upgrades_path_def main_chain_def)
qed

end
