(* ===== verification/Feed_Config.thy ===== *)
theory Feed_Config
  imports Conversion_Search
begin

text \<open>
  The deployment record and the key of the price feed processes:
  \<^verbatim>\<open>apps/settlement-feed/internal/oraclerelay/config.go\<close> and \<^verbatim>\<open>keys.go\<close>. The text forms of IDs
  and of EVM addresses, and the key derivation, belong to libraries and are parameters.
\<close>

section \<open>The deployment\<close>

record ('id, 'addr) feed_deployment =
  fd_Network :: string
  fd_OracleChainID :: 'id
  fd_OracleSubnetID :: 'id
  fd_OracleConvertTxID :: 'id
  fd_MainChainID :: 'id
  fd_AggregatorAddress :: 'addr
  fd_ReceiverAddress :: 'addr
  fd_PriceFeedAddress :: 'addr
  fd_PriceFeedAggregatorAddress :: 'addr
  fd_FeederAddress :: 'addr

text \<open>\<open>ac_parse\<close> is \<^verbatim>\<open>IsHexAddress\<close> with \<^verbatim>\<open>HexToAddress\<close>; \<open>ac_zero\<close> the zero address.\<close>

record 'addr address_codec =
  ac_zero :: 'addr
  ac_parse :: "string \<Rightarrow> 'addr option"

datatype feed_config_error =
    FeedStateUnreadable
  | FeedNetworkMismatch string
  | FeedField state_error
  | FeedAddressMissing string
  | FeedAddressInvalid string string

definition feed_has_oracle :: "'id id_codec \<Rightarrow> ('id, 'addr) feed_deployment \<Rightarrow> bool" where
  "feed_has_oracle codec d \<longleftrightarrow> fd_OracleConvertTxID d \<noteq> id_empty codec"

text \<open>\<^verbatim>\<open>requiredID\<close> is the same routine as in the fleet's reader.\<close>

definition feed_id :: "'id id_codec \<Rightarrow> (string \<rightharpoonup> string) \<Rightarrow> string \<Rightarrow> feed_config_error + 'id" where
  "feed_id codec vals field = (let raw = trim_space (read_str vals field) in
     if raw = [] then Inl (FeedField (RequiredField field))
     else case id_of_text codec raw of None \<Rightarrow> Inl (FeedField (InvalidID field)) | Some i \<Rightarrow> Inr i)"

definition required_address ::
  "'addr address_codec \<Rightarrow> (string \<rightharpoonup> string) \<Rightarrow> string \<Rightarrow> feed_config_error + 'addr" where
  "required_address ac vals field = (let raw = trim_space (read_str vals field) in
     if raw = [] then Inl (FeedAddressMissing field)
     else case ac_parse ac raw of None \<Rightarrow> Inl (FeedAddressInvalid field raw) | Some a \<Rightarrow> Inr a)"

definition empty_feed_deployment ::
  "'id id_codec \<Rightarrow> 'addr address_codec \<Rightarrow> string \<Rightarrow> ('id, 'addr) feed_deployment" where
  "empty_feed_deployment codec ac network = \<lparr>fd_Network = network, fd_OracleChainID = id_empty codec,
     fd_OracleSubnetID = id_empty codec, fd_OracleConvertTxID = id_empty codec,
     fd_MainChainID = id_empty codec, fd_AggregatorAddress = ac_zero ac,
     fd_ReceiverAddress = ac_zero ac, fd_PriceFeedAddress = ac_zero ac,
     fd_PriceFeedAggregatorAddress = ac_zero ac, fd_FeederAddress = ac_zero ac\<rparr>"

definition load_feed_oracle ::
  "'id id_codec \<Rightarrow> 'addr address_codec \<Rightarrow> (string \<rightharpoonup> string) \<Rightarrow> ('id, 'addr) feed_deployment
   \<Rightarrow> feed_config_error + ('id, 'addr) feed_deployment" where
  "load_feed_oracle codec ac vals d =
    rbind (feed_id codec vals ''ORACLE_CONVERT_TX_ID'') (\<lambda>convert.
    rbind (feed_id codec vals ''ORACLE_CHAIN_ID'') (\<lambda>chain.
    rbind (feed_id codec vals ''ORACLE_SUBNET_ID'') (\<lambda>subnet.
    rbind (required_address ac vals ''ORACLE_AGGREGATOR_ADDRESS'') (\<lambda>aggregator.
    rbind (required_address ac vals ''ORACLE_RECEIVER_ADDRESS'') (\<lambda>receiver.
      Inr (d\<lparr>fd_OracleConvertTxID := convert, fd_OracleChainID := chain, fd_OracleSubnetID := subnet,
             fd_AggregatorAddress := aggregator, fd_ReceiverAddress := receiver\<rparr>))))))"

text \<open>The price feed addresses: required without an oracle chain, read where they are present.\<close>

definition load_price_feed ::
  "'addr address_codec \<Rightarrow> (string \<rightharpoonup> string) \<Rightarrow> bool \<Rightarrow> ('id, 'addr) feed_deployment
   \<Rightarrow> feed_config_error + ('id, 'addr) feed_deployment" where
  "load_price_feed ac vals hasOracle d =
    (let present = (\<lambda>k. trim_space (read_str vals k) \<noteq> []) in
    rbind (if present ''ORACLE_PRICEFEED_ADDRESS'' \<or> \<not> hasOracle
           then rbind (required_address ac vals ''ORACLE_PRICEFEED_ADDRESS'') (\<lambda>a.
             Inr (d\<lparr>fd_PriceFeedAddress := a\<rparr>))
           else Inr d) (\<lambda>d.
    if present ''ORACLE_PRICEFEED_AGGREGATOR_ADDRESS'' \<or> \<not> hasOracle
    then rbind (required_address ac vals ''ORACLE_PRICEFEED_AGGREGATOR_ADDRESS'') (\<lambda>a.
      Inr (d\<lparr>fd_PriceFeedAggregatorAddress := a\<rparr>))
    else Inr d))"

text \<open>\<^verbatim>\<open>LoadDeployment\<close> after the read of the file.\<close>

definition load_feed_deployment ::
  "'id id_codec \<Rightarrow> 'addr address_codec \<Rightarrow> (string \<times> string) list option \<Rightarrow> string
   \<Rightarrow> feed_config_error + ('id, 'addr) feed_deployment" where
  "load_feed_deployment codec ac read network = (case read of
      None \<Rightarrow> Inl FeedStateUnreadable
    | Some kvs \<Rightarrow>
      (let vals = map_of kvs; got = trim_space (read_str vals ''NETWORK'');
           hasOracle = (trim_space (read_str vals ''ORACLE_CONVERT_TX_ID'') \<noteq> []) in
       if got \<noteq> network then Inl (FeedNetworkMismatch got)
       else rbind (feed_id codec vals ''CHAIN_ID'') (\<lambda>chain.
            rbind (required_address ac vals ''FEEDER_EVM_ADDRESS'') (\<lambda>feeder.
            let d = (empty_feed_deployment codec ac network)\<lparr>fd_MainChainID := chain, fd_FeederAddress := feeder\<rparr> in
            rbind (if hasOracle then load_feed_oracle codec ac vals d else Inr d) (\<lambda>d.
              load_price_feed ac vals hasOracle d)))))"

section \<open>The feeder key\<close>

datatype feeder_error =
    FeederKeyUnreadable
  | FeederKeyPrefixed
  | FeederKeyNotHex
  | FeederKeyRejected
  | FeederKeyMismatch

text \<open>\<open>to_ecdsa\<close> and \<open>address_of\<close> are the key library; \<open>contents\<close> the file read.\<close>

definition load_feeder_key ::
  "(nat list \<Rightarrow> 'key option) \<Rightarrow> ('key \<Rightarrow> 'addr) \<Rightarrow> string option \<Rightarrow> 'addr \<Rightarrow> feeder_error + 'key \<times> 'addr" where
  "load_feeder_key to_ecdsa address_of contents expected = (case contents of
      None \<Rightarrow> Inl FeederKeyUnreadable
    | Some s \<Rightarrow> (let raw = trim_space s in
        if has_prefix raw ''0x'' then Inl FeederKeyPrefixed
        else case hex_decode raw of
            None \<Rightarrow> Inl FeederKeyNotHex
          | Some b \<Rightarrow>
              if length b \<noteq> 32 then Inl FeederKeyNotHex
              else (case to_ecdsa b of
                  None \<Rightarrow> Inl FeederKeyRejected
                | Some key \<Rightarrow>
                    if address_of key \<noteq> expected then Inl FeederKeyMismatch
                    else Inr (key, address_of key))))"

section \<open>What a loaded deployment holds\<close>

text \<open>A deployment loads with exactly the feed path its file records: the oracle chain with both of
  its contracts, or else the two contracts of the direct feed.\<close>

lemma load_feed_oracle_Inr:
  assumes "load_feed_oracle codec ac vals d = Inr e"
  shows "feed_id codec vals ''ORACLE_CONVERT_TX_ID'' = Inr (fd_OracleConvertTxID e)"
    and "required_address ac vals ''ORACLE_RECEIVER_ADDRESS'' = Inr (fd_ReceiverAddress e)"
    and "fd_Network e = fd_Network d" "fd_MainChainID e = fd_MainChainID d"
    "fd_FeederAddress e = fd_FeederAddress d"
  using assms unfolding load_feed_oracle_def by (auto simp del: rbind_eq_Inr elim!: rbind_InrE)

lemma load_price_feed_Inr:
  assumes "load_price_feed ac vals hasOracle d = Inr e"
  shows "fd_Network e = fd_Network d" "fd_MainChainID e = fd_MainChainID d"
    "fd_FeederAddress e = fd_FeederAddress d" "fd_OracleConvertTxID e = fd_OracleConvertTxID d"
    "fd_ReceiverAddress e = fd_ReceiverAddress d"
    and "\<not> hasOracle \<Longrightarrow> required_address ac vals ''ORACLE_PRICEFEED_AGGREGATOR_ADDRESS''
      = Inr (fd_PriceFeedAggregatorAddress e)"
  using assms unfolding load_price_feed_def Let_def
  by (auto simp del: rbind_eq_Inr elim!: rbind_InrE split: if_splits)

lemma load_feed_deployment_paths:
  assumes "load_feed_deployment codec ac (Some kvs) network = Inr d"
    and ids: "\<And>field. feed_id codec (map_of kvs) field \<noteq> Inr (id_empty codec)"
  shows "fd_Network d = network"
    and "feed_id codec (map_of kvs) ''CHAIN_ID'' = Inr (fd_MainChainID d)"
    and "required_address ac (map_of kvs) ''FEEDER_EVM_ADDRESS'' = Inr (fd_FeederAddress d)"
    and "feed_has_oracle codec d \<Longrightarrow>
      required_address ac (map_of kvs) ''ORACLE_RECEIVER_ADDRESS'' = Inr (fd_ReceiverAddress d)"
    and "\<not> feed_has_oracle codec d \<Longrightarrow>
      required_address ac (map_of kvs) ''ORACLE_PRICEFEED_AGGREGATOR_ADDRESS''
        = Inr (fd_PriceFeedAggregatorAddress d)"
proof -
  let ?vals = "map_of kvs"
  define orc where "orc \<longleftrightarrow> trim_space (read_str ?vals ''ORACLE_CONVERT_TX_ID'') \<noteq> []"
  from assms(1) obtain chain feeder e where
    fields: "feed_id codec ?vals ''CHAIN_ID'' = Inr chain"
      "required_address ac ?vals ''FEEDER_EVM_ADDRESS'' = Inr feeder"
    and e: "(if orc then load_feed_oracle codec ac ?vals ((empty_feed_deployment codec ac network)
          \<lparr>fd_MainChainID := chain, fd_FeederAddress := feeder\<rparr>)
        else Inr ((empty_feed_deployment codec ac network)
          \<lparr>fd_MainChainID := chain, fd_FeederAddress := feeder\<rparr>)) = Inr e"
    and d: "load_price_feed ac ?vals orc e = Inr d"
    unfolding load_feed_deployment_def Let_def orc_def
    by (auto simp del: rbind_eq_Inr elim!: rbind_InrE split: if_splits)
  have path: "feed_has_oracle codec d \<longleftrightarrow> orc"
    using e load_feed_oracle_Inr(1) [of codec ac ?vals _ e] ids [of "''ORACLE_CONVERT_TX_ID''"]
      load_price_feed_Inr(4) [OF d]
    by (auto simp: feed_has_oracle_def empty_feed_deployment_def split: if_splits)
  show "fd_Network d = network" "feed_id codec ?vals ''CHAIN_ID'' = Inr (fd_MainChainID d)"
    "required_address ac ?vals ''FEEDER_EVM_ADDRESS'' = Inr (fd_FeederAddress d)"
    using e fields load_feed_oracle_Inr(3-5) [of codec ac ?vals _ e] load_price_feed_Inr(1-3) [OF d]
    by (auto simp: empty_feed_deployment_def split: if_splits)
  show "required_address ac ?vals ''ORACLE_RECEIVER_ADDRESS'' = Inr (fd_ReceiverAddress d)"
    if "feed_has_oracle codec d"
    using that path e load_feed_oracle_Inr(2) [of codec ac ?vals _ e] load_price_feed_Inr(5) [OF d]
    by simp
  show "required_address ac ?vals ''ORACLE_PRICEFEED_AGGREGATOR_ADDRESS''
      = Inr (fd_PriceFeedAggregatorAddress d)" if "\<not> feed_has_oracle codec d"
    using that path load_price_feed_Inr(6) [OF d] by simp
qed

end
