(* ===== verification/Relay_Codec.thy ===== *)
theory Relay_Codec
  imports Go_Prelude
begin

text \<open>
  The byte formats of the settlement feed,
  \<^verbatim>\<open>apps/settlement-feed/internal/oraclerelay/payload.go\<close> and \<^verbatim>\<open>predicate.go\<close>: the
  calldata the feeder and the relay build, the contract answers and the Warp event data they
  decode, and the access-list predicate that carries a signed Warp message. A \<^verbatim>\<open>big.Int\<close>
  built by \<^verbatim>\<open>SetBytes\<close> is a natural number; \<^verbatim>\<open>Uint64\<close> keeps its low 64 bits; a slice
  expression out of range is the error \<open>SliceOutOfRange\<close> where Go panics. The hash functions of
  libevm and the Warp parsers of avalanchego are parameters.
\<close>

type_synonym bytes = "8 word list"

section \<open>Numbers as bytes\<close>

definition set_bytes :: "bytes \<Rightarrow> nat" where
  "set_bytes b = foldl (\<lambda>n x. n * 256 + unat x) 0 b"

fun nat_bytes :: "nat \<Rightarrow> bytes" where
  "nat_bytes n = (if n = 0 then [] else nat_bytes (n div 256) @ [word_of_nat (n mod 256)])"

declare nat_bytes.simps [simp del]

definition uint64_of :: "nat \<Rightarrow> u64" where
  "uint64_of n = word_of_nat n"

text \<open>\<^verbatim>\<open>Bytes\<close> is the magnitude, without leading zeros; the sign is lost.\<close>

definition int_bytes :: "int \<Rightarrow> bytes" where
  "int_bytes x = nat_bytes (nat \<bar>x\<bar>)"

definition copy_into :: "bytes \<Rightarrow> bytes \<Rightarrow> bytes" where
  "copy_into dst src = take (length dst) src @ drop (length src) dst"

definition left_pad32 :: "bytes \<Rightarrow> bytes" where
  "left_pad32 b = (if 32 \<le> length b then drop (length b - 32) b
     else (let padded = replicate 32 0; k = 32 - length b
           in take k padded @ copy_into (drop k padded) b))"

datatype codec_error =
    EventTooShort nat
  | EventOffset u64
  | EventClaims u64 nat
  | StaleGenesis
  | PayloadSize nat
  | AnswerSize nat
  | ReasonOffset u64
  | ReasonClaims u64 nat
  | SliceOutOfRange
  | UnsignedMessageError string
  | AddressedCallError string

definition slice :: "nat \<Rightarrow> nat \<Rightarrow> bytes \<Rightarrow> codec_error + bytes" where
  "slice lo hi b = (if lo \<le> hi \<and> hi \<le> length b then Inr (take (hi - lo) (drop lo b))
     else Inl SliceOutOfRange)"

definition word_at :: "nat \<Rightarrow> bytes \<Rightarrow> nat" where
  "word_at i b = set_bytes (take 32 (drop (32 * i) b))"

section \<open>Selectors and assets\<close>

definition submit_price_selector :: bytes where
  "submit_price_selector = [0x9f, 0x21, 0xbf, 0x2e]"
definition receive_price_selector :: bytes where
  "receive_price_selector = [0xb8, 0xc1, 0x27, 0x58]"
definition latest_price_selector :: bytes where
  "latest_price_selector = [0x4e, 0xec, 0x7c, 0x2b]"
definition receive_prices_selector :: bytes where
  "receive_prices_selector = [0x0f, 0xb5, 0x7c, 0xdd]"
definition submit_selector :: bytes where
  "submit_selector = [0x9b, 0x25, 0xdf, 0x0b]"
definition latest_round_data_selector :: bytes where
  "latest_round_data_selector = [0xfe, 0xaf, 0x96, 0x8c]"
definition can_settle_selector :: bytes where
  "can_settle_selector = [0xfa, 0xf7, 0xba, 0x6a]"
definition settled_selector :: bytes where
  "settled_selector = [0x8f, 0x77, 0x58, 0x39]"

text \<open>What the code calls of libevm: the Keccak hash, \<^verbatim>\<open>BytesToHash\<close>, \<^verbatim>\<open>Hash.Hex\<close> and
  \<^verbatim>\<open>TrimRightZeroes\<close>.\<close>

record eth_library =
  keccak256 :: "string \<Rightarrow> bytes"
  bytes_to_hash :: "bytes \<Rightarrow> bytes"
  hash_hex :: "bytes \<Rightarrow> string"
  trim_right_zeroes :: "bytes \<Rightarrow> bytes"

record asset_ref =
  asset_name :: string
  asset_id :: bytes

definition known_assets :: "eth_library \<Rightarrow> asset_ref list" where
  "known_assets lib =
     [\<lparr>asset_name = ''BTC-USD'', asset_id = keccak256 lib ''BTC-USD''\<rparr>,
      \<lparr>asset_name = ''USDC-USD'', asset_id = keccak256 lib ''USDC-USD''\<rparr>]"

definition asset_name_of :: "eth_library \<Rightarrow> bytes \<Rightarrow> string" where
  "asset_name_of lib i = (case find (\<lambda>a. asset_id a = i) (known_assets lib) of
      Some a \<Rightarrow> asset_name a
    | None \<Rightarrow> hash_hex lib i)"

definition asset_id_by_name :: "eth_library \<Rightarrow> string \<Rightarrow> bytes option" where
  "asset_id_by_name lib s =
     map_option asset_id (find (\<lambda>a. asset_name a = s) (known_assets lib))"

section \<open>Calldata\<close>

definition pack_submit_price :: "bytes \<Rightarrow> int \<Rightarrow> bytes" where
  "pack_submit_price i price =
     submit_price_selector @ i @ left_pad32 (int_bytes price)"

definition pack_receive_price :: "32 word \<Rightarrow> bytes" where
  "pack_receive_price index = receive_price_selector @ left_pad32 (nat_bytes (unat index))"

definition pack_receive_prices :: "32 word \<Rightarrow> bytes" where
  "pack_receive_prices n = receive_prices_selector @ left_pad32 (nat_bytes (unat n))"

definition pack_submit :: "int \<Rightarrow> bytes" where
  "pack_submit answer = submit_selector @ left_pad32 (int_bytes answer)"

definition pack_latest_price :: "bytes \<Rightarrow> bytes" where
  "pack_latest_price i = latest_price_selector @ i"

section \<open>Contract answers\<close>

definition decode_latest_round_data :: "bytes \<Rightarrow> codec_error + nat \<times> u64" where
  "decode_latest_round_data b = (if length b \<noteq> 160 then Inl (AnswerSize (length b))
     else Inr (word_at 1 b, uint64_of (word_at 3 b)))"

definition decode_can_settle :: "bytes \<Rightarrow> codec_error + bool \<times> bytes" where
  "decode_can_settle b =
    (if length b < 96 then Inl (AnswerSize (length b)) else
     let ok = (word_at 0 b \<noteq> 0); offset = uint64_of (word_at 1 b) in
     if offset \<noteq> 64 then Inl (ReasonOffset offset) else
     let len = uint64_of (word_at 2 b) in
     if (word_of_nat (length b) :: u64) < 96 + len then Inl (ReasonClaims len (length b - 96))
     else rbind (slice 96 (unat (96 + len)) b) (\<lambda>reason. Inr (ok, reason)))"

definition decode_settled :: "bytes \<Rightarrow> codec_error + nat" where
  "decode_settled b = (if length b \<noteq> 32 then Inl (AnswerSize (length b)) else Inr (set_bytes b))"

definition decode_latest_price :: "bytes \<Rightarrow> codec_error + nat \<times> u64" where
  "decode_latest_price b = (if length b \<noteq> 64 then Inl (AnswerSize (length b))
     else Inr (word_at 0 b, uint64_of (word_at 1 b)))"

section \<open>The Warp event and the price payload\<close>

definition unpack_event_message :: "bytes \<Rightarrow> codec_error + bytes" where
  "unpack_event_message b =
    (if length b < 64 then Inl (EventTooShort (length b)) else
     let offset = uint64_of (word_at 0 b) in
     if offset \<noteq> 32 then Inl (EventOffset offset) else
     let len = uint64_of (word_at 1 b) in
     if (word_of_nat (length b) :: u64) < 64 + len then Inl (EventClaims len (length b - 64))
     else slice 64 (unat (64 + len)) b)"

record submission =
  sub_asset :: bytes
  sub_price :: nat
  sub_updated_at :: nat
  sub_seq :: nat

definition decode_price_payload :: "eth_library \<Rightarrow> bytes \<Rightarrow> codec_error + submission" where
  "decode_price_payload lib b =
    (if length b = 96 then Inl StaleGenesis
     else if length b \<noteq> 128 then Inl (PayloadSize (length b))
     else Inr \<lparr>sub_asset = bytes_to_hash lib (take 32 b), sub_price = word_at 1 b,
                sub_updated_at = word_at 2 b, sub_seq = word_at 3 b\<rparr>)"

text \<open>The Warp parsers of avalanchego; \<open>unsigned_payload\<close> and \<open>call_payload\<close> are the
  \<^verbatim>\<open>Payload\<close> fields of what they return.\<close>

record 'm warp_parsers =
  parse_unsigned :: "bytes \<Rightarrow> string + 'm"
  unsigned_payload :: "'m \<Rightarrow> bytes"
  parse_addressed_call :: "bytes \<Rightarrow> string + bytes"

definition parse_submission ::
  "eth_library \<Rightarrow> 'm warp_parsers \<Rightarrow> bytes \<Rightarrow> codec_error + submission" where
  "parse_submission lib warp b = (case parse_unsigned warp b of
      Inl e \<Rightarrow> Inl (UnsignedMessageError e)
    | Inr m \<Rightarrow> (case parse_addressed_call warp (unsigned_payload warp m) of
          Inl e \<Rightarrow> Inl (AddressedCallError e)
        | Inr payload \<Rightarrow> decode_price_payload lib payload))"

section \<open>The predicate\<close>

definition predicate_delimiter :: "8 word" where
  "predicate_delimiter = 0xff"

definition pack_predicate :: "bytes \<Rightarrow> bytes list" where
  "pack_predicate message =
    (let n = length message div 32 in
     map (\<lambda>i. take 32 (drop (32 * i) message)) [0..<n] @
     [(copy_into (replicate 32 0) (drop (32 * n) message))
        [length message mod 32 := predicate_delimiter]])"

datatype predicate_error =
    MissingDelimiter nat
  | ExcessPadding nat nat
  | WrongDelimiter

fun copy_chunks :: "nat \<Rightarrow> bytes \<Rightarrow> bytes list \<Rightarrow> bytes" where
  "copy_chunks i padded [] = padded"
| "copy_chunks i padded (c # cs) =
     copy_chunks (i + 1) (take (32 * i) padded @ copy_into (drop (32 * i) padded) c) cs"

definition unpack_predicate :: "eth_library \<Rightarrow> bytes list \<Rightarrow> predicate_error + bytes" where
  "unpack_predicate lib chunks =
    (let padded = copy_chunks 0 (replicate (32 * length chunks) 0) chunks;
         trimmed = trim_right_zeroes lib padded;
         expected = (length trimmed + 31) div 32 in
     if trimmed = [] then Inl (MissingDelimiter (length chunks))
     else if expected \<noteq> length chunks then Inl (ExcessPadding (length chunks) expected)
     else if trimmed ! (length trimmed - 1) \<noteq> predicate_delimiter then Inl WrongDelimiter
     else Inr (take (length trimmed - 1) trimmed))"

section \<open>Words of calldata\<close>

lemma set_bytes_Nil [simp]: "set_bytes [] = 0"
  by (simp add: set_bytes_def)

lemma set_bytes_snoc [simp]: "set_bytes (b @ [x]) = set_bytes b * 256 + unat x"
  by (simp add: set_bytes_def)

lemma set_bytes_append: "set_bytes (a @ b) = set_bytes a * 256 ^ length b + set_bytes b"
proof (induction b rule: rev_induct)
  case (snoc x b)
  then show ?case by (simp flip: append_assoc add: algebra_simps)
qed simp

lemma set_bytes_zeros [simp]: "set_bytes (replicate n 0) = 0"
proof (induction n)
  case (Suc n)
  then show ?case by (simp flip: replicate_append_same)
qed simp

lemma set_bytes_nat_bytes [simp]: "set_bytes (nat_bytes n) = n"
proof (induction n rule: nat_bytes.induct)
  case (1 n)
  then show ?case by (subst nat_bytes.simps) (auto simp: unsigned_of_nat take_bit_eq_mod)
qed

lemma set_bytes_less: "set_bytes b < 256 ^ length b"
proof (induction b rule: rev_induct)
  case (snoc x b)
  have "unat x < 256" using unsigned_less [of x, where ?'a = nat] by simp
  then show ?case using snoc by simp
qed simp

lemma length_nat_bytes: "length (nat_bytes n) \<le> k \<longleftrightarrow> n < 256 ^ k"
proof (induction n arbitrary: k rule: nat_bytes.induct)
  case (1 n)
  show ?case
  proof (cases "n = 0")
    case False
    show ?thesis
    proof (cases k)
      case 0
      then show ?thesis using False by (subst nat_bytes.simps) simp
    next
      case (Suc j)
      then show ?thesis using False 1 [OF False, of j]
        by (subst nat_bytes.simps) (simp add: div_less_iff_less_mult mult.commute)
    qed
  qed (simp add: nat_bytes.simps)
qed

lemma left_pad32_short: "length b \<le> 32 \<Longrightarrow> left_pad32 b = replicate (32 - length b) 0 @ b"
  by (auto simp: left_pad32_def copy_into_def Let_def)

lemma length_left_pad32 [simp]: "length (left_pad32 b) = 32"
  by (cases "length b \<le> 32") (auto simp: left_pad32_short, simp add: left_pad32_def)

lemma set_bytes_left_pad32: "set_bytes b < 256 ^ 32 \<Longrightarrow> length b \<le> 32 \<Longrightarrow>
    set_bytes (left_pad32 b) = set_bytes b"
  by (simp add: left_pad32_short set_bytes_append)

text \<open>A number below \<open>2 ^ 256\<close> as one word of the ABI.\<close>

definition abi_word :: "nat \<Rightarrow> bytes" where
  "abi_word n = left_pad32 (nat_bytes n)"

lemma length_abi_word [simp]: "length (abi_word n) = 32"
  by (simp add: abi_word_def)

lemma set_bytes_abi_word: "n < 2 ^ 256 \<Longrightarrow> set_bytes (abi_word n) = n"
proof -
  assume "n < 2 ^ 256"
  then have "n < 256 ^ 32" by simp
  then show ?thesis using length_nat_bytes [of n 32]
    by (simp add: abi_word_def set_bytes_left_pad32 del: power.simps)
qed


lemma word_at_append:
  "length x = 32 \<Longrightarrow> word_at 0 (x @ b) = set_bytes x"
  "length x = 32 \<Longrightarrow> word_at (Suc i) (x @ b) = word_at i b"
  by (simp_all add: word_at_def)

lemma uint64_of_unat [simp]: "unat (uint64_of n) = n mod 2 ^ 64"
  by (simp add: uint64_of_def unsigned_of_nat take_bit_eq_mod)

lemma slice_Inr_iff: "slice lo hi b = Inr m \<longleftrightarrow>
    lo \<le> hi \<and> hi \<le> length b \<and> m = take (hi - lo) (drop lo b)"
  by (auto simp: slice_def)

lemma slice_out: "slice lo hi b = Inl e \<longleftrightarrow> (hi < lo \<or> length b < hi) \<and> e = SliceOutOfRange"
  by (auto simp: slice_def)

text \<open>A length word added to an offset: the sum wraps around exactly when the word is within the
  offset of \<open>2 ^ 64\<close>, and then the comparison with the slice's length lets it through.\<close>

lemma offset_sum:
  assumes "k < 2 ^ 64"
  shows "unat (word_of_nat k + len :: u64)
      = (if unat len < 2 ^ 64 - k then k + unat len else k + unat len - 2 ^ 64)"
proof -
  have k: "unat (word_of_nat k :: u64) = k"
    using assms by (simp add: unsigned_of_nat take_bit_eq_mod)
  show ?thesis using unat_u64_less [of len] assms
    by (auto simp: unat_word_ariths k mod_if)
qed

section \<open>The message of a log\<close>

lemma event_message_cases:
  assumes "length b < 2 ^ 63" and "64 \<le> length b" and "uint64_of (word_at 0 b) = 32"
  shows "(unpack_event_message b = Inr m \<longleftrightarrow>
      (\<exists>rest. b = take 64 b @ m @ rest \<and> length m = unat (uint64_of (word_at 1 b)))) \<and>
    (unpack_event_message b = Inl SliceOutOfRange \<longleftrightarrow>
      2 ^ 64 - 64 \<le> unat (uint64_of (word_at 1 b))) \<and>
    (unpack_event_message b = Inl (EventClaims (uint64_of (word_at 1 b)) (length b - 64)) \<longleftrightarrow>
      length b - 64 < unat (uint64_of (word_at 1 b)) \<and> unat (uint64_of (word_at 1 b)) < 2 ^ 64 - 64)"
proof -
  define len where "len = uint64_of (word_at 1 b)"
  have b: "unat (word_of_nat (length b) :: u64) = length b"
    using assms(1) by (simp add: unsigned_of_nat take_bit_eq_mod)
  have sum: "unat (64 + len) = (if unat len < 2 ^ 64 - 64 then 64 + unat len else unat len - (2 ^ 64 - 64))"
    using offset_sum [of 64 len] by simp
  have unpack: "unpack_event_message b =
      (if length b < unat (64 + len) then Inl (EventClaims len (length b - 64))
       else slice 64 (unat (64 + len)) b)"
    using assms(2,3) b by (simp add: unpack_event_message_def Let_def word_less_nat_alt len_def)
  have bytes: "(64 + unat len \<le> length b \<and> m = take (unat len) (drop 64 b)) \<longleftrightarrow>
      (\<exists>rest. b = take 64 b @ m @ rest \<and> length m = unat len)"
  proof
    assume "64 + unat len \<le> length b \<and> m = take (unat len) (drop 64 b)"
    then have "length m = unat len" and m: "m = take (unat len) (drop 64 b)" by auto
    moreover have "b = take 64 b @ m @ drop (unat len) (drop 64 b)"
      unfolding m append_take_drop_id ..
    ultimately have "b = take 64 b @ m @ drop (unat len) (drop 64 b)" "length m = unat len" by auto
    then show "\<exists>rest. b = take 64 b @ m @ rest \<and> length m = unat len" by blast
  next
    assume "\<exists>rest. b = take 64 b @ m @ rest \<and> length m = unat len"
    then obtain rest where "drop 64 b = m @ rest" "length m = unat len"
      by (metis append_take_drop_id same_append_eq)
    moreover from this have "length b - 64 = unat len + length rest"
      by (metis length_append length_drop)
    ultimately show "64 + unat len \<le> length b \<and> m = take (unat len) (drop 64 b)"
      using assms(2) by simp
  qed
  show ?thesis unfolding len_def [symmetric] bytes [symmetric] unpack
    using unat_u64_less [of len] assms(1,2) by (auto simp: sum slice_Inr_iff slice_out)
qed

text \<open>C26: \<open>UnpackEventMessage\<close> on data (of any length a slice can have) of at least two words, whose
  first word is 32 in its low 64 bits. Only the low 64 bits of the second word count as the claimed
  length. The function succeeds exactly when that many bytes follow the two words, and then returns
  those bytes and nothing else. A claim from \<open>2 ^ 64 - 64\<close> on passes the code's length check, because the
  sum wraps around, and ends in a slice expression out of range; every other claim of more bytes than
  there are is reported as such. The bits above the low 64 are not looked at: a length word of
  \<open>2 ^ 64 + 3\<close> is taken for 3.\<close>
theorem event_message_extracted:
  assumes "length b < 2 ^ 63" and "64 \<le> length b" and "word_at 0 b mod 2 ^ 64 = 32"
    and "n = word_at 1 b mod 2 ^ 64"
  shows "(unpack_event_message b = Inr m \<longleftrightarrow> (\<exists>rest. b = take 64 b @ m @ rest \<and> length m = n)) \<and>
    (unpack_event_message b = Inl SliceOutOfRange \<longleftrightarrow> 2 ^ 64 - 64 \<le> n) \<and>
    (unpack_event_message b = Inl (EventClaims (word_of_nat n) (length b - 64)) \<longleftrightarrow>
      length b - 64 < n \<and> n < 2 ^ 64 - 64)"
proof -
  have "uint64_of (word_at 0 b) = 32"
    using assms(3) by (simp add: word_unat_eq_iff)
  moreover have "uint64_of (word_at 1 b) = word_of_nat n"
    by (simp add: assms(4) word_unat_eq_iff unsigned_of_nat take_bit_eq_mod)
  moreover have "unat (word_of_nat n :: u64) = n"
    by (simp add: assms(4) unsigned_of_nat take_bit_eq_mod)
  ultimately show ?thesis using event_message_cases [OF assms(1,2)] by simp
qed

definition abi_event :: "bytes \<Rightarrow> bytes \<Rightarrow> bytes" where
  "abi_event message pad = abi_word 32 @ abi_word (length message) @ message @ pad"

definition wrapping_event :: bytes where
  "wrapping_event = abi_word 32 @ abi_word (2 ^ 64 - 64)"

lemma wrapping_event_words:
  "length wrapping_event = 64" "word_at 0 wrapping_event = 32"
  "word_at 1 wrapping_event = 2 ^ 64 - 64"
  using word_at_append(2) [of "abi_word 32" 0 "abi_word (2 ^ 64 - 64)"]
    word_at_append(1) [of "abi_word (2 ^ 64 - 64)" "[]"]
  by (simp_all add: wrapping_event_def word_at_append set_bytes_abi_word)

theorem event_message_extracted_witness:
  "unpack_event_message wrapping_event = Inl SliceOutOfRange"
  using event_message_extracted [OF _ _ _ refl, of wrapping_event]
  by (simp add: wrapping_event_words wrapping_event_words [unfolded One_nat_def])

text \<open>The high bits of the length word are dropped.\<close>

lemma length_word_truncated:
  "unpack_event_message (abi_word 32 @ abi_word (2 ^ 64 + 3) @ [1, 2, 3]) = Inr [1, 2, 3]"
proof -
  let ?b = "abi_word 32 @ abi_word (2 ^ 64 + 3) @ [1, 2, 3]"
  have words: "word_at 0 ?b = 32" "word_at 1 ?b = 2 ^ 64 + 3" by (simp_all add: word_at_append set_bytes_abi_word)
  have "uint64_of (word_at 0 ?b) = 32" "unat (uint64_of (word_at 1 ?b)) = 3"
    unfolding words by (simp_all add: uint64_of_def)
  moreover have "?b = take 64 ?b @ [1, 2, 3] @ []" by simp
  ultimately show ?thesis using event_message_cases [of ?b "[1, 2, 3]"] by fastforce
qed

lemma unpack_abi_event:
  assumes "length message + length pad < 2 ^ 62"
  shows "unpack_event_message (abi_event message pad) = Inr message"
proof -
  let ?b = "abi_event message pad"
  have words: "word_at 0 ?b = 32" "word_at 1 ?b = length message"
    using word_at_append(2) [of "abi_word 32" 0 "abi_word (length message) @ message @ pad"] assms
    by (simp_all add: abi_event_def word_at_append set_bytes_abi_word)
  have "?b = take 64 ?b @ message @ pad" by (simp add: abi_event_def)
  moreover have "length ?b < 2 ^ 63" "64 \<le> length ?b" using assms by (simp_all add: abi_event_def)
  moreover have "length message = unat (uint64_of (word_at 1 ?b))" using assms words by simp
  ultimately show ?thesis using event_message_cases [of ?b message] words
    by (auto simp: uint64_of_def)
qed


section \<open>A submission\<close>

text \<open>The payload the aggregator contract encodes, and what the Warp message carries.\<close>

definition abi_payload :: "bytes \<Rightarrow> nat \<Rightarrow> nat \<Rightarrow> nat \<Rightarrow> bytes" where
  "abi_payload i price updated_at seq = i @ abi_word price @ abi_word updated_at @ abi_word seq"

lemma decode_abi_payload:
  assumes "length i = 32" and "bytes_to_hash lib i = i"
    and "price < 2 ^ 256" and "updated_at < 2 ^ 256" and "seq < 2 ^ 256"
  shows "decode_price_payload lib (abi_payload i price updated_at seq)
    = Inr \<lparr>sub_asset = i, sub_price = price, sub_updated_at = updated_at, sub_seq = seq\<rparr>"
proof -
  let ?p = "abi_payload i price updated_at seq"
  have "take 32 ?p = i" "length ?p = 128" using assms(1) by (simp_all add: abi_payload_def)
  moreover have "word_at 1 ?p = price" "word_at 2 ?p = updated_at" "word_at 3 ?p = seq"
    using assms(1) set_bytes_abi_word [OF assms(3)] set_bytes_abi_word [OF assms(4)]
      set_bytes_abi_word [OF assms(5)] word_at_append(1) [of "abi_word seq" "[]"]
    by (simp_all add: abi_payload_def word_at_append numeral_2_eq_2 numeral_3_eq_3)
  ultimately show ?thesis using assms(2) by (simp add: decode_price_payload_def)
qed

text \<open>A log that ABI-encodes a Warp message whose addressed call carries the four words of a
  price round is decoded to exactly that round, whatever padding follows: the asset, and the
  price, time and sequence number as the unsigned numbers below \<open>2 ^ 256\<close> that were encoded. A
  payload of any other length is refused, the three words of the older layout by an error of its
  own.\<close>
theorem submission_decoded:
  assumes "parse_unsigned warp message = Inr m"
    and "parse_addressed_call warp (unsigned_payload warp m) = Inr payload"
    and "length message + length pad < 2 ^ 62"
    and "length i = 32" and "bytes_to_hash lib i = i"
    and "price < 2 ^ 256" and "updated_at < 2 ^ 256" and "seq < 2 ^ 256"
  shows "rbind (unpack_event_message (abi_event message pad)) (parse_submission lib warp) =
      (if payload = abi_payload i price updated_at seq
       then Inr \<lparr>sub_asset = i, sub_price = price, sub_updated_at = updated_at, sub_seq = seq\<rparr>
       else if length payload = 96 then Inl StaleGenesis
       else if length payload \<noteq> 128 then Inl (PayloadSize (length payload))
       else decode_price_payload lib payload)"
proof (cases "payload = abi_payload i price updated_at seq")
  case True
  then show ?thesis using assms(1,2) unpack_abi_event [OF assms(3)] decode_abi_payload [OF assms(4-8)]
    by (simp add: parse_submission_def)
next
  case False
  then show ?thesis using assms(1,2) unpack_abi_event [OF assms(3)]
    by (simp add: parse_submission_def decode_price_payload_def)
qed

section \<open>The predicate is lossless and canonical\<close>

text \<open>The documented behaviour of \<^verbatim>\<open>TrimRightZeroes\<close>: it drops the zero bytes at the end.\<close>

definition trims_zeroes :: "(bytes \<Rightarrow> bytes) \<Rightarrow> bool" where
  "trims_zeroes trim \<longleftrightarrow>
     (\<forall>b. (\<exists>n. b = trim b @ replicate n 0) \<and> (trim b = [] \<or> last (trim b) \<noteq> 0))"

lemma zeros_unique:
  assumes "a @ replicate n (0 :: 8 word) = b @ replicate k 0"
    and "a = [] \<or> List.last a \<noteq> 0" "b = [] \<or> List.last b \<noteq> 0"
  shows "a = b"
proof -
  have "dropWhile (\<lambda>x. x = 0) (replicate n 0 @ rev a) = rev a" if "a = [] \<or> List.last a \<noteq> 0"
    for a :: bytes and n
  proof -
    have "dropWhile (\<lambda>x. x = 0) (replicate n 0 @ rev a) = dropWhile (\<lambda>x. x = 0) (rev a)"
      by (induction n) auto
    also have "\<dots> = rev a" using that by (cases a rule: rev_cases) auto
    finally show ?thesis .
  qed
  from this [of a n] this [of b k] assms show ?thesis
    by (metis rev_append rev_replicate rev_rev_ident)
qed

lemma trims_to:
  assumes "trims_zeroes trim" and "a = [] \<or> List.last a \<noteq> 0"
  shows "trim (a @ replicate n 0) = a"
  using assms zeros_unique [of "trim (a @ replicate n 0)" _ a n]
  by (metis trims_zeroes_def)

lemma copy_chunks_concat:
  assumes "list_all (\<lambda>c. length c = 32) cs" and "length padded = 32 * (i + length cs)"
  shows "copy_chunks i padded cs = take (32 * i) padded @ concat cs"
  using assms
proof (induction cs arbitrary: i padded)
  case (Cons c cs)
  let ?p = "take (32 * i) padded @ copy_into (drop (32 * i) padded) c"
  have "copy_chunks (i + 1) ?p cs = take (32 * (i + 1)) ?p @ concat cs"
    using Cons.prems by (intro Cons.IH) (auto simp: copy_into_def)
  then show ?case using Cons.prems by (auto simp: copy_into_def)
qed simp

lemma concat_chunks: "concat (map (\<lambda>i. take 32 (drop (32 * i) m)) [0..<n]) = take (32 * n) m"
  by (induction n) (auto simp: take_add mult.commute [of 32] add.commute [of 32])

lemma padded_tail:
  assumes "length r < 32"
  shows "(copy_into (replicate 32 0) r)[length r := d] = r @ d # replicate (31 - length r) 0"
proof -
  have "32 - length r = Suc (31 - length r)" using assms by simp
  then show ?thesis using assms by (simp add: copy_into_def list_update_append del: Suc_diff_le)
qed

lemma pack_predicate_concat: "concat (pack_predicate m)
    = m @ predicate_delimiter # replicate (31 - length m mod 32) 0"
proof -
  let ?n = "length m div 32"
  let ?r = "drop (32 * ?n) m"
  have r: "length m mod 32 = length ?r" by (simp add: minus_mult_div_eq_mod)
  then have "length ?r < 32" by (metis mod_less_divisor zero_less_numeral)
  note tail = padded_tail [OF this, of predicate_delimiter]
  show ?thesis
    unfolding pack_predicate_def Let_def r tail concat_append concat_chunks by simp
qed

lemma length_concat_chunks:
  "list_all (\<lambda>c. length c = 32) cs \<Longrightarrow> length (concat cs) = 32 * length cs"
  by (induction cs) auto

lemma chunks_inject:
  assumes "list_all (\<lambda>c. length c = 32) cs" "list_all (\<lambda>c. length c = 32) ds"
    and "concat cs = concat ds"
  shows "cs = ds"
  using assms
proof (induction cs arbitrary: ds)
  case Nil
  then show ?case by (cases ds) auto
next
  case (Cons c cs)
  then obtain d es where ds: "ds = d # es" by (cases ds) auto
  then have "c = d \<and> concat cs = concat es" using Cons.prems by (simp add: append_eq_append_conv)
  then show ?case using Cons ds by simp
qed

lemma pack_predicate_chunks:
  "list_all (\<lambda>c. length c = 32) (pack_predicate m)"
  "length (pack_predicate m) = length m div 32 + 1"
proof -
  have "length (take 32 (drop (32 * i) m)) = 32" if "i < length m div 32" for i
    using that div_times_less_eq_dividend [of "length m" 32] by simp
  moreover have "length (copy_into (replicate 32 0) r) = 32" for r
    by (simp add: copy_into_def)
  ultimately show "list_all (\<lambda>c. length c = 32) (pack_predicate m)"
    by (simp add: pack_predicate_def Let_def list_all_iff)
qed (simp add: pack_predicate_def Let_def)

text \<open>C25: \<open>UnpackPredicate\<close> is the exact inverse of \<open>PackPredicate\<close> on 32-byte storage keys: it
  accepts the chunks that some message packs to and no others, and returns that message. So the
  packing is lossless for every length, a multiple of 32 included, and a predicate has one
  encoding.\<close>
theorem predicate_exact:
  assumes "trims_zeroes (trim_right_zeroes lib)" and "list_all (\<lambda>c. length c = 32) chunks"
  shows "unpack_predicate lib chunks = Inr m \<longleftrightarrow> chunks = pack_predicate m"
proof -
  have padded: "copy_chunks 0 (replicate (32 * length cs) 0) cs = concat cs"
    if "list_all (\<lambda>c. length c = 32) cs" for cs
    using copy_chunks_concat [OF that, of "replicate (32 * length cs) 0" 0] by simp
  have delimiter: "predicate_delimiter \<noteq> 0" by (simp add: predicate_delimiter_def)
  show ?thesis
  proof
    assume ok: "unpack_predicate lib chunks = Inr m"
    let ?t = "trim_right_zeroes lib (concat chunks)"
    have "?t \<noteq> []" "(length ?t + 31) div 32 = length chunks" "?t ! (length ?t - 1) = predicate_delimiter"
      "m = take (length ?t - 1) ?t"
      using ok by (auto simp: unpack_predicate_def Let_def padded [OF assms(2)] split: if_splits)
    then have t: "?t = m @ [predicate_delimiter]" and len: "(length m + 32) div 32 = length chunks"
      by (cases ?t rule: rev_cases; simp)+
    obtain k where k: "concat chunks = m @ predicate_delimiter # replicate k 0"
    proof -
      obtain k where "concat chunks = ?t @ replicate k 0" using assms(1) trims_zeroes_def by blast
      then show ?thesis using that [of k] by (simp add: t)
    qed
    have "32 * length chunks = length m + 1 + k"
      using length_concat_chunks [OF assms(2)] k by simp
    moreover have "length chunks = length m div 32 + 1" using len by simp
    ultimately have "k = 31 - length m mod 32"
      using mult_div_mod_eq [of 32 "length m"] by linarith
    then show "chunks = pack_predicate m"
      using chunks_inject [OF assms(2) pack_predicate_chunks(1), of m] k
      by (simp add: pack_predicate_concat)
  next
    assume chunks: "chunks = pack_predicate m"
    have t: "trim_right_zeroes lib (concat chunks) = m @ [predicate_delimiter]"
      using trims_to [OF assms(1), of "m @ [predicate_delimiter]" "31 - length m mod 32"] delimiter
      by (simp add: chunks pack_predicate_concat)
    have "length chunks = length m div 32 + 1" using pack_predicate_chunks(2) chunks by simp
    then show "unpack_predicate lib chunks = Inr m"
      unfolding unpack_predicate_def Let_def padded [OF assms(2)] t by simp
  qed
qed

section \<open>Witnesses\<close>

definition sample_eth :: eth_library where
  "sample_eth = \<lparr>keccak256 = (\<lambda>s. left_pad32 (map (word_of_nat \<circ> of_char) s)),
     bytes_to_hash = left_pad32, hash_hex = (\<lambda>_. ''0x''),
     trim_right_zeroes = (\<lambda>b. rev (dropWhile (\<lambda>x. x = 0) (rev b)))\<rparr>"

definition sample_warp :: "bytes warp_parsers" where
  "sample_warp = \<lparr>parse_unsigned = Inr, unsigned_payload = drop 2, parse_addressed_call = Inr\<rparr>"

lemma sample_trims: "trims_zeroes (trim_right_zeroes sample_eth)"
proof -
  have "\<exists>n. b = rev (dropWhile (\<lambda>x. x = 0) (rev b)) @ replicate n 0" for b :: bytes
  proof -
    have "takeWhile (\<lambda>x. x = 0) (rev b) = replicate (length (takeWhile (\<lambda>x. x = 0) (rev b))) 0"
      by (metis (mono_tags, lifting) replicate_length_same set_takeWhileD)
    then have "b = rev (dropWhile (\<lambda>x. x = 0) (rev b))
        @ rev (replicate (length (takeWhile (\<lambda>x. x = 0) (rev b))) 0)"
      by (metis rev_append rev_rev_ident takeWhile_dropWhile_id)
    then show ?thesis by (metis rev_replicate)
  qed
  moreover have "rev (dropWhile (\<lambda>x. x = 0) (rev b)) = []
      \<or> List.last (rev (dropWhile (\<lambda>x. x = 0) (rev b))) \<noteq> 0" for b :: bytes
    using hd_dropWhile [of "\<lambda>x. x = 0" "rev b"] by (auto simp: last_rev)
  ultimately show ?thesis by (simp add: trims_zeroes_def sample_eth_def)
qed

lemma sample_packed: "pack_predicate (replicate 32 7) = [replicate 32 7, 0xff # replicate 31 0]"
  by code_simp

theorem predicate_exact_witness:
  "unpack_predicate sample_eth [replicate 32 7, 0xff # replicate 31 0] = Inr (replicate 32 7)
   \<and> unpack_predicate sample_eth [replicate 32 7, 0xff # replicate 31 0, replicate 32 0]
     \<noteq> Inr (replicate 32 7)"
  using predicate_exact [OF sample_trims, of "[replicate 32 7, 0xff # replicate 31 0]" "replicate 32 7"]
    predicate_exact [OF sample_trims,
      of "[replicate 32 7, 0xff # replicate 31 0, replicate 32 0]" "replicate 32 7"]
  by (simp_all add: sample_packed)

theorem submission_decoded_witness:
  "rbind (unpack_event_message (abi_event (1 # 2 # abi_payload (replicate 32 5) 6000 3 4) [0, 0]))
     (parse_submission sample_eth sample_warp)
   = Inr \<lparr>sub_asset = replicate 32 5, sub_price = 6000, sub_updated_at = 3, sub_seq = 4\<rparr>"
  by (subst submission_decoded [where m = "1 # 2 # abi_payload (replicate 32 5) 6000 3 4"
        and payload = "abi_payload (replicate 32 5) 6000 3 4" and i = "replicate 32 5"
        and price = 6000 and updated_at = 3 and seq = 4])
    (simp_all add: sample_warp_def sample_eth_def abi_payload_def left_pad32_def)

end
