(* ===== verification/Relay_Sign.thy ===== *)
theory Relay_Sign
  imports Relay_Codec
begin

text \<open>
  The relay's signature collection, \<^verbatim>\<open>apps/settlement-feed/internal/oraclerelay/p2psign.go\<close>:
  the dial of the oracle validators, the response multiplexer, and \<^verbatim>\<open>Sign\<close>, which runs
  concurrently with the connections that deliver replies. \<^verbatim>\<open>Sign\<close> is a state machine: its own
  steps (send the next request, take a reply, give up) and the deliveries of the network
  interleave in any order, and \<open>sign_run\<close> is the runs. Protobuf, BLS and the Warp message codec
  are the fields of \<open>sign_world\<close>.
\<close>

section \<open>Staking addresses and the signer\<close>

datatype staking_error = BadStakingAddress string string | NoStakingAddress

definition staking_step ::
  "(string \<Rightarrow> string + 'addr) \<Rightarrow> 'addr list \<Rightarrow> string \<Rightarrow> staking_error + 'addr list" where
  "staking_step parse acc piece = (let entry = trim_space piece in
     if entry = [] then Inr acc
     else (case parse entry of
         Inl e \<Rightarrow> Inl (BadStakingAddress entry e)
       | Inr a \<Rightarrow> Inr (acc @ [a])))"

text \<open>\<^verbatim>\<open>ParseStakingAddresses\<close> with \<^verbatim>\<open>netip.ParseAddrPort\<close> as a parameter.\<close>

definition parse_staking_addresses ::
  "(string \<Rightarrow> string + 'addr) \<Rightarrow> string \<Rightarrow> staking_error + 'addr list" where
  "parse_staking_addresses parse addresses =
     rbind (each (staking_step parse) [] (go_split (CHR '','') addresses)) (\<lambda>acc.
       if acc = [] then Inl NoStakingAddress else Inr acc)"

record 'key warp_validator =
  wv_PublicKey :: 'key
  wv_Weight :: u64
  wv_NodeIDs :: "string list"

record ('key, 'sig, 'msg) sign_world =
  sg_validators :: "'key warp_validator list"
  sg_total_weight :: u64
  sg_peers :: "string list"
  sg_message :: bytes
  sg_marshal :: "string option"
  sg_app_request :: "32 word \<Rightarrow> string option"
  sg_send :: "nat \<Rightarrow> bool"
  sg_response :: "bytes \<Rightarrow> string + bytes"
  sg_signature :: "bytes \<Rightarrow> string + 'sig"
  sg_verify :: "'key \<Rightarrow> 'sig \<Rightarrow> bytes \<Rightarrow> bool"
  sg_aggregate :: "'sig list \<Rightarrow> string + 'sig"
  sg_quorum :: "nat list \<Rightarrow> 'sig \<Rightarrow> nat \<Rightarrow> nat \<Rightarrow> string option"
  sg_new_message :: "nat list \<Rightarrow> 'sig \<Rightarrow> string + 'msg"

definition index_by_node_id :: "'key warp_validator list \<Rightarrow> string \<rightharpoonup> nat" where
  "index_by_node_id vs =
     foldl (\<lambda>m (i, v). foldl (\<lambda>m n. m(n \<mapsto> i)) m (wv_NodeIDs v)) Map.empty (enumerate 0 vs)"

text \<open>\<^verbatim>\<open>newP2PSigner\<close>: dialing stops at the first failure, after closing the peers kept so far;
  a connected peer that is not in the set is not one of them.\<close>

datatype 'addr dial_error = DialFailed 'addr string | NotInSet string 'addr

definition dial_step ::
  "('addr \<Rightarrow> string + string) \<Rightarrow> (string \<rightharpoonup> nat)
   \<Rightarrow> string list \<Rightarrow> 'addr \<Rightarrow> (string list \<times> 'addr dial_error) + string list" where
  "dial_step dial index peers addr = (case dial addr of
      Inl e \<Rightarrow> Inl (peers, DialFailed addr e)
    | Inr node \<Rightarrow> if index node = None then Inl (peers, NotInSet node addr) else Inr (peers @ [node]))"

definition new_signer ::
  "('addr \<Rightarrow> string + string) \<Rightarrow> 'key warp_validator list \<Rightarrow> 'addr list
   \<Rightarrow> (string list \<times> 'addr dial_error) + string list" where
  "new_signer dial vs addresses = each (dial_step dial (index_by_node_id vs)) [] addresses"

section \<open>The response multiplexer\<close>

record signature_reply =
  re_node :: string
  re_data :: "bytes option"
  re_error :: string

text \<open>A waiter is the reply channel of a \<^verbatim>\<open>Sign\<close> call, identified by a number.\<close>

type_synonym waiters = "32 word \<rightharpoonup> nat"

definition mux_expect :: "waiters \<Rightarrow> 32 word \<Rightarrow> nat \<Rightarrow> waiters" where
  "mux_expect m i channel = m(i \<mapsto> channel)"

definition mux_forget :: "waiters \<Rightarrow> 32 word \<Rightarrow> waiters" where
  "mux_forget m i = m(i := None)"

text \<open>Delivering takes the waiter out of the map and returns its channel; the code pushes the reply after it
  has released the lock, \<open>sign_step\<close> in the same step. The waiter is out of the map by then, so no other
  delivery of this request can come in between.\<close>

definition mux_deliver :: "waiters \<Rightarrow> 32 word \<Rightarrow> waiters \<times> nat option" where
  "mux_deliver m i = (m(i := None), m i)"

section \<open>Sign\<close>

definition p2p_numerator :: u64 where "p2p_numerator = 67"
definition p2p_denominator :: u64 where "p2p_denominator = 100"

datatype sign_error =
    MarshalFailed string
  | AppRequestFailed string
  | QuorumUnreachable u64 u64
  | SignCancelled
  | SignTimeout u64 u64
  | Refused string string
  | ResponseUndecodable string string
  | SignatureUnparsable string string
  | SignatureWrong string
  | AggregateFailed string
  | LocalQuorum string
  | MessageUnbuilt string

datatype 'msg sign_phase = Sending nat | Collecting | Returned "sign_error + 'msg"

record ('sig, 'msg) sign_state =
  st_counter :: "32 word"
  st_waiters :: waiters
  st_replies :: "signature_reply list"
  st_request_ids :: "32 word list"
  st_outstanding :: nat
  st_signatures :: "(nat \<times> 'sig) list"
  st_weight :: u64
  st_phase :: "'msg sign_phase"

definition aggregate_by_index ::
  "('key, 'sig, 'msg) sign_world \<Rightarrow> (nat \<times> 'sig) list \<Rightarrow> sign_error + 'msg" where
  "aggregate_by_index w by_index =
    (let indexes = sort (map fst by_index);
         signatures = map (\<lambda>i. the (map_of by_index i)) indexes in
     case sg_aggregate w signatures of
       Inl e \<Rightarrow> Inl (AggregateFailed e)
     | Inr aggregated \<Rightarrow>
         (case sg_quorum w indexes aggregated (unat p2p_numerator) (unat p2p_denominator) of
            Some e \<Rightarrow> Inl (LocalQuorum e)
          | None \<Rightarrow> (case sg_new_message w indexes aggregated of
                Inl e \<Rightarrow> Inl (MessageUnbuilt e)
              | Inr m \<Rightarrow> Inr m)))"

text \<open>Returning after the requests were sent runs the deferred \<^verbatim>\<open>forget\<close> of every request.\<close>

definition returned ::
  "('sig, 'msg) sign_state \<Rightarrow> sign_error + 'msg \<Rightarrow> ('sig, 'msg) sign_state" where
  "returned s r = s\<lparr>st_waiters := foldl mux_forget (st_waiters s) (st_request_ids s),
     st_phase := Returned r\<rparr>"

text \<open>The head of the collection loop.\<close>

definition loop_head ::
  "('key, 'sig, 'msg) sign_world \<Rightarrow> ('sig, 'msg) sign_state \<Rightarrow> ('sig, 'msg) sign_state" where
  "loop_head w s =
    (if st_weight s * p2p_denominator < sg_total_weight w * p2p_numerator then
       if st_outstanding s = 0 then returned s (Inl (QuorumUnreachable (st_weight s) (sg_total_weight w)))
       else s\<lparr>st_phase := Collecting\<rparr>
     else returned s (aggregate_by_index w (st_signatures s)))"

text \<open>One round of the sending loop; the request number is odd.\<close>

definition send_next ::
  "('key, 'sig, 'msg) sign_world \<Rightarrow> nat \<Rightarrow> nat \<Rightarrow> ('sig, 'msg) sign_state \<Rightarrow> ('sig, 'msg) sign_state" where
  "send_next w channel k s =
    (let counter = st_counter s + 2; i = (or counter 1) in
     case sg_app_request w i of
       Some e \<Rightarrow> s\<lparr>st_counter := counter, st_phase := Returned (Inl (AppRequestFailed e))\<rparr>
     | None \<Rightarrow>
         (let m = mux_expect (st_waiters s) i channel; sent = sg_send w k;
              t = s\<lparr>st_counter := counter, st_request_ids := st_request_ids s @ [i],
                    st_waiters := (if sent then m else mux_forget m i),
                    st_outstanding := (if sent then st_outstanding s + 1 else st_outstanding s)\<rparr> in
          if Suc k < length (sg_peers w) then t\<lparr>st_phase := Sending (Suc k)\<rparr> else loop_head w t))"

text \<open>One reply, taken from the channel.\<close>

definition handle_reply ::
  "('key, 'sig, 'msg) sign_world \<Rightarrow> signature_reply \<Rightarrow> ('sig, 'msg) sign_state \<Rightarrow> ('sig, 'msg) sign_state" where
  "handle_reply w r s0 = (let s = s0\<lparr>st_outstanding := st_outstanding s0 - 1\<rparr> in
    case index_by_node_id (sg_validators w) (re_node r) of None \<Rightarrow> loop_head w s
    | Some index \<Rightarrow> (case re_data r of
        None \<Rightarrow> returned s (Inl (Refused (re_node r) (re_error r)))
      | Some b \<Rightarrow>
          if index \<in> fst ` set (st_signatures s) then loop_head w s
          else (case sg_response w b of
              Inl e \<Rightarrow> returned s (Inl (ResponseUndecodable (re_node r) e))
            | Inr raw \<Rightarrow> (case sg_signature w raw of
                Inl e \<Rightarrow> returned s (Inl (SignatureUnparsable (re_node r) e))
              | Inr sig \<Rightarrow>
                  (let v = sg_validators w ! index in
                   if \<not> sg_verify w (wv_PublicKey v) sig (sg_message w)
                   then returned s (Inl (SignatureWrong (re_node r)))
                   else loop_head w (s\<lparr>st_signatures := st_signatures s @ [(index, sig)],
                          st_weight := st_weight s + wv_Weight v\<rparr>))))))"

definition sign_init ::
  "('key, 'sig, 'msg) sign_world \<Rightarrow> 32 word \<Rightarrow> waiters \<Rightarrow> ('sig, 'msg) sign_state" where
  "sign_init w counter m =
    (let s = \<lparr>st_counter = counter, st_waiters = m, st_replies = [], st_request_ids = [],
              st_outstanding = 0, st_signatures = [], st_weight = 0, st_phase = Sending 0\<rparr> in
     case sg_marshal w of Some e \<Rightarrow> s\<lparr>st_phase := Returned (Inl (MarshalFailed e))\<rparr>
     | None \<Rightarrow> if sg_peers w = [] then loop_head w s else s)"

text \<open>The events: the call's own steps and \<^verbatim>\<open>HandleInbound\<close> of a connection.\<close>

datatype sign_event = SendNext | TakeReply | GiveUp bool | Inbound "32 word" signature_reply

definition sign_step ::
  "('key, 'sig, 'msg) sign_world \<Rightarrow> nat \<Rightarrow> sign_event \<Rightarrow> ('sig, 'msg) sign_state
   \<Rightarrow> ('sig, 'msg) sign_state option" where
  "sign_step w channel ev s = (case ev of
      Inbound i r \<Rightarrow> (case mux_deliver (st_waiters s) i of (m, found) \<Rightarrow>
        Some (s\<lparr>st_waiters := m, st_replies :=
          (if found = Some channel then st_replies s @ [r] else st_replies s)\<rparr>))
    | SendNext \<Rightarrow> (case st_phase s of
        Sending k \<Rightarrow> Some (send_next w channel k s) | _ \<Rightarrow> None)
    | TakeReply \<Rightarrow> (case (st_phase s, st_replies s) of
        (Collecting, r # rs) \<Rightarrow> Some (handle_reply w r (s\<lparr>st_replies := rs\<rparr>)) | _ \<Rightarrow> None)
    | GiveUp cancelled \<Rightarrow> (case st_phase s of
        Collecting \<Rightarrow> Some (returned s (Inl (if cancelled then SignCancelled
            else SignTimeout (st_weight s) (sg_total_weight w))))
      | _ \<Rightarrow> None))"

definition own_event :: "sign_event \<Rightarrow> nat" where
  "own_event ev = (case ev of Inbound _ _ \<Rightarrow> 0 | _ \<Rightarrow> 1)"

text \<open>The runs, with the number of the call's own steps.\<close>

inductive sign_run ::
  "('key, 'sig, 'msg) sign_world \<Rightarrow> nat \<Rightarrow> 32 word \<Rightarrow> waiters \<Rightarrow> nat \<Rightarrow> ('sig, 'msg) sign_state \<Rightarrow> bool"
  for w channel counter m where
  start: "sign_run w channel counter m 0 (sign_init w counter m)"
| step: "sign_run w channel counter m n s \<Longrightarrow> sign_step w channel ev s = Some t \<Longrightarrow>
    sign_run w channel counter m (n + own_event ev) t"


section \<open>What a run keeps\<close>

lemma foldl_const_Some:
  "foldl (\<lambda>m n. m(n \<mapsto> i)) m ns k = Some j \<Longrightarrow> j = i \<or> m k = Some j"
  by (induction ns arbitrary: m) (force split: if_splits)+

lemma index_by_node_id_bound:
  assumes "index_by_node_id vs node = Some i"
  shows "i < length vs"
proof -
  have "i \<in> fst ` set xs \<or> m node = Some i"
    if "foldl (\<lambda>m (i, v). foldl (\<lambda>m n. m(n \<mapsto> i)) m (wv_NodeIDs v)) m xs node = Some i"
    for m and xs :: "(nat \<times> 'a warp_validator) list"
    using that
  proof (induction xs arbitrary: m)
    case (Cons x xs)
    obtain j v where x: "x = (j, v)" by (cases x)
    with Cons.prems have "i \<in> fst ` set xs \<or> foldl (\<lambda>m n. m(n \<mapsto> j)) m (wv_NodeIDs v) node = Some i"
      by (intro Cons.IH) simp
    then show ?case using foldl_const_Some [of j m "wv_NodeIDs v" node i] 
      by (auto simp only: x list.set image_insert fst_conv insert_iff)
  qed simp
  then have "i \<in> fst ` set (enumerate 0 vs)"
    using assms unfolding index_by_node_id_def by fastforce
  then show ?thesis by (auto simp: enumerate_eq_zip dest: set_zip_leftD)
qed

definition signature_ok :: "('key, 'sig, 'msg) sign_world \<Rightarrow> nat \<Rightarrow> 'sig \<Rightarrow> bool" where
  "signature_ok w i sig \<longleftrightarrow> i < length (sg_validators w) \<and>
     sg_verify w (wv_PublicKey (sg_validators w ! i)) sig (sg_message w)"

definition weight_of :: "('key, 'sig, 'msg) sign_world \<Rightarrow> nat list \<Rightarrow> nat" where
  "weight_of w indexes = (\<Sum>i\<leftarrow>indexes. unat (wv_Weight (sg_validators w ! i)))"

definition whole_set :: "('key, 'sig, 'msg) sign_world \<Rightarrow> bool" where
  "whole_set w \<longleftrightarrow> (\<Sum>v\<leftarrow>sg_validators w. unat (wv_Weight v)) = unat (sg_total_weight w)
     \<and> 100 * unat (sg_total_weight w) < 2 ^ 64"

lemma weight_of_bound:
  assumes "distinct is" and "list_all (\<lambda>i. i < length (sg_validators w)) is" and "whole_set w"
  shows "weight_of w is \<le> unat (sg_total_weight w)"
proof -
  let ?f = "\<lambda>i. unat (wv_Weight (sg_validators w ! i))"
  have "weight_of w is = sum ?f (set is)"
    using assms(1) by (simp add: weight_of_def sum_list_distinct_conv_sum_set)
  also have "\<dots> \<le> sum ?f {..<length (sg_validators w)}"
    using assms(2) by (intro sum_mono2) (auto simp: list_all_iff)
  also have "\<dots> = (\<Sum>v\<leftarrow>sg_validators w. unat (wv_Weight v))"
    by (simp add: sum_list_sum_nth lessThan_atLeast0)
  finally show ?thesis using assms(3) by (simp add: whole_set_def)
qed

text \<open>The signatures collected so far: one per validator, verified, their weight counted exactly.\<close>

definition collected :: "('key, 'sig, 'msg) sign_world \<Rightarrow> ('sig, 'msg) sign_state \<Rightarrow> bool" where
  "collected w s \<longleftrightarrow> distinct (map fst (st_signatures s))
     \<and> list_all (\<lambda>(i, sig). signature_ok w i sig) (st_signatures s)
     \<and> unat (st_weight s) = weight_of w (map fst (st_signatures s))
     \<and> (case st_phase s of
          Returned (Inr msg) \<Rightarrow> aggregate_by_index w (st_signatures s) = Inr msg
            \<and> 67 * unat (sg_total_weight w) \<le> 100 * unat (st_weight s)
        | _ \<Rightarrow> True)"

definition gathered :: "('key, 'sig, 'msg) sign_world \<Rightarrow> ('sig, 'msg) sign_state \<Rightarrow> bool" where
  "gathered w s \<longleftrightarrow> distinct (map fst (st_signatures s))
     \<and> list_all (\<lambda>(i, sig). signature_ok w i sig) (st_signatures s)
     \<and> unat (st_weight s) = weight_of w (map fst (st_signatures s))"

lemma collected_gathered: "collected w s \<Longrightarrow> gathered w s"
  by (simp add: collected_def gathered_def)

lemma gathered_cong: "gathered w s \<Longrightarrow> st_signatures t = st_signatures s \<Longrightarrow> st_weight t = st_weight s
    \<Longrightarrow> gathered w t"
  by (simp add: gathered_def)

lemma gathered_indexes:
  "gathered w s \<Longrightarrow> list_all (\<lambda>i. i < length (sg_validators w)) (map fst (st_signatures s))"
  by (auto simp: gathered_def list_all_iff signature_ok_def)

lemma gathered_total:
  "whole_set w \<Longrightarrow> gathered w s \<Longrightarrow> unat (st_weight s) \<le> unat (sg_total_weight w)"
  using weight_of_bound [of "map fst (st_signatures s)" w] gathered_indexes [of w s]
  by (simp add: gathered_def)

lemma returned_simps [simp]:
  "st_signatures (returned s r) = st_signatures s" "st_weight (returned s r) = st_weight s"
  "st_replies (returned s r) = st_replies s" "st_phase (returned s r) = Returned r"
  "st_request_ids (returned s r) = st_request_ids s"
  by (simp_all add: returned_def)

lemma returned_error_collected: "gathered w s \<Longrightarrow> collected w (returned s (Inl e))"
  by (simp add: gathered_def collected_def)

lemma loop_head_collected:
  assumes "whole_set w" and "gathered w s"
  shows "collected w (loop_head w s)"
proof -
  have "unat (st_weight s) * 100 < 2 ^ 64"
    using assms(1) gathered_total [OF assms] by (simp add: whole_set_def)
  then have "unat (st_weight s * p2p_denominator) = unat (st_weight s) * 100"
    "unat (sg_total_weight w * p2p_numerator) = unat (sg_total_weight w) * 67"
    using assms(1) unat_u64_mult_exact [of "st_weight s" p2p_denominator]
      unat_u64_mult_exact [of "sg_total_weight w" p2p_numerator]
    by (simp_all add: p2p_numerator_def p2p_denominator_def whole_set_def)
  then show ?thesis using assms(2)
    by (auto simp: loop_head_def collected_def gathered_def word_less_nat_alt split: sum.splits)
qed

lemma handle_reply_collected:
  assumes "whole_set w" and "gathered w s"
  shows "collected w (handle_reply w r s)"
proof -
  let ?s = "s\<lparr>st_outstanding := st_outstanding s - 1\<rparr>"
  have s: "gathered w ?s" using assms(2) by (rule gathered_cong) simp_all
  have added: "gathered w (?s\<lparr>st_signatures := st_signatures s @ [(i, sig)],
      st_weight := st_weight s + wv_Weight (sg_validators w ! i)\<rparr>)"
    if "signature_ok w i sig" and new: "i \<notin> fst ` set (st_signatures s)" for i sig
  proof -
    let ?is = "map fst (st_signatures s) @ [i]"
    have "weight_of w ?is \<le> unat (sg_total_weight w)"
      using that assms by (intro weight_of_bound) (auto simp: gathered_def signature_ok_def list_all_iff)
    then have "unat (st_weight s) + unat (wv_Weight (sg_validators w ! i)) < 2 ^ 64"
      using assms unat_u64_less [of "sg_total_weight w"] by (simp add: weight_of_def gathered_def)
    from unat_u64_add_exact [OF this] show ?thesis
      using that assms(2) by (auto simp: gathered_def weight_of_def)
  qed
  show ?thesis
    using loop_head_collected [OF assms(1) s] returned_error_collected [OF s]
      loop_head_collected [OF assms(1) added] index_by_node_id_bound [of "sg_validators w"]
    by (auto simp: handle_reply_def Let_def signature_ok_def split: option.split sum.split)
qed

lemma send_next_collected:
  assumes "whole_set w" and "gathered w s"
  shows "collected w (send_next w channel k s)"
proof -
  have "gathered w (s\<lparr>st_counter := a, st_request_ids := b, st_waiters := c, st_outstanding := d\<rparr>)"
    for a b c d using assms(2) by (rule gathered_cong) simp_all
  note head = loop_head_collected [OF assms(1) this]
  have "collected w (s\<lparr>st_counter := a, st_request_ids := b, st_waiters := c, st_outstanding := d,
      st_phase := Sending k\<rparr>)" "collected w (s\<lparr>st_counter := a, st_phase := Returned (Inl e)\<rparr>)"
    for a b c d k e using assms(2) by (simp_all add: gathered_def collected_def)
  then show ?thesis using head by (simp add: send_next_def Let_def split: option.split)
qed

lemma run_collected:
  assumes "sign_run w channel counter m n s" and "whole_set w"
  shows "collected w s"
  using assms(1)
proof induction
  case start
  let ?s = "\<lparr>st_counter = counter, st_waiters = m, st_replies = [], st_request_ids = [],
    st_outstanding = 0, st_signatures = [], st_weight = 0, st_phase = Sending 0\<rparr>"
  have "gathered w ?s" by (simp add: gathered_def weight_of_def)
  then show ?case using loop_head_collected [OF assms(2), of ?s]
    by (auto simp: sign_init_def Let_def collected_def gathered_def split: option.split)
next
  case (step n s ev t)
  note g = collected_gathered [OF step.IH]
  show ?case
  proof (cases ev)
    case (Inbound i r)
    then show ?thesis using step.hyps(2) step.IH
      by (auto simp: sign_step_def mux_deliver_def collected_def split: sign_phase.splits sum.splits)
  next
    case SendNext
    then show ?thesis using step.hyps(2) send_next_collected [OF assms(2) g]
      by (auto simp: sign_step_def split: sign_phase.splits)
  next
    case TakeReply
    then show ?thesis using step.hyps(2) handle_reply_collected [OF assms(2)] g
      by (auto simp: sign_step_def gathered_def split: sign_phase.splits list.splits)
  next
    case (GiveUp c)
    then show ?thesis using step.hyps(2) returned_error_collected [OF g]
      by (auto simp: sign_step_def split: sign_phase.splits)
  qed
qed

lemma weight_of_sort: "weight_of w (sort is) = weight_of w is"
  by (simp add: weight_of_def flip: sum_mset_sum_list)

text \<open>C23: A Warp message \<open>Sign\<close> returns carries real signatures of enough weight, however the
  replies of the validators interleave: the signers are indexes of the canonical set in
  increasing order and each once, every signature was verified against that validator's key on
  this very message, the signers hold at least 67 percent of the set's weight, counted exactly,
  and the aggregate of those signatures passed the local quorum check. The set's weights are
  assumed to add up to its total, a hundred times which fits in 64 bits.\<close>
theorem signed_with_quorum:
  assumes "sign_run w channel counter m n s" and "st_phase s = Returned (Inr msg)"
    and "whole_set w"
  shows "\<exists>signers sigs aggregated. sorted signers \<and> distinct signers
    \<and> list_all2 (signature_ok w) signers sigs
    \<and> 67 * unat (sg_total_weight w) \<le> 100 * weight_of w signers
    \<and> sg_aggregate w sigs = Inr aggregated \<and> sg_quorum w signers aggregated 67 100 = None
    \<and> sg_new_message w signers aggregated = Inr msg"
proof -
  let ?sigs = "st_signatures s"
  let ?is = "sort (map fst ?sigs)"
  let ?ss = "map (\<lambda>i. the (map_of ?sigs i)) ?is"
  from run_collected [OF assms(1,3)] assms(2)
  have c: "distinct (map fst ?sigs)" "list_all (\<lambda>(i, sig). signature_ok w i sig) ?sigs"
    "unat (st_weight s) = weight_of w (map fst ?sigs)" "aggregate_by_index w ?sigs = Inr msg"
    "67 * unat (sg_total_weight w) \<le> 100 * unat (st_weight s)"
    by (auto simp: collected_def)
  have "signature_ok w i (the (map_of ?sigs i))" if "i \<in> fst ` set ?sigs" for i
    using that c(2) by (metis (mono_tags, lifting) case_prod_conv list_all_iff map_of_SomeD
        map_of_eq_None_iff option.collapse)
  then have "list_all2 (signature_ok w) ?is ?ss"
    by (simp add: list_all2_map2 list_all2_same)
  moreover have "weight_of w ?is = weight_of w (map fst ?sigs)"
    by (rule weight_of_sort)
  moreover obtain agg where "sg_aggregate w ?ss = Inr agg" "sg_quorum w ?is agg 67 100 = None"
    "sg_new_message w ?is agg = Inr msg"
    using c(4) unfolding aggregate_by_index_def Let_def
    by (auto simp: p2p_numerator_def p2p_denominator_def split: sum.splits option.splits)
  ultimately show ?thesis using c(1,3,5)
    by (intro exI [of _ ?is] exI [of _ ?ss] exI [of _ agg]) simp
qed

section \<open>Bounds\<close>

text \<open>The channel, and the steps a call may take.\<close>

definition waiting :: "nat \<Rightarrow> waiters \<Rightarrow> 32 word set" where
  "waiting channel m = {i. m i = Some channel}"

definition left_to_send :: "('key, 'sig, 'msg) sign_world \<Rightarrow> ('sig, 'msg) sign_state \<Rightarrow> nat" where
  "left_to_send w s = (case st_phase s of Sending k \<Rightarrow> length (sg_peers w) - k | _ \<Rightarrow> 0)"

definition own_steps_left :: "('key, 'sig, 'msg) sign_world \<Rightarrow> ('sig, 'msg) sign_state \<Rightarrow> nat" where
  "own_steps_left w s = (case st_phase s of
      Sending k \<Rightarrow> 2 * (length (sg_peers w) - k) + st_outstanding s + 1
    | Collecting \<Rightarrow> st_outstanding s + 1
    | Returned _ \<Rightarrow> 0)"

definition leaked :: "('sig, 'msg) sign_state \<Rightarrow> bool" where
  "leaked s = (case st_phase s of Returned (Inl (AppRequestFailed _)) \<Rightarrow> True | _ \<Rightarrow> False)"

definition bounded :: "('key, 'sig, 'msg) sign_world \<Rightarrow> nat \<Rightarrow> nat \<Rightarrow> ('sig, 'msg) sign_state \<Rightarrow> bool" where
  "bounded w channel n s \<longleftrightarrow>
     card (waiting channel (st_waiters s)) + length (st_replies s) + left_to_send w s
       \<le> length (sg_peers w)
     \<and> n + own_steps_left w s \<le> 2 * length (sg_peers w) + 1
     \<and> waiting channel (st_waiters s) \<subseteq> set (st_request_ids s)
     \<and> (case st_phase s of Sending k \<Rightarrow> k < length (sg_peers w)
         | Collecting \<Rightarrow> 0 < st_outstanding s
         | Returned _ \<Rightarrow> leaked s \<or> waiting channel (st_waiters s) = {})"

lemma waiting_forget: "waiting channel (mux_forget m i) = waiting channel m - {i}"
  by (auto simp: waiting_def mux_forget_def)

lemma waiting_forget_all: "waiting channel (foldl mux_forget m is) = waiting channel m - set is"
  by (induction "is" arbitrary: m) (auto simp: waiting_forget)

lemma waiting_expect: "waiting channel (mux_expect m i channel) = insert i (waiting channel m)"
  by (auto simp: waiting_def mux_expect_def)

lemma waiting_card_remove: "card (waiting channel m - A) \<le> card (waiting channel m)"
  by (rule card_mono) auto

lemma waiting_card_insert: "card (insert i (waiting channel m)) \<le> card (waiting channel m) + 1"
  by (simp add: card_insert_le_m1 card_insert_if)

lemma returned_bounded:
  assumes "card (waiting channel (st_waiters s)) + length (st_replies s) \<le> length (sg_peers w)"
    and "n \<le> 2 * length (sg_peers w) + 1"
    and "waiting channel (st_waiters s) \<subseteq> set (st_request_ids s)"
  shows "bounded w channel n (returned s r)"
proof -
  have "waiting channel (st_waiters (returned s r)) = {}"
    using assms(3) by (auto simp: returned_def waiting_forget_all)
  then show ?thesis using assms(1,2) by (simp add: bounded_def left_to_send_def own_steps_left_def)
qed

lemma loop_head_bounded:
  assumes "card (waiting channel (st_waiters s)) + length (st_replies s) \<le> length (sg_peers w)"
    and "n + st_outstanding s + 1 \<le> 2 * length (sg_peers w) + 1"
    and "waiting channel (st_waiters s) \<subseteq> set (st_request_ids s)"
  shows "bounded w channel n (loop_head w s)"
proof -
  have "bounded w channel n (returned s r)" for r
    using assms by (intro returned_bounded) simp_all
  moreover have "bounded w channel n (s\<lparr>st_phase := Collecting\<rparr>)" if "st_outstanding s \<noteq> 0"
    using assms that by (simp add: bounded_def left_to_send_def own_steps_left_def)
  ultimately show ?thesis by (simp add: loop_head_def)
qed

lemma handle_reply_bounded:
  assumes "card (waiting channel (st_waiters s)) + length (st_replies s) \<le> length (sg_peers w)"
    and "n + st_outstanding s \<le> 2 * length (sg_peers w) + 1" and "0 < st_outstanding s"
    and "waiting channel (st_waiters s) \<subseteq> set (st_request_ids s)"
  shows "bounded w channel n (handle_reply w r s)"
proof -
  let ?s = "s\<lparr>st_outstanding := st_outstanding s - 1\<rparr>"
  have "bounded w channel n (loop_head w (?s\<lparr>st_signatures := a, st_weight := b\<rparr>))"
    "bounded w channel n (loop_head w ?s)" "bounded w channel n (returned ?s q)" for a b q
    using assms by (auto intro!: loop_head_bounded returned_bounded)
  then show ?thesis by (simp add: handle_reply_def Let_def split: option.split sum.split)
qed

lemma send_next_bounded:
  assumes "bounded w channel n s" and "st_phase s = Sending k"
  shows "bounded w channel (n + 1) (send_next w channel k s)"
proof -
  let ?m = "st_waiters s"
  have k: "k < length (sg_peers w)"
    and room: "card (waiting channel ?m) + length (st_replies s) + (length (sg_peers w) - k)
      \<le> length (sg_peers w)"
    and steps: "n + (2 * (length (sg_peers w) - k) + st_outstanding s + 1) \<le> 2 * length (sg_peers w) + 1"
    and ids: "waiting channel ?m \<subseteq> set (st_request_ids s)"
    using assms by (auto simp: bounded_def left_to_send_def own_steps_left_def)
  have one: "length (sg_peers w) - k = Suc (length (sg_peers w) - Suc k)" using k by simp
  define after where "after c i sent = s\<lparr>st_counter := c, st_request_ids := st_request_ids s @ [i],
      st_waiters := (if sent then mux_expect ?m i channel else mux_forget (mux_expect ?m i channel) i),
      st_outstanding := (if sent then st_outstanding s + 1 else st_outstanding s)\<rparr>" for c i sent
  have card: "card (waiting channel (st_waiters (after c i sent))) \<le> card (waiting channel ?m) + 1"
    and sub: "waiting channel (st_waiters (after c i sent)) \<subseteq> set (st_request_ids (after c i sent))"
    for c i sent
    using waiting_card_insert [of i channel ?m] waiting_card_remove [of channel ?m "{i}"] ids
    by (auto simp: after_def waiting_expect waiting_forget)
  have fields: "st_replies (after c i sent) = st_replies s" "st_outstanding (after c i sent) \<le> st_outstanding s + 1"
    for c i sent by (simp_all add: after_def)
  have "bounded w channel (n + 1) (loop_head w (after c i sent))" for c i sent
    using card [of c i sent] fields [of c i sent] room steps sub one by (intro loop_head_bounded) auto
  moreover have "bounded w channel (n + 1) ((after c i sent)\<lparr>st_phase := Sending (Suc k)\<rparr>)"
    if "Suc k < length (sg_peers w)" for c i sent
    using card [of c i sent] fields [of c i sent] room steps sub [of c i sent] that
    by (auto simp: bounded_def left_to_send_def own_steps_left_def)
  moreover have "bounded w channel (n + 1) (s\<lparr>st_counter := c, st_phase := Returned (Inl (AppRequestFailed e))\<rparr>)"
    for c e using room steps ids k
    by (simp add: bounded_def left_to_send_def own_steps_left_def leaked_def)
  moreover have "send_next w channel k s = (let c = st_counter s + 2; i = (or c 1) in
      case sg_app_request w i of
        Some e \<Rightarrow> s\<lparr>st_counter := c, st_phase := Returned (Inl (AppRequestFailed e))\<rparr>
      | None \<Rightarrow> if Suc k < length (sg_peers w)
          then (after c i (sg_send w k))\<lparr>st_phase := Sending (Suc k)\<rparr>
          else loop_head w (after c i (sg_send w k)))"
    by (auto simp: send_next_def after_def Let_def split: option.split)
  ultimately show ?thesis by (simp add: Let_def split: option.split)
qed

lemma run_bounded:
  assumes "sign_run w channel counter m n s" and "waiting channel m = {}"
  shows "bounded w channel n s"
  using assms(1)
proof induction
  case start
  let ?s = "\<lparr>st_counter = counter, st_waiters = m, st_replies = [], st_request_ids = [],
    st_outstanding = 0, st_signatures = [], st_weight = 0, st_phase = Sending 0\<rparr>"
  show ?case using loop_head_bounded [of channel ?s w 0] assms(2)
    by (auto simp: sign_init_def Let_def bounded_def left_to_send_def own_steps_left_def split: option.split)
next
  case (step n s ev t)
  show ?case
  proof (cases ev)
    case (Inbound i r)
    let ?m = "st_waiters s"
    have "waiting channel (?m(i := None)) = waiting channel ?m - {i}"
      by (auto simp: waiting_def)
    moreover have "card (waiting channel ?m) = Suc (card (waiting channel ?m - {i}))"
      if "?m i = Some channel"
      using that by (intro card.remove) (auto simp: waiting_def)
    ultimately show ?thesis using step.hyps(2) step.IH Inbound waiting_card_remove [of channel ?m "{i}"]
      by (auto simp: sign_step_def mux_deliver_def bounded_def left_to_send_def own_steps_left_def
          own_event_def leaked_def split: sign_phase.splits sum.splits)
  next
    case SendNext
    then show ?thesis using step.hyps(2) send_next_bounded [OF step.IH]
      by (auto simp: sign_step_def own_event_def split: sign_phase.splits)
  next
    case TakeReply
    then obtain q qs where s: "st_phase s = Collecting" "st_replies s = q # qs"
      "t = handle_reply w q (s\<lparr>st_replies := qs\<rparr>)"
      using step.hyps(2) by (auto simp: sign_step_def split: sign_phase.splits list.splits)
    then show ?thesis using step.IH TakeReply handle_reply_bounded [of channel "s\<lparr>st_replies := qs\<rparr>" w "n + 1" q]
      by (simp add: bounded_def left_to_send_def own_steps_left_def own_event_def)
  next
    case (GiveUp c)
    then obtain q where s: "st_phase s = Collecting" "t = returned s q"
      using step.hyps(2) by (auto simp: sign_step_def split: sign_phase.splits)
    then show ?thesis using step.IH GiveUp returned_bounded [of channel s w "n + 1" q]
      by (simp add: bounded_def left_to_send_def own_steps_left_def own_event_def)
  qed
qed

text \<open>C24: A \<open>Sign\<close> call never blocks the network and always comes to an end. Whatever the
  interleaving, the replies in its channel never outnumber the peers, which is the channel's
  capacity; the call takes at most two steps per peer and one more; before it has returned one of
  its steps is always possible (the timer, if nothing else); and once it has returned no request
  of it is registered any more, so late replies are dropped - except when building a request
  failed, where the code returns before it has deferred the clean-up.\<close>
theorem sign_bounded:
  assumes "sign_run w channel counter m n s" and "waiting channel m = {}"
  shows "length (st_replies s) \<le> length (sg_peers w) \<and> n \<le> 2 * length (sg_peers w) + 1
    \<and> (case st_phase s of
        Returned r \<Rightarrow> leaked s \<or> waiting channel (st_waiters s) = {}
      | _ \<Rightarrow> (\<exists>ev t. own_event ev = 1 \<and> sign_step w channel ev s = Some t))"
proof -
  have "sign_step w channel SendNext s = Some (send_next w channel k s)" if "st_phase s = Sending k" for k
    using that by (simp add: sign_step_def)
  moreover have "\<exists>t. sign_step w channel (GiveUp False) s = Some t" if "st_phase s = Collecting"
    using that by (simp add: sign_step_def)
  moreover have "own_event SendNext = 1" "own_event (GiveUp False) = 1" by (simp_all add: own_event_def)
  ultimately show ?thesis using run_bounded [OF assms]
    by (cases "st_phase s") (auto simp: bounded_def)
qed

section \<open>Witnesses\<close>

definition sample_validator :: "string \<Rightarrow> nat warp_validator" where
  "sample_validator node = \<lparr>wv_PublicKey = length node, wv_Weight = word_of_nat (100 * length node), wv_NodeIDs = [node]\<rparr>"

definition sample_sign_world :: "(nat, nat, nat list \<times> nat) sign_world" where
  "sample_sign_world = \<lparr>sg_validators = [sample_validator ''a'', sample_validator ''bb'', sample_validator ''ccc''],
     sg_total_weight = 600, sg_peers = [''ccc'', ''a'', ''bb''], sg_message = [1],
     sg_marshal = None, sg_app_request = (\<lambda>_. None), sg_send = (\<lambda>k. k \<noteq> 1), sg_response = Inr,
     sg_signature = (\<lambda>b. Inr (length b)), sg_verify = (\<lambda>k sig _. k = sig),
     sg_aggregate = (\<lambda>sigs. Inr (sum_list sigs)), sg_quorum = (\<lambda>_ _ _ _. None),
     sg_new_message = (\<lambda>is sig. Inr (is, sig))\<rparr>"

definition sample_reply :: "string \<Rightarrow> signature_reply" where
  "sample_reply node = \<lparr>re_node = node, re_data = Some (replicate (length node) 0), re_error = []\<rparr>"

definition sample_events :: "sign_event list" where
  "sample_events = [SendNext, SendNext, Inbound 3 (sample_reply ''ccc''), SendNext, TakeReply,
     Inbound 3 (sample_reply ''a''), Inbound 7 (sample_reply ''bb''), TakeReply]"

fun sign_steps ::
  "('key, 'sig, 'msg) sign_world \<Rightarrow> nat \<Rightarrow> sign_event list \<Rightarrow> nat \<times> ('sig, 'msg) sign_state
   \<Rightarrow> (nat \<times> ('sig, 'msg) sign_state) option" where
  "sign_steps w channel [] x = Some x"
| "sign_steps w channel (ev # evs) x = (case sign_step w channel ev (snd x) of
      None \<Rightarrow> None | Some t \<Rightarrow> sign_steps w channel evs (fst x + own_event ev, t))"

lemma sign_steps_run:
  "sign_steps w channel evs (n, s) = Some (k, t) \<Longrightarrow> sign_run w channel counter m n s \<Longrightarrow>
    sign_run w channel counter m k t"
  by (induction evs arbitrary: n s) (auto split: option.splits intro: sign_run.step)

definition sample_end :: "nat \<times> (nat, nat list \<times> nat) sign_state" where
  "sample_end = the (sign_steps sample_sign_world 4 sample_events
     (0, sign_init sample_sign_world 0 Map.empty))"


lemma sample_end: "fst sample_end = 5" "st_phase (snd sample_end) = Returned (Inr ([1, 2], 5))"
  "st_replies (snd sample_end) = []"
  "sign_steps sample_sign_world 4 sample_events (0, sign_init sample_sign_world 0 Map.empty)
     = Some (fst sample_end, snd sample_end)"
  by code_simp+

lemma sample_end_run: "sign_run sample_sign_world 4 0 Map.empty 5 (snd sample_end)"
  using sign_steps_run [OF sample_end(4) sign_run.start] by (simp only: sample_end)

lemma sample_whole_set: "whole_set sample_sign_world"
  by (simp add: whole_set_def sample_sign_world_def sample_validator_def)

theorem signed_with_quorum_witness:
  "\<exists>signers sigs aggregated. sorted signers \<and> distinct signers
    \<and> list_all2 (signature_ok sample_sign_world) signers sigs
    \<and> 67 * 600 \<le> 100 * weight_of sample_sign_world signers
    \<and> sg_new_message sample_sign_world signers aggregated = Inr ([1, 2], 5)"
  using signed_with_quorum [OF sample_end_run sample_end(2) sample_whole_set]
  by (auto simp: sample_sign_world_def)

theorem sign_bounded_witness: "waiting 4 (st_waiters (snd sample_end)) = {}"
  using sign_bounded [OF sample_end_run] by (simp add: sample_end waiting_def leaked_def)


text \<open>The comparison is on 64 bits: for a total that large, a signer of weight 1 ends the collection,
  and only the verification in \<open>aggregate_by_index\<close> is left to refuse it.\<close>

lemma quorum_comparison_wraps:
  assumes "st_weight s = 1" and "sg_total_weight w = 17345445920055250027"
  shows "loop_head w s = returned s (aggregate_by_index w (st_signatures s))"
  using assms by (simp add: loop_head_def p2p_numerator_def p2p_denominator_def)

end
