(* ===== verification/Relay.thy ===== *)
theory Relay
  imports Feed_Config Relay_Sign Set_Weight
begin

text \<open>
  The Warp price relay: \<^verbatim>\<open>relay.go\<close>, the visibility gate of \<^verbatim>\<open>epoch.go\<close> and the client helpers
  of \<^verbatim>\<open>evm.go\<close> under \<^verbatim>\<open>apps/settlement-feed/internal/oraclerelay\<close>. \<open>relay_start\<close> is the part of
  \<^verbatim>\<open>Relay\<close> before its loop; from there the main loop, the confirmer, the price poller and the log
  subscription run concurrently, and \<open>relay_run\<close> is their interleavings, one event per step. RPC
  answers are given with the events; metrics and printed lines are not modelled, except for the
  last price read on the main chain.
\<close>

section \<open>The EVM client\<close>

definition rpc_url :: "string \<Rightarrow> string \<Rightarrow> string" where
  "rpc_url nodeURL chain = trim_right (\<lambda>c. c = CHR ''/'') nodeURL @ ''/ext/bc/'' @ chain @ ''/rpc''"

datatype endpoint_error = InvalidNodeURL string | BadNodeScheme string string

text \<open>The WebSocket endpoint as scheme, host and path.\<close>

definition ws_endpoint ::
  "(string \<Rightarrow> parsed_url option) \<Rightarrow> string \<Rightarrow> string \<Rightarrow> endpoint_error + string \<times> string \<times> string" where
  "ws_endpoint parse_url nodeURL chain =
    (case parse_url (trim_right (\<lambda>c. c = CHR ''/'') nodeURL) of
      None \<Rightarrow> Inl (InvalidNodeURL nodeURL)
    | Some u \<Rightarrow>
        if url_Host u = [] then Inl (InvalidNodeURL nodeURL)
        else let path = ''/ext/bc/'' @ chain @ ''/ws'' in
          if url_Scheme u = ''http'' \<or> url_Scheme u = ''ws'' then Inr (''ws'', url_Host u, path)
          else if url_Scheme u = ''https'' \<or> url_Scheme u = ''wss'' then Inr (''wss'', url_Host u, path)
          else Inl (BadNodeScheme nodeURL (url_Scheme u)))"

definition has_code :: "string + string \<Rightarrow> string + bool" where
  "has_code answer = (case answer of Inl e \<Rightarrow> Inl e | Inr code \<Rightarrow> Inr (code \<noteq> [] \<and> code \<noteq> ''0x''))"

record receipt =
  rc_Status :: u64
  rc_BlockNumber :: u64

text \<open>\<^verbatim>\<open>WaitReceipt\<close> polls until the transaction is mined, an answer fails or the sleep is
  interrupted; nothing else bounds it.\<close>

partial_function (option) wait_receipt ::
  "(nat \<Rightarrow> string + receipt option) \<Rightarrow> (nat \<Rightarrow> string option) \<Rightarrow> nat \<Rightarrow> (string + receipt) option" where
  "wait_receipt poll sleep k = (case poll k of
      Inl e \<Rightarrow> Some (Inl e)
    | Inr (Some r) \<Rightarrow> Some (Inr r)
    | Inr None \<Rightarrow> (case sleep k of
        Some e \<Rightarrow> Some (Inl e)
      | None \<Rightarrow> wait_receipt poll sleep (Suc k)))"

section \<open>The visibility gate\<close>

datatype gate_error =
    GateEpochUnreadable string
  | GateSleepFailed string
  | StillNotVisible u64 u64 u64

partial_function (option) poll_visibility ::
  "(nat \<Rightarrow> string + epoch) \<Rightarrow> (nat \<Rightarrow> bool) \<Rightarrow> (nat \<Rightarrow> string option) \<Rightarrow> u64 \<Rightarrow> nat
   \<Rightarrow> (gate_error + nat) option" where
  "poll_visibility epochs expired sleep height k = (case epochs k of
      Inl e \<Rightarrow> Some (Inl (GateEpochUnreadable e))
    | Inr ep \<Rightarrow>
        if height \<le> ep_PChainHeight ep then Some (Inr k)
        else if expired k then Some (Inl (StillNotVisible height (ep_Number ep) (ep_PChainHeight ep)))
        else (case sleep k of
            Some e \<Rightarrow> Some (Inl (GateSleepFailed e))
          | None \<Rightarrow> poll_visibility epochs expired sleep height (Suc k)))"

text \<open>\<^verbatim>\<open>gateOracleVisibility\<close>: the result names the read of the epoch that showed the conversion.
  \<open>sleep_to\<close> is the sleep to the seal boundary; times are nanoseconds.\<close>

definition gate_oracle_visibility ::
  "(nat \<Rightarrow> string + epoch) \<Rightarrow> (int \<Rightarrow> string option) \<Rightarrow> (nat \<Rightarrow> bool) \<Rightarrow> (nat \<Rightarrow> string option)
   \<Rightarrow> u64 \<Rightarrow> int \<Rightarrow> int \<Rightarrow> (gate_error + nat) option" where
  "gate_oracle_visibility epochs sleep_to expired sleep height duration now = (case epochs 0 of
      Inl e \<Rightarrow> Some (Inl (GateEpochUnreadable e))
    | Inr ep \<Rightarrow>
        if height \<le> ep_PChainHeight ep then Some (Inr 0)
        else (let seal = ep_StartTime ep * second + duration in
          if now < seal then
            (case sleep_to (min (seal - now) max_duration) of
               Some e \<Rightarrow> Some (Inl (GateSleepFailed e))
             | None \<Rightarrow> poll_visibility epochs expired sleep height 1)
          else poll_visibility epochs expired sleep height 1))"

datatype 'id start_times_error =
    OracleMembersUnread string
  | OracleNoValidationID string
  | OracleValidatorUnread 'id string

definition oracle_start_time ::
  "('id \<Rightarrow> string + u64) \<Rightarrow> string \<times> 'id option \<Rightarrow> 'id start_times_error + u64" where
  "oracle_start_time read m = (case snd m of
      None \<Rightarrow> Inl (OracleNoValidationID (fst m))
    | Some vid \<Rightarrow> (case read vid of Inl e \<Rightarrow> Inl (OracleValidatorUnread vid e) | Inr t \<Rightarrow> Inr t))"

definition oracle_start_times ::
  "string + (string \<times> 'id option) list \<Rightarrow> ('id \<Rightarrow> string + u64) \<Rightarrow> 'id start_times_error + u64 list" where
  "oracle_start_times members read = (case members of
      Inl e \<Rightarrow> Inl (OracleMembersUnread e)
    | Inr ms \<Rightarrow> rmap (oracle_start_time read) ms)"

section \<open>Starting\<close>

record ('id, 'addr, 'key, 'raw, 'skey, 'staking) relay_world =
  rw_to_ecdsa :: "nat list \<Rightarrow> 'key option"
  rw_address_of :: "'key \<Rightarrow> 'addr"
  rw_key_file :: "string option"
  rw_network_id :: "string \<Rightarrow> 32 word option"
  rw_code :: "'addr \<Rightarrow> string + string"
  rw_height :: "string + u64"
  rw_members :: "'id \<Rightarrow> string + (string \<times> 'id option) list"
  rw_start_time :: "'id \<Rightarrow> string + u64"
  rw_get_block :: "u64 \<Rightarrow> string + 'raw"
  rw_parse_block :: "'raw \<Rightarrow> string + 'id parsed_block"
  rw_epoch :: "nat \<Rightarrow> string + epoch"
  rw_sleep_to :: "int \<Rightarrow> string option"
  rw_expired :: "nat \<Rightarrow> bool"
  rw_sleep :: "nat \<Rightarrow> string option"
  rw_epoch_duration :: "32 word \<Rightarrow> int"
  rw_now :: int
  rw_chain_id :: "string + nat"
  rw_nonce :: "'addr \<Rightarrow> string + u64"
  rw_metrics :: "string option"
  rw_parse_url :: "string \<Rightarrow> parsed_url option"
  rw_dial :: "string \<times> string \<times> string \<Rightarrow> string option"
  rw_subscribe :: "string option"
  rw_warp_set :: "u64 \<Rightarrow> 'id \<Rightarrow> string + 'skey warp_validator list"
  rw_final_epoch :: "string + epoch"
  rw_connect :: "'staking \<Rightarrow> string + string"

datatype ('id, 'staking) relay_error =
    NoOracleDeployment
  | NoStakingPeers
  | FeederKey feeder_error
  | UnknownRelayNetwork string
  | CodeUnreadable string
  | ReceiverNotInstalled
  | TipUnreadable string
  | StartTimes "'id start_times_error"
  | OracleConversion start_error
  | OracleConversionSearch search_error
  | Visibility gate_error
  | MainChainIDUnreadable string
  | NonceUnreadable string
  | MetricsUnbound string
  | WSEndpoint endpoint_error
  | DialFailure string
  | SubscribeFailure string
  | EpochUnread string
  | SetUnbuilt string
  | SignerFailed "'staking dial_error"
  | BadLog u64 codec_error
  | BadUnsigned u64 string
  | SignFailure string
  | GasPriceUnread string
  | TxSignFailure string
  | TxEncodeFailure string
  | SendFailure string
  | SubscriptionFailed string
  | ReceiptUnavailable string
  | DeliveryReverted u64
  | PollFailed string string
  | PollUndecodable string codec_error

definition oracle_conversion_height ::
  "('id, 'addr, 'key, 'raw, 'skey, 'staking) relay_world \<Rightarrow> u64 \<Rightarrow> int \<Rightarrow> 'id \<Rightarrow> search_error + u64" where
  "oracle_conversion_height w tip converted tx =
     find_conversion_height (read_block (rw_get_block w) (rw_parse_block w)) tip converted tx"

definition gate_oracle_conversion ::
  "('id, 'addr, 'key, 'raw, 'skey, 'staking) relay_world \<Rightarrow> ('id, 'addr) feed_deployment \<Rightarrow> 32 word
   \<Rightarrow> (('id, 'staking) relay_error + u64 \<times> nat) option" where
  "gate_oracle_conversion w d network = (case rw_height w of
      Inl e \<Rightarrow> Some (Inl (TipUnreadable e))
    | Inr tip \<Rightarrow> (case oracle_start_times (rw_members w (fd_OracleSubnetID d)) (rw_start_time w) of
        Inl e \<Rightarrow> Some (Inl (StartTimes e))
      | Inr starts \<Rightarrow> (case conversion_time starts of
          Inl e \<Rightarrow> Some (Inl (OracleConversion e))
        | Inr converted \<Rightarrow> (case oracle_conversion_height w tip converted (fd_OracleConvertTxID d) of
            Inl e \<Rightarrow> Some (Inl (OracleConversionSearch e))
          | Inr height \<Rightarrow> map_option (map_sum Visibility (Pair height))
              (gate_oracle_visibility (rw_epoch w) (rw_sleep_to w) (rw_expired w) (rw_sleep w) height
                 (rw_epoch_duration w network) (rw_now w))))))"

text \<open>The rest of the start, after the gate: the nonce and the peers the loop begins with.\<close>

definition relay_connect ::
  "('id, 'addr, 'key, 'raw, 'skey, 'staking) relay_world \<Rightarrow> ('id, 'addr) feed_deployment \<Rightarrow> 'addr
   \<Rightarrow> string \<Rightarrow> string \<Rightarrow> 'staking list \<Rightarrow> ('id, 'staking) relay_error + u64 \<times> string list" where
  "relay_connect w d feeder oracleURL chain_text addresses =
    (case rw_chain_id w of Inl e \<Rightarrow> Inl (MainChainIDUnreadable e) | Inr _ \<Rightarrow>
    case rw_nonce w feeder of Inl e \<Rightarrow> Inl (NonceUnreadable e) | Inr nonce \<Rightarrow>
    case rw_metrics w of Some e \<Rightarrow> Inl (MetricsUnbound e) | None \<Rightarrow>
    case ws_endpoint (rw_parse_url w) oracleURL chain_text of Inl e \<Rightarrow> Inl (WSEndpoint e) | Inr ws \<Rightarrow>
    case rw_dial w ws of Some e \<Rightarrow> Inl (DialFailure e) | None \<Rightarrow>
    case rw_subscribe w of Some e \<Rightarrow> Inl (SubscribeFailure e) | None \<Rightarrow>
    case rw_final_epoch w of Inl e \<Rightarrow> Inl (EpochUnread e) | Inr ep \<Rightarrow>
    case rw_warp_set w (ep_PChainHeight ep) (fd_OracleSubnetID d) of Inl e \<Rightarrow> Inl (SetUnbuilt e)
    | Inr vs \<Rightarrow> (case new_signer (rw_connect w) vs addresses of
        Inl (_, e) \<Rightarrow> Inl (SignerFailed e)
      | Inr peers \<Rightarrow> Inr (nonce, peers)))"

definition relay_start ::
  "'id id_codec \<Rightarrow> ('id, 'addr, 'key, 'raw, 'skey, 'staking) relay_world \<Rightarrow> ('id, 'addr) feed_deployment
   \<Rightarrow> string \<Rightarrow> 'staking list \<Rightarrow> (('id, 'staking) relay_error + u64 \<times> string list) option" where
  "relay_start codec w d oracleURL addresses =
    (if \<not> feed_has_oracle codec d then Some (Inl NoOracleDeployment)
     else if addresses = [] then Some (Inl NoStakingPeers)
     else case load_feeder_key (rw_to_ecdsa w) (rw_address_of w) (rw_key_file w) (fd_FeederAddress d) of
       Inl e \<Rightarrow> Some (Inl (FeederKey e))
     | Inr (_, feeder) \<Rightarrow> (case rw_network_id w (fd_Network d) of
         None \<Rightarrow> Some (Inl (UnknownRelayNetwork (fd_Network d)))
       | Some network \<Rightarrow> (case has_code (rw_code w (fd_ReceiverAddress d)) of
           Inl e \<Rightarrow> Some (Inl (CodeUnreadable e))
         | Inr code \<Rightarrow>
             if \<not> code then Some (Inl ReceiverNotInstalled)
             else (case gate_oracle_conversion w d network of
                 None \<Rightarrow> None
               | Some (Inl e) \<Rightarrow> Some (Inl e)
               | Some (Inr _) \<Rightarrow> Some (relay_connect w d feeder oracleURL
                     (id_text codec (fd_OracleChainID d)) addresses)))))"

section \<open>Batches\<close>

definition max_in_flight :: nat where "max_in_flight = 256"
definition max_batch_size :: nat where "max_batch_size = 16"
definition delivery_gas_price_multiplier :: int where "delivery_gas_price_multiplier = 10"
definition min_delivery_gas_price :: int where "min_delivery_gas_price = 10"
definition base_delivery_gas :: int where "base_delivery_gas = 400000"
definition per_message_delivery_gas :: int where "per_message_delivery_gas = 250000"

definition priority_gas_price :: "int \<Rightarrow> int" where
  "priority_gas_price suggested = (let price = suggested * delivery_gas_price_multiplier in
     if price < min_delivery_gas_price then min_delivery_gas_price else price)"

definition batch_gas_limit :: "nat \<Rightarrow> u64" where
  "batch_gas_limit n = word_of_int (base_delivery_gas + per_message_delivery_gas * int n)"

type_synonym freshness = "bytes \<rightharpoonup> u64"

text \<open>\<^verbatim>\<open>fresher\<close>; an absent asset reads as 0.\<close>

definition fresher :: "freshness \<Rightarrow> bytes \<Rightarrow> u64 \<Rightarrow> freshness \<times> bool" where
  "fresher g i seq = (let latest = (case g i of None \<Rightarrow> 0 | Some s \<Rightarrow> s) in
     if seq \<le> latest then (g, False) else (g(i \<mapsto> seq), True))"

text \<open>A log of the subscription; \<open>lg_SeenAt\<close> is the clock when it is taken from the channel.\<close>

record log_entry =
  lg_BlockNumber :: u64
  lg_Data :: bytes
  lg_SeenAt :: int

record 'm batch_message =
  bm_AssetID :: bytes
  bm_Asset :: string
  bm_Seq :: u64
  bm_UpdatedAt :: u64
  bm_Price :: nat
  bm_OracleBlock :: u64
  bm_SeenAt :: int
  bm_Unsigned :: 'm

definition parse_and_gate ::
  "eth_library \<Rightarrow> 'm warp_parsers \<Rightarrow> freshness \<Rightarrow> log_entry
   \<Rightarrow> ('id, 'staking) relay_error + freshness \<times> 'm batch_message option" where
  "parse_and_gate lib warp g entry =
    (case unpack_event_message (lg_Data entry) of Inl e \<Rightarrow> Inl (BadLog (lg_BlockNumber entry) e)
    | Inr b \<Rightarrow> (case parse_submission lib warp b of Inl e \<Rightarrow> Inl (BadLog (lg_BlockNumber entry) e)
    | Inr sub \<Rightarrow>
        (let seq = uint64_of (sub_seq sub); (g', fresh) = fresher g (sub_asset sub) seq in
         if \<not> fresh then Inr (g', None)
         else case parse_unsigned warp b of
             Inl e \<Rightarrow> Inl (BadUnsigned (lg_BlockNumber entry) e)
           | Inr m \<Rightarrow> Inr (g', Some \<lparr>bm_AssetID = sub_asset sub,
               bm_Asset = asset_name_of lib (sub_asset sub), bm_Seq = seq,
               bm_UpdatedAt = uint64_of (sub_updated_at sub), bm_Price = sub_price sub,
               bm_OracleBlock = lg_BlockNumber entry, bm_SeenAt = lg_SeenAt entry,
               bm_Unsigned = m\<rparr>))))"

text \<open>\<^verbatim>\<open>collectBatch\<close>: the first log and what is buffered behind it, until the batch is full; the logs
  left over are the last component.\<close>

fun collect_batch ::
  "eth_library \<Rightarrow> 'm warp_parsers \<Rightarrow> freshness \<Rightarrow> 'm batch_message list \<Rightarrow> log_entry list
   \<Rightarrow> ('id, 'staking) relay_error + freshness \<times> 'm batch_message list \<times> log_entry list" where
  "collect_batch lib warp g batch [] = Inr (g, batch, [])"
| "collect_batch lib warp g batch (entry # logs) = (case parse_and_gate lib warp g entry of
      Inl e \<Rightarrow> Inl e
    | Inr (g', msg) \<Rightarrow>
        (let batch' = (case msg of None \<Rightarrow> batch | Some m \<Rightarrow> batch @ [m]) in
         if max_batch_size \<le> length batch' then Inr (g', batch', logs)
         else collect_batch lib warp g' batch' logs))"

section \<open>Deliveries\<close>

record confirm_message =
  cm_Asset :: string
  cm_SeenAt :: int
  cm_UpdatedAt :: u64

record 'hash pending_delivery =
  pd_Hash :: 'hash
  pd_Messages :: "confirm_message list"

record 'addr delivery_tx =
  tx_Nonce :: u64
  tx_GasPrice :: int
  tx_Gas :: u64
  tx_To :: 'addr
  tx_Data :: bytes
  tx_AccessList :: "bytes list list"

text \<open>The answers one delivery meets. A call that fails with a cancelled context is \<open>Inl None\<close>.\<close>

record ('m, 'addr, 'hash) delivery_rpc =
  dr_Sign :: "'m \<Rightarrow> string option + bytes"
  dr_GasPrice :: "string option + int"
  dr_SignTx :: "'addr delivery_tx \<Rightarrow> string option"
  dr_Encode :: "'addr delivery_tx \<Rightarrow> string option"
  dr_Send :: "'addr delivery_tx \<Rightarrow> string option + 'hash"

definition call_error :: "(string \<Rightarrow> 'e) \<Rightarrow> string option + 'a \<Rightarrow> 'e option + 'a" where
  "call_error wrap r = map_sum (map_option wrap) id r"

definition delivery_tuples ::
  "('m, 'addr, 'hash) delivery_rpc \<Rightarrow> 'm batch_message list
   \<Rightarrow> ('id, 'staking) relay_error option + bytes list list" where
  "delivery_tuples rpc batch = rmap (\<lambda>msg.
     rbind (call_error SignFailure (dr_Sign rpc (bm_Unsigned msg))) (\<lambda>signed.
       Inr (pack_predicate signed))) batch"

definition deliver_batch ::
  "('m, 'addr, 'hash) delivery_rpc \<Rightarrow> 'addr \<Rightarrow> u64 \<Rightarrow> 'm batch_message list
   \<Rightarrow> ('id, 'staking) relay_error option + 'addr delivery_tx \<times> 'hash pending_delivery" where
  "deliver_batch rpc receiver nonce batch =
    rbind (delivery_tuples rpc batch) (\<lambda>tuples.
    rbind (call_error GasPriceUnread (dr_GasPrice rpc)) (\<lambda>suggested.
    let tx = \<lparr>tx_Nonce = nonce, tx_GasPrice = priority_gas_price suggested,
              tx_Gas = batch_gas_limit (length batch), tx_To = receiver,
              tx_Data = pack_receive_prices (word_of_nat (length batch)), tx_AccessList = tuples\<rparr> in
    case dr_SignTx rpc tx of Some e \<Rightarrow> Inl (Some (TxSignFailure e)) | None \<Rightarrow>
    case dr_Encode rpc tx of Some e \<Rightarrow> Inl (Some (TxEncodeFailure e)) | None \<Rightarrow>
    rbind (call_error SendFailure (dr_Send rpc tx)) (\<lambda>hash.
      Inr (tx, \<lparr>pd_Hash = hash, pd_Messages = map (\<lambda>m. \<lparr>cm_Asset = bm_Asset m,
        cm_SeenAt = bm_SeenAt m, cm_UpdatedAt = bm_UpdatedAt m\<rparr>) batch\<rparr>))))"


section \<open>The running relay\<close>

datatype ('id, 'staking, 'hash) main_phase =
    Waiting
  | Handing "'hash pending_delivery"
  | Stopped "('id, 'staking) relay_error option"

text \<open>A delivery that was sent, with the batch it carries: the trace of the run.\<close>

record ('m, 'addr, 'hash) sent_delivery =
  sd_Tx :: "'addr delivery_tx"
  sd_Batch :: "'m batch_message list"
  sd_Item :: "'hash pending_delivery"

record ('id, 'staking, 'm, 'addr, 'hash) relay_state =
  rs_logs :: "log_entry list"
  rs_fresh :: freshness
  rs_nonce :: u64
  rs_sent :: "('m, 'addr, 'hash) sent_delivery list"
  rs_pending :: "'hash pending_delivery list"
  rs_held :: "'hash pending_delivery option"
  rs_confirmed :: "'hash pending_delivery list"
  rs_failed :: "'hash pending_delivery list"
  rs_error :: "('id, 'staking) relay_error option"
  rs_done :: bool
  rs_confirmer :: bool
  rs_poller :: bool
  rs_prices :: "string \<rightharpoonup> nat"
  rs_main :: "('id, 'staking, 'hash) main_phase"

definition relay_init :: "u64 \<Rightarrow> ('id, 'staking, 'm, 'addr, 'hash) relay_state" where
  "relay_init nonce = \<lparr>rs_logs = [], rs_fresh = Map.empty, rs_nonce = nonce, rs_sent = [],
     rs_pending = [], rs_held = None, rs_confirmed = [], rs_failed = [], rs_error = None, rs_done = False,
     rs_confirmer = True, rs_poller = True, rs_prices = Map.empty, rs_main = Waiting\<rparr>"

text \<open>\<^verbatim>\<open>fail\<close> keeps the first error and cancels the run; leaving the loop cancels it too.\<close>

definition relay_fail ::
  "('id, 'staking) relay_error \<Rightarrow> ('id, 'staking, 'm, 'addr, 'hash) relay_state
   \<Rightarrow> ('id, 'staking, 'm, 'addr, 'hash) relay_state" where
  "relay_fail e s = s\<lparr>rs_error := (if rs_error s = None then Some e else rs_error s), rs_done := True\<rparr>"

definition relay_stop ::
  "('id, 'staking) relay_error option \<Rightarrow> ('id, 'staking, 'm, 'addr, 'hash) relay_state
   \<Rightarrow> ('id, 'staking, 'm, 'addr, 'hash) relay_state" where
  "relay_stop r s = s\<lparr>rs_main := Stopped r, rs_done := True\<rparr>"

definition drain_confirm_error ::
  "('id, 'staking, 'm, 'addr, 'hash) relay_state \<Rightarrow> ('id, 'staking, 'm, 'addr, 'hash) relay_state" where
  "drain_confirm_error s = relay_stop (rs_error s) (s\<lparr>rs_error := None\<rparr>)"

definition take_logs ::
  "eth_library \<Rightarrow> 'm warp_parsers \<Rightarrow> 'addr \<Rightarrow> ('m, 'addr, 'hash) delivery_rpc
   \<Rightarrow> ('id, 'staking, 'm, 'addr, 'hash) relay_state \<Rightarrow> ('id, 'staking, 'm, 'addr, 'hash) relay_state" where
  "take_logs lib warp receiver rpc s = (case collect_batch lib warp (rs_fresh s) [] (rs_logs s) of
      Inl e \<Rightarrow> relay_stop (Some e) s
    | Inr (g, batch, rest) \<Rightarrow>
        (let t = s\<lparr>rs_fresh := g, rs_logs := rest\<rparr> in
         if batch = [] then t
         else (case deliver_batch rpc receiver (rs_nonce t) batch of
             Inl None \<Rightarrow> t
           | Inl (Some e) \<Rightarrow> relay_stop (Some e) t
           | Inr (tx, item) \<Rightarrow> t\<lparr>rs_nonce := rs_nonce t + 1,
               rs_sent := rs_sent t @ [\<lparr>sd_Tx = tx, sd_Batch = batch, sd_Item = item\<rparr>],
               rs_main := Handing item\<rparr>)))"

text \<open>The confirmer takes a delivery off the queue and holds it until its receipt is known.\<close>

definition confirm_step ::
  "'hash pending_delivery \<Rightarrow> string + receipt
   \<Rightarrow> ('id, 'staking, 'm, 'addr, 'hash) relay_state \<Rightarrow> ('id, 'staking, 'm, 'addr, 'hash) relay_state" where
  "confirm_step item answer s =
    (let lost = s\<lparr>rs_held := None, rs_failed := rs_failed s @ [item], rs_confirmer := False\<rparr> in
     case answer of
       Inl e \<Rightarrow> if rs_done s then lost else relay_fail (ReceiptUnavailable e) lost
     | Inr r \<Rightarrow>
         if rc_Status r \<noteq> 1 then relay_fail (DeliveryReverted (rc_BlockNumber r)) lost
         else s\<lparr>rs_held := None, rs_confirmed := rs_confirmed s @ [item]\<rparr>)"

definition poll_price ::
  "string \<Rightarrow> string + bytes \<Rightarrow> ('id, 'staking, 'm, 'addr, 'hash) relay_state
   \<Rightarrow> ('id, 'staking, 'm, 'addr, 'hash) relay_state" where
  "poll_price asset answer s = (case answer of
      Inl e \<Rightarrow> (let t = s\<lparr>rs_poller := False\<rparr> in
        if rs_done s then t else relay_fail (PollFailed asset e) t)
    | Inr b \<Rightarrow> (case decode_latest_price b of
        Inl e \<Rightarrow> relay_fail (PollUndecodable asset e) (s\<lparr>rs_poller := False\<rparr>)
      | Inr (price, _) \<Rightarrow> s\<lparr>rs_prices := (rs_prices s)(asset \<mapsto> price)\<rparr>))"

datatype ('m, 'addr, 'hash) relay_event =
    LogArrives log_entry
  | Interrupt
  | SubscriptionEnds "string option"
  | NoticeDone
  | NoticeError
  | TakeLogs "('m, 'addr, 'hash) delivery_rpc"
  | HandOver
  | AbandonHandOver
  | TakePending
  | ConfirmHeld "string + receipt"
  | ConfirmerStops
  | PollPrice string "string + bytes"

definition relay_step ::
  "eth_library \<Rightarrow> 'm warp_parsers \<Rightarrow> 'addr \<Rightarrow> ('m, 'addr, 'hash) relay_event
   \<Rightarrow> ('id, 'staking, 'm, 'addr, 'hash) relay_state
   \<Rightarrow> ('id, 'staking, 'm, 'addr, 'hash) relay_state option" where
  "relay_step lib warp receiver ev s = (case ev of
      LogArrives entry \<Rightarrow> Some (s\<lparr>rs_logs := rs_logs s @ [entry]\<rparr>)
    | Interrupt \<Rightarrow> Some (s\<lparr>rs_done := True\<rparr>)
    | SubscriptionEnds e \<Rightarrow> (case rs_main s of
        Waiting \<Rightarrow> Some (relay_stop (map_option SubscriptionFailed e) s) | _ \<Rightarrow> None)
    | NoticeDone \<Rightarrow> (case rs_main s of
        Waiting \<Rightarrow> if rs_done s then Some (drain_confirm_error s) else None | _ \<Rightarrow> None)
    | NoticeError \<Rightarrow> (case rs_main s of
        Waiting \<Rightarrow> if rs_error s = None then None else Some (drain_confirm_error s) | _ \<Rightarrow> None)
    | TakeLogs rpc \<Rightarrow> (case rs_main s of
        Waiting \<Rightarrow> if rs_logs s = [] then None else Some (take_logs lib warp receiver rpc s)
      | _ \<Rightarrow> None)
    | HandOver \<Rightarrow> (case rs_main s of
        Handing item \<Rightarrow> if length (rs_pending s) < max_in_flight
          then Some (s\<lparr>rs_pending := rs_pending s @ [item], rs_main := Waiting\<rparr>) else None
      | _ \<Rightarrow> None)
    | AbandonHandOver \<Rightarrow> (case rs_main s of
        Handing item \<Rightarrow> if rs_done s then Some (drain_confirm_error s) else None | _ \<Rightarrow> None)
    | TakePending \<Rightarrow> (case rs_pending s of
        [] \<Rightarrow> None
      | item # rest \<Rightarrow> if rs_confirmer s \<and> rs_held s = None
          then Some (s\<lparr>rs_pending := rest, rs_held := Some item\<rparr>) else None)
    | ConfirmHeld answer \<Rightarrow> (case rs_held s of
        None \<Rightarrow> None
      | Some item \<Rightarrow> if rs_confirmer s then Some (confirm_step item answer s) else None)
    | ConfirmerStops \<Rightarrow> if rs_done s \<and> rs_held s = None then Some (s\<lparr>rs_confirmer := False\<rparr>) else None
    | PollPrice asset answer \<Rightarrow> if rs_poller s then Some (poll_price asset answer s) else None)"

inductive relay_run ::
  "eth_library \<Rightarrow> 'm warp_parsers \<Rightarrow> 'addr \<Rightarrow> u64
   \<Rightarrow> ('id, 'staking, 'm, 'addr, 'hash) relay_state \<Rightarrow> bool"
  for lib warp receiver nonce where
  start: "relay_run lib warp receiver nonce (relay_init nonce)"
| step: "relay_run lib warp receiver nonce s \<Longrightarrow> relay_step lib warp receiver ev s = Some t \<Longrightarrow>
    relay_run lib warp receiver nonce t"

section \<open>Freshness\<close>

definition seen_before :: "'m batch_message \<Rightarrow> 'm batch_message \<Rightarrow> bool" where
  "seen_before a b \<longleftrightarrow> (bm_AssetID a = bm_AssetID b \<longrightarrow> bm_Seq a < bm_Seq b)"

definition latest :: "freshness \<Rightarrow> bytes \<Rightarrow> u64" where
  "latest g i = (case g i of None \<Rightarrow> 0 | Some s \<Rightarrow> s)"

definition fresh_in_order :: "freshness \<Rightarrow> 'm batch_message list \<Rightarrow> bool" where
  "fresh_in_order g ms \<longleftrightarrow> sorted_wrt seen_before ms
     \<and> list_all (\<lambda>m. bm_Seq m \<le> latest g (bm_AssetID m)) ms"

lemma fresher_latest: "fresher g i seq = (if seq \<le> latest g i then (g, False) else (g(i \<mapsto> seq), True))"
  by (simp add: fresher_def latest_def)

lemma parse_and_gate_order:
  assumes "parse_and_gate lib warp g entry = Inr (g', msg)" and "fresh_in_order g ms"
  shows "fresh_in_order g' (ms @ (case msg of None \<Rightarrow> [] | Some m \<Rightarrow> [m]))"
proof (cases msg)
  case None
  then have "g' = g" using assms(1)
    by (auto simp: parse_and_gate_def Let_def fresher_latest split: sum.splits if_splits)
  then show ?thesis using assms(2) None by simp
next
  case (Some m)
  then have m: "\<not> bm_Seq m \<le> latest g (bm_AssetID m)" "g' = g(bm_AssetID m \<mapsto> bm_Seq m)"
    using assms(1) by (auto simp: parse_and_gate_def Let_def fresher_latest split: sum.splits if_splits)
  have "seen_before x m \<and> bm_Seq x \<le> latest g' (bm_AssetID x)" if "x \<in> set ms" for x
    using that assms(2) m by (auto simp: fresh_in_order_def list_all_iff seen_before_def latest_def)
  then show ?thesis using assms(2) Some m(2)
    by (auto simp: fresh_in_order_def sorted_wrt_append list_all_iff latest_def)
qed

lemma collect_batch_order:
  assumes "collect_batch lib warp g batch logs
      = (Inr (g', batch', rest) :: ('id, 'staking) relay_error + _)"
    and "fresh_in_order g (ms @ batch)" and "length batch < max_batch_size"
  shows "fresh_in_order g' (ms @ batch') \<and> length batch' \<le> max_batch_size"
  using assms
proof (induction logs arbitrary: g batch)
  case (Cons entry logs)
  then obtain h msg where
    gate: "parse_and_gate lib warp g entry = (Inr (h, msg) :: ('id, 'staking) relay_error + _)"
    by (auto split: sum.splits)
  have order: "fresh_in_order h (ms @ (case msg of None \<Rightarrow> batch | Some m \<Rightarrow> batch @ [m]))"
    using parse_and_gate_order [OF gate Cons.prems(2)] by (simp split: option.splits)
  show ?case
  proof (cases "max_batch_size \<le> length (case msg of None \<Rightarrow> batch | Some m \<Rightarrow> batch @ [m])")
    case True
    then show ?thesis using Cons.prems(1,3) order gate by (auto simp: Let_def split: option.splits)
  next
    case False
    then show ?thesis using Cons.prems(1) gate Cons.IH [OF _ order] by (simp add: Let_def)
  qed
qed simp

lemma fresh_in_order_prefix: "fresh_in_order g (ms @ ns) \<Longrightarrow> fresh_in_order g ms"
  by (simp add: fresh_in_order_def sorted_wrt_append)

section \<open>What every run keeps\<close>

definition well_formed_delivery ::
  "'addr \<Rightarrow> u64 \<Rightarrow> ('m, 'addr, 'hash) sent_delivery \<Rightarrow> bool" where
  "well_formed_delivery receiver nonce sd \<longleftrightarrow>
     (let n = length (sd_Batch sd) in 1 \<le> n \<and> n \<le> max_batch_size
      \<and> tx_Nonce (sd_Tx sd) = nonce \<and> tx_To (sd_Tx sd) = receiver
      \<and> tx_Data (sd_Tx sd) = pack_receive_prices (word_of_nat n)
      \<and> tx_Gas (sd_Tx sd) = batch_gas_limit n
      \<and> (\<exists>signed. length signed = n \<and> tx_AccessList (sd_Tx sd) = map pack_predicate signed)
      \<and> map cm_Asset (pd_Messages (sd_Item sd)) = map bm_Asset (sd_Batch sd))"

text \<open>The deliveries that wait for their receipts: the one the confirmer holds, then its queue.\<close>

definition waiting_receipt :: "('id, 'staking, 'm, 'addr, 'hash) relay_state \<Rightarrow> 'hash pending_delivery list" where
  "waiting_receipt s = (case rs_held s of None \<Rightarrow> [] | Some item \<Rightarrow> [item]) @ rs_pending s"

lemma waiting_receipt_simps [simp]:
  "waiting_receipt (s\<lparr>rs_logs := x0\<rparr>) = waiting_receipt s"
  "waiting_receipt (s\<lparr>rs_fresh := x1\<rparr>) = waiting_receipt s"
  "waiting_receipt (s\<lparr>rs_nonce := x2\<rparr>) = waiting_receipt s"
  "waiting_receipt (s\<lparr>rs_sent := x3\<rparr>) = waiting_receipt s"
  "waiting_receipt (s\<lparr>rs_confirmed := x4\<rparr>) = waiting_receipt s"
  "waiting_receipt (s\<lparr>rs_failed := x5\<rparr>) = waiting_receipt s"
  "waiting_receipt (s\<lparr>rs_error := x6\<rparr>) = waiting_receipt s"
  "waiting_receipt (s\<lparr>rs_done := x7\<rparr>) = waiting_receipt s"
  "waiting_receipt (s\<lparr>rs_confirmer := x8\<rparr>) = waiting_receipt s"
  "waiting_receipt (s\<lparr>rs_poller := x9\<rparr>) = waiting_receipt s"
  "waiting_receipt (s\<lparr>rs_prices := x10\<rparr>) = waiting_receipt s"
  "waiting_receipt (s\<lparr>rs_main := x11\<rparr>) = waiting_receipt s"
  by (simp_all add: waiting_receipt_def)

definition relay_ok ::
  "'addr \<Rightarrow> u64 \<Rightarrow> ('id, 'staking, 'm, 'addr, 'hash) relay_state \<Rightarrow> bool" where
  "relay_ok receiver nonce s \<longleftrightarrow>
     list_all2 (\<lambda>k sd. well_formed_delivery receiver (nonce + word_of_nat k) sd)
       [0..<length (rs_sent s)] (rs_sent s)
     \<and> rs_nonce s = nonce + word_of_nat (length (rs_sent s))
     \<and> fresh_in_order (rs_fresh s) (concat (map sd_Batch (rs_sent s)))
     \<and> (\<exists>rest. map sd_Item (rs_sent s) = rs_confirmed s @ rs_failed s @ waiting_receipt s @ rest
          \<and> (case rs_main s of Waiting \<Rightarrow> rest = [] | Handing item \<Rightarrow> rest = [item]
             | Stopped _ \<Rightarrow> length rest \<le> 1))
     \<and> length (rs_pending s) \<le> max_in_flight
     \<and> length (rs_failed s) \<le> (if rs_confirmer s then 0 else 1) \<and> (rs_failed s = [] \<or> rs_held s = None)
     \<and> (rs_failed s = [] \<or> rs_done s) \<and> (rs_error s = None \<or> rs_done s)"

lemma delivery_tuples_Inr:
  "delivery_tuples rpc batch = (Inr tuples :: ('id, 'staking) relay_error option + _) \<Longrightarrow>
    \<exists>signed. length signed = length batch \<and> tuples = map pack_predicate signed"
proof (induction batch arbitrary: tuples)
  case Nil
  then show ?case by (simp add: delivery_tuples_def)
next
  case (Cons m batch)
  then obtain b rest where
    "delivery_tuples rpc batch = (Inr rest :: ('id, 'staking) relay_error option + _)" "tuples = pack_predicate b # rest"
    unfolding delivery_tuples_def by (auto simp del: rbind_eq_Inr elim!: rbind_InrE)
  with Cons.IH [of rest] obtain signed where "length signed = length batch" "rest = map pack_predicate signed"
    by blast
  then show ?case using \<open>tuples = _\<close> by (intro exI [of _ "b # signed"]) simp
qed

lemma deliver_batch_Inr:
  assumes "deliver_batch rpc receiver nonce batch
      = (Inr (tx, item) :: ('id, 'staking) relay_error option + _)"
    and "batch \<noteq> []" and "length batch \<le> max_batch_size"
  shows "well_formed_delivery receiver nonce \<lparr>sd_Tx = tx, sd_Batch = batch, sd_Item = item\<rparr>"
proof -
  from assms(1) obtain tuples where
    t: "delivery_tuples rpc batch = (Inr tuples :: ('id, 'staking) relay_error option + _)"
    and tx: "tx_Nonce tx = nonce" "tx_To tx = receiver" "tx_Gas tx = batch_gas_limit (length batch)"
      "tx_Data tx = pack_receive_prices (word_of_nat (length batch))" "tx_AccessList tx = tuples"
    and item: "map cm_Asset (pd_Messages item) = map bm_Asset batch"
    unfolding deliver_batch_def Let_def
    by (auto simp del: rbind_eq_Inr elim!: rbind_InrE split: option.splits)
  show ?thesis using delivery_tuples_Inr [OF t] tx item assms(2,3)
    by (auto simp: well_formed_delivery_def Let_def Suc_le_eq)
qed

lemma take_logs_ok:
  fixes s :: "('id, 'staking, 'm, 'addr, 'hash) relay_state"
  assumes "relay_ok receiver nonce s" and "rs_main s = Waiting"
  shows "relay_ok receiver nonce (take_logs lib warp receiver rpc s)"
proof (cases "collect_batch lib warp (rs_fresh s) [] (rs_logs s)
    :: ('id, 'staking) relay_error + freshness \<times> 'm batch_message list \<times> log_entry list")
  case (Inl e)
  then show ?thesis using assms by (auto simp: take_logs_def relay_ok_def relay_stop_def)
next
  case (Inr r)
  obtain g batch rest where r: "r = (g, batch, rest)" by (cases r) auto
  have "fresh_in_order g (concat (map sd_Batch (rs_sent s)) @ batch) \<and> length batch \<le> max_batch_size"
    using Inr r assms(1) collect_batch_order [of lib warp "rs_fresh s" "[]" "rs_logs s" g batch rest
        "concat (map sd_Batch (rs_sent s))"]
    by (simp add: relay_ok_def max_batch_size_def)
  then have order: "fresh_in_order g (concat (map sd_Batch (rs_sent s)) @ batch)"
    and len: "length batch \<le> max_batch_size" by simp_all
  have t: "relay_ok receiver nonce (s\<lparr>rs_fresh := g, rs_logs := rest\<rparr>)"
    using assms fresh_in_order_prefix [OF order] by (simp add: relay_ok_def)
  show ?thesis
  proof (cases "batch = [] \<or> (\<exists>e :: ('id, 'staking) relay_error option.
      deliver_batch rpc receiver (rs_nonce s) batch = Inl e)")
    case True
    then show ?thesis using t assms(2) Inr r
      by (auto simp: take_logs_def relay_stop_def Let_def relay_ok_def split: option.splits)
  next
    case False
    then obtain tx item where d: "deliver_batch rpc receiver (rs_nonce s) batch
        = (Inr (tx, item) :: ('id, 'staking) relay_error option + _)"
      by (cases "deliver_batch rpc receiver (rs_nonce s) batch :: ('id, 'staking) relay_error option + _") auto
    have "well_formed_delivery receiver (rs_nonce s) \<lparr>sd_Tx = tx, sd_Batch = batch, sd_Item = item\<rparr>"
      using deliver_batch_Inr [OF d _ len] False by simp
    then show ?thesis using t assms order d False Inr r
      by (auto simp: take_logs_def Let_def relay_ok_def list_all2_append algebra_simps)
  qed
qed

lemma confirm_step_ok:
  assumes "relay_ok receiver nonce s" and "rs_confirmer s" and "rs_held s = Some item"
  shows "relay_ok receiver nonce (confirm_step item answer s)"
  using assms by (auto simp: confirm_step_def relay_fail_def relay_ok_def waiting_receipt_def Let_def split: sum.split)

lemma take_pending_ok:
  assumes "relay_ok receiver nonce s" and "rs_confirmer s" and "rs_held s = None" "rs_pending s = item # rest"
  shows "relay_ok receiver nonce (s\<lparr>rs_pending := rest, rs_held := Some item\<rparr>)"
  using assms by (auto simp add: relay_ok_def waiting_receipt_def)

lemma relay_ok_changes:
  assumes "relay_ok receiver nonce s"
  shows "relay_ok receiver nonce (s\<lparr>rs_logs := logs\<rparr>)"
    and "relay_ok receiver nonce (s\<lparr>rs_poller := b\<rparr>)"
    and "relay_ok receiver nonce (s\<lparr>rs_prices := prices\<rparr>)"
    and "relay_ok receiver nonce (s\<lparr>rs_done := True\<rparr>)"
    and "relay_ok receiver nonce (s\<lparr>rs_confirmer := False\<rparr>)"
    and "relay_ok receiver nonce (s\<lparr>rs_error := None\<rparr>)"
  using assms by (simp_all add: relay_ok_def split: if_splits)

lemma relay_ok_stop:
  assumes "relay_ok receiver nonce s"
  shows "relay_ok receiver nonce (relay_stop q s)"
  using assms by (cases "rs_main s") (auto simp: relay_ok_def relay_stop_def)

lemma relay_ok_fail:
  assumes "relay_ok receiver nonce s"
  shows "relay_ok receiver nonce (relay_fail e s)"
  using assms by (simp add: relay_ok_def relay_fail_def)

lemma relay_ok_drain:
  assumes "relay_ok receiver nonce s"
  shows "relay_ok receiver nonce (drain_confirm_error s)"
  unfolding drain_confirm_error_def by (intro relay_ok_stop relay_ok_changes assms)

lemma poll_price_ok:
  assumes "relay_ok receiver nonce s"
  shows "relay_ok receiver nonce (poll_price asset answer s)"
  using relay_ok_changes [OF assms] relay_ok_fail [OF relay_ok_changes(2) [OF assms]]
  by (simp add: poll_price_def Let_def split: sum.split prod.split)

lemma hand_over_ok:
  assumes "relay_ok receiver nonce s" and "rs_main s = Handing item"
    and "length (rs_pending s) < max_in_flight"
  shows "relay_ok receiver nonce (s\<lparr>rs_pending := rs_pending s @ [item], rs_main := Waiting\<rparr>)"
  using assms by (simp add: relay_ok_def) (simp add: waiting_receipt_def)

lemma relay_step_ok:
  assumes "relay_ok receiver nonce s" and "relay_step lib warp receiver ev s = Some t"
  shows "relay_ok receiver nonce t"
proof (cases ev)
  case (TakeLogs rpc)
  then show ?thesis using assms(2) take_logs_ok [OF assms(1)]
    by (auto simp: relay_step_def split: main_phase.splits if_splits)
next
  case (ConfirmHeld answer)
  then show ?thesis using assms(2) confirm_step_ok [OF assms(1)]
    by (auto simp: relay_step_def split: option.splits if_splits)
next
  case TakePending
  then show ?thesis using assms(2) take_pending_ok [OF assms(1)]
    by (auto simp: relay_step_def split: list.splits if_splits)
next
  case HandOver
  then show ?thesis using assms(2) hand_over_ok [OF assms(1)]
    by (auto simp: relay_step_def split: main_phase.splits if_splits)
qed (use assms(2) relay_ok_changes [OF assms(1)] relay_ok_stop [OF assms(1)]
      relay_ok_drain [OF assms(1)] poll_price_ok [OF assms(1)]
    in \<open>auto simp: relay_step_def split: main_phase.splits if_splits\<close>)

lemma relay_run_ok: "relay_run lib warp receiver nonce s \<Longrightarrow> relay_ok receiver nonce s"
proof (induction rule: relay_run.induct)
  case start
  show ?case by (simp add: relay_init_def relay_ok_def fresh_in_order_def waiting_receipt_def)
next
  case (step s ev t)
  show ?case using step.IH step.hyps(2) by (rule relay_step_ok)
qed


text \<open>C20: However logs, receipts, polls, errors and interrupts interleave, the relay keeps its
  deliveries orderly: the k-th transaction it sent uses the k-th nonce from its starting nonce,
  goes to the receiver, and carries between 1 and 16 messages with as many predicates, calldata
  that states their number and gas sized for it; over all deliveries the sequence numbers of each
  asset strictly increase, so nothing stale or duplicate is ever sent; at most 257 deliveries wait
  for their receipts, and they are confirmed in the order they were sent, none skipped; a delivery
  that is not confirmed ends the run.\<close>
theorem relay_orderly:
  assumes "relay_run lib warp receiver nonce s"
  shows "list_all2 (\<lambda>k sd. well_formed_delivery receiver (nonce + word_of_nat k) sd)
      [0..<length (rs_sent s)] (rs_sent s)
    \<and> sorted_wrt seen_before (concat (map sd_Batch (rs_sent s)))
    \<and> (\<exists>rest. map sd_Item (rs_sent s) = rs_confirmed s @ rs_failed s @ waiting_receipt s @ rest
        \<and> length rest \<le> 1)
    \<and> length (waiting_receipt s) \<le> max_in_flight + 1 \<and> length (rs_failed s) \<le> 1
    \<and> (rs_failed s = [] \<or> rs_done s)"
  using relay_run_ok [OF assms]
  by (cases "rs_main s") (auto simp: relay_ok_def fresh_in_order_def waiting_receipt_def split: if_splits option.splits)

section \<open>The start\<close>

lemma poll_visibility_Inr:
  assumes "poll_visibility epochs expired sleep height k = Some (Inr j)"
  shows "\<exists>ep. epochs j = Inr ep \<and> height \<le> ep_PChainHeight ep"
proof -
  have "\<forall>j. r = Inr j \<longrightarrow> (\<exists>ep. epochs j = Inr ep \<and> height \<le> ep_PChainHeight ep)"
    if "poll_visibility epochs expired sleep height k = Some r" for r
  proof (rule poll_visibility.raw_induct [where P = "\<lambda>epochs expired sleep height k r.
      \<forall>j. r = Inr j \<longrightarrow> (\<exists>ep. epochs j = Inr ep \<and> height \<le> ep_PChainHeight ep)", OF _ that])
    fix f epochs expired sleep height k r
    assume IH: "\<And>epochs expired sleep height k r. f epochs expired sleep height k = Some r \<Longrightarrow>
        \<forall>j. r = Inr j \<longrightarrow> (\<exists>ep. epochs j = Inr ep \<and> height \<le> ep_PChainHeight ep)"
      and step: "(case epochs k of
        Inl e \<Rightarrow> Some (Inl (GateEpochUnreadable e))
      | Inr ep \<Rightarrow>
          if height \<le> ep_PChainHeight ep then Some (Inr k)
          else if expired k then Some (Inl (StillNotVisible height (ep_Number ep) (ep_PChainHeight ep)))
          else (case sleep k of
              Some e \<Rightarrow> Some (Inl (GateSleepFailed e))
            | None \<Rightarrow> f epochs expired sleep height (Suc k))) = Some r"
    show "\<forall>j. r = Inr j \<longrightarrow> (\<exists>ep. epochs j = Inr ep \<and> height \<le> ep_PChainHeight ep)"
      using step IH by (auto split: sum.splits if_splits option.splits)
  qed
  with assms show ?thesis by blast
qed

text \<open>The gate's loop ends at the latest when its deadline has passed.\<close>

lemma poll_visibility_returns:
  "expired (k + n) \<Longrightarrow> \<exists>r. poll_visibility epochs expired sleep height k = Some r"
proof (induction n arbitrary: k)
  case 0
  then show ?case by (subst poll_visibility.simps) (auto split: sum.split option.split)
next
  case (Suc n)
  from Suc.IH [of "Suc k"] Suc.prems show ?case
    by (subst poll_visibility.simps) (auto split: sum.split option.split)
qed

lemma gate_visibility_Inr:
  "gate_oracle_visibility epochs sleep_to expired sleep height duration now = Some (Inr j) \<Longrightarrow>
    \<exists>ep. epochs j = Inr ep \<and> height \<le> ep_PChainHeight ep"
  by (auto simp: gate_oracle_visibility_def Let_def split: sum.splits if_splits option.splits
      dest: poll_visibility_Inr)

lemma gate_visibility_returns:
  "expired (Suc n) \<Longrightarrow>
    \<exists>r. gate_oracle_visibility epochs sleep_to expired sleep height duration now = Some r"
  using poll_visibility_returns [of expired 1 n epochs sleep height]
  by (auto simp: gate_oracle_visibility_def Let_def split: sum.split option.split)

lemma relay_connect_Inr:
  fixes w :: "('id, 'addr, 'key, 'raw, 'skey, 'staking) relay_world"
  assumes "relay_connect w d feeder url chain addresses = Inr (nonce, peers)"
  shows "rw_nonce w feeder = Inr nonce" and "length peers = length addresses"
proof -
  obtain vs :: "'skey warp_validator list"
    where peers: "new_signer (rw_connect w) vs addresses = Inr peers"
    and "rw_nonce w feeder = Inr nonce"
    using assms by (auto simp: relay_connect_def split: sum.splits option.splits)
  then show "rw_nonce w feeder = Inr nonce" by simp
  show "length peers = length addresses"
    by (rule each_invariant [OF peers [unfolded new_signer_def],
          where P = "\<lambda>dialed kept. length kept = length dialed"])
      (auto simp: dial_step_def split: sum.splits if_splits)
qed

lemma gate_conversion_returns:
  assumes "rw_expired w (Suc n)"
  shows "gate_oracle_conversion w d network \<noteq> None"
proof -
  have "\<exists>r. gate_oracle_visibility (rw_epoch w) (rw_sleep_to w) (rw_expired w) (rw_sleep w)
      height duration now = Some r" for height duration now
    by (rule gate_visibility_returns) (rule assms)
  then show ?thesis by (auto simp: gate_oracle_conversion_def split: sum.split)
qed

lemma relay_start_returns:
  assumes "rw_expired w (Suc n)"
  shows "relay_start codec w d url addresses \<noteq> None"
  using gate_conversion_returns [OF assms]
  by (auto simp: relay_start_def simp del: not_None_eq split: sum.split option.split)

lemma map_sum_eq_Inr: "map_sum f g z = Inr y \<longleftrightarrow> (\<exists>x. z = Inr x \<and> y = g x)"
  by (cases z) auto

lemma gate_conversion_Inr:
  assumes "gate_oracle_conversion w d network = Some (Inr gate)"
  shows "\<exists>tip converted height k ep. rw_height w = Inr tip
      \<and> oracle_conversion_height w tip converted (fd_OracleConvertTxID d) = Inr height
      \<and> rw_epoch w k = Inr ep \<and> height \<le> ep_PChainHeight ep"
proof -
  from assms obtain tip converted height k where
    "rw_height w = Inr tip"
      "oracle_conversion_height w tip converted (fd_OracleConvertTxID d) = Inr height"
    and "gate_oracle_visibility (rw_epoch w) (rw_sleep_to w) (rw_expired w) (rw_sleep w) height
        (rw_epoch_duration w network) (rw_now w) = Some (Inr k)"
    by (auto simp: gate_oracle_conversion_def map_sum_eq_Inr split: sum.splits)
  with gate_visibility_Inr show ?thesis by blast
qed

text \<open>C22: The relay begins delivering only when it is safe to: the deployment has an oracle chain, the
  feeder key file decodes to a key whose address is the recorded feeder's, the receiver holds contract code on the main chain,
  and a read of the main chain's Warp epoch showed the block of the oracle's conversion, so the
  verifier knows the oracle validators; it begins at the feeder's latest mined nonce and holds one
  connection per staking address, of which there is at least one.\<close>
theorem relay_starts_safely:
  assumes "relay_start codec w d url addresses = Some (Inr (nonce, peers))"
  shows "feed_has_oracle codec d \<and> rw_nonce w (fd_FeederAddress d) = Inr nonce
    \<and> (\<exists>contents b key. rw_key_file w = Some contents \<and> hex_decode (trim_space contents) = Some b
        \<and> length b = 32 \<and> rw_to_ecdsa w b = Some key \<and> rw_address_of w key = fd_FeederAddress d)
    \<and> (\<exists>code. rw_code w (fd_ReceiverAddress d) = Inr code \<and> code \<notin> {[], ''0x''})
    \<and> (\<exists>tip converted height k ep. rw_height w = Inr tip
        \<and> oracle_conversion_height w tip converted (fd_OracleConvertTxID d) = Inr height
        \<and> rw_epoch w k = Inr ep \<and> height \<le> ep_PChainHeight ep)
    \<and> length peers = length addresses \<and> addresses \<noteq> []"
proof -
  from assms obtain key feeder network gate where
    start: "feed_has_oracle codec d" "addresses \<noteq> []"
      "load_feeder_key (rw_to_ecdsa w) (rw_address_of w) (rw_key_file w) (fd_FeederAddress d)
        = Inr (key, feeder)"
      "has_code (rw_code w (fd_ReceiverAddress d)) = Inr True"
      "gate_oracle_conversion w d network = Some (Inr gate)"
      "relay_connect w d feeder url (id_text codec (fd_OracleChainID d)) addresses = Inr (nonce, peers)"
    by (auto simp: relay_start_def split: if_splits sum.splits option.splits)
  have "feeder = fd_FeederAddress d" using start(3)
    by (auto simp: load_feeder_key_def Let_def split: option.splits if_splits)
  moreover have "\<exists>contents b key. rw_key_file w = Some contents \<and> hex_decode (trim_space contents) = Some b
      \<and> length b = 32 \<and> rw_to_ecdsa w b = Some key \<and> rw_address_of w key = fd_FeederAddress d"
    using start(3) by (auto simp: load_feeder_key_def Let_def split: option.splits if_splits)
  moreover have "\<exists>code. rw_code w (fd_ReceiverAddress d) = Inr code \<and> code \<notin> {[], ''0x''}"
    using start(4) by (auto simp: has_code_def split: sum.splits)
  moreover note gate_conversion_Inr [OF start(5)]
  ultimately show ?thesis using start relay_connect_Inr [OF start(6)] by simp
qed


section \<open>Witnesses\<close>

text \<open>Three logs, the second a duplicate of the first; one delivery of one message, then another.\<close>

definition sample_log :: "nat \<Rightarrow> log_entry" where
  "sample_log seq = \<lparr>lg_BlockNumber = 4,
     lg_Data = abi_event (1 # 2 # abi_payload (replicate 32 5) 6000 3 seq) [], lg_SeenAt = 0\<rparr>"

definition sample_message :: "nat \<Rightarrow> bytes batch_message" where
  "sample_message seq = \<lparr>bm_AssetID = replicate 32 5, bm_Asset = asset_name_of sample_eth (replicate 32 5),
     bm_Seq = word_of_nat seq, bm_UpdatedAt = 3, bm_Price = 6000, bm_OracleBlock = 4, bm_SeenAt = 0,
     bm_Unsigned = 1 # 2 # abi_payload (replicate 32 5) 6000 3 seq\<rparr>"

lemma sample_log_gate:
  assumes "seq < 2 ^ 64"
  shows "parse_and_gate sample_eth sample_warp g (sample_log seq) =
    (if word_of_nat seq \<le> latest g (replicate 32 5) then Inr (g, None)
     else Inr (g(replicate 32 5 \<mapsto> word_of_nat seq), Some (sample_message seq)))"
proof -
  let ?m = "1 # 2 # abi_payload (replicate 32 5) 6000 3 seq"
  have "unpack_event_message (abi_event ?m []) = Inr ?m"
    by (rule unpack_abi_event) (simp add: abi_payload_def)
  moreover have "parse_submission sample_eth sample_warp ?m = Inr \<lparr>sub_asset = replicate 32 5,
      sub_price = 6000, sub_updated_at = 3, sub_seq = seq\<rparr>"
    using decode_abi_payload [of "replicate 32 5" sample_eth 6000 3 seq] assms
    by (simp add: parse_submission_def sample_warp_def sample_eth_def left_pad32_def)
  moreover have "parse_unsigned sample_warp ?m = Inr ?m" by (simp add: sample_warp_def)
  ultimately show ?thesis
    by (simp add: parse_and_gate_def Let_def fresher_latest sample_log_def sample_message_def uint64_of_def)
qed

definition sample_rpc :: "nat \<Rightarrow> (bytes, unit, nat) delivery_rpc" where
  "sample_rpc hash = \<lparr>dr_Sign = Inr, dr_GasPrice = Inr 1, dr_SignTx = (\<lambda>_. None),
     dr_Encode = (\<lambda>_. None), dr_Send = (\<lambda>_. Inr hash)\<rparr>"

definition sample_relay_events :: "(bytes, unit, nat) relay_event list" where
  "sample_relay_events = [LogArrives (sample_log 1), LogArrives (sample_log 1), TakeLogs (sample_rpc 11),
     HandOver, TakePending, ConfirmHeld (Inr \<lparr>rc_Status = 1, rc_BlockNumber = 9\<rparr>), LogArrives (sample_log 2),
     TakeLogs (sample_rpc 12)]"

fun relay_steps ::
  "eth_library \<Rightarrow> 'm warp_parsers \<Rightarrow> 'addr \<Rightarrow> ('m, 'addr, 'hash) relay_event list
   \<Rightarrow> ('id, 'staking, 'm, 'addr, 'hash) relay_state
   \<Rightarrow> ('id, 'staking, 'm, 'addr, 'hash) relay_state option" where
  "relay_steps lib warp receiver [] s = Some s"
| "relay_steps lib warp receiver (ev # evs) s = (case relay_step lib warp receiver ev s of
      None \<Rightarrow> None | Some t \<Rightarrow> relay_steps lib warp receiver evs t)"

lemma relay_steps_run:
  "relay_steps lib warp receiver evs s = Some t \<Longrightarrow> relay_run lib warp receiver nonce s \<Longrightarrow>
    relay_run lib warp receiver nonce t"
  by (induction evs arbitrary: s) (auto split: option.splits intro: relay_run.step)

definition sample_sent :: "u64 \<Rightarrow> nat \<Rightarrow> nat \<Rightarrow> (bytes, unit, nat) sent_delivery" where
  "sample_sent nonce seq hash = \<lparr>sd_Tx = \<lparr>tx_Nonce = nonce, tx_GasPrice = 10, tx_Gas = 650000,
       tx_To = (), tx_Data = pack_receive_prices 1,
       tx_AccessList = [pack_predicate (bm_Unsigned (sample_message seq))]\<rparr>,
     sd_Batch = [sample_message seq],
     sd_Item = \<lparr>pd_Hash = hash, pd_Messages = [\<lparr>cm_Asset = bm_Asset (sample_message seq),
       cm_SeenAt = 0, cm_UpdatedAt = 3\<rparr>]\<rparr>\<rparr>"

lemma sample_deliver:
  "deliver_batch (sample_rpc hash) () nonce [sample_message seq] =
     (Inr (sd_Tx (sample_sent nonce seq hash), sd_Item (sample_sent nonce seq hash))
       :: (nat, nat) relay_error option + _)"
  by (simp add: deliver_batch_def delivery_tuples_def call_error_def sample_rpc_def sample_sent_def
      sample_message_def priority_gas_price_def delivery_gas_price_multiplier_def
      min_delivery_gas_price_def batch_gas_limit_def base_delivery_gas_def per_message_delivery_gas_def)

definition sample_relay_end :: "(nat, nat, bytes, unit, nat) relay_state" where
  "sample_relay_end = (relay_init 7)\<lparr>rs_fresh := [replicate 32 5 \<mapsto> 2], rs_nonce := 9,
     rs_sent := [sample_sent 7 1 11, sample_sent 8 2 12],
     rs_confirmed := [sd_Item (sample_sent 7 1 11)], rs_main := Handing (sd_Item (sample_sent 8 2 12))\<rparr>"

lemma sample_relay_run: "relay_run sample_eth sample_warp () 7 sample_relay_end"
proof (rule relay_steps_run)
  show "relay_steps sample_eth sample_warp () sample_relay_events (relay_init 7) = Some sample_relay_end"
    by (simp add: sample_relay_events_def relay_step_def relay_init_def take_logs_def sample_log_gate latest_def
        max_batch_size_def max_in_flight_def sample_deliver confirm_step_def sample_relay_end_def sample_sent_def
        word_le_nat_alt)
  show "relay_run sample_eth sample_warp () 7 (relay_init 7 :: (nat, nat, bytes, unit, nat) relay_state)"
    by (rule relay_run.start)
qed

theorem relay_orderly_witness:
  "map sd_Item (rs_sent sample_relay_end)
     = [sd_Item (sample_sent 7 1 11), sd_Item (sample_sent 8 2 12)]
   \<and> sorted_wrt seen_before [sample_message 1, sample_message 2]"
  using relay_orderly [OF sample_relay_run] by (simp add: sample_relay_end_def sample_sent_def)

definition sample_feed_codec :: "nat id_codec" where
  "sample_feed_codec = \<lparr>id_empty = 0, id_text = (\<lambda>_. ''c''), id_of_text = (\<lambda>_. Some 1)\<rparr>"

definition sample_feed :: "(nat, nat) feed_deployment" where
  "sample_feed = \<lparr>fd_Network = ''fuji'', fd_OracleChainID = 1, fd_OracleSubnetID = 2,
     fd_OracleConvertTxID = 3, fd_MainChainID = 4, fd_AggregatorAddress = 5, fd_ReceiverAddress = 6,
     fd_PriceFeedAddress = 0, fd_PriceFeedAggregatorAddress = 0, fd_FeederAddress = 32\<rparr>"

definition sample_relay_world :: "(nat, nat, nat, u64, unit, string) relay_world" where
  "sample_relay_world = \<lparr>rw_to_ecdsa = (\<lambda>b. Some (length b)), rw_address_of = id,
     rw_key_file = Some (replicate 64 (CHR ''1'')), rw_network_id = (\<lambda>_. Some 5),
     rw_code = (\<lambda>_. Inr ''0x60''), rw_height = Inr 12, rw_members = (\<lambda>_. Inr [(''n'', Some 1)]),
     rw_start_time = (\<lambda>_. Inr 7), rw_get_block = Inr, rw_parse_block = sample_parse,
     rw_epoch = sample_epoch, rw_sleep_to = (\<lambda>_. None), rw_expired = (\<lambda>k. k = 9),
     rw_sleep = (\<lambda>_. None), rw_epoch_duration = (\<lambda>_. 30), rw_now = 0, rw_chain_id = Inr 1,
     rw_nonce = (\<lambda>_. Inr 7), rw_metrics = None,
     rw_parse_url = (\<lambda>_. Some \<lparr>url_Scheme = ''http'', url_Host = ''h'', url_RawQuery = []\<rparr>),
     rw_dial = (\<lambda>_. None), rw_subscribe = None,
     rw_warp_set = (\<lambda>_ _. Inr [\<lparr>wv_PublicKey = (), wv_Weight = 100, wv_NodeIDs = [''n'']\<rparr>]),
     rw_final_epoch = sample_epoch 1, rw_connect = Inr\<rparr>"

lemma sample_key_decodes: "hex_decode (replicate 64 (CHR ''1'')) = Some (replicate 32 17)"
  by code_simp

lemma sample_relay_start:
  "relay_start sample_feed_codec sample_relay_world sample_feed ''http://h'' [''n''] = Some (Inr (7, [''n'']))"
proof -
  have key: "load_feeder_key (rw_to_ecdsa sample_relay_world) (rw_address_of sample_relay_world)
      (rw_key_file sample_relay_world) 32 = Inr (32, 32)"
    by (simp add: load_feeder_key_def sample_relay_world_def trim_space_def trim_left_def trim_right_def
        is_space_def has_prefix_def sample_key_decodes Let_def)
  have "oracle_conversion_height sample_relay_world 12 7 3 = Inr 5"
    using sample_search by (simp add: oracle_conversion_height_def sample_relay_world_def sample_world_def)
  then have gate: "gate_oracle_conversion sample_relay_world sample_feed 5 = Some (Inr (5, 1))"
    by (simp add: gate_oracle_conversion_def oracle_start_times_def oracle_start_time_def sample_feed_def
        conversion_time_def gate_oracle_visibility_def poll_visibility.simps sample_epoch_def
        sample_relay_world_def second_def)
  have "rw_network_id sample_relay_world n = Some 5" "has_code (rw_code sample_relay_world a) = Inr True"
    "relay_connect sample_relay_world sample_feed 32 ''http://h'' ''c'' [''n''] = Inr (7, [''n''])" for n a
    by (simp_all add: sample_relay_world_def has_code_def relay_connect_def ws_endpoint_def
        sample_epoch_def new_signer_def dial_step_def index_by_node_id_def)
  moreover have "feed_has_oracle sample_feed_codec sample_feed" "fd_FeederAddress sample_feed = 32"
    "id_text sample_feed_codec (fd_OracleChainID sample_feed) = ''c''"
    by (simp_all add: feed_has_oracle_def sample_feed_codec_def sample_feed_def)
  ultimately show ?thesis using key gate by (simp add: relay_start_def)
qed

theorem relay_starts_safely_witness:
  "rw_nonce sample_relay_world 32 = Inr 7 \<and> length [''n''] = (1 :: nat)
   \<and> (\<exists>tip converted height k ep. rw_height sample_relay_world = Inr tip
        \<and> oracle_conversion_height sample_relay_world tip converted 3 = Inr height
        \<and> rw_epoch sample_relay_world k = Inr ep \<and> height \<le> ep_PChainHeight ep)"
  using relay_starts_safely [OF sample_relay_start] by (simp add: sample_feed_def)

end
