(* ===== verification/Price_Feed.thy ===== *)
theory Price_Feed
  imports Relay
begin

text \<open>
  The price feeder, \<^verbatim>\<open>apps/settlement-feed/internal/oraclerelay/feed.go\<close>: a bounded random walk of mock
  prices, submitted every tick either to the aggregator of the oracle chain or straight to the
  Chainlink-shaped aggregator of the main chain. The main loop, the confirmer and the poller of the
  on-chain price run concurrently; \<open>feed_run\<close> is their interleavings, one event per step, with the
  answers of the JSON-RPC calls in the events. Both paths have the same loop and differ in their
  assets, fees and transactions. A \<open>submit\<close> that is queued and its gauge are one step.
\<close>

section \<open>The walk\<close>

definition feed_gas_limit :: u64 where "feed_gas_limit = 200000"
definition direct_tip_multiplier :: int where "direct_tip_multiplier = 2"
definition min_direct_tip :: int where "min_direct_tip = 10"
definition direct_fee_cap_multiplier :: int where "direct_fee_cap_multiplier = 10"

definition btc_base :: int where "btc_base = 60000 * 10 ^ 8"
definition btc_step :: int where "btc_step = 20 * 10 ^ 8"
definition btc_band :: int where "btc_band = 2000 * 10 ^ 8"
definition usdc_base :: int where "usdc_base = 10 ^ 8"
definition usdc_step :: int where "usdc_step = 50000"
definition usdc_band :: int where "usdc_band = 200000"

text \<open>\<open>draw k n\<close> is the k-th answer of the seeded generator, to a call of \<^verbatim>\<open>Int63n(n)\<close>.\<close>

record price_walk =
  pw_draws :: nat
  pw_btc :: int
  pw_usdc :: int

definition new_price_walk :: price_walk where
  "new_price_walk = \<lparr>pw_draws = 0, pw_btc = btc_base, pw_usdc = usdc_base\<rparr>"

definition clamp_step :: "int \<Rightarrow> int \<Rightarrow> int \<Rightarrow> int \<Rightarrow> int \<Rightarrow> int" where
  "clamp_step drawn current base maxStep band =
    (let n0 = current + drawn - maxStep;
         n1 = (if n0 > base + band then base + band else n0) in
     if n1 < base - band then base - band else n1)"

definition walk_next :: "(nat \<Rightarrow> int \<Rightarrow> int) \<Rightarrow> price_walk \<Rightarrow> string \<Rightarrow> price_walk \<times> int" where
  "walk_next draw w name = (let k = pw_draws w in
     if name = ''BTC-USD''
     then let p = clamp_step (draw k (2 * btc_step + 1)) (pw_btc w) btc_base btc_step btc_band in
       (w\<lparr>pw_draws := Suc k, pw_btc := p\<rparr>, p)
     else let p = clamp_step (draw k (2 * usdc_step + 1)) (pw_usdc w) usdc_base usdc_step usdc_band in
       (w\<lparr>pw_draws := Suc k, pw_usdc := p\<rparr>, p))"

section \<open>The meters\<close>

text \<open>Conversions to floating point stay with their library.\<close>

record 'f price_floats =
  pf_scaled :: "int \<Rightarrow> 'f"
  pf_minus :: "'f \<Rightarrow> 'f \<Rightarrow> 'f"
  pf_whole :: "int \<Rightarrow> 'f"

record 'f feed_meters =
  mt_submitted :: "string \<Rightarrow> nat"
  mt_confirmed :: "string \<Rightarrow> nat"
  mt_inflight :: int
  mt_price :: "string \<rightharpoonup> 'f"
  mt_onchain :: "string \<rightharpoonup> 'f"
  mt_delta :: "string \<rightharpoonup> 'f"
  mt_open :: bool
  mt_gate :: "string \<rightharpoonup> bool"
  mt_settled :: "'f option"
  mt_last :: "string \<rightharpoonup> int"

definition new_feed_meters :: "'f feed_meters" where
  "new_feed_meters = \<lparr>mt_submitted = (\<lambda>_. 0), mt_confirmed = (\<lambda>_. 0), mt_inflight = 0, mt_price = Map.empty,
     mt_onchain = Map.empty, mt_delta = Map.empty, mt_open = False, mt_gate = Map.empty, mt_settled = None,
     mt_last = Map.empty\<rparr>"

definition settlement_gate_states :: "string list" where
  "settlement_gate_states = [''open'', ''depegged'', ''stale price'', ''no data'']"

definition record_settlement :: "bool \<Rightarrow> string \<Rightarrow> 'f feed_meters \<Rightarrow> 'f feed_meters" where
  "record_settlement opened reason m = (let state = (if opened then ''open'' else reason) in
     m\<lparr>mt_open := opened,
       mt_gate := foldl (\<lambda>g known. g(known \<mapsto> (known = state))) (mt_gate m) settlement_gate_states\<rparr>)"

definition record_settled :: "'f price_floats \<Rightarrow> int \<Rightarrow> 'f feed_meters \<Rightarrow> 'f feed_meters" where
  "record_settled fl amount m = m\<lparr>mt_settled := Some (pf_whole fl amount)\<rparr>"

definition record_submit :: "string \<Rightarrow> int \<Rightarrow> 'f feed_meters \<Rightarrow> 'f feed_meters" where
  "record_submit asset price m = m\<lparr>mt_submitted := (mt_submitted m)(asset := Suc (mt_submitted m asset)),
     mt_last := (mt_last m)(asset \<mapsto> price)\<rparr>"

definition record_on_chain :: "'f price_floats \<Rightarrow> string \<Rightarrow> int \<Rightarrow> 'f feed_meters \<Rightarrow> 'f feed_meters" where
  "record_on_chain fl asset price m =
    (let m1 = m\<lparr>mt_onchain := (mt_onchain m)(asset \<mapsto> pf_scaled fl price)\<rparr> in
     case mt_last m asset of None \<Rightarrow> m1
     | Some submitted \<Rightarrow> m1\<lparr>mt_price := (mt_price m)(asset \<mapsto> pf_scaled fl submitted),
         mt_delta := (mt_delta m)(asset \<mapsto> pf_minus fl (pf_scaled fl submitted) (pf_scaled fl price))\<rparr>)"

definition record_enqueued :: "'f feed_meters \<Rightarrow> 'f feed_meters" where
  "record_enqueued m = m\<lparr>mt_inflight := mt_inflight m + 1\<rparr>"

text \<open>\<^verbatim>\<open>recordConfirmed\<close> counts and then lowers the gauge: what it still has to do, and one step of it.\<close>

datatype feed_tally = Tallied | CountDue string | GaugeDue

fun record_confirmed :: "feed_tally \<Rightarrow> 'f feed_meters \<Rightarrow> 'f feed_meters \<times> feed_tally" where
  "record_confirmed Tallied m = (m, Tallied)"
| "record_confirmed (CountDue asset) m =
     (m\<lparr>mt_confirmed := (mt_confirmed m)(asset := Suc (mt_confirmed m asset))\<rparr>, GaugeDue)"
| "record_confirmed GaugeDue m = (m\<lparr>mt_inflight := mt_inflight m - 1\<rparr>, Tallied)"

section \<open>Errors\<close>

datatype feed_error =
    FeedKey feeder_error
  | SettlementWithOracle
  | FeedChainIDUnread string
  | FeedNonceUnread string
  | AggregatorUnread string
  | AggregatorMissing
  | FeedMetricsUnserved string
  | FeedTipUnread string
  | FeedGasPriceUnread string
  | SubmitSign string string
  | SubmitEncode string string
  | SubmitSend string string
  | SubmitReceipt string string
  | SubmitReverted string u64
  | OnChainUnread string string
  | OnChainUndecodable string codec_error
  | SettlementUnread string
  | SettlementUndecodable codec_error
  | SettledUnread string
  | SettledUndecodable codec_error

section \<open>Submitting\<close>

datatype feed_fees = LegacyFee int | TipFee int int

text \<open>A type-2 transaction carries its chain ID; a legacy one is bound to it by its signer.\<close>

record ('addr, 'chain) feed_tx =
  ft_ChainID :: "'chain option"
  ft_Nonce :: u64
  ft_Fees :: feed_fees
  ft_Gas :: u64
  ft_To :: 'addr
  ft_Value :: int
  ft_Data :: bytes

record 'hash feed_pending =
  fp_asset :: string
  fp_hash :: 'hash

datatype feed_path = OracleFeed | DirectFeed

record ('addr, 'chain) feed_setup =
  fu_path :: feed_path
  fu_chain :: 'chain
  fu_aggregator :: 'addr
  fu_settlement :: "'addr option"
  fu_lib :: eth_library
  fu_draw :: "nat \<Rightarrow> int \<Rightarrow> int"

definition direct_assets :: "eth_library \<Rightarrow> asset_ref list" where
  "direct_assets lib = [\<lparr>asset_name = ''USDC-USD'', asset_id = keccak256 lib ''USDC-USD''\<rparr>]"

definition feed_assets :: "('addr, 'chain) feed_setup \<Rightarrow> asset_ref list" where
  "feed_assets fu = (case fu_path fu of OracleFeed \<Rightarrow> known_assets (fu_lib fu) | DirectFeed \<Rightarrow> direct_assets (fu_lib fu))"

definition direct_fees :: "int \<Rightarrow> int \<Rightarrow> int \<times> int" where
  "direct_fees suggestedTip suggestedGasPrice =
    (let tip0 = suggestedTip * direct_tip_multiplier;
         tip = (if tip0 < min_direct_tip then min_direct_tip else tip0) in
     (tip, suggestedGasPrice * direct_fee_cap_multiplier + tip))"

record ('addr, 'chain, 'hash) feed_rpc =
  fr_Tip :: "string + int"
  fr_GasPrice :: "string + int"
  fr_Sign :: "('addr, 'chain) feed_tx \<Rightarrow> string option"
  fr_Encode :: "('addr, 'chain) feed_tx \<Rightarrow> string option"
  fr_Send :: "('addr, 'chain) feed_tx \<Rightarrow> string + 'hash"

definition tick_fees ::
  "('addr, 'chain) feed_setup \<Rightarrow> ('addr, 'chain, 'hash) feed_rpc \<Rightarrow> feed_error + feed_fees" where
  "tick_fees fu rpc = (case fu_path fu of
      OracleFeed \<Rightarrow> (case fr_GasPrice rpc of Inl e \<Rightarrow> Inl (FeedGasPriceUnread e) | Inr g \<Rightarrow> Inr (LegacyFee (g * 2)))
    | DirectFeed \<Rightarrow> (case fr_Tip rpc of Inl e \<Rightarrow> Inl (FeedTipUnread e)
      | Inr tip \<Rightarrow> (case fr_GasPrice rpc of Inl e \<Rightarrow> Inl (FeedGasPriceUnread e)
        | Inr g \<Rightarrow> Inr (let (t, c) = direct_fees tip g in TipFee t c))))"

definition submit_tx ::
  "('addr, 'chain) feed_setup \<Rightarrow> feed_fees \<Rightarrow> u64 \<Rightarrow> asset_ref \<Rightarrow> int \<Rightarrow> ('addr, 'chain) feed_tx" where
  "submit_tx fu fees nonce asset price = (case fu_path fu of
      OracleFeed \<Rightarrow> \<lparr>ft_ChainID = None, ft_Nonce = nonce, ft_Fees = fees, ft_Gas = feed_gas_limit,
        ft_To = fu_aggregator fu, ft_Value = 0, ft_Data = pack_submit_price (asset_id asset) price\<rparr>
    | DirectFeed \<Rightarrow> \<lparr>ft_ChainID = Some (fu_chain fu), ft_Nonce = nonce, ft_Fees = fees, ft_Gas = feed_gas_limit,
        ft_To = fu_aggregator fu, ft_Value = 0, ft_Data = pack_submit price\<rparr>)"

text \<open>The name in the messages: \<^verbatim>\<open>AssetName\<close> of the ID on the oracle path.\<close>

definition submit_name :: "('addr, 'chain) feed_setup \<Rightarrow> asset_ref \<Rightarrow> string" where
  "submit_name fu asset = (case fu_path fu of
      OracleFeed \<Rightarrow> asset_name_of (fu_lib fu) (asset_id asset) | DirectFeed \<Rightarrow> asset_name asset)"

definition submit_price ::
  "('addr, 'chain) feed_setup \<Rightarrow> ('addr, 'chain, 'hash) feed_rpc \<Rightarrow> feed_fees \<Rightarrow> u64 \<Rightarrow> asset_ref \<Rightarrow> int
   \<Rightarrow> feed_error + ('addr, 'chain) feed_tx \<times> 'hash" where
  "submit_price fu rpc fees nonce asset price =
    (let tx = submit_tx fu fees nonce asset price; name = submit_name fu asset in
     case fr_Sign rpc tx of Some e \<Rightarrow> Inl (SubmitSign name e)
     | None \<Rightarrow> (case fr_Encode rpc tx of Some e \<Rightarrow> Inl (SubmitEncode name e)
       | None \<Rightarrow> (case fr_Send rpc tx of Inl e \<Rightarrow> Inl (SubmitSend name e) | Inr hash \<Rightarrow> Inr (tx, hash))))"

section \<open>The running feed\<close>

text \<open>Where the main loop is. Sending, recording the submission, queueing it and counting it in the gauge
  are separate steps: \<open>Recording\<close> has sent, \<open>Enqueuing\<close> has recorded, \<open>Counting\<close> has queued.\<close>

datatype 'hash feed_phase =
    FeedWaiting
  | Submitting feed_fees "asset_ref list"
  | Recording "'hash feed_pending" int feed_fees "asset_ref list"
  | Enqueuing "'hash feed_pending" feed_fees "asset_ref list"
  | Counting feed_fees "asset_ref list"
  | FeedStopped "feed_error option"

datatype poller_phase =
    PollerIdle
  | PollAssets "asset_ref list"
  | PollGate
  | PollerStopped

text \<open>A submission that was sent, with its asset, price and queue entry: the trace of the run.\<close>

record ('addr, 'chain, 'hash) feed_sent =
  fn_Tx :: "('addr, 'chain) feed_tx"
  fn_Asset :: asset_ref
  fn_Price :: int
  fn_Item :: "'hash feed_pending"

record ('addr, 'chain, 'hash, 'f) feed_state =
  fs_walk :: price_walk
  fs_nonce :: u64
  fs_sent :: "('addr, 'chain, 'hash) feed_sent list"
  fs_pending :: "'hash feed_pending list"
  fs_held :: "'hash feed_pending option"
  fs_confirmed :: "'hash feed_pending list"
  fs_lost :: "'hash feed_pending list"
  fs_error :: "feed_error option"
  fs_done :: bool
  fs_confirmer :: bool
  fs_tally :: feed_tally
  fs_poller :: poller_phase
  fs_meters :: "'f feed_meters"
  fs_main :: "'hash feed_phase"

definition feed_init :: "('addr, 'chain) feed_setup \<Rightarrow> u64 \<Rightarrow> ('addr, 'chain, 'hash, 'f) feed_state" where
  "feed_init fu nonce = \<lparr>fs_walk = new_price_walk, fs_nonce = nonce, fs_sent = [], fs_pending = [], fs_held = None,
     fs_confirmed = [], fs_lost = [], fs_error = None, fs_done = False, fs_confirmer = True, fs_tally = Tallied,
     fs_poller = (if fu_path fu = DirectFeed then PollerIdle else PollerStopped),
     fs_meters = new_feed_meters, fs_main = FeedWaiting\<rparr>"

text \<open>\<^verbatim>\<open>fail\<close> keeps the first error and cancels the run; leaving the loop cancels it too.\<close>

definition feed_fail :: "feed_error \<Rightarrow> ('addr, 'chain, 'hash, 'f) feed_state \<Rightarrow> ('addr, 'chain, 'hash, 'f) feed_state" where
  "feed_fail e s = s\<lparr>fs_error := (if fs_error s = None then Some e else fs_error s), fs_done := True\<rparr>"

definition feed_stop :: "feed_error option \<Rightarrow> ('addr, 'chain, 'hash, 'f) feed_state \<Rightarrow> ('addr, 'chain, 'hash, 'f) feed_state" where
  "feed_stop r s = s\<lparr>fs_main := FeedStopped r, fs_done := True\<rparr>"

definition feed_drain :: "('addr, 'chain, 'hash, 'f) feed_state \<Rightarrow> ('addr, 'chain, 'hash, 'f) feed_state" where
  "feed_drain s = feed_stop (fs_error s) (s\<lparr>fs_error := None\<rparr>)"

text \<open>The next price of the walk, then its transaction; an error leaves the loop.\<close>

definition feed_submit ::
  "('addr, 'chain) feed_setup \<Rightarrow> ('addr, 'chain, 'hash) feed_rpc \<Rightarrow> feed_fees \<Rightarrow> asset_ref \<Rightarrow> asset_ref list
   \<Rightarrow> ('addr, 'chain, 'hash, 'f) feed_state \<Rightarrow> ('addr, 'chain, 'hash, 'f) feed_state" where
  "feed_submit fu rpc fees asset rest s =
    (let (walk, price) = walk_next (fu_draw fu) (fs_walk s) (asset_name asset); t = s\<lparr>fs_walk := walk\<rparr> in
     case submit_price fu rpc fees (fs_nonce t) asset price of
       Inl e \<Rightarrow> feed_stop (Some e) t
     | Inr (tx, hash) \<Rightarrow> (let item = \<lparr>fp_asset = asset_name asset, fp_hash = hash\<rparr> in
         t\<lparr>fs_nonce := fs_nonce t + 1,
           fs_sent := fs_sent t @ [\<lparr>fn_Tx = tx, fn_Asset = asset, fn_Price = price, fn_Item = item\<rparr>],
           fs_main := Recording item price fees rest\<rparr>))"

definition feed_confirm ::
  "'hash feed_pending \<Rightarrow> string + receipt \<Rightarrow> ('addr, 'chain, 'hash, 'f) feed_state \<Rightarrow> ('addr, 'chain, 'hash, 'f) feed_state" where
  "feed_confirm item answer s =
    (let lost = s\<lparr>fs_held := None, fs_lost := fs_lost s @ [item], fs_confirmer := False\<rparr> in
     case answer of
       Inl e \<Rightarrow> if fs_done s then lost else feed_fail (SubmitReceipt (fp_asset item) e) lost
     | Inr r \<Rightarrow>
         if rc_Status r \<noteq> 1 then feed_fail (SubmitReverted (fp_asset item) (rc_BlockNumber r)) lost
         else s\<lparr>fs_held := None, fs_confirmed := fs_confirmed s @ [item],
                fs_tally := CountDue (fp_asset item)\<rparr>)"

definition no_data :: "string \<Rightarrow> bool" where
  "no_data e \<longleftrightarrow> contains e ''No data present''"

definition after_assets :: "('addr, 'chain) feed_setup \<Rightarrow> asset_ref list \<Rightarrow> poller_phase" where
  "after_assets fu rest = (if rest \<noteq> [] then PollAssets rest
     else if fu_settlement fu = None then PollerIdle else PollGate)"

definition poll_asset ::
  "'f price_floats \<Rightarrow> ('addr, 'chain) feed_setup \<Rightarrow> asset_ref \<Rightarrow> asset_ref list \<Rightarrow> string + bytes
   \<Rightarrow> ('addr, 'chain, 'hash, 'f) feed_state \<Rightarrow> ('addr, 'chain, 'hash, 'f) feed_state" where
  "poll_asset fl fu asset rest answer s =
    (let stopped = s\<lparr>fs_poller := PollerStopped\<rparr>; next' = s\<lparr>fs_poller := after_assets fu rest\<rparr> in
     case answer of
       Inl e \<Rightarrow> if fs_done s then stopped
         else if no_data e then next'
         else feed_fail (OnChainUnread (asset_name asset) e) stopped
     | Inr b \<Rightarrow> (case decode_latest_round_data b of
         Inl e \<Rightarrow> feed_fail (OnChainUndecodable (asset_name asset) e) stopped
       | Inr (answer', _) \<Rightarrow> next'\<lparr>fs_meters := record_on_chain fl (asset_name asset) (int answer') (fs_meters s)\<rparr>))"

text \<open>\<^verbatim>\<open>pollSettlementGate\<close>: the meters as it leaves them, and its error.\<close>

definition poll_settlement_gate ::
  "'f price_floats \<Rightarrow> string + bytes \<Rightarrow> string + bytes \<Rightarrow> 'f feed_meters \<Rightarrow> 'f feed_meters \<times> feed_error option" where
  "poll_settlement_gate fl gate settled m = (case gate of
      Inl e \<Rightarrow> if no_data e then (record_settlement False ''no data'' m, None) else (m, Some (SettlementUnread e))
    | Inr b \<Rightarrow> (case decode_can_settle b of
        Inl e \<Rightarrow> (m, Some (SettlementUndecodable e))
      | Inr (opened, reason) \<Rightarrow> (let m1 = record_settlement opened (map (\<lambda>b. char_of (unat b)) reason) m in
          case settled of Inl e \<Rightarrow> (m1, Some (SettledUnread e))
          | Inr t \<Rightarrow> (case decode_settled t of Inl e \<Rightarrow> (m1, Some (SettledUndecodable e))
            | Inr amount \<Rightarrow> (record_settled fl (int amount) m1, None)))))"

definition poll_gate ::
  "'f price_floats \<Rightarrow> string + bytes \<Rightarrow> string + bytes
   \<Rightarrow> ('addr, 'chain, 'hash, 'f) feed_state \<Rightarrow> ('addr, 'chain, 'hash, 'f) feed_state" where
  "poll_gate fl gate settled s = (let (m, r) = poll_settlement_gate fl gate settled (fs_meters s);
        t = s\<lparr>fs_meters := m\<rparr> in
     case r of None \<Rightarrow> t\<lparr>fs_poller := PollerIdle\<rparr>
     | Some e \<Rightarrow> (let stopped = t\<lparr>fs_poller := PollerStopped\<rparr> in if fs_done s then stopped else feed_fail e stopped))"

datatype ('addr, 'chain, 'hash) feed_event =
    FeedInterrupt
  | FeedNoticeDone
  | FeedNoticeError
  | FeedTick "('addr, 'chain, 'hash) feed_rpc"
  | FeedSubmit "('addr, 'chain, 'hash) feed_rpc"
  | FeedRecord
  | FeedEnqueue
  | FeedCount
  | FeedAbandon
  | FeedTake
  | FeedConfirm "string + receipt"
  | FeedTally
  | FeedConfirmerStops
  | PollTick
  | PollAsset "string + bytes"
  | PollSettlement "string + bytes" "string + bytes"
  | PollStops

definition feed_step ::
  "'f price_floats \<Rightarrow> ('addr, 'chain) feed_setup \<Rightarrow> ('addr, 'chain, 'hash) feed_event
   \<Rightarrow> ('addr, 'chain, 'hash, 'f) feed_state \<Rightarrow> ('addr, 'chain, 'hash, 'f) feed_state option" where
  "feed_step fl fu ev s = (case ev of
      FeedInterrupt \<Rightarrow> Some (s\<lparr>fs_done := True\<rparr>)
    | FeedNoticeDone \<Rightarrow> (case fs_main s of
        FeedWaiting \<Rightarrow> if fs_done s then Some (feed_drain s) else None | _ \<Rightarrow> None)
    | FeedNoticeError \<Rightarrow> (case fs_main s of
        FeedWaiting \<Rightarrow> if fs_error s = None then None else Some (feed_drain s) | _ \<Rightarrow> None)
    | FeedTick rpc \<Rightarrow> (case fs_main s of
        FeedWaiting \<Rightarrow> (case tick_fees fu rpc of
            Inl e \<Rightarrow> Some (feed_stop (Some e) s)
          | Inr fees \<Rightarrow> Some (s\<lparr>fs_main := Submitting fees (feed_assets fu)\<rparr>))
      | _ \<Rightarrow> None)
    | FeedSubmit rpc \<Rightarrow> (case fs_main s of
        Submitting fees (asset # rest) \<Rightarrow> Some (feed_submit fu rpc fees asset rest s) | _ \<Rightarrow> None)
    | FeedRecord \<Rightarrow> (case fs_main s of
        Recording item price fees rest \<Rightarrow> Some (s\<lparr>fs_meters := record_submit (fp_asset item) price (fs_meters s),
          fs_main := Enqueuing item fees rest\<rparr>)
      | _ \<Rightarrow> None)
    | FeedEnqueue \<Rightarrow> (case fs_main s of
        Enqueuing item fees rest \<Rightarrow> if length (fs_pending s) < max_in_flight
          then Some (s\<lparr>fs_pending := fs_pending s @ [item], fs_main := Counting fees rest\<rparr>)
          else None
      | _ \<Rightarrow> None)
    | FeedCount \<Rightarrow> (case fs_main s of
        Counting fees rest \<Rightarrow> Some (s\<lparr>fs_meters := record_enqueued (fs_meters s),
          fs_main := (if rest = [] then FeedWaiting else Submitting fees rest)\<rparr>)
      | _ \<Rightarrow> None)
    | FeedAbandon \<Rightarrow> (case fs_main s of
        Enqueuing item fees rest \<Rightarrow> if fs_done s then Some (feed_drain s) else None | _ \<Rightarrow> None)
    | FeedTake \<Rightarrow> (case fs_pending s of
        [] \<Rightarrow> None
      | item # rest \<Rightarrow> if fs_confirmer s \<and> fs_held s = None \<and> fs_tally s = Tallied
          then Some (s\<lparr>fs_pending := rest, fs_held := Some item\<rparr>) else None)
    | FeedConfirm answer \<Rightarrow> (case fs_held s of
        None \<Rightarrow> None
      | Some item \<Rightarrow> if fs_confirmer s then Some (feed_confirm item answer s) else None)
    | FeedTally \<Rightarrow> if fs_tally s = Tallied then None
        else (case record_confirmed (fs_tally s) (fs_meters s) of (m, due) \<Rightarrow> Some (s\<lparr>fs_meters := m, fs_tally := due\<rparr>))
    | FeedConfirmerStops \<Rightarrow> if fs_done s \<and> fs_held s = None \<and> fs_tally s = Tallied then Some (s\<lparr>fs_confirmer := False\<rparr>) else None
    | PollTick \<Rightarrow> if fs_poller s = PollerIdle then Some (s\<lparr>fs_poller := PollAssets (direct_assets (fu_lib fu))\<rparr>) else None
    | PollAsset answer \<Rightarrow> (case fs_poller s of
        PollAssets (asset # rest) \<Rightarrow> Some (poll_asset fl fu asset rest answer s) | _ \<Rightarrow> None)
    | PollSettlement gate settled \<Rightarrow> (case fs_poller s of
        PollGate \<Rightarrow> Some (poll_gate fl gate settled s) | _ \<Rightarrow> None)
    | PollStops \<Rightarrow> if fs_poller s = PollerIdle \<and> fs_done s then Some (s\<lparr>fs_poller := PollerStopped\<rparr>) else None)"

inductive feed_run ::
  "'f price_floats \<Rightarrow> ('addr, 'chain) feed_setup \<Rightarrow> u64 \<Rightarrow> ('addr, 'chain, 'hash, 'f) feed_state \<Rightarrow> bool"
  for fl fu nonce where
  start: "feed_run fl fu nonce (feed_init fu nonce)"
| step: "feed_run fl fu nonce s \<Longrightarrow> feed_step fl fu ev s = Some t \<Longrightarrow> feed_run fl fu nonce t"

section \<open>The start\<close>

text \<open>What the start reads, by chain and address.\<close>

record ('id, 'addr, 'key, 'chain) feed_world =
  fw_to_ecdsa :: "nat list \<Rightarrow> 'key option"
  fw_address_of :: "'key \<Rightarrow> 'addr"
  fw_key_file :: "string option"
  fw_chain_id :: "'id \<Rightarrow> string + 'chain"
  fw_nonce :: "'id \<Rightarrow> 'addr \<Rightarrow> string + u64"
  fw_code :: "'id \<Rightarrow> 'addr \<Rightarrow> string + string"
  fw_metrics :: "string option"

definition feed_oracle_start ::
  "('id, 'addr, 'key, 'chain) feed_world \<Rightarrow> eth_library \<Rightarrow> (nat \<Rightarrow> int \<Rightarrow> int) \<Rightarrow> ('id, 'addr) feed_deployment \<Rightarrow> 'addr
   \<Rightarrow> feed_error + ('addr, 'chain) feed_setup \<times> u64" where
  "feed_oracle_start w lib draw d feeder = (case fw_chain_id w (fd_OracleChainID d) of
      Inl e \<Rightarrow> Inl (FeedChainIDUnread e)
    | Inr chain \<Rightarrow> (case fw_nonce w (fd_OracleChainID d) feeder of
        Inl e \<Rightarrow> Inl (FeedNonceUnread e)
      | Inr nonce \<Rightarrow> (case fw_metrics w of
          Some e \<Rightarrow> Inl (FeedMetricsUnserved e)
        | None \<Rightarrow> Inr (\<lparr>fu_path = OracleFeed, fu_chain = chain, fu_aggregator = fd_AggregatorAddress d,
            fu_settlement = None, fu_lib = lib, fu_draw = draw\<rparr>, nonce))))"

definition feed_direct_start ::
  "('id, 'addr, 'key, 'chain) feed_world \<Rightarrow> eth_library \<Rightarrow> (nat \<Rightarrow> int \<Rightarrow> int) \<Rightarrow> ('id, 'addr) feed_deployment \<Rightarrow> 'addr
   \<Rightarrow> 'addr option \<Rightarrow> feed_error + ('addr, 'chain) feed_setup \<times> u64" where
  "feed_direct_start w lib draw d feeder settlement = (case fw_chain_id w (fd_MainChainID d) of
      Inl e \<Rightarrow> Inl (FeedChainIDUnread e)
    | Inr chain \<Rightarrow> (case fw_nonce w (fd_MainChainID d) feeder of
        Inl e \<Rightarrow> Inl (FeedNonceUnread e)
      | Inr nonce \<Rightarrow> (case has_code (fw_code w (fd_MainChainID d) (fd_PriceFeedAggregatorAddress d)) of
          Inl e \<Rightarrow> Inl (AggregatorUnread e)
        | Inr False \<Rightarrow> Inl AggregatorMissing
        | Inr True \<Rightarrow> (case fw_metrics w of
            Some e \<Rightarrow> Inl (FeedMetricsUnserved e)
          | None \<Rightarrow> Inr (\<lparr>fu_path = DirectFeed, fu_chain = chain, fu_aggregator = fd_PriceFeedAggregatorAddress d,
              fu_settlement = settlement, fu_lib = lib, fu_draw = draw\<rparr>, nonce)))))"

text \<open>\<^verbatim>\<open>Feed\<close>: no settlement address is \<open>None\<close>.\<close>

definition feed_start ::
  "'id id_codec \<Rightarrow> ('id, 'addr, 'key, 'chain) feed_world \<Rightarrow> eth_library \<Rightarrow> (nat \<Rightarrow> int \<Rightarrow> int)
   \<Rightarrow> ('id, 'addr) feed_deployment \<Rightarrow> 'addr option \<Rightarrow> feed_error + ('addr, 'chain) feed_setup \<times> u64" where
  "feed_start codec w lib draw d settlement =
    (case load_feeder_key (fw_to_ecdsa w) (fw_address_of w) (fw_key_file w) (fd_FeederAddress d) of
      Inl e \<Rightarrow> Inl (FeedKey e)
    | Inr (key, feeder) \<Rightarrow>
        if feed_has_oracle codec d
        then if settlement \<noteq> None then Inl SettlementWithOracle else feed_oracle_start w lib draw d feeder
        else feed_direct_start w lib draw d feeder settlement)"

section \<open>Prices stay in their bands\<close>

definition price_in_band :: "string \<Rightarrow> int \<Rightarrow> bool" where
  "price_in_band name p \<longleftrightarrow> (if name = ''BTC-USD'' then \<bar>p - btc_base\<bar> \<le> btc_band else \<bar>p - usdc_base\<bar> \<le> usdc_band)"

definition walk_ok :: "price_walk \<Rightarrow> bool" where
  "walk_ok w \<longleftrightarrow> \<bar>pw_btc w - btc_base\<bar> \<le> btc_band \<and> \<bar>pw_usdc w - usdc_base\<bar> \<le> usdc_band"

lemma clamp_step_band: "0 \<le> band \<Longrightarrow> \<bar>clamp_step drawn current base maxStep band - base\<bar> \<le> band"
  by (auto simp: clamp_step_def Let_def)

text \<open>A drawn value within the call's range moves the price by at most the step.\<close>

lemma clamp_step_near:
  assumes "0 \<le> drawn" "drawn < 2 * maxStep + 1" "\<bar>current - base\<bar> \<le> band"
  shows "\<bar>clamp_step drawn current base maxStep band - current\<bar> \<le> maxStep"
  using assms by (auto simp: clamp_step_def Let_def)

lemma walk_next_ok:
  assumes "walk_ok w" "walk_next draw w name = (w', p)"
  shows "walk_ok w' \<and> price_in_band name p"
  using assms clamp_step_band [of btc_band _ _ btc_base btc_step] clamp_step_band [of usdc_band _ _ usdc_base usdc_step]
  by (auto simp: walk_next_def walk_ok_def price_in_band_def Let_def btc_band_def usdc_band_def split: if_splits)

lemma price_positive: "price_in_band name p \<Longrightarrow> 0 < p \<and> p < 2 ^ 63"
  by (auto simp: price_in_band_def btc_base_def btc_band_def usdc_base_def usdc_band_def split: if_splits)

lemma direct_fees_ok:
  assumes "direct_fees tip gas = (t, c)" "0 \<le> gas"
  shows "min_direct_tip \<le> t \<and> 2 * tip \<le> t \<and> t \<le> c \<and> 10 * gas \<le> c"
  using assms by (auto simp: direct_fees_def Let_def direct_tip_multiplier_def direct_fee_cap_multiplier_def
      min_direct_tip_def split: if_splits)

section \<open>What every run keeps\<close>

definition well_formed_submit ::
  "('addr, 'chain) feed_setup \<Rightarrow> u64 \<Rightarrow> ('addr, 'chain, 'hash) feed_sent \<Rightarrow> bool" where
  "well_formed_submit fu nonce sd \<longleftrightarrow> (\<exists>fees. fn_Tx sd = submit_tx fu fees nonce (fn_Asset sd) (fn_Price sd)
      \<and> (\<exists>rpc :: ('addr, 'chain, 'hash) feed_rpc. tick_fees fu rpc = Inr fees))
    \<and> price_in_band (asset_name (fn_Asset sd)) (fn_Price sd)
    \<and> fp_asset (fn_Item sd) = asset_name (fn_Asset sd)"

definition awaiting :: "('addr, 'chain, 'hash, 'f) feed_state \<Rightarrow> 'hash feed_pending list" where
  "awaiting s = (case fs_held s of None \<Rightarrow> [] | Some item \<Rightarrow> [item]) @ fs_pending s"

text \<open>How far the current tick is: the assets still to submit, and the submission not queued yet.\<close>

definition tick_left :: "'hash feed_phase \<Rightarrow> asset_ref list \<Rightarrow> asset_ref list \<Rightarrow> bool" where
  "tick_left main assets submitted \<longleftrightarrow> (case main of
      FeedWaiting \<Rightarrow> submitted = []
    | Submitting _ rest \<Rightarrow> submitted @ rest = assets
    | Recording _ _ _ rest \<Rightarrow> submitted @ rest = assets
    | Enqueuing _ _ rest \<Rightarrow> submitted @ rest = assets
    | Counting _ rest \<Rightarrow> submitted @ rest = assets
    | FeedStopped _ \<Rightarrow> \<exists>rest. submitted @ rest = assets)"

definition not_queued :: "'hash feed_phase \<Rightarrow> 'hash feed_pending list \<Rightarrow> bool" where
  "not_queued main rest \<longleftrightarrow> (case main of
      Recording item _ _ _ \<Rightarrow> rest = [item] | Enqueuing item _ _ \<Rightarrow> rest = [item] | FeedStopped _ \<Rightarrow> length rest \<le> 1 | _ \<Rightarrow> rest = [])"

definition phase_fees :: "('addr, 'chain) feed_setup \<Rightarrow> ('addr, 'chain, 'hash, 'f) feed_state \<Rightarrow> bool" where
  "phase_fees fu s \<longleftrightarrow> (\<forall>fees rest item price. fs_main s = Submitting fees rest \<or> fs_main s = Recording item price fees rest
       \<or> fs_main s = Enqueuing item fees rest \<or> fs_main s = Counting fees rest \<longrightarrow> (\<exists>rpc :: ('addr, 'chain, 'hash) feed_rpc. tick_fees fu rpc = Inr fees))"

definition feed_sent_ok ::
  "('addr, 'chain) feed_setup \<Rightarrow> u64 \<Rightarrow> ('addr, 'chain, 'hash, 'f) feed_state \<Rightarrow> bool" where
  "feed_sent_ok fu nonce s \<longleftrightarrow>
     list_all2 (\<lambda>k sd. well_formed_submit fu (nonce + word_of_nat k) sd) [0..<length (fs_sent s)] (fs_sent s)
     \<and> fs_nonce s = nonce + word_of_nat (length (fs_sent s)) \<and> walk_ok (fs_walk s) \<and> phase_fees fu s
     \<and> (\<exists>n submitted. map fn_Asset (fs_sent s) = concat (replicate n (feed_assets fu)) @ submitted
          \<and> tick_left (fs_main s) (feed_assets fu) submitted)"

definition feed_queue_ok :: "('addr, 'chain, 'hash, 'f) feed_state \<Rightarrow> bool" where
  "feed_queue_ok s \<longleftrightarrow>
     (\<exists>rest. map fn_Item (fs_sent s) = fs_confirmed s @ fs_lost s @ awaiting s @ rest \<and> not_queued (fs_main s) rest)
     \<and> length (fs_pending s) \<le> max_in_flight
     \<and> length (fs_lost s) \<le> (if fs_confirmer s then 0 else 1) \<and> (fs_lost s = [] \<or> fs_held s = None)
     \<and> (fs_lost s = [] \<or> fs_done s) \<and> (fs_error s = None \<or> fs_done s) \<and> (fs_held s = None \<or> fs_tally s = Tallied)"

text \<open>What the meters lag behind: the submission being recorded, the confirmation being counted, and in the
  gauge the confirmed item not taken off yet and the queued one not added yet.\<close>

definition unrecorded :: "('addr, 'chain, 'hash, 'f) feed_state \<Rightarrow> string \<Rightarrow> nat" where
  "unrecorded s a = (case fs_main s of Recording item _ _ _ \<Rightarrow> if fp_asset item = a then 1 else 0 | _ \<Rightarrow> 0)"

fun tally_due :: "feed_tally \<Rightarrow> string \<Rightarrow> nat" where
  "tally_due (CountDue asset) a = (if asset = a then 1 else 0)"
| "tally_due _ a = 0"

definition gauge_lag :: "('addr, 'chain, 'hash, 'f) feed_state \<Rightarrow> int" where
  "gauge_lag s = (if fs_tally s = Tallied then 0 else 1) - (case fs_main s of Counting _ _ \<Rightarrow> 1 | _ \<Rightarrow> 0)"

definition feed_meters_ok :: "('addr, 'chain, 'hash, 'f) feed_state \<Rightarrow> bool" where
  "feed_meters_ok s \<longleftrightarrow>
     (\<forall>a. mt_submitted (fs_meters s) a + unrecorded s a = length (filter (\<lambda>sd. fp_asset (fn_Item sd) = a) (fs_sent s)))
     \<and> (\<forall>a. mt_confirmed (fs_meters s) a + tally_due (fs_tally s) a
          = length (filter (\<lambda>i. fp_asset i = a) (fs_confirmed s)))
     \<and> mt_inflight (fs_meters s) = int (length (awaiting s) + length (fs_lost s)) + gauge_lag s"

lemma awaiting_simps [simp]:
  "awaiting (s\<lparr>fs_walk := x1\<rparr>) = awaiting s"
  "awaiting (s\<lparr>fs_nonce := x2\<rparr>) = awaiting s"
  "awaiting (s\<lparr>fs_sent := x3\<rparr>) = awaiting s"
  "awaiting (s\<lparr>fs_confirmed := x4\<rparr>) = awaiting s"
  "awaiting (s\<lparr>fs_lost := x5\<rparr>) = awaiting s"
  "awaiting (s\<lparr>fs_error := x6\<rparr>) = awaiting s"
  "awaiting (s\<lparr>fs_done := x7\<rparr>) = awaiting s"
  "awaiting (s\<lparr>fs_confirmer := x8\<rparr>) = awaiting s"
  "awaiting (s\<lparr>fs_poller := x9\<rparr>) = awaiting s"
  "awaiting (s\<lparr>fs_meters := x10\<rparr>) = awaiting s"
  "awaiting (s\<lparr>fs_main := x11\<rparr>) = awaiting s"
  "awaiting (s\<lparr>fs_tally := x12\<rparr>) = awaiting s"
  by (simp_all add: awaiting_def)

lemma meters_kept [simp]:
  "mt_submitted (record_settlement opened reason m) = mt_submitted m"
  "mt_confirmed (record_settlement opened reason m) = mt_confirmed m"
  "mt_inflight (record_settlement opened reason m) = mt_inflight m"
  "mt_submitted (record_settled fl amount m) = mt_submitted m"
  "mt_confirmed (record_settled fl amount m) = mt_confirmed m"
  "mt_inflight (record_settled fl amount m) = mt_inflight m"
  "mt_submitted (record_on_chain fl asset price m) = mt_submitted m"
  "mt_confirmed (record_on_chain fl asset price m) = mt_confirmed m"
  "mt_inflight (record_on_chain fl asset price m) = mt_inflight m"
  by (simp_all add: record_settlement_def record_settled_def record_on_chain_def Let_def split: option.split)

text \<open>The main loop's part.\<close>

lemma feed_sent_ok_cong:
  assumes "feed_sent_ok fu nonce s"
    and "fs_sent t = fs_sent s" "fs_nonce t = fs_nonce s" "fs_walk t = fs_walk s" "fs_main t = fs_main s"
  shows "feed_sent_ok fu nonce t"
  using assms by (simp add: feed_sent_ok_def phase_fees_def)

lemma tick_left_prefix: "tick_left main assets submitted \<Longrightarrow> \<exists>rest. submitted @ rest = assets"
  by (auto simp: tick_left_def split: feed_phase.splits)

lemma feed_stop_sent_ok:
  assumes "feed_sent_ok fu nonce s"
  shows "feed_sent_ok fu nonce (feed_stop r s)"
  using assms tick_left_prefix [of "fs_main s" "feed_assets fu"]
  by (fastforce simp: feed_sent_ok_def feed_stop_def phase_fees_def tick_left_def)

lemma feed_submit_sent_ok:
  assumes "feed_sent_ok fu nonce s" "fs_main s = Submitting fees (asset # rest)"
  shows "feed_sent_ok fu nonce (feed_submit fu rpc fees asset rest s)"
proof -
  obtain walk price where w: "walk_next (fu_draw fu) (fs_walk s) (asset_name asset) = (walk, price)" by fastforce
  from assms(1) have ok: "walk_ok (fs_walk s)" by (simp add: feed_sent_ok_def)
  note band = walk_next_ok [OF ok w]
  have t: "feed_sent_ok fu nonce (s\<lparr>fs_walk := walk\<rparr>)"
    using assms(1) band by (simp add: feed_sent_ok_def phase_fees_def)
  show ?thesis
  proof (cases "submit_price fu rpc fees (fs_nonce s) asset price")
    case (Inl e)
    then show ?thesis using feed_stop_sent_ok [OF t] by (simp add: feed_submit_def w)
  next
    case (Inr r)
    obtain tx hash where r: "r = (tx, hash)" by (cases r)
    have tx: "tx = submit_tx fu fees (fs_nonce s) asset price"
      using Inr r by (auto simp: submit_price_def Let_def split: option.splits sum.splits)
    from assms obtain n submitted where seq: "map fn_Asset (fs_sent s) = concat (replicate n (feed_assets fu)) @ submitted"
      "submitted @ asset # rest = feed_assets fu" by (auto simp: feed_sent_ok_def tick_left_def)
    have fees: "\<exists>rpc :: ('a, 'b, 'c) feed_rpc. tick_fees fu rpc = Inr fees"
      using assms by (auto simp: feed_sent_ok_def phase_fees_def)
    have "map fn_Asset (fs_sent s) @ [asset] = concat (replicate n (feed_assets fu)) @ (submitted @ [asset])"
      "(submitted @ [asset]) @ rest = feed_assets fu" using seq by simp_all
    then have "\<exists>n submitted. map fn_Asset (fs_sent s) @ [asset] = concat (replicate n (feed_assets fu)) @ submitted
      \<and> submitted @ rest = feed_assets fu" by blast
    moreover define sd where "sd = \<lparr>fn_Tx = tx, fn_Asset = asset, fn_Price = price,
      fn_Item = \<lparr>fp_asset = asset_name asset, fp_hash = hash\<rparr>\<rparr>"
    moreover have "feed_submit fu rpc fees asset rest s = s\<lparr>fs_walk := walk, fs_nonce := fs_nonce s + 1,
        fs_sent := fs_sent s @ [sd], fs_main := Recording (fn_Item sd) price fees rest\<rparr>"
      by (simp add: feed_submit_def w Inr r Let_def sd_def)
    moreover have "well_formed_submit fu (fs_nonce s) sd"
      using band fees by (auto simp: well_formed_submit_def sd_def tx)
    ultimately show ?thesis using t fees
      by (auto simp: feed_sent_ok_def phase_fees_def tick_left_def list_all2_append algebra_simps)
  qed
qed

lemma feed_tick_sent_ok:
  assumes "feed_sent_ok fu nonce s" "fs_main s = FeedWaiting" "tick_fees fu (rpc :: ('a, 'b, 'c) feed_rpc) = Inr fees"
  shows "feed_sent_ok fu nonce (s\<lparr>fs_main := Submitting fees (feed_assets fu)\<rparr> :: ('a, 'b, 'c, 'f) feed_state)"
  using assms by (fastforce simp: feed_sent_ok_def phase_fees_def tick_left_def)

lemma feed_record_sent_ok:
  assumes "feed_sent_ok fu nonce s" "fs_main s = Recording item price fees rest"
  shows "feed_sent_ok fu nonce (s\<lparr>fs_meters := m, fs_main := Enqueuing item fees rest\<rparr>)"
  using assms by (simp add: feed_sent_ok_def phase_fees_def tick_left_def)

lemma feed_enqueue_sent_ok:
  assumes "feed_sent_ok fu nonce s" "fs_main s = Enqueuing item fees rest"
  shows "feed_sent_ok fu nonce (s\<lparr>fs_pending := pending, fs_main := Counting fees rest\<rparr>)"
  using assms by (simp add: feed_sent_ok_def phase_fees_def tick_left_def)

lemma feed_count_sent_ok:
  assumes "feed_sent_ok fu nonce s" "fs_main s = Counting fees rest"
  shows "feed_sent_ok fu nonce (s\<lparr>fs_meters := m,
    fs_main := (if rest = [] then FeedWaiting else Submitting fees rest)\<rparr>)"
proof -
  from assms obtain n submitted where seq: "map fn_Asset (fs_sent s) = concat (replicate n (feed_assets fu)) @ submitted"
    "submitted @ rest = feed_assets fu" by (auto simp: feed_sent_ok_def tick_left_def)
  have "\<exists>n submitted. map fn_Asset (fs_sent s) = concat (replicate n (feed_assets fu)) @ submitted
      \<and> tick_left (if rest = [] then FeedWaiting else Submitting fees rest) (feed_assets fu) submitted"
  proof (cases "rest = []")
    case True
    then have "map fn_Asset (fs_sent s) = concat (replicate (Suc n) (feed_assets fu)) @ []"
      using seq by (simp add: replicate_append_same [symmetric])
    then show ?thesis using True unfolding tick_left_def by (intro exI [of _ "Suc n"] exI [of _ "[]"] conjI) simp_all
  next
    case False
    then show ?thesis using seq unfolding tick_left_def by (intro exI conjI) simp_all
  qed
  then show ?thesis using assms by (cases "rest = []") (simp_all add: feed_sent_ok_def phase_fees_def)
qed

text \<open>The queue's part.\<close>

lemma feed_queue_ok_cong:
  assumes "feed_queue_ok s" and "fs_sent t = fs_sent s" "fs_main t = fs_main s" "fs_confirmed t = fs_confirmed s"
    "fs_lost t = fs_lost s" "awaiting t = awaiting s" "fs_pending t = fs_pending s" "fs_held t = fs_held s"
    "fs_tally t = fs_tally s"
    "fs_confirmer t \<longrightarrow> fs_lost s = []" "fs_done s \<longrightarrow> fs_done t" "fs_error t = None \<or> fs_done t"
  shows "feed_queue_ok t"
  using assms by (auto simp: feed_queue_ok_def split: if_splits)

lemma not_queued_short: "not_queued main rest \<Longrightarrow> length rest \<le> 1"
  by (auto simp: not_queued_def split: feed_phase.splits)

lemma feed_stop_queue_ok:
  assumes "feed_queue_ok s" shows "feed_queue_ok (feed_stop r s)"
proof -
  from assms obtain rest where "map fn_Item (fs_sent s) = fs_confirmed s @ fs_lost s @ awaiting s @ rest"
    "not_queued (fs_main s) rest" by (auto simp: feed_queue_ok_def)
  with not_queued_short show ?thesis using assms
    by (auto simp: feed_queue_ok_def feed_stop_def not_queued_def intro!: exI [of _ rest])
qed

lemma feed_fail_queue_ok: "feed_queue_ok s \<Longrightarrow> feed_queue_ok (feed_fail e s)"
  by (simp add: feed_queue_ok_def feed_fail_def)

lemma feed_drain_queue_ok: "feed_queue_ok s \<Longrightarrow> feed_queue_ok (feed_drain s)"
  unfolding feed_drain_def by (intro feed_stop_queue_ok) (simp add: feed_queue_ok_def)

lemma feed_submit_queue_ok:
  assumes "feed_queue_ok s" "fs_main s = Submitting fees (asset # rest)"
  shows "feed_queue_ok (feed_submit fu rpc fees asset rest s)"
proof -
  obtain walk price where w: "walk_next (fu_draw fu) (fs_walk s) (asset_name asset) = (walk, price)" by fastforce
  have t: "feed_queue_ok (s\<lparr>fs_walk := walk\<rparr>)" using assms(1) by (simp add: feed_queue_ok_def)
  have items: "map fn_Item (fs_sent s) = fs_confirmed s @ fs_lost s @ awaiting s"
    using assms by (auto simp: feed_queue_ok_def not_queued_def)
  show ?thesis
  proof (cases "submit_price fu rpc fees (fs_nonce s) asset price")
    case (Inl e)
    then show ?thesis using feed_stop_queue_ok [OF t] by (simp add: feed_submit_def w)
  next
    case (Inr r)
    obtain tx hash where "r = (tx, hash)" by (cases r)
    then show ?thesis using assms(1) items
      by (simp add: feed_submit_def w Inr Let_def feed_queue_ok_def not_queued_def)
  qed
qed

lemma feed_enqueue_queue_ok:
  assumes "feed_queue_ok s" "fs_main s = Enqueuing item fees rest" "length (fs_pending s) < max_in_flight"
  shows "feed_queue_ok (s\<lparr>fs_pending := fs_pending s @ [item], fs_main := Counting fees rest\<rparr>)"
proof -
  have "map fn_Item (fs_sent s) = fs_confirmed s @ fs_lost s @ awaiting s @ [item]"
    using assms(1,2) by (auto simp: feed_queue_ok_def not_queued_def)
  moreover have "awaiting (s\<lparr>fs_pending := fs_pending s @ [item]\<rparr>) = awaiting s @ [item]" by (simp add: awaiting_def)
  ultimately show ?thesis using assms(1,3) by (simp add: feed_queue_ok_def not_queued_def)
qed

lemma feed_record_queue_ok:
  assumes "feed_queue_ok s" "fs_main s = Recording item price fees rest"
  shows "feed_queue_ok (s\<lparr>fs_meters := m, fs_main := Enqueuing item fees rest\<rparr>)"
  using assms by (simp add: feed_queue_ok_def not_queued_def)

lemma feed_count_queue_ok:
  assumes "feed_queue_ok s" "fs_main s = Counting fees rest"
  shows "feed_queue_ok (s\<lparr>fs_meters := m, fs_main := (if rest = [] then FeedWaiting else Submitting fees rest)\<rparr>)"
  using assms by (simp add: feed_queue_ok_def not_queued_def)

lemma feed_take_ok:
  assumes "fs_held s = None" "fs_pending s = item # rest"
  shows "awaiting (s\<lparr>fs_pending := rest, fs_held := Some item\<rparr>) = awaiting s"
  using assms by (simp add: awaiting_def)

lemma feed_confirm_awaiting:
  assumes "fs_held s = Some item" shows "awaiting s = item # awaiting (s\<lparr>fs_held := None\<rparr>)"
  using assms by (simp add: awaiting_def)

lemma feed_confirm_queue_ok:
  assumes "feed_queue_ok s" "fs_held s = Some item" "fs_confirmer s"
  shows "feed_queue_ok (feed_confirm item answer s)"
  using assms feed_confirm_awaiting [OF assms(2)]
  by (auto simp: feed_queue_ok_def feed_confirm_def feed_fail_def Let_def split: sum.split)

text \<open>The meters' part.\<close>

lemma feed_meters_ok_cong:
  assumes "feed_meters_ok s" and "fs_sent t = fs_sent s" "fs_confirmed t = fs_confirmed s" "fs_lost t = fs_lost s"
    "awaiting t = awaiting s" "fs_main t = fs_main s" "fs_tally t = fs_tally s" "mt_submitted (fs_meters t) = mt_submitted (fs_meters s)"
    "mt_confirmed (fs_meters t) = mt_confirmed (fs_meters s)" "mt_inflight (fs_meters t) = mt_inflight (fs_meters s)"
  shows "feed_meters_ok t"
  using assms by (simp add: feed_meters_ok_def unrecorded_def gauge_lag_def)

lemma feed_stop_meters_ok:
  assumes "feed_meters_ok s" "case fs_main s of Recording _ _ _ _ \<Rightarrow> False | Counting _ _ \<Rightarrow> False | _ \<Rightarrow> True"
  shows "feed_meters_ok (feed_stop r s)"
  using assms by (auto simp: feed_meters_ok_def feed_stop_def unrecorded_def gauge_lag_def split: feed_phase.splits)

lemma feed_submit_meters_ok:
  assumes "feed_meters_ok s" "fs_main s = Submitting fees rest0"
  shows "feed_meters_ok (feed_submit fu rpc fees asset rest s)"
  using assms by (auto simp: feed_submit_def feed_meters_ok_def feed_stop_def Let_def unrecorded_def gauge_lag_def
      split: prod.split sum.split)

lemma counter_raised:
  fixes f :: "string \<Rightarrow> nat"
  assumes "\<forall>a. f a + (if k = a then 1 else 0) = g a"
  shows "(f(k := Suc (f k))) a = g a"
  using assms [rule_format, of a] by (cases "k = a") simp_all

lemma feed_record_meters_ok:
  assumes "feed_meters_ok s" "fs_main s = Recording item price fees rest"
  shows "feed_meters_ok (s\<lparr>fs_meters := record_submit (fp_asset item) price (fs_meters s), fs_main := Enqueuing item fees rest\<rparr>)"
proof -
  have "\<forall>a. mt_submitted (fs_meters s) a + (if fp_asset item = a then 1 else 0)
      = length (filter (\<lambda>sd. fp_asset (fn_Item sd) = a) (fs_sent s))"
    using assms by (simp add: feed_meters_ok_def unrecorded_def)
  note counter_raised [OF this]
  with assms show ?thesis
    by (simp add: feed_meters_ok_def record_submit_def unrecorded_def gauge_lag_def del: fun_upd_apply)
qed

lemma feed_enqueue_meters_ok:
  assumes "feed_meters_ok s" "fs_main s = Enqueuing item fees rest"
  shows "feed_meters_ok (s\<lparr>fs_pending := fs_pending s @ [item], fs_main := Counting fees rest\<rparr>)"
  using assms by (simp add: feed_meters_ok_def unrecorded_def gauge_lag_def awaiting_def)

lemma feed_count_meters_ok:
  assumes "feed_meters_ok s" "fs_main s = Counting fees rest"
  shows "feed_meters_ok (s\<lparr>fs_meters := record_enqueued (fs_meters s),
    fs_main := (if rest = [] then FeedWaiting else Submitting fees rest)\<rparr>)"
  using assms by (simp add: feed_meters_ok_def record_enqueued_def unrecorded_def gauge_lag_def)

lemma feed_confirm_meters_ok:
  assumes "feed_meters_ok s" "fs_held s = Some item" "fs_tally s = Tallied"
  shows "feed_meters_ok (feed_confirm item answer s)"
  using assms feed_confirm_awaiting [OF assms(2)]
  by (auto simp: feed_meters_ok_def feed_confirm_def feed_fail_def Let_def unrecorded_def gauge_lag_def split: sum.split)

lemma feed_tally_meters_ok:
  assumes "feed_meters_ok s" "fs_tally s \<noteq> Tallied" "record_confirmed (fs_tally s) (fs_meters s) = (m, due)"
  shows "feed_meters_ok (s\<lparr>fs_meters := m, fs_tally := due\<rparr>)"
proof (cases "fs_tally s")
  case (CountDue k)
  with assms(1) have "\<forall>a. mt_confirmed (fs_meters s) a + (if k = a then 1 else 0)
      = length (filter (\<lambda>i. fp_asset i = a) (fs_confirmed s))" by (simp add: feed_meters_ok_def)
  note counter_raised [OF this]
  moreover have "m = (fs_meters s)\<lparr>mt_confirmed := (mt_confirmed (fs_meters s))(k := Suc (mt_confirmed (fs_meters s) k))\<rparr>"
    "due = GaugeDue" using assms(3) CountDue by simp_all
  ultimately show ?thesis using assms(1) CountDue
    by (simp add: feed_meters_ok_def unrecorded_def gauge_lag_def del: fun_upd_apply)
qed (use assms in \<open>auto simp: feed_meters_ok_def unrecorded_def gauge_lag_def\<close>)

section \<open>The feed keeps order\<close>

definition feed_ok ::
  "('addr, 'chain) feed_setup \<Rightarrow> u64 \<Rightarrow> ('addr, 'chain, 'hash, 'f) feed_state \<Rightarrow> bool" where
  "feed_ok fu nonce s \<longleftrightarrow> feed_sent_ok fu nonce s \<and> feed_queue_ok s \<and> feed_meters_ok s"

lemma feed_ok_kept:
  assumes "feed_ok fu nonce s" and "fs_sent t = fs_sent s" "fs_nonce t = fs_nonce s" "fs_walk t = fs_walk s"
    "fs_main t = fs_main s" "fs_confirmed t = fs_confirmed s" "fs_lost t = fs_lost s" "awaiting t = awaiting s"
    "fs_pending t = fs_pending s" "fs_held t = fs_held s" "fs_tally t = fs_tally s" "fs_confirmer t \<longrightarrow> fs_lost s = []"
    "fs_done s \<longrightarrow> fs_done t" "fs_error t = None \<or> fs_done t"
    "mt_submitted (fs_meters t) = mt_submitted (fs_meters s)" "mt_confirmed (fs_meters t) = mt_confirmed (fs_meters s)"
    "mt_inflight (fs_meters t) = mt_inflight (fs_meters s)"
  shows "feed_ok fu nonce t"
  using assms feed_sent_ok_cong [of fu nonce s t] feed_queue_ok_cong [of s t] feed_meters_ok_cong [of s t]
  unfolding feed_ok_def by blast

lemma feed_ok_queue:
  assumes "feed_ok fu nonce s"
  shows "fs_confirmer s \<Longrightarrow> fs_lost s = []" "fs_error s = None \<or> fs_done s"
  using assms by (auto simp: feed_ok_def feed_queue_ok_def)

lemma feed_stop_ok:
  assumes "feed_ok fu nonce s" "case fs_main s of Recording _ _ _ _ \<Rightarrow> False | Counting _ _ \<Rightarrow> False | _ \<Rightarrow> True"
  shows "feed_ok fu nonce (feed_stop r s)"
  using assms by (simp add: feed_ok_def feed_stop_sent_ok feed_stop_queue_ok feed_stop_meters_ok)

lemma feed_fail_ok: "feed_ok fu nonce s \<Longrightarrow> feed_ok fu nonce (feed_fail e s)"
  using feed_ok_queue [of fu nonce s] by (auto simp: feed_fail_def intro: feed_ok_kept)

lemma feed_drain_ok:
  assumes "feed_ok fu nonce s" "case fs_main s of Recording _ _ _ _ \<Rightarrow> False | Counting _ _ \<Rightarrow> False | _ \<Rightarrow> True"
  shows "feed_ok fu nonce (feed_drain s)"
  unfolding feed_drain_def using assms feed_ok_queue [OF assms(1)]
  by (intro feed_stop_ok) (auto intro: feed_ok_kept)

lemma feed_poller_ok:
  assumes "feed_ok fu nonce s" "mt_submitted m = mt_submitted (fs_meters s)"
    "mt_confirmed m = mt_confirmed (fs_meters s)" "mt_inflight m = mt_inflight (fs_meters s)"
  shows "feed_ok fu nonce (s\<lparr>fs_poller := ph, fs_meters := m\<rparr>)"
  using assms feed_ok_queue [OF assms(1)] by (auto intro: feed_ok_kept)

lemma poll_asset_ok:
  assumes "feed_ok fu nonce s" shows "feed_ok fu nonce (poll_asset fl fu asset rest answer s)"
proof -
  have poller: "feed_ok fu nonce (s\<lparr>fs_poller := ph\<rparr>)" for ph
    using feed_poller_ok [OF assms, of "fs_meters s" ph] by simp
  show ?thesis using poller feed_fail_ok [OF poller] feed_poller_ok [OF assms]
    by (auto simp: poll_asset_def Let_def split: sum.split prod.split)
qed

lemma poll_settlement_gate_kept:
  assumes "poll_settlement_gate fl gate settled m = (m', r)"
  shows "mt_submitted m' = mt_submitted m" "mt_confirmed m' = mt_confirmed m" "mt_inflight m' = mt_inflight m"
  using assms by (auto simp: poll_settlement_gate_def Let_def split: sum.splits if_splits)

lemma poll_gate_ok:
  assumes "feed_ok fu nonce s" shows "feed_ok fu nonce (poll_gate fl gate settled s)"
proof -
  obtain m r where m: "poll_settlement_gate fl gate settled (fs_meters s) = (m, r)" by fastforce
  have swap: "s\<lparr>fs_meters := m, fs_poller := ph\<rparr> = s\<lparr>fs_poller := ph, fs_meters := m\<rparr>" for ph by simp
  have k: "feed_ok fu nonce (s\<lparr>fs_meters := m, fs_poller := ph\<rparr>)" for ph
    unfolding swap by (rule feed_poller_ok [OF assms poll_settlement_gate_kept [OF m]])
  show ?thesis using k feed_fail_ok [OF k]
    by (simp add: poll_gate_def m Let_def split: option.split)
qed

lemma feed_step_ok:
  assumes "feed_ok fu nonce s" and "feed_step fl fu ev s = Some t"
  shows "feed_ok fu nonce t"
proof (cases ev)
  case FeedInterrupt
  then show ?thesis using assms feed_ok_queue [OF assms(1)] by (auto simp: feed_step_def intro: feed_ok_kept)
next
  case FeedNoticeDone
  then show ?thesis using assms(2) feed_drain_ok [OF assms(1)]
    by (auto simp: feed_step_def split: feed_phase.splits if_splits)
next
  case FeedNoticeError
  then show ?thesis using assms(2) feed_drain_ok [OF assms(1)]
    by (auto simp: feed_step_def split: feed_phase.splits if_splits)
next
  case (FeedTick rpc)
  show ?thesis
  proof (cases "tick_fees fu rpc")
    case (Inl e)
    then show ?thesis using FeedTick assms(2) feed_stop_ok [OF assms(1)]
      by (auto simp: feed_step_def split: feed_phase.splits)
  next
    case (Inr fees)
    with FeedTick assms(2) have w: "fs_main s = FeedWaiting" and t: "t = s\<lparr>fs_main := Submitting fees (feed_assets fu)\<rparr>"
      by (auto simp: feed_step_def split: feed_phase.splits)
    have "feed_sent_ok fu nonce t" unfolding t
      by (rule feed_tick_sent_ok [OF _ w Inr]) (use assms(1) in \<open>simp add: feed_ok_def\<close>)
    moreover have "feed_queue_ok t" "feed_meters_ok t"
      using assms(1) w by (auto simp: t feed_ok_def feed_queue_ok_def not_queued_def feed_meters_ok_def unrecorded_def gauge_lag_def)
    ultimately show ?thesis by (simp add: feed_ok_def)
  qed
next
  case (FeedSubmit rpc)
  with assms(2) obtain fees asset rest where "fs_main s = Submitting fees (asset # rest)"
    "t = feed_submit fu rpc fees asset rest s" by (auto simp: feed_step_def split: feed_phase.splits list.splits)
  then show ?thesis using assms(1) by (simp add: feed_ok_def feed_submit_sent_ok feed_submit_queue_ok feed_submit_meters_ok)
next
  case FeedRecord
  with assms(2) obtain item price fees rest where "fs_main s = Recording item price fees rest"
    "t = s\<lparr>fs_meters := record_submit (fp_asset item) price (fs_meters s), fs_main := Enqueuing item fees rest\<rparr>"
    by (auto simp: feed_step_def split: feed_phase.splits)
  then show ?thesis using assms(1)
    by (simp only: feed_ok_def feed_record_sent_ok feed_record_queue_ok feed_record_meters_ok simp_thms)
next
  case FeedEnqueue
  with assms(2) obtain item fees rest where "fs_main s = Enqueuing item fees rest" "length (fs_pending s) < max_in_flight"
    "t = s\<lparr>fs_pending := fs_pending s @ [item], fs_main := Counting fees rest\<rparr>"
    by (auto simp: feed_step_def split: feed_phase.splits if_splits)
  then show ?thesis using assms(1)
    by (simp only: feed_ok_def feed_enqueue_sent_ok feed_enqueue_queue_ok feed_enqueue_meters_ok simp_thms)
next
  case FeedCount
  with assms(2) obtain fees rest where "fs_main s = Counting fees rest"
    "t = s\<lparr>fs_meters := record_enqueued (fs_meters s),
       fs_main := (if rest = [] then FeedWaiting else Submitting fees rest)\<rparr>"
    by (auto simp: feed_step_def split: feed_phase.splits)
  then show ?thesis using assms(1)
    by (simp only: feed_ok_def feed_count_sent_ok feed_count_queue_ok feed_count_meters_ok simp_thms)
next
  case FeedAbandon
  then show ?thesis using assms(2) feed_drain_ok [OF assms(1)]
    by (auto simp: feed_step_def split: feed_phase.splits if_splits)
next
  case FeedTake
  with assms(2) obtain item rest where p: "fs_held s = None" "fs_pending s = item # rest" "fs_confirmer s" "fs_tally s = Tallied"
    and t: "t = s\<lparr>fs_pending := rest, fs_held := Some item\<rparr>"
    by (auto simp: feed_step_def split: list.splits if_splits)
  have a: "awaiting t = awaiting s" unfolding t by (rule feed_take_ok [OF p(1,2)])
  have "feed_sent_ok fu nonce t" "feed_meters_ok t"
    using assms(1) a by (auto simp: t feed_ok_def intro: feed_sent_ok_cong feed_meters_ok_cong)
  moreover have "feed_queue_ok t" using assms(1) a p by (auto simp: t feed_ok_def feed_queue_ok_def)
  ultimately show ?thesis by (simp add: feed_ok_def)
next
  case (FeedConfirm answer)
  with assms(2) obtain item where p: "fs_held s = Some item" "fs_confirmer s" "t = feed_confirm item answer s"
    by (auto simp: feed_step_def split: option.splits if_splits)
  have "feed_sent_ok fu nonce t" unfolding p(3)
    by (rule feed_sent_ok_cong [of fu nonce s])
      (use assms(1) in \<open>auto simp: feed_ok_def feed_confirm_def feed_fail_def Let_def split: sum.split\<close>)
  moreover have "fs_tally s = Tallied" using assms(1) p(1) by (simp add: feed_ok_def feed_queue_ok_def)
  ultimately show ?thesis using assms(1) p by (simp add: feed_ok_def feed_confirm_queue_ok feed_confirm_meters_ok)
next
  case FeedTally
  with assms(2) obtain m due where p: "fs_tally s \<noteq> Tallied" "record_confirmed (fs_tally s) (fs_meters s) = (m, due)"
    "t = s\<lparr>fs_meters := m, fs_tally := due\<rparr>" by (auto simp: feed_step_def split: if_splits prod.splits)
  have "feed_sent_ok fu nonce t" "feed_queue_ok t"
    using assms(1) p(1,3) by (auto simp: feed_ok_def feed_queue_ok_def intro: feed_sent_ok_cong)
  moreover have "feed_meters_ok t" unfolding p(3)
    using assms(1) p(1,2) by (intro feed_tally_meters_ok) (simp_all add: feed_ok_def)
  ultimately show ?thesis by (simp add: feed_ok_def)
next
  case FeedConfirmerStops
  then show ?thesis using assms feed_ok_queue [OF assms(1)]
    by (auto simp: feed_step_def split: if_splits intro: feed_ok_kept)
next
  case PollTick
  then show ?thesis using assms(2) feed_poller_ok [OF assms(1), of "fs_meters s"]
    by (auto simp: feed_step_def split: if_splits)
next
  case (PollAsset answer)
  then show ?thesis using assms(2) poll_asset_ok [OF assms(1)]
    by (auto simp: feed_step_def split: poller_phase.splits list.splits)
next
  case (PollSettlement gate settled)
  then show ?thesis using assms(2) poll_gate_ok [OF assms(1)]
    by (auto simp: feed_step_def split: poller_phase.splits)
next
  case PollStops
  then show ?thesis using assms(2) feed_poller_ok [OF assms(1), of "fs_meters s"]
    by (auto simp: feed_step_def split: if_splits)
qed

lemma feed_run_ok: "feed_run fl fu nonce s \<Longrightarrow> feed_ok fu nonce s"
proof (induction rule: feed_run.induct)
  case start
  show ?case
    by (auto simp: feed_init_def feed_ok_def feed_sent_ok_def feed_queue_ok_def feed_meters_ok_def awaiting_def
        not_queued_def unrecorded_def gauge_lag_def tick_left_def walk_ok_def new_price_walk_def btc_band_def usdc_band_def phase_fees_def
        new_feed_meters_def intro!: exI [of _ "0 :: nat"] exI [of _ "[]"])
next
  case (step s ev t)
  show ?case using step.IH step.hyps(2) by (rule feed_step_ok)
qed

text \<open>C21: however ticks, receipts, polls, errors and interrupts interleave, the feeder submits in order:
  the k-th transaction it sent carries the k-th nonce from its starting nonce, goes to the aggregator
  of its path with the gas limit, fees and calldata of that path, and a price inside the band of its
  asset, hence positive; the assets take turns in their fixed order; at most 257 submissions wait for
  receipts and they are confirmed in order, none skipped; one that is lost ends the run. The exported
  counters are the true numbers of submissions and confirmations, but for the one submission or
  confirmation whose counter is about to be raised; and the in-flight gauge is the number of queued,
  held and lost submissions, one more while a confirmed one has not been taken off it yet, one less
  while a queued one has not been added yet, so that it is never off by more than one.\<close>

theorem feed_orderly:
  assumes "feed_run fl fu nonce (s :: ('addr, 'chain, 'hash, 'f) feed_state)"
  shows "list_all2 (\<lambda>k sd. well_formed_submit fu (nonce + word_of_nat k) sd \<and> 0 < fn_Price sd)
      [0..<length (fs_sent s)] (fs_sent s)
    \<and> (\<exists>n submitted rest. map fn_Asset (fs_sent s) = concat (replicate n (feed_assets fu)) @ submitted
        \<and> submitted @ rest = feed_assets fu)
    \<and> (\<exists>rest. map fn_Item (fs_sent s) = fs_confirmed s @ fs_lost s @ awaiting s @ rest \<and> length rest \<le> 1)
    \<and> length (awaiting s) \<le> max_in_flight + 1 \<and> length (fs_lost s) \<le> 1 \<and> (fs_lost s = [] \<or> fs_done s)
    \<and> (\<forall>a. mt_submitted (fs_meters s) a + unrecorded s a
          = length (filter (\<lambda>sd. fp_asset (fn_Item sd) = a) (fs_sent s)))
    \<and> (\<forall>a. mt_confirmed (fs_meters s) a + tally_due (fs_tally s) a
          = length (filter (\<lambda>i. fp_asset i = a) (fs_confirmed s)))
    \<and> mt_inflight (fs_meters s) = int (length (awaiting s) + length (fs_lost s)) + gauge_lag s
    \<and> \<bar>gauge_lag s\<bar> \<le> 1"
proof -
  from feed_run_ok [OF assms] have ok: "feed_sent_ok fu nonce s" "feed_queue_ok s" "feed_meters_ok s"
    by (simp_all add: feed_ok_def)
  have "list_all2 (\<lambda>k sd. well_formed_submit fu (nonce + word_of_nat k) sd \<and> 0 < fn_Price sd)
      [0..<length (fs_sent s)] (fs_sent s)"
    using ok(1) unfolding feed_sent_ok_def
    by (elim conjE list_all2_mono) (auto simp: well_formed_submit_def dest: price_positive)
  moreover have "\<exists>n submitted rest. map fn_Asset (fs_sent s) = concat (replicate n (feed_assets fu)) @ submitted
        \<and> submitted @ rest = feed_assets fu"
    using ok(1) tick_left_prefix unfolding feed_sent_ok_def by blast
  moreover have "\<exists>rest. map fn_Item (fs_sent s) = fs_confirmed s @ fs_lost s @ awaiting s @ rest \<and> length rest \<le> 1"
    using ok(2) not_queued_short unfolding feed_queue_ok_def by blast
  moreover have "length (awaiting s) \<le> max_in_flight + 1"
    using ok(2) by (auto simp: feed_queue_ok_def awaiting_def split: option.split)
  moreover have "length (fs_lost s) \<le> 1 \<and> (fs_lost s = [] \<or> fs_done s)"
    using ok(2) by (auto simp: feed_queue_ok_def split: if_splits)
  moreover have "\<bar>gauge_lag s\<bar> \<le> 1" by (simp add: gauge_lag_def split: feed_phase.split)
  ultimately show ?thesis using ok(3) unfolding feed_meters_ok_def by blast
qed

section \<open>The settlement gate\<close>

lemma gate_recorded:
  "mt_gate (record_settlement opened reason m) known =
    (if known \<in> set settlement_gate_states then Some (known = (if opened then ''open'' else reason))
     else mt_gate m known)"
  by (auto simp: record_settlement_def settlement_gate_states_def Let_def)

text \<open>At most one state is lit, and one is unless the contract gives a reason the feeder does not know.\<close>

lemma gate_one_hot:
  assumes "mt_gate m = Map.empty"
  shows "{k. mt_gate (record_settlement opened reason m) k = Some True} =
    (if opened \<or> reason \<in> set settlement_gate_states then {if opened then ''open'' else reason} else {})"
proof -
  have "''open'' \<in> set settlement_gate_states" by (simp add: settlement_gate_states_def)
  then show ?thesis using assms by (auto simp: gate_recorded split: if_splits)
qed

section \<open>What a started feed rests on\<close>

lemma feeder_key_address:
  "load_feeder_key to_ecdsa address_of contents expected = Inr (key, a) \<Longrightarrow> a = expected"
  by (auto simp: load_feeder_key_def Let_def split: option.splits if_splits)

lemma feed_starts:
  assumes "feed_start codec w lib draw d settlement = Inr (fu, nonce)"
  shows "(case fu_path fu of
      OracleFeed \<Rightarrow> feed_has_oracle codec d \<and> settlement = None \<and> fu_aggregator fu = fd_AggregatorAddress d
        \<and> fw_nonce w (fd_OracleChainID d) (fd_FeederAddress d) = Inr nonce
    | DirectFeed \<Rightarrow> \<not> feed_has_oracle codec d \<and> fu_aggregator fu = fd_PriceFeedAggregatorAddress d
        \<and> has_code (fw_code w (fd_MainChainID d) (fu_aggregator fu)) = Inr True
        \<and> fw_nonce w (fd_MainChainID d) (fd_FeederAddress d) = Inr nonce)"
proof -
  from assms obtain key feeder where "load_feeder_key (fw_to_ecdsa w) (fw_address_of w) (fw_key_file w)
      (fd_FeederAddress d) = Inr (key, feeder)"
    by (auto simp: feed_start_def split: sum.splits)
  with feeder_key_address [OF this] assms show ?thesis
    by (auto simp: feed_start_def feed_oracle_start_def feed_direct_start_def
        split: if_splits sum.splits option.splits bool.splits)
qed

section \<open>An example\<close>

text \<open>One tick of the oracle path: both assets are submitted, the first is confirmed and the second is
  still held by the main loop.\<close>

definition feed_sample :: "(nat, nat) feed_setup" where
  "feed_sample = \<lparr>fu_path = OracleFeed, fu_chain = 1, fu_aggregator = 5, fu_settlement = None,
     fu_lib = sample_eth, fu_draw = (\<lambda>k n. 0)\<rparr>"

definition feed_sample_rpc :: "nat \<Rightarrow> (nat, nat, nat) feed_rpc" where
  "feed_sample_rpc hash = \<lparr>fr_Tip = Inr 1, fr_GasPrice = Inr 3, fr_Sign = (\<lambda>_. None), fr_Encode = (\<lambda>_. None),
     fr_Send = (\<lambda>_. Inr hash)\<rparr>"

definition feed_sample_floats :: "int price_floats" where
  "feed_sample_floats = \<lparr>pf_scaled = (\<lambda>p. p), pf_minus = (-), pf_whole = (\<lambda>p. p)\<rparr>"

fun feed_steps ::
  "'f price_floats \<Rightarrow> ('addr, 'chain) feed_setup \<Rightarrow> ('addr, 'chain, 'hash) feed_event list
   \<Rightarrow> ('addr, 'chain, 'hash, 'f) feed_state \<Rightarrow> ('addr, 'chain, 'hash, 'f) feed_state option" where
  "feed_steps fl fu [] s = Some s"
| "feed_steps fl fu (ev # evs) s = (case feed_step fl fu ev s of
      None \<Rightarrow> None | Some t \<Rightarrow> feed_steps fl fu evs t)"

lemma feed_steps_run:
  "feed_steps fl fu evs s = Some t \<Longrightarrow> feed_run fl fu nonce s \<Longrightarrow> feed_run fl fu nonce t"
  by (induction evs arbitrary: s) (auto split: option.splits intro: feed_run.step)

definition feed_sample_events :: "(nat, nat, nat) feed_event list" where
  "feed_sample_events = [FeedTick (feed_sample_rpc 0), FeedSubmit (feed_sample_rpc 11), FeedRecord, FeedEnqueue,
     FeedTake, FeedConfirm (Inr \<lparr>rc_Status = 1, rc_BlockNumber = 9\<rparr>), FeedTally, FeedTally, FeedCount,
     FeedSubmit (feed_sample_rpc 12)]"

lemma feed_sample_walk:
  "walk_next (\<lambda>k n. 0) new_price_walk ''BTC-USD'' =
    (\<lparr>pw_draws = 1, pw_btc = 5998000000000, pw_usdc = 100000000\<rparr>, 5998000000000)"
  "walk_next (\<lambda>k n. 0) \<lparr>pw_draws = Suc 0, pw_btc = 5998000000000, pw_usdc = 100000000\<rparr> ''USDC-USD'' =
    (\<lparr>pw_draws = 2, pw_btc = 5998000000000, pw_usdc = 99950000\<rparr>, 99950000)"
  by (simp_all add: walk_next_def new_price_walk_def clamp_step_def btc_base_def btc_step_def btc_band_def
      usdc_base_def usdc_step_def usdc_band_def)

lemma feed_sample_submit:
  "submit_price feed_sample (feed_sample_rpc hash) fees nonce asset price = Inr (submit_tx feed_sample fees nonce asset price, hash)"
  by (simp add: submit_price_def feed_sample_rpc_def)

lemma feed_sample_setup: "feed_assets feed_sample = known_assets sample_eth" "fu_draw feed_sample = (\<lambda>k n. 0)"
  "tick_fees feed_sample (feed_sample_rpc hash) = Inr (LegacyFee 6)"
  by (simp_all add: feed_assets_def feed_sample_def tick_fees_def feed_sample_rpc_def)

lemmas feed_eval = feed_sample_events_def feed_step_def feed_init_def feed_sample_walk feed_sample_submit
  feed_sample_setup known_assets_def feed_submit_def max_in_flight_def feed_confirm_def Let_def
  record_enqueued_def record_submit_def new_feed_meters_def

text \<open>The confirmer can be faster than the gauge: between queueing a submission and counting it the gauge
  reads \<open>-1\<close>, and while a sent submission waits for a place in the queue the gauge does not count it.\<close>

lemma gauge_goes_negative:
  "\<exists>s. feed_steps feed_sample_floats feed_sample (take 8 feed_sample_events) (feed_init feed_sample 7) = Some s
    \<and> mt_inflight (fs_meters s) = -1"
  by (simp add: feed_eval)

lemma gauge_omits_sent:
  "\<exists>s. feed_steps feed_sample_floats feed_sample (take 3 feed_sample_events) (feed_init feed_sample 7) = Some s
    \<and> length (fs_sent s) = 1 \<and> fs_confirmed s = [] \<and> mt_inflight (fs_meters s) = 0"
  by (simp add: feed_eval)

lemma feed_sample_runs:
  "\<exists>s. feed_steps feed_sample_floats feed_sample feed_sample_events (feed_init feed_sample 7) = Some s
    \<and> map fp_hash (fs_confirmed s) = [11] \<and> map (\<lambda>sd. ft_Nonce (fn_Tx sd)) (fs_sent s) = [7, 8]
    \<and> map fn_Price (fs_sent s) = [5998000000000, 99950000]"
  by (simp add: feed_eval, simp add: submit_tx_def feed_sample_def)

theorem feed_orderly_witness:
  "\<exists>s. feed_steps feed_sample_floats feed_sample feed_sample_events (feed_init feed_sample 7) = Some s
    \<and> map fp_hash (fs_confirmed s) = [11] \<and> map (\<lambda>sd. ft_Nonce (fn_Tx sd)) (fs_sent s) = [7, 8]
    \<and> map fn_Price (fs_sent s) = [5998000000000, 99950000] \<and> length (awaiting s) \<le> max_in_flight + 1"
proof -
  from feed_sample_runs obtain s where
    s: "feed_steps feed_sample_floats feed_sample feed_sample_events (feed_init feed_sample 7) = Some s"
    "map fp_hash (fs_confirmed s) = [11]" "map (\<lambda>sd. ft_Nonce (fn_Tx sd)) (fs_sent s) = [7, 8]"
    "map fn_Price (fs_sent s) = [5998000000000, 99950000]" by (elim exE conjE)
  have "length (awaiting s) \<le> max_in_flight + 1"
    by (rule feed_orderly [OF feed_steps_run [OF s(1) feed_run.start], THEN conjunct2, THEN conjunct2,
          THEN conjunct2, THEN conjunct1])
  with s show ?thesis by (intro exI [of _ s] conjI)
qed

end
