(* ===== verification/Bombard.thy ===== *)
theory Bombard
  imports Complex_Main Go_Prelude "HOL-Library.AList"
begin

text \<open>
  The load generator's bookkeeping, \<^verbatim>\<open>cmd/bombard/main.go\<close>: the tracker of in-flight
  transactions, the issuer with its token bucket and in-flight cap, the send workers, the nonce
  monitor and the resubmission loop. They are goroutines over shared state; \<open>bombard_run\<close> is
  their interleavings, a step for every critical section and every separate atomic counter
  update. The maps of the tracker are association lists in the order a \<^verbatim>\<open>range\<close> loop may visit
  them. Signing is deterministic and a parameter; tokens are rational numbers, so the rounding of
  \<^verbatim>\<open>float64\<close> is not modelled; times are nanoseconds.
\<close>

section \<open>The tracker\<close>

record 'tx tx_state =
  ts_signed :: 'tx
  ts_first_send :: int
  ts_last_send :: int
  ts_resubmits :: nat

record ('tx, 'hash) tracker =
  tk_inflight :: "(u64 \<times> 'tx tx_state) list"
  tk_by_hash :: "('hash \<times> u64) list"
  tk_issued :: u64
  tk_mined :: u64
  tk_resent :: u64
  tk_dropped :: u64
  tk_latencies :: "int list"

definition new_tracker :: "('tx, 'hash) tracker" where
  "new_tracker = \<lparr>tk_inflight = [], tk_by_hash = [], tk_issued = 0, tk_mined = 0, tk_resent = 0,
     tk_dropped = 0, tk_latencies = []\<rparr>"

definition register :: "('tx \<Rightarrow> 'hash) \<Rightarrow> u64 \<Rightarrow> 'tx tx_state \<Rightarrow> ('tx, 'hash) tracker \<Rightarrow> ('tx, 'hash) tracker" where
  "register hash nonce st t = t\<lparr>tk_inflight := AList.update nonce st (tk_inflight t),
     tk_by_hash := AList.update (hash (ts_signed st)) nonce (tk_by_hash t)\<rparr>"

text \<open>The critical section of \<^verbatim>\<open>onMined\<close>: \<open>None\<close> is the nil dereference of an entry that is missing
  although its hash is known; the flag says whether the counter is then incremented.\<close>

definition on_mined :: "'hash \<Rightarrow> int \<Rightarrow> ('tx, 'hash) tracker \<Rightarrow> (('tx, 'hash) tracker \<times> bool) option" where
  "on_mined h observed t = (case map_of (tk_by_hash t) h of
      None \<Rightarrow> Some (t, False)
    | Some nonce \<Rightarrow> (case map_of (tk_inflight t) nonce of
        None \<Rightarrow> None
      | Some st \<Rightarrow> Some (t\<lparr>tk_inflight := AList.delete nonce (tk_inflight t),
          tk_by_hash := AList.delete h (tk_by_hash t),
          tk_latencies := tk_latencies t @ [max 0 (observed - ts_first_send st)]\<rparr>, True)))"

definition in_flight :: "('tx, 'hash) tracker \<Rightarrow> u64" where
  "in_flight t = tk_issued t - tk_mined t - tk_dropped t"

definition lowest_inflight_nonce :: "('tx, 'hash) tracker \<Rightarrow> u64 option" where
  "lowest_inflight_nonce t = (if tk_inflight t = [] then None
     else Some (foldl (\<lambda>m n. if n < m then n else m) (2 ^ 64 - 1) (map fst (tk_inflight t))))"

definition drop_inflight :: "('tx, 'hash) tracker \<Rightarrow> ('tx, 'hash) tracker" where
  "drop_inflight t = t\<lparr>tk_inflight := [], tk_by_hash := [],
     tk_dropped := tk_dropped t + word_of_nat (length (tk_inflight t))\<rparr>"

definition due :: "int \<Rightarrow> int \<Rightarrow> 'tx tx_state \<Rightarrow> bool" where
  "due interval now st \<longleftrightarrow> interval \<le> now - ts_last_send st"

definition due_for_resubmit :: "int \<Rightarrow> int \<Rightarrow> ('tx, 'hash) tracker \<Rightarrow> ('tx, 'hash) tracker \<times> 'tx list" where
  "due_for_resubmit interval now t =
    (let out = map (ts_signed \<circ> snd) (filter (\<lambda>(n, st). due interval now st) (tk_inflight t)) in
     (t\<lparr>tk_inflight := map (\<lambda>(n, st). (n, if due interval now st
          then st\<lparr>ts_last_send := now, ts_resubmits := ts_resubmits st + 1\<rparr> else st)) (tk_inflight t),
        tk_resent := tk_resent t + word_of_nat (length out)\<rparr>, out))"

section \<open>Small helpers\<close>

definition inflight_divisor :: int where "inflight_divisor = 2"

text \<open>The in-flight cap of \<^verbatim>\<open>main\<close>, from the flags.\<close>

definition inflight_cap :: "int \<Rightarrow> int \<Rightarrow> int" where
  "inflight_cap rps flag =
    (let cap = rps div inflight_divisor; cap = (if 0 < flag then flag else cap)
     in if cap < 1 then 1 else cap)"

text \<open>The accepted nonce of every node: the largest answer, among the healthy nodes for the monitor
  and among all for the start.\<close>

definition nonce_step :: "u64 \<times> bool \<Rightarrow> u64 option \<Rightarrow> u64 \<times> bool" where
  "nonce_step acc answer = (case answer of
      None \<Rightarrow> acc
    | Some n \<Rightarrow> (if fst acc < n then n else fst acc, True))"

definition max_accepted_nonce :: "(bool \<times> u64 option) list \<Rightarrow> u64 option" where
  "max_accepted_nonce nodes =
    (let (m, got) = foldl nonce_step (0, False) (map snd (filter fst nodes))
     in if got then Some m else None)"

definition start_nonce :: "u64 option list \<Rightarrow> u64 option" where
  "start_nonce answers =
    (let (m, got) = foldl nonce_step (0, False) answers in if got then Some m else None)"

definition pct_dur :: "int list \<Rightarrow> nat \<Rightarrow> int" where
  "pct_dur lats p = (if lats = [] then 0 else lats ! (p * (length lats - 1) div 100))"

definition split_non_empty :: "string \<Rightarrow> string list" where
  "split_non_empty s = fields_acc (\<lambda>c. c \<in> {CHR '','', CHR '' '', CHR 0x09, CHR 0x0A, CHR 0x0D}) [] s"

lemma pct_dur_in_range: "xs \<noteq> [] \<Longrightarrow> p \<le> 100 \<Longrightarrow> p * (length xs - 1) div 100 < length xs"
proof -
  assume "xs \<noteq> []" "p \<le> 100"
  then have "p * (length xs - 1) div 100 \<le> length xs - 1"
    by (metis div_le_mono mult_le_mono1 nonzero_mult_div_cancel_left zero_neq_numeral)
  moreover have "length xs - 1 < length xs" using \<open>xs \<noteq> []\<close> by simp
  ultimately show ?thesis by linarith
qed

section \<open>The goroutines\<close>

record bombard_config =
  bc_rate :: rat
  bc_burst :: rat
  bc_cap :: u64

text \<open>Between two operations the issuer may still owe the counter the nonce it has just handed to the
  workers, or the flag its reset after a resync.\<close>

datatype issuer_phase = Ticking | Owing | Clearing

text \<open>\<open>bs_busy\<close> are nonces a worker has taken and not yet registered, \<open>bs_uncounted\<close> the mined
  transactions whose counter update is outstanding. \<open>bs_leaked\<close> is a ghost: the issued nonces whose
  registration replaced another entry of the same nonce, or failed to sign.\<close>

record ('tx, 'hash) bombard_state =
  bs_tracker :: "('tx, 'hash) tracker"
  bs_queue :: "u64 list"
  bs_busy :: "u64 list"
  bs_next :: u64
  bs_tokens :: rat
  bs_phase :: issuer_phase
  bs_uncounted :: nat
  bs_pending :: bool
  bs_target :: u64
  bs_reading :: "(u64 \<times> u64) option"
  bs_last_mined :: u64
  bs_stalls :: nat
  bs_panicked :: bool
  bs_leaked :: nat

definition bombard_init :: "u64 \<Rightarrow> ('tx, 'hash) bombard_state" where
  "bombard_init nonce = \<lparr>bs_tracker = new_tracker, bs_queue = [], bs_busy = [], bs_next = nonce,
     bs_tokens = 0, bs_phase = Ticking, bs_uncounted = 0, bs_pending = False, bs_target = 0,
     bs_reading = None, bs_last_mined = 0, bs_stalls = 0, bs_panicked = False, bs_leaked = 0\<rparr>"

definition refill :: "bombard_config \<Rightarrow> rat \<Rightarrow> ('tx, 'hash) bombard_state \<Rightarrow> ('tx, 'hash) bombard_state" where
  "refill c elapsed s = (let tokens = bs_tokens s + bc_rate c * elapsed in
     s\<lparr>bs_tokens := (if bc_burst c < tokens then bc_burst c else tokens)\<rparr>)"

definition issuer_tick :: "bombard_config \<Rightarrow> rat \<Rightarrow> ('tx, 'hash) bombard_state \<Rightarrow> ('tx, 'hash) bombard_state" where
  "issuer_tick c elapsed s = (if bs_pending s
     then s\<lparr>bs_tracker := drop_inflight (bs_tracker s), bs_next := bs_target s, bs_tokens := 0,
            bs_phase := Clearing\<rparr>
     else refill c elapsed s)"

definition issue :: "bombard_config \<Rightarrow> ('tx, 'hash) bombard_state \<Rightarrow> ('tx, 'hash) bombard_state option" where
  "issue c s = (if 1 \<le> bs_tokens s \<and> in_flight (bs_tracker s) < bc_cap c
       \<and> length (bs_queue s) < unat (bc_cap c)
     then Some (s\<lparr>bs_queue := bs_queue s @ [bs_next s], bs_phase := Owing\<rparr>) else None)"

definition count_issued :: "('tx, 'hash) bombard_state \<Rightarrow> ('tx, 'hash) bombard_state" where
  "count_issued s = s\<lparr>bs_tracker := (bs_tracker s)\<lparr>tk_issued := tk_issued (bs_tracker s) + 1\<rparr>,
     bs_next := bs_next s + 1, bs_tokens := bs_tokens s - 1, bs_phase := Ticking\<rparr>"

text \<open>A send worker signs the nonce it holds and registers it.\<close>

definition work ::
  "('tx \<Rightarrow> 'hash) \<Rightarrow> (u64 \<Rightarrow> string + 'tx) \<Rightarrow> u64 \<Rightarrow> int \<Rightarrow> ('tx, 'hash) bombard_state
   \<Rightarrow> ('tx, 'hash) bombard_state" where
  "work hash sign nonce now s = (let t = bs_tracker s; rest = s\<lparr>bs_busy := remove1 nonce (bs_busy s)\<rparr> in
     case sign nonce of
       Inl e \<Rightarrow> rest\<lparr>bs_leaked := bs_leaked s + 1\<rparr>
     | Inr tx \<Rightarrow> rest\<lparr>bs_tracker := register hash nonce
           \<lparr>ts_signed = tx, ts_first_send = now, ts_last_send = now, ts_resubmits = 0\<rparr> t,
         bs_leaked := (if map_of (tk_inflight t) nonce = None then bs_leaked s else bs_leaked s + 1)\<rparr>)"

definition request_resync :: "u64 \<Rightarrow> ('tx, 'hash) bombard_state \<Rightarrow> ('tx, 'hash) bombard_state" where
  "request_resync frontier s = s\<lparr>bs_target := frontier, bs_pending := True, bs_stalls := 0\<rparr>"

text \<open>The monitor reads the counters, then asks the nodes for the frontier, and then decides. The reading
  is one step here, four loads in the code between which other goroutines can run; the decision is
  stated below for every reading, so nothing rests on that.\<close>

definition monitor_read :: "('tx, 'hash) bombard_state \<Rightarrow> ('tx, 'hash) bombard_state" where
  "monitor_read s = s\<lparr>bs_reading := Some (tk_mined (bs_tracker s), in_flight (bs_tracker s))\<rparr>"

definition stranded :: "u64 option \<Rightarrow> u64 \<Rightarrow> ('tx, 'hash) tracker \<Rightarrow> bool" where
  "stranded frontier held t = (case (frontier, lowest_inflight_nonce t) of
      (Some f, Some low) \<Rightarrow> 0 < held \<and> f < low | _ \<Rightarrow> False)"

definition monitor_tick :: "u64 option \<Rightarrow> u64 \<Rightarrow> u64 \<Rightarrow> ('tx, 'hash) bombard_state \<Rightarrow> ('tx, 'hash) bombard_state" where
  "monitor_tick frontier mined held s =
    (if stranded frontier held (bs_tracker s)
     then (request_resync (the frontier) s)\<lparr>bs_last_mined := mined, bs_reading := None\<rparr>
     else let stalls = (if mined = bs_last_mined s \<and> 0 < held then bs_stalls s + 1 else 0);
              u = s\<lparr>bs_stalls := stalls, bs_last_mined := mined, bs_reading := None\<rparr> in
          if 3 \<le> stalls \<and> frontier \<noteq> None then request_resync (the frontier) u else u)"

datatype 'hash bombard_event =
    Tick rat
  | Issue
  | CountIssued
  | ClearResync rat
  | TakeNonce
  | Work u64 int
  | Mined 'hash int
  | CountMined
  | Resubmit int int
  | MonitorRead
  | MonitorTick "u64 option"
  | TakeLatencies

definition bombard_step ::
  "('tx \<Rightarrow> 'hash) \<Rightarrow> (u64 \<Rightarrow> string + 'tx) \<Rightarrow> bombard_config \<Rightarrow> 'hash bombard_event
   \<Rightarrow> ('tx, 'hash) bombard_state \<Rightarrow> ('tx, 'hash) bombard_state option" where
  "bombard_step hash sign c ev s = (let t = bs_tracker s in case ev of
      Tick elapsed \<Rightarrow> if bs_phase s = Ticking then Some (issuer_tick c elapsed s) else None
    | Issue \<Rightarrow> if bs_phase s = Ticking then issue c s else None
    | CountIssued \<Rightarrow> if bs_phase s = Owing then Some (count_issued s) else None
    | ClearResync elapsed \<Rightarrow> if bs_phase s = Clearing
        then Some (refill c elapsed (s\<lparr>bs_pending := False, bs_phase := Ticking\<rparr>)) else None
    | TakeNonce \<Rightarrow> (case bs_queue s of
        [] \<Rightarrow> None | n # q \<Rightarrow> Some (s\<lparr>bs_queue := q, bs_busy := bs_busy s @ [n]\<rparr>))
    | Work n now \<Rightarrow> if n \<in> set (bs_busy s) then Some (work hash sign n now s) else None
    | Mined h observed \<Rightarrow> (case on_mined h observed t of
        None \<Rightarrow> Some (s\<lparr>bs_panicked := True\<rparr>)
      | Some (t', counted) \<Rightarrow> Some (s\<lparr>bs_tracker := t',
          bs_uncounted := (if counted then bs_uncounted s + 1 else bs_uncounted s)\<rparr>))
    | CountMined \<Rightarrow> if bs_uncounted s = 0 then None
        else Some (s\<lparr>bs_tracker := t\<lparr>tk_mined := tk_mined t + 1\<rparr>, bs_uncounted := bs_uncounted s - 1\<rparr>)
    | Resubmit interval now \<Rightarrow> Some (s\<lparr>bs_tracker := fst (due_for_resubmit interval now t)\<rparr>)
    | MonitorRead \<Rightarrow> if bs_reading s = None then Some (monitor_read s) else None
    | MonitorTick frontier \<Rightarrow> (case bs_reading s of
        None \<Rightarrow> None | Some (mined, held) \<Rightarrow> Some (monitor_tick frontier mined held s))
    | TakeLatencies \<Rightarrow> Some (s\<lparr>bs_tracker := t\<lparr>tk_latencies := []\<rparr>\<rparr>))"

inductive bombard_run ::
  "('tx \<Rightarrow> 'hash) \<Rightarrow> (u64 \<Rightarrow> string + 'tx) \<Rightarrow> bombard_config \<Rightarrow> u64 \<Rightarrow> ('tx, 'hash) bombard_state \<Rightarrow> bool"
  for hash sign c nonce where
  start: "bombard_run hash sign c nonce (bombard_init nonce)"
| step: "bombard_run hash sign c nonce s \<Longrightarrow> bombard_step hash sign c ev s = Some t \<Longrightarrow>
    bombard_run hash sign c nonce t"


section \<open>Accounting\<close>

text \<open>The nonces the counters stand for: registered, queued, held by a worker, mined but not yet
  counted, or leaked.\<close>

definition held_nonces :: "('tx, 'hash) bombard_state \<Rightarrow> nat" where
  "held_nonces s = length (tk_inflight (bs_tracker s)) + length (bs_queue s) + length (bs_busy s)
     + bs_uncounted s + bs_leaked s"

definition entries_match ::
  "('tx \<Rightarrow> 'hash) \<Rightarrow> (u64 \<Rightarrow> string + 'tx) \<Rightarrow> ('tx, 'hash) tracker \<Rightarrow> bool" where
  "entries_match hash sign t \<longleftrightarrow> distinct (map fst (tk_inflight t)) \<and>
     (\<forall>h n. map_of (tk_by_hash t) h = Some n \<longrightarrow>
        (\<exists>tx st. map_of (tk_inflight t) n = Some st \<and> sign n = Inr tx \<and> hash tx = h))"

definition bombard_ok ::
  "('tx \<Rightarrow> 'hash) \<Rightarrow> (u64 \<Rightarrow> string + 'tx) \<Rightarrow> bombard_config \<Rightarrow> ('tx, 'hash) bombard_state \<Rightarrow> bool" where
  "bombard_ok hash sign c s \<longleftrightarrow> entries_match hash sign (bs_tracker s) \<and> \<not> bs_panicked s
     \<and> in_flight (bs_tracker s) + (if bs_phase s = Owing then 1 else 0) = word_of_nat (held_nonces s)
     \<and> held_nonces s \<le> unat (bc_cap c)"

lemma length_update:
  "length (AList.update k v xs) = (if map_of xs k = None then Suc (length xs) else length xs)"
  by (induction xs) auto

lemma length_delete:
  "distinct (map fst xs) \<Longrightarrow> map_of xs k = Some v \<Longrightarrow> Suc (length (AList.delete k xs)) = length xs"
proof (induction xs)
  case (Cons x xs)
  then show ?case by (cases "fst x = k") auto
qed simp

lemma held_word: "held_nonces s \<le> unat (c :: u64) \<Longrightarrow> unat (word_of_nat (held_nonces s) :: u64) = held_nonces s"
  using unat_u64_less [of c] by (simp add: unsigned_of_nat take_bit_eq_mod)

lemma register_matches:
  assumes "entries_match hash sign t" and "sign nonce = Inr tx" and "ts_signed st = tx"
  shows "entries_match hash sign (register hash nonce st t)"
proof -
  let ?r = "register hash nonce st t"
  have "\<exists>tx st. map_of (tk_inflight ?r) n = Some st \<and> sign n = Inr tx \<and> hash tx = h"
    if "map_of (tk_by_hash ?r) h = Some n" for h n
  proof (cases "n = nonce")
    case True
    show ?thesis
    proof (cases "h = hash tx")
      case h: True
      then show ?thesis using True assms(2) by (simp add: register_def update_conv')
    next
      case False
      then have "map_of (tk_by_hash t) h = Some n"
        using that assms(3) by (simp add: register_def update_conv')
      then show ?thesis using assms(1) True unfolding entries_match_def
        by (auto simp: register_def update_conv')
    qed
  next
    case False
    then have "map_of (tk_by_hash t) h = Some n"
      using that by (simp add: register_def update_conv' split: if_splits)
    then show ?thesis using assms(1) False unfolding entries_match_def
      by (auto simp: register_def update_conv')
  qed
  moreover have "distinct (map fst (tk_inflight ?r))"
    using assms(1) by (simp add: entries_match_def register_def distinct_update)
  ultimately show ?thesis unfolding entries_match_def by blast
qed

lemma work_ok:
  assumes "bombard_ok hash sign c s" and "nonce \<in> set (bs_busy s)"
  shows "bombard_ok hash sign c (work hash sign nonce now s)"
proof -
  have busy: "length (bs_busy s) = Suc (length (remove1 nonce (bs_busy s)))"
    using assms(2) length_pos_if_in_set [OF assms(2)] by (simp add: length_remove1)
  show ?thesis
  proof (cases "sign nonce")
    case (Inl e)
    then show ?thesis using assms(1) busy
      by (simp add: work_def Let_def bombard_ok_def held_nonces_def)
  next
    case (Inr tx)
    let ?st = "\<lparr>ts_signed = tx, ts_first_send = now, ts_last_send = now, ts_resubmits = 0\<rparr>"
    have "entries_match hash sign (register hash nonce ?st (bs_tracker s))"
      using assms(1) Inr by (intro register_matches) (simp_all add: bombard_ok_def)
    moreover have "in_flight (register hash nonce ?st (bs_tracker s)) = in_flight (bs_tracker s)"
      by (simp add: in_flight_def register_def)
    moreover have "held_nonces (work hash sign nonce now s) = held_nonces s"
      using busy Inr by (simp add: work_def Let_def held_nonces_def register_def length_update)
    ultimately show ?thesis using assms(1) Inr by (simp add: work_def Let_def bombard_ok_def)
  qed
qed

lemma on_mined_ok:
  assumes "entries_match hash sign t"
  shows "\<exists>t' counted. on_mined h observed t = Some (t', counted) \<and> entries_match hash sign t'
    \<and> in_flight t' = in_flight t
    \<and> length (tk_inflight t) = length (tk_inflight t') + (if counted then 1 else 0)"
proof (cases "map_of (tk_by_hash t) h")
  case None
  then show ?thesis using assms by (auto simp: on_mined_def intro!: exI [of _ False])
next
  case (Some n)
  then obtain tx st where st: "map_of (tk_inflight t) n = Some st" and tx: "sign n = Inr tx" "hash tx = h"
    using assms unfolding entries_match_def by blast
  let ?t = "t\<lparr>tk_inflight := AList.delete n (tk_inflight t), tk_by_hash := AList.delete h (tk_by_hash t),
    tk_latencies := tk_latencies t @ [max 0 (observed - ts_first_send st)]\<rparr>"
  have "on_mined h observed t = Some (?t, True)" using Some st by (simp add: on_mined_def)
  moreover have "entries_match hash sign ?t"
    using assms tx unfolding entries_match_def
    by (auto simp: delete_conv' distinct_delete split: if_splits) (metis Inr_inject)
  moreover have "in_flight ?t = in_flight t" by (simp add: in_flight_def)
  moreover have "length (tk_inflight t) = length (tk_inflight ?t) + 1"
    using length_delete [OF _ st] assms by (simp add: entries_match_def)
  ultimately show ?thesis by (intro exI [of _ ?t] exI [of _ True]) simp
qed

lemma due_ok:
  "entries_match hash sign t \<Longrightarrow> entries_match hash sign (fst (due_for_resubmit interval now t))"
  "in_flight (fst (due_for_resubmit interval now t)) = in_flight t"
  "length (tk_inflight (fst (due_for_resubmit interval now t))) = length (tk_inflight t)"
proof -
  let ?f = "\<lambda>st. if due interval now st
    then st\<lparr>ts_last_send := now, ts_resubmits := ts_resubmits st + 1\<rparr> else st"
  have map: "map_of (map (\<lambda>(n, st). (n, ?f st)) xs) k = map_option ?f (map_of xs k)" for xs k
    by (induction xs) auto
  show "entries_match hash sign (fst (due_for_resubmit interval now t))"
    if "entries_match hash sign t"
    using that by (fastforce simp: entries_match_def due_for_resubmit_def Let_def map comp_def case_prod_beta
        fst_def [symmetric])
qed (simp_all add: due_for_resubmit_def Let_def in_flight_def)

lemma issue_ok:
  assumes "bombard_ok hash sign c s" and "bs_phase s = Ticking" and "issue c s = Some t"
  shows "bombard_ok hash sign c t"
proof -
  have "held_nonces s < unat (bc_cap c)"
    using assms held_word [of s "bc_cap c"]
    by (auto simp: issue_def bombard_ok_def word_less_nat_alt split: if_splits)
  then show ?thesis using assms
    by (auto simp: issue_def bombard_ok_def held_nonces_def split: if_splits)
qed

lemma drop_ok:
  assumes "bombard_ok hash sign c s" and "bs_phase s = Ticking"
  shows "bombard_ok hash sign c (issuer_tick c elapsed s)"
proof (cases "bs_pending s")
  case True
  let ?n = "length (tk_inflight (bs_tracker s))"
  have "held_nonces s = ?n + held_nonces (issuer_tick c elapsed s)"
    using True by (simp add: issuer_tick_def held_nonces_def drop_inflight_def)
  then show ?thesis using assms True
    by (auto simp: issuer_tick_def bombard_ok_def entries_match_def drop_inflight_def in_flight_def algebra_simps)
next
  case False
  then show ?thesis using assms by (simp add: issuer_tick_def refill_def bombard_ok_def held_nonces_def Let_def)
qed

lemma count_mined_ok:
  assumes "bombard_ok hash sign c s" and "bs_uncounted s = Suc k"
  shows "bombard_ok hash sign c (s\<lparr>bs_tracker := (bs_tracker s)\<lparr>tk_mined := tk_mined (bs_tracker s) + 1\<rparr>,
    bs_uncounted := k\<rparr>)"
  using assms by (auto simp: bombard_ok_def entries_match_def held_nonces_def in_flight_def algebra_simps)

lemma count_issued_ok:
  assumes "bombard_ok hash sign c s" and "bs_phase s = Owing"
  shows "bombard_ok hash sign c (count_issued s)"
  using assms
  by (auto simp: bombard_ok_def entries_match_def held_nonces_def in_flight_def count_issued_def algebra_simps)

lemma monitor_tick_ok:
  assumes "bombard_ok hash sign c s"
  shows "bombard_ok hash sign c (monitor_tick frontier mined held s)"
  using assms by (simp add: monitor_tick_def request_resync_def bombard_ok_def held_nonces_def Let_def)

lemma bombard_step_ok:
  assumes "bombard_ok hash sign c s" and "bombard_step hash sign c ev s = Some t"
  shows "bombard_ok hash sign c t"
proof (cases ev)
  case (Mined h observed)
  have "entries_match hash sign (bs_tracker s)" using assms(1) by (simp add: bombard_ok_def)
  from on_mined_ok [OF this, of h observed] obtain u counted where
    u: "on_mined h observed (bs_tracker s) = Some (u, counted)" "entries_match hash sign u"
    "in_flight u = in_flight (bs_tracker s)"
    "length (tk_inflight (bs_tracker s)) = length (tk_inflight u) + (if counted then 1 else 0)"
    by blast
  then show ?thesis using assms Mined
    by (auto simp: bombard_step_def bombard_ok_def held_nonces_def)
next
  case CountMined
  then show ?thesis using assms count_mined_ok [OF assms(1)]
    by (cases "bs_uncounted s") (auto simp: bombard_step_def Let_def)
next
  case (Work n now)
  then show ?thesis using assms(2) work_ok [OF assms(1)] by (auto simp: bombard_step_def split: if_splits)
next
  case CountIssued
  then show ?thesis using assms(2) count_issued_ok [OF assms(1)]
    by (auto simp: bombard_step_def split: if_splits)
next
  case Issue
  then show ?thesis using assms(2) issue_ok [OF assms(1)] by (auto simp: bombard_step_def split: if_splits)
next
  case (Tick elapsed)
  then show ?thesis using assms(2) drop_ok [OF assms(1)] by (auto simp: bombard_step_def split: if_splits)
next
  case (MonitorTick frontier)
  then show ?thesis using assms(2) monitor_tick_ok [OF assms(1)]
    by (auto simp: bombard_step_def split: option.splits)
next
  case (Resubmit interval now)
  then show ?thesis using assms due_ok(1) [of hash sign "bs_tracker s" interval now] due_ok(2,3) [of interval now "bs_tracker s"]
    by (auto simp: bombard_step_def bombard_ok_def held_nonces_def)
qed (use assms in \<open>auto simp: bombard_step_def bombard_ok_def held_nonces_def monitor_read_def
      count_issued_def refill_def in_flight_def entries_match_def Let_def split: if_splits list.splits\<close>)

lemma bombard_run_ok: "bombard_run hash sign c nonce s \<Longrightarrow> bombard_ok hash sign c s"
proof (induction rule: bombard_run.induct)
  case start
  show ?case
    by (simp add: bombard_init_def bombard_ok_def held_nonces_def entries_match_def new_tracker_def in_flight_def)
next
  case (step s ev t)
  show ?case using step.IH step.hyps(2) by (rule bombard_step_ok)
qed


text \<open>C29: In every interleaving of the issuer, the workers, the watchers, the monitor and the
  resubmission loop, the in-flight counter stands for exactly the nonces that are registered,
  queued, with a worker, mined but not yet counted, or leaked; there are never more of them than
  the in-flight cap, so the counter cannot wrap around when it is read between two operations of
  the issuer; and the watchers never meet a known hash without its entry.\<close>
theorem in_flight_bounded:
  assumes "bombard_run hash sign c nonce s"
  shows "held_nonces s \<le> unat (bc_cap c) \<and> \<not> bs_panicked s
    \<and> unat (in_flight (bs_tracker s) + (if bs_phase s = Owing then 1 else 0)) = held_nonces s"
  using bombard_run_ok [OF assms] held_word [of s "bc_cap c"] by (simp add: bombard_ok_def)

text \<open>C30: A resync is requested only for cause, and it clears the way. The monitor's decision leaves the
  request as it was unless the chain's frontier is below every nonce in flight, at this one check (the
  comment on \<^verbatim>\<open>monitorNonce\<close> speaks of two consecutive checks, but the code asks at the first), or nothing
  was mined over the third reading in a row with nonces still held; and once it has asked, the issuer's next
  tick continues at exactly the frontier the nodes reported, with no registered transaction left
  and no tokens to burst.\<close>
theorem resync_for_cause:
  assumes "\<not> bs_pending s" and "t = monitor_tick frontier mined held s"
  shows "(bs_pending t \<longleftrightarrow> stranded frontier held (bs_tracker s)
      \<or> (frontier \<noteq> None \<and> mined = bs_last_mined s \<and> 0 < held \<and> 2 \<le> bs_stalls s))
    \<and> (bs_pending t \<longrightarrow>
        Some (bs_next (issuer_tick c elapsed t)) = frontier
        \<and> tk_inflight (bs_tracker (issuer_tick c elapsed t)) = []
        \<and> bs_tokens (issuer_tick c elapsed t) = 0
        \<and> held_nonces s = length (tk_inflight (bs_tracker s)) + held_nonces (issuer_tick c elapsed t))"
proof -
  have frontier: "frontier \<noteq> None" if "stranded frontier held (bs_tracker s)"
    using that by (auto simp: stranded_def split: option.splits)
  have pending: "bs_pending t \<longleftrightarrow> stranded frontier held (bs_tracker s)
      \<or> (frontier \<noteq> None \<and> mined = bs_last_mined s \<and> 0 < held \<and> 2 \<le> bs_stalls s)"
    using assms(1) by (auto simp: assms(2) monitor_tick_def request_resync_def Let_def)
  have fields: "bs_tracker t = bs_tracker s" "bs_queue t = bs_queue s" "bs_busy t = bs_busy s"
    "bs_uncounted t = bs_uncounted s" "bs_leaked t = bs_leaked s"
    by (simp_all add: assms(2) monitor_tick_def request_resync_def Let_def)
  have "Some (bs_target t) = frontier" if "bs_pending t"
    using that assms(1) frontier
    by (auto simp: assms(2) monitor_tick_def request_resync_def Let_def split: if_splits)
  then show ?thesis using pending fields
    by (auto simp: issuer_tick_def drop_inflight_def held_nonces_def)
qed

section \<open>A resync can lose part of the cap\<close>

definition sample_config :: bombard_config where
  "sample_config = \<lparr>bc_rate = 1, bc_burst = 2, bc_cap = 2\<rparr>"

text \<open>Nonce 5 is issued and still queued when the monitor resyncs to 5; it is issued a second time, and
  the second registration replaces the first.\<close>

definition leaking_events :: "u64 bombard_event list" where
  "leaking_events = [Tick 2, Issue, CountIssued, MonitorRead, MonitorTick (Some 5), MonitorRead,
     MonitorTick (Some 5), MonitorRead, MonitorTick (Some 5), Tick 0, ClearResync 2, Issue, CountIssued,
     TakeNonce, TakeNonce, Work 5 0, Work 5 0, Mined 5 1, CountMined]"

fun bombard_steps ::
  "('tx \<Rightarrow> 'hash) \<Rightarrow> (u64 \<Rightarrow> string + 'tx) \<Rightarrow> bombard_config \<Rightarrow> 'hash bombard_event list
   \<Rightarrow> ('tx, 'hash) bombard_state \<Rightarrow> ('tx, 'hash) bombard_state option" where
  "bombard_steps hash sign c [] s = Some s"
| "bombard_steps hash sign c (ev # evs) s = (case bombard_step hash sign c ev s of
      None \<Rightarrow> None | Some t \<Rightarrow> bombard_steps hash sign c evs t)"

lemma bombard_steps_run:
  "bombard_steps hash sign c evs s = Some t \<Longrightarrow> bombard_run hash sign c nonce s \<Longrightarrow>
    bombard_run hash sign c nonce t"
  by (induction evs arbitrary: s) (auto split: option.splits intro: bombard_run.step)

definition leaked_state :: "(u64, u64) bombard_state" where
  "leaked_state = (bombard_init 5)\<lparr>bs_tracker := new_tracker\<lparr>tk_issued := 2, tk_mined := 1,
     tk_latencies := [1]\<rparr>, bs_next := 6, bs_tokens := 1, bs_target := 5, bs_leaked := 1\<rparr>"

lemma leaking_run: "bombard_run id Inr sample_config 5 leaked_state"
proof (rule bombard_steps_run [OF _ bombard_run.start])
  show "bombard_steps id Inr sample_config leaking_events (bombard_init 5) = Some leaked_state"
    by (simp add: leaking_events_def bombard_step_def bombard_init_def new_tracker_def issuer_tick_def
        refill_def issue_def count_issued_def work_def register_def on_mined_def monitor_read_def
        monitor_tick_def stranded_def lowest_inflight_nonce_def request_resync_def drop_inflight_def
        in_flight_def sample_config_def leaked_state_def Let_def)
qed

text \<open>Everything issued has been mined and nothing is under way, yet one of the two places of the cap
  stays taken for good.\<close>

lemma resync_leaks_cap:
  "bombard_run id Inr sample_config 5 leaked_state" "in_flight (bs_tracker leaked_state) = 1"
  "tk_inflight (bs_tracker leaked_state) = []" "bs_queue leaked_state = []" "bs_busy leaked_state = []"
  "bs_uncounted leaked_state = 0"
  by (simp_all only: leaking_run) (simp_all add: leaked_state_def bombard_init_def new_tracker_def in_flight_def)

theorem in_flight_bounded_witness: "held_nonces leaked_state \<le> 2 \<and> \<not> bs_panicked leaked_state"
  using in_flight_bounded [OF leaking_run] by (simp add: sample_config_def)

definition stuck_state :: "(u64, u64) bombard_state" where
  "stuck_state = (bombard_init 9)\<lparr>bs_tracker := register id 8
     \<lparr>ts_signed = 8, ts_first_send = 0, ts_last_send = 0, ts_resubmits = 0\<rparr>
     (new_tracker\<lparr>tk_issued := 1\<rparr>)\<rparr>"

theorem resync_for_cause_witness:
  "bs_pending (monitor_tick (Some 6) 0 1 stuck_state)
   \<and> bs_next (issuer_tick sample_config 0 (monitor_tick (Some 6) 0 1 stuck_state)) = 6"
  using resync_for_cause [of stuck_state "monitor_tick (Some 6) 0 1 stuck_state" "Some 6" 0 1 sample_config 0]
  by (simp add: stuck_state_def bombard_init_def register_def new_tracker_def stranded_def
      lowest_inflight_nonce_def)

end
