(* ===== verification/Ingress.thy ===== *)
theory Ingress
  imports Fleet_Inventory
begin

text \<open>
  The load generator's endpoints: discovery and the issuer's key (\<^verbatim>\<open>cmd/bombard/discover.go\<close>),
  the health-checked routing of transactions (\<^verbatim>\<open>sender.go\<close>), the active-site file
  (\<^verbatim>\<open>watchActiveRPCs\<close> of \<^verbatim>\<open>main.go\<close>) and the block watchers (\<^verbatim>\<open>watcher.go\<close>). Answers of the nodes
  are parameters; a block is its number and its transaction hashes.
\<close>

section \<open>Discovery\<close>

definition http_port_step ::
  "(string \<rightharpoonup> nat) \<times> (int \<rightharpoonup> nat) \<Rightarrow> node \<Rightarrow> (string \<rightharpoonup> nat) \<times> (int \<rightharpoonup> nat)" where
  "http_port_step acc n = (case acc of (occurrences, result) \<Rightarrow>
     (occurrences(Host n \<mapsto> read_nat occurrences (Host n) + 1),
      result(Number n \<mapsto> 9650 + 2 * read_nat occurrences (Host n))))"

definition http_ports_by_node :: "node list \<Rightarrow> int \<rightharpoonup> nat" where
  "http_ports_by_node nodes = snd (foldl http_port_step (Map.empty, Map.empty) nodes)"

datatype discover_error =
    NodesUnloaded config_error
  | StateUnread
  | ChainNotCreated string
  | NoRPCNodes string

definition endpoint_url :: "node \<Rightarrow> nat \<Rightarrow> string \<Rightarrow> string" where
  "endpoint_url n port chainID =
     ''http://'' @ Host n @ '':'' @ itoa (int port) @ ''/ext/bc/'' @ chainID @ ''/rpc''"

definition serves_chain :: "string \<Rightarrow> node \<Rightarrow> bool" where
  "serves_chain chain n \<longleftrightarrow> Role n = RoleRPC \<and> effective_chain (Role n) (Chain n) = chain"

definition discover_rpc_endpoints ::
  "config_error + node list \<Rightarrow> (string \<times> string) list option \<Rightarrow> string \<Rightarrow> discover_error + string list" where
  "discover_rpc_endpoints loaded read chain = (case loaded of Inl e \<Rightarrow> Inl (NodesUnloaded e)
    | Inr nodes \<Rightarrow> (case read of None \<Rightarrow> Inl StateUnread
      | Some kvs \<Rightarrow>
        (let chainIDKey = fst (snd (state_chain_keys chain));
             chainID = trim_space (read_str (map_of kvs) chainIDKey) in
         if chainID = [] then Inl (ChainNotCreated chainIDKey)
         else let ports = http_ports_by_node nodes;
                  urls = map (\<lambda>n. endpoint_url n (read_nat ports (Number n)) chainID)
                    (filter (serves_chain chain) nodes) in
              if urls = [] then Inl (NoRPCNodes chain) else Inr urls)))"

datatype issuer_error =
    IssuerKeyUnread
  | IssuerKeyNotHex
  | IssuerKeyRejected
  | IssuerStateUnread
  | NoGenesisAddress
  | IssuerMismatch string string

text \<open>\<^verbatim>\<open>strings.EqualFold\<close> on the ASCII text of an address.\<close>

definition equal_fold :: "string \<Rightarrow> string \<Rightarrow> bool" where
  "equal_fold a b \<longleftrightarrow> map lower_char a = map lower_char b"

definition load_issuer_key ::
  "(nat list \<Rightarrow> 'key option) \<Rightarrow> ('key \<Rightarrow> string) \<Rightarrow> string option \<Rightarrow> (string \<times> string) list option
   \<Rightarrow> issuer_error + 'key \<times> string" where
  "load_issuer_key to_ecdsa address_text contents read = (case contents of None \<Rightarrow> Inl IssuerKeyUnread
    | Some raw \<Rightarrow> (case hex_decode (trim_space raw) of None \<Rightarrow> Inl IssuerKeyNotHex
      | Some b \<Rightarrow>
          if length b \<noteq> 32 then Inl IssuerKeyNotHex
          else (case to_ecdsa b of None \<Rightarrow> Inl IssuerKeyRejected
            | Some key \<Rightarrow> (case read of None \<Rightarrow> Inl IssuerStateUnread
              | Some kvs \<Rightarrow>
                (let expected = trim_space (read_str (map_of kvs) ''GENESIS_EVM_ADDRESS'');
                     address = address_text key in
                 if expected = [] then Inl NoGenesisAddress
                 else if \<not> equal_fold expected address then Inl (IssuerMismatch address expected)
                 else Inr (key, address))))))"

definition http_rpc_to_ws :: "string \<Rightarrow> string" where
  "http_rpc_to_ws rpcURL =
    (let u = (if has_prefix rpcURL ''https://'' then ''wss://'' @ trim_prefix rpcURL ''https://''
              else if has_prefix rpcURL ''http://'' then ''ws://'' @ trim_prefix rpcURL ''http://''
              else rpcURL) in
     if has_suffix u ''/rpc'' then take (length u - 4) u @ ''/ws'' else u)"

section \<open>Routing\<close>


record 'tx node_sender =
  ns_url :: string
  ns_queue :: "'tx list"
  ns_healthy :: bool
  ns_at_tip :: bool
  ns_active :: bool

definition new_sender :: "string \<Rightarrow> 'tx node_sender" where
  "new_sender url = \<lparr>ns_url = url, ns_queue = [], ns_healthy = True, ns_at_tip = True, ns_active = True\<rparr>"

datatype broadcaster_error = NoURL | NoUsableEndpoint nat

text \<open>\<open>usable\<close> is whether the dial accepts the URL.\<close>

definition new_broadcaster :: "(string \<Rightarrow> bool) \<Rightarrow> string list \<Rightarrow> broadcaster_error + 'tx node_sender list" where
  "new_broadcaster usable urls =
    (if urls = [] then Inl NoURL
     else let nodes = map new_sender (filter usable urls) in
       if nodes = [] then Inl (NoUsableEndpoint (length urls)) else Inr nodes)"




text \<open>One round of \<^verbatim>\<open>monitorIngress\<close>; a failed answer reads as height 0.\<close>

definition answered_height :: "u64 option \<Rightarrow> u64" where
  "answered_height h = (case h of None \<Rightarrow> 0 | Some x \<Rightarrow> x)"

definition tip_height :: "u64 option list \<Rightarrow> u64" where
  "tip_height answers = foldl (\<lambda>m h. if m < answered_height h then answered_height h else m) 0 answers"


text \<open>One poll of \<^verbatim>\<open>watchActiveRPCs\<close>: the file's contents, the contents acted on last.\<close>

definition watch_active ::
  "string option \<Rightarrow> string option \<times> 'tx node_sender list \<Rightarrow> string option \<times> 'tx node_sender list" where
  "watch_active file st = (case st of (last_content, nodes) \<Rightarrow>
     (let content = (case file of None \<Rightarrow> [] | Some c \<Rightarrow> trim_space c) in
      if last_content = Some content then st
      else let want = set (go_fields content);
               fail_open = (want \<noteq> {} \<and> \<not> list_ex (\<lambda>n. ns_url n \<in> want) nodes) in
           (Some content, map (\<lambda>n. n\<lparr>ns_active := want = {} \<or> fail_open \<or> ns_url n \<in> want\<rparr>) nodes)))"

section \<open>Watching blocks\<close>

text \<open>One round of a watcher: the last block handled, the answer for the latest block and for each
  earlier one. The result is the new last block and the hashes reported as mined.\<close>

definition watch_round ::
  "(u64 \<Rightarrow> 'hash list option) \<Rightarrow> (u64 \<times> 'hash list) option \<Rightarrow> u64 option \<Rightarrow> u64 option \<times> 'hash list" where
  "watch_round get_block latest last_block = (case latest of
      None \<Rightarrow> (last_block, [])
    | Some (num, txs) \<Rightarrow> (case last_block of
        None \<Rightarrow> (Some num, [])
      | Some l \<Rightarrow>
          if num \<le> l then (Some l, [])
          else (Some num, concat (map (\<lambda>n. if n < unat num
              then (case get_block (word_of_nat n) of None \<Rightarrow> [] | Some b \<Rightarrow> b) else txs)
            [unat l + 1..<unat num + 1]))))"

section \<open>The ports are the fleet's\<close>

lemma http_ports_agree: "http_ports_by_node nodes k = map_option fst (ports_by_node nodes k)"
proof -
  have "fst (foldl http_port_step (Map.empty, Map.empty) nodes)
      = fst (foldl port_step (Map.empty, Map.empty) nodes)
    \<and> (\<forall>k. snd (foldl http_port_step (Map.empty, Map.empty) nodes) k
      = map_option fst (snd (foldl port_step (Map.empty, Map.empty) nodes) k))"
  proof (induction nodes rule: rev_induct)
    case (snoc n nodes)
    then show ?case
      by (auto simp: http_port_step_def port_step_def Let_def split: prod.split)
  qed simp
  then show ?thesis by (simp add: http_ports_by_node_def ports_by_node_def)
qed

text \<open>The discovered endpoints are where the fleet puts the chain's RPC nodes: discovery succeeds
  with exactly one URL per RPC node of the chain, in inventory order, and each has the HTTP port
  that the fleet's own \<open>portsByNode\<close> assigns to the node, although bombard computes the ports
  itself; no validator and no P-chain node is among them, and the chain has been created.\<close>
theorem endpoints_are_rpc_nodes:
  assumes "discover_rpc_endpoints (Inr nodes) (Some kvs) chain = Inr urls"
    and "distinct (map Number nodes)"
  shows "\<exists>chainID. chainID = trim_space (read_str (map_of kvs) (fst (snd (state_chain_keys chain))))
    \<and> chainID \<noteq> [] \<and> urls \<noteq> []
    \<and> list_all2 (\<lambda>n url. Role n = RoleRPC \<and> effective_chain RoleRPC (Chain n) = chain
        \<and> (\<exists>port staking. ports_by_node nodes (Number n) = Some (port, staking)
            \<and> url = endpoint_url n port chainID))
      (filter (serves_chain chain) nodes) urls"
proof -
  let ?id = "trim_space (read_str (map_of kvs) (fst (snd (state_chain_keys chain))))"
  have urls: "urls = map (\<lambda>n. endpoint_url n (read_nat (http_ports_by_node nodes) (Number n)) ?id)
      (filter (serves_chain chain) nodes)" "urls \<noteq> []" "?id \<noteq> []"
    using assms(1) by (auto simp: discover_rpc_endpoints_def Let_def split: if_splits)
  have port: "\<exists>port staking. ports_by_node nodes (Number n) = Some (port, staking)
      \<and> read_nat (http_ports_by_node nodes) (Number n) = port" if n: "n \<in> set nodes" for n
  proof -
    obtain i where "i < length nodes" "n = nodes ! i" using n unfolding in_set_conv_nth by blast
    then have "ports_by_node nodes (Number n) = Some (9650 + 2 * host_rank nodes i, 9651 + 2 * host_rank nodes i)"
      using ports_by_node_nth [OF assms(2)] by simp
    then show ?thesis by (simp add: read_nat_def http_ports_agree)
  qed
  have "list_all2 (\<lambda>n url. Role n = RoleRPC \<and> effective_chain RoleRPC (Chain n) = chain
        \<and> (\<exists>port staking. ports_by_node nodes (Number n) = Some (port, staking)
            \<and> url = endpoint_url n port ?id)) (filter (serves_chain chain) nodes) urls"
    unfolding urls(1) list_all2_map2 list_all2_same
  proof
    fix n assume "n \<in> set (filter (serves_chain chain) nodes)"
    then show "Role n = RoleRPC \<and> effective_chain RoleRPC (Chain n) = chain
        \<and> (\<exists>port staking. ports_by_node nodes (Number n) = Some (port, staking)
            \<and> endpoint_url n (read_nat (http_ports_by_node nodes) (Number n)) ?id = endpoint_url n port ?id)"
      using port [of n] by (auto simp: serves_chain_def)
  qed
  then show ?thesis using urls(2,3) by (intro exI [of _ ?id]) simp
qed

section \<open>Ingress never stops\<close>

lemma tip_height_snoc:
  "tip_height (answers @ [h]) = (if tip_height answers < answered_height h then answered_height h else tip_height answers)"
  by (simp add: tip_height_def)

lemma tip_height_upper: "\<forall>h \<in> set answers. answered_height h \<le> tip_height answers"
proof (induction answers rule: rev_induct)
  case (snoc x xs)
  then show ?case by (fastforce simp: tip_height_snoc)
qed simp







section \<open>A block a watcher cannot fetch is never looked at again\<close>

lemma failed_block_is_skipped:
  "watch_round (\<lambda>n. if n = 6 then None else Some [n]) (Some (8, [8])) (Some 5) = (Some 8, [7, 8])"
  by (simp add: watch_round_def upt_rec)

section \<open>Concrete runs\<close>

definition rpc_nodes :: "node list" where
  "rpc_nodes = [\<lparr>Number = 2, Host = ''10.0.0.2'', Role = RoleValidator, DC = [], Chain = [], Weight = 0\<rparr>,
     \<lparr>Number = 3, Host = ''10.0.0.2'', Role = RoleRPC, DC = [], Chain = [], Weight = 0\<rparr>]"

definition rpc_state :: "(string \<times> string) list" where
  "rpc_state = [(fst (snd (state_chain_keys ''main'')), ''2JeX'')]"

lemma rpc_discovered:
  "discover_rpc_endpoints (Inr rpc_nodes) (Some rpc_state) ''main''
    = Inr [''http://10.0.0.2:9652/ext/bc/2JeX/rpc'']"
  by (simp add: discover_rpc_endpoints_def rpc_state_def rpc_nodes_def http_ports_by_node_def
      http_port_step_def serves_chain_def effective_chain_def endpoint_url_def state_chain_keys_def
      main_chain_def go_eval Let_def)

theorem endpoints_are_rpc_nodes_witness:
  "\<exists>chainID. chainID = trim_space (read_str (map_of rpc_state) (fst (snd (state_chain_keys ''main''))))
    \<and> chainID \<noteq> []"
  using endpoints_are_rpc_nodes [OF rpc_discovered] by (auto simp: rpc_nodes_def)



end
