(* ===== verification/Genesis.thy ===== *)
theory Genesis
  imports Identity Json "HOL-Library.AList"
begin

text \<open>
  The genesis files, \<^verbatim>\<open>internal/creation/genesis.go\<close> and the top of \<^verbatim>\<open>create.go\<close>: filling the funds,
  the contracts, the fee manager's administrator and the time stamp into a template
  (\<open>render_genesis\<close>), the contract accounts of the price feed, which template a chain uses, and
  the check that no two chains share an EVM chain ID. JSON text and Keccak are parameters; an
  address is its 20 bytes, \<open>hex\<close> its checksummed text, and a hash its 32 bytes.
\<close>

type_synonym byte_string = "8 word list"

section \<open>Numbers and hashes as text\<close>

definition hex_char :: "nat \<Rightarrow> char" where
  "hex_char d = (if d < 10 then char_of (48 + d) else char_of (87 + d))"

fun hex_digits :: "nat \<Rightarrow> string" where
  "hex_digits n = (if n < 16 then [hex_char n] else hex_digits (n div 16) @ [hex_char (n mod 16)])"

declare hex_digits.simps [simp del]

definition format_hex :: "int \<Rightarrow> string" where
  "format_hex i = (if i < 0 then ''-'' @ hex_digits (nat (- i)) else hex_digits (nat i))"

definition hex_byte :: "8 word \<Rightarrow> string" where
  "hex_byte b = [hex_char (unat b div 16), hex_char (unat b mod 16)]"

definition hash_hex :: "byte_string \<Rightarrow> string" where
  "hash_hex b = ''0x'' @ concat (map hex_byte b)"

text \<open>\<^verbatim>\<open>common.BytesToHash\<close>: the low 32 bytes, padded on the left.\<close>

definition bytes_to_hash :: "byte_string \<Rightarrow> byte_string" where
  "bytes_to_hash b = replicate (32 - length b) 0 @ drop (length b - 32) b"

definition zero_hash :: byte_string where "zero_hash = replicate 32 0"

definition small_hash :: "8 word \<Rightarrow> byte_string" where "small_hash n = replicate 31 0 @ [n]"

section \<open>The contracts\<close>

record contract_allocation =
  co_Address :: byte_string
  co_RuntimeCode :: string
  co_Storage :: "(byte_string \<times> byte_string) list"

text \<open>The embedded bytecode.\<close>

record contract_code =
  cc_Aggregator :: string
  cc_Receiver :: string
  cc_PriceAggregator :: string
  cc_PriceFeedProxy :: string

definition manager_address :: byte_string where "manager_address = replicate 19 0 @ [1]"
definition aggregator_address :: byte_string where "aggregator_address = replicate 18 0 @ [0xFE, 0xED]"
definition receiver_address :: byte_string where "receiver_address = replicate 17 0 @ [0xFE, 0xED, 0xED]"
definition price_feed_address :: byte_string where
  "price_feed_address = replicate 16 0 @ [0xFE, 0xED, 0xF0, 0x0D]"
definition price_feed_aggregator_address :: byte_string where
  "price_feed_aggregator_address = replicate 16 0 @ [0xFE, 0xED, 0xFA, 0xCE]"

definition price_feed_pair :: string where "price_feed_pair = ''USDC / USD''"

text \<open>\<open>None\<close> is the panic of \<^verbatim>\<open>shortString\<close>.\<close>

definition short_string :: "string \<Rightarrow> byte_string option" where
  "short_string value = (if 31 < length value then None
     else Some (map (\<lambda>c. word_of_nat (of_char c)) value @ replicate (31 - length value) 0
       @ [word_of_nat (length value)]))"

definition phase_aggregators_slot :: "(byte_string \<Rightarrow> byte_string) \<Rightarrow> 8 word \<Rightarrow> byte_string" where
  "phase_aggregators_slot keccak ph = keccak (small_hash ph @ small_hash 4)"

definition oracle_receiver_allocation :: "contract_code \<Rightarrow> byte_string \<Rightarrow> contract_allocation" where
  "oracle_receiver_allocation code oracleChainID = \<lparr>co_Address = receiver_address,
     co_RuntimeCode = cc_Receiver code,
     co_Storage = [(zero_hash, oracleChainID), (small_hash 1, bytes_to_hash aggregator_address)]\<rparr>"

definition direct_feed_allocations ::
  "(byte_string \<Rightarrow> byte_string) \<Rightarrow> contract_code \<Rightarrow> byte_string \<Rightarrow> contract_allocation list" where
  "direct_feed_allocations keccak code feeder =
    [\<lparr>co_Address = price_feed_aggregator_address, co_RuntimeCode = cc_PriceAggregator code,
       co_Storage = [(zero_hash, bytes_to_hash feeder), (small_hash 1, the (short_string price_feed_pair))]\<rparr>,
     \<lparr>co_Address = price_feed_address, co_RuntimeCode = cc_PriceFeedProxy code,
       co_Storage = [(zero_hash, bytes_to_hash feeder),
         (small_hash 1, bytes_to_hash price_feed_aggregator_address), (small_hash 2, small_hash 1),
         (phase_aggregators_slot keccak 1, bytes_to_hash price_feed_aggregator_address)]\<rparr>]"

definition oracle_aggregator_allocation :: "contract_code \<Rightarrow> byte_string \<Rightarrow> contract_allocation" where
  "oracle_aggregator_allocation code feeder = \<lparr>co_Address = aggregator_address,
     co_RuntimeCode = cc_Aggregator code, co_Storage = [(zero_hash, bytes_to_hash feeder)]\<rparr>"

section \<open>The genesis document\<close>

record genesis_allocation =
  ga_Balance :: string
  ga_Code :: string
  ga_Storage :: "(string \<times> string) list"

record genesis_document =
  gd_Config :: "json option"
  gd_Alloc :: "(string \<times> genesis_allocation) list"
  gd_Nonce :: string
  gd_Timestamp :: string
  gd_ExtraData :: string
  gd_GasLimit :: string
  gd_Difficulty :: string
  gd_MixHash :: string
  gd_Coinbase :: string
  gd_Number :: string
  gd_GasUsed :: string
  gd_ParentHash :: string

datatype genesis_error =
    TemplateNotJSON
  | ConfigMissing
  | ConfigNotObject
  | FeeManagerWithoutAdmin
  | AdminWithoutFeeManager
  | FeeManagerNotObject
  | AllocNotEmpty
  | NobodyFunded
  | CodeMissing byte_string
  | AlreadyAllocated byte_string

definition genesis_balance :: string where "genesis_balance = ''0x'' @ replicate 64 (CHR ''F'')"

definition alloc_key :: "(byte_string \<Rightarrow> string) \<Rightarrow> byte_string \<Rightarrow> string" where
  "alloc_key hex address = trim_prefix (hex address) ''0x''"

definition decode_allocation :: "json \<Rightarrow> genesis_allocation option" where
  "decode_allocation j = Option.bind (json_object j) (\<lambda>fs.
     Option.bind (json_string (json_field ''balance'' fs)) (\<lambda>balance.
     Option.bind (json_string (json_field ''code'' fs)) (\<lambda>code.
     Option.bind (decode_pairs json_string (json_field ''storage'' fs)) (\<lambda>storage.
       Some \<lparr>ga_Balance = balance, ga_Code = code, ga_Storage = storage\<rparr>))))"

definition text_fields :: "string list" where
  "text_fields = [''nonce'', ''timestamp'', ''extraData'', ''gasLimit'', ''difficulty'', ''mixHash'',
     ''coinbase'', ''number'', ''gasUsed'', ''parentHash'']"

definition decode_genesis :: "json \<Rightarrow> genesis_document option" where
  "decode_genesis j = Option.bind (json_object j) (\<lambda>fs.
     Option.bind (decode_pairs decode_allocation (json_field ''alloc'' fs)) (\<lambda>alloc.
     Option.bind (all_some (\<lambda>name. json_string (json_field name fs)) text_fields) (\<lambda>ts.
       Some \<lparr>gd_Config = json_raw ''config'' fs, gd_Alloc = alloc,
         gd_Nonce = ts ! 0, gd_Timestamp = ts ! 1, gd_ExtraData = ts ! 2, gd_GasLimit = ts ! 3,
         gd_Difficulty = ts ! 4, gd_MixHash = ts ! 5, gd_Coinbase = ts ! 6, gd_Number = ts ! 7,
         gd_GasUsed = ts ! 8, gd_ParentHash = ts ! 9\<rparr>)))"

subsection \<open>The fee manager\<close>

text \<open>\<^verbatim>\<open>injectFeeManagerAdmin\<close> decodes the configuration into untyped values, which turns every number
  into a \<^verbatim>\<open>float64\<close>: an integer is rounded to 53 significant bits, half to even. Other numbers
  are kept as their text. Encoding a map sorts its keys.\<close>

fun bit_length :: "nat \<Rightarrow> nat" where
  "bit_length n = (if n = 0 then 0 else Suc (bit_length (n div 2)))"

declare bit_length.simps [simp del]

definition float64_int :: "int \<Rightarrow> int" where
  "float64_int i = (let n = nat \<bar>i\<bar> in
     if n < 2 ^ 53 then i
     else let e = bit_length n - 53; q = n div 2 ^ e; r = n mod 2 ^ e; half = 2 ^ (e - 1);
              q' = (if half < r \<or> r = half \<and> odd q then q + 1 else q)
          in sgn i * int (q' * 2 ^ e))"

fun through_any :: "json \<Rightarrow> json" where
  "through_any (JInt i) = JInt (float64_int i)"
| "through_any (JArray xs) = JArray (map through_any xs)"
| "through_any (JObject fs) = JObject (sort_key fst (map (\<lambda>(k, v). (k, through_any v)) fs))"
| "through_any j = j"

definition inject_fee_manager_admin ::
  "(byte_string \<Rightarrow> string) \<Rightarrow> json \<Rightarrow> byte_string option \<Rightarrow> genesis_error + json" where
  "inject_fee_manager_admin hex config admin = (case json_object config of
      None \<Rightarrow> Inl ConfigNotObject
    | Some parsed \<Rightarrow> (case admin of
        None \<Rightarrow> if map_of parsed ''feeManagerConfig'' \<noteq> None then Inl FeeManagerWithoutAdmin else Inr config
      | Some a \<Rightarrow> (case map_of parsed ''feeManagerConfig'' of
          None \<Rightarrow> Inl AdminWithoutFeeManager
        | Some (JObject fees) \<Rightarrow> Inr (through_any (JObject (AList.update ''feeManagerConfig''
            (JObject (AList.update ''adminAddresses'' (JArray [JString (hex a)]) fees)) parsed)))
        | Some _ \<Rightarrow> Inl FeeManagerNotObject)))"

subsection \<open>Rendering\<close>

definition fund_step ::
  "(byte_string \<Rightarrow> string) \<Rightarrow> (string \<times> genesis_allocation) list \<Rightarrow> byte_string
   \<Rightarrow> (string \<times> genesis_allocation) list" where
  "fund_step hex alloc address = AList.update (alloc_key hex address)
     \<lparr>ga_Balance = genesis_balance, ga_Code = [], ga_Storage = []\<rparr> alloc"

text \<open>A Go map from the pairs written: a later pair replaces an earlier one with its key.\<close>

definition go_map :: "('k \<times> 'v) list \<Rightarrow> ('k \<times> 'v) list" where
  "go_map kvs = foldl (\<lambda>m (k, v). AList.update k v m) [] kvs"

definition storage_text :: "(byte_string \<times> byte_string) list \<Rightarrow> (string \<times> string) list" where
  "storage_text storage = map (\<lambda>(slot, v). (hash_hex slot, hash_hex v)) (go_map storage)"

definition contract_entry :: "contract_allocation \<Rightarrow> genesis_allocation" where
  "contract_entry c = \<lparr>ga_Balance = ''0x0'', ga_Code = co_RuntimeCode c,
     ga_Storage = storage_text (co_Storage c)\<rparr>"

definition contract_step ::
  "(byte_string \<Rightarrow> string) \<Rightarrow> (string \<times> genesis_allocation) list \<Rightarrow> contract_allocation
   \<Rightarrow> genesis_error + (string \<times> genesis_allocation) list" where
  "contract_step hex alloc c =
    (if \<not> has_prefix (co_RuntimeCode c) ''0x'' \<or> length (co_RuntimeCode c) \<le> 2 then Inl (CodeMissing (co_Address c))
     else if map_of alloc (alloc_key hex (co_Address c)) \<noteq> None then Inl (AlreadyAllocated (co_Address c))
     else Inr (AList.update (alloc_key hex (co_Address c)) (contract_entry c) alloc))"

definition render_genesis ::
  "json_text \<Rightarrow> (byte_string \<Rightarrow> string) \<Rightarrow> string \<Rightarrow> byte_string list \<Rightarrow> contract_allocation list
   \<Rightarrow> byte_string option \<Rightarrow> int \<Rightarrow> genesis_error + genesis_document" where
  "render_genesis js hex template funded contracts admin createdAt =
    (case Option.bind (js_parse js template) decode_genesis of
       None \<Rightarrow> Inl TemplateNotJSON
     | Some document \<Rightarrow> (case gd_Config document of
         None \<Rightarrow> Inl ConfigMissing
       | Some raw \<Rightarrow>
           rbind (inject_fee_manager_admin hex raw admin) (\<lambda>config.
             if gd_Alloc document \<noteq> [] then Inl AllocNotEmpty
             else if funded = [] then Inl NobodyFunded
             else rbind (each (contract_step hex) (foldl (fund_step hex) [] funded) contracts)
               (\<lambda>alloc. Inr (document\<lparr>gd_Config := Some config, gd_Alloc := alloc,
                  gd_Timestamp := ''0x'' @ format_hex createdAt\<rparr>)))))"

section \<open>Templates\<close>

definition regular_file :: "file_system \<Rightarrow> path \<Rightarrow> bool" where
  "regular_file fs p = (case fs p of Some (File _) \<Rightarrow> True | _ \<Rightarrow> False)"

definition chain_template_path :: "file_system \<Rightarrow> string \<Rightarrow> path" where
  "chain_template_path fs chain =
    (if regular_file fs [''chains'', chain, ''genesis-template.json''] then [''chains'', chain, ''genesis-template.json'']
     else if chain = oracle_chain \<and> regular_file fs [''oracle-genesis-template.json'']
       then [''oracle-genesis-template.json'']
     else if regular_file fs [''chains'', ''default'', ''genesis-template.json'']
       then [''chains'', ''default'', ''genesis-template.json'']
     else [''genesis-template.json''])"

definition genesis_file_name :: "string \<Rightarrow> string" where
  "genesis_file_name chain = (if chain = main_chain then ''genesis.json'' else ''genesis-'' @ chain @ ''.json'')"

datatype template_error =
    TemplateUnreadable path
  | TemplateUnparsed path
  | ChainIDMissing path
  | SharedChainID string string string

definition read_template :: "file_system \<Rightarrow> path \<Rightarrow> template_error + string" where
  "read_template fs p = (case fs p of Some (File contents) \<Rightarrow> Inr contents | _ \<Rightarrow> Inl (TemplateUnreadable p))"

text \<open>The literals that \<^verbatim>\<open>json.Number\<close> accepts in a string.\<close>

definition digits_then :: "string \<Rightarrow> string" where "digits_then s = dropWhile is_digit s"

definition number_exponent :: "string \<Rightarrow> bool" where
  "number_exponent s = (case s of [] \<Rightarrow> True
    | c # t \<Rightarrow> c \<in> {CHR ''e'', CHR ''E''} \<and>
        (let u = (case t of d # v \<Rightarrow> if d \<in> {CHR ''+'', CHR ''-''} then v else t | [] \<Rightarrow> t)
         in u \<noteq> [] \<and> list_all is_digit u))"

definition number_fraction :: "string \<Rightarrow> bool" where
  "number_fraction s = (case s of CHR ''.'' # t \<Rightarrow> t \<noteq> [] \<and> is_digit (hd t) \<and> number_exponent (digits_then t)
    | _ \<Rightarrow> number_exponent s)"

definition number_literal :: "string \<Rightarrow> bool" where
  "number_literal s = (let t = trim_prefix s ''-'' in t \<noteq> [] \<and>
     (if hd t = CHR ''0'' then number_fraction (tl t)
      else is_digit (hd t) \<and> number_fraction (digits_then t)))"

fun json_number :: "json \<Rightarrow> string option" where
  "json_number JNull = Some []"
| "json_number (JInt i) = Some (itoa i)"
| "json_number (JFrac s) = Some s"
| "json_number (JString s) = (if number_literal s then Some s else None)"
| "json_number _ = None"

definition template_chain_id :: "json \<Rightarrow> string option" where
  "template_chain_id j = Option.bind (json_object j) (\<lambda>fs.
     Option.bind (json_object (json_field ''config'' fs)) (\<lambda>cfg. json_number (json_field ''chainId'' cfg)))"

definition chain_id_step ::
  "json_text \<Rightarrow> file_system \<Rightarrow> (string \<times> string) list \<Rightarrow> string \<Rightarrow> template_error + (string \<times> string) list" where
  "chain_id_step js fs owner chain = (let p = chain_template_path fs chain in
     rbind (read_template fs p) (\<lambda>contents.
     case Option.bind (js_parse js contents) template_chain_id of
       None \<Rightarrow> Inl (TemplateUnparsed p)
     | Some chainID \<Rightarrow>
         if chainID = [] then Inl (ChainIDMissing p)
         else (case map_of owner chainID of
             Some previous \<Rightarrow> Inl (SharedChainID previous chain chainID)
           | None \<Rightarrow> Inr ((chainID, chain) # owner))))"

definition validate_distinct_chain_ids ::
  "json_text \<Rightarrow> file_system \<Rightarrow> string list \<Rightarrow> template_error + unit" where
  "validate_distinct_chain_ids js fs names = rbind (each (chain_id_step js fs) [] names) (\<lambda>_. Inr ())"

section \<open>Distinct chain IDs\<close>

definition template_id :: "json_text \<Rightarrow> file_system \<Rightarrow> string \<Rightarrow> string option" where
  "template_id js fs chain = (case fs (chain_template_path fs chain) of
     Some (File contents) \<Rightarrow> Option.bind (js_parse js contents) template_chain_id | _ \<Rightarrow> None)"

lemma chain_id_step_Inr:
  "chain_id_step js fs owner chain = Inr owner' \<longleftrightarrow>
   (\<exists>i. template_id js fs chain = Some i \<and> i \<noteq> [] \<and> i \<notin> fst ` set owner \<and> owner' = (i, chain) # owner)"
proof (cases "\<exists>contents. fs (chain_template_path fs chain) = Some (File contents)")
  case True
  then obtain contents where "fs (chain_template_path fs chain) = Some (File contents)" by blast
  then show ?thesis
    by (cases "template_id js fs chain"; cases "map_of owner (the (template_id js fs chain))")
      (auto simp: chain_id_step_def template_id_def read_template_def Let_def map_of_eq_None_iff
        rev_image_eqI dest: map_of_SomeD split: option.splits)
next
  case False
  then show ?thesis
    by (auto simp: chain_id_step_def template_id_def read_template_def Let_def simp del: rbind_eq_Inr
        split: option.splits entry.splits)
qed

lemma distinct_chain_ids:
  assumes "validate_distinct_chain_ids js fs names = Inr u"
  shows "distinct (map (template_id js fs) names)" and "None \<notin> template_id js fs ` set names"
    and "Some [] \<notin> template_id js fs ` set names"
proof -
  have steps: "distinct (map (template_id js fs) cs) \<and> None \<notin> template_id js fs ` set cs
      \<and> Some [] \<notin> template_id js fs ` set cs \<and> Some ` fst ` set owner \<inter> template_id js fs ` set cs = {}"
    if "each (chain_id_step js fs) owner cs = Inr owner'" for owner cs owner'
    using that
  proof (induction cs arbitrary: owner)
    case (Cons c cs)
    then obtain i where "template_id js fs c = Some i" "i \<noteq> []" "i \<notin> fst ` set owner"
      "each (chain_id_step js fs) ((i, c) # owner) cs = Inr owner'"
      by (auto simp: chain_id_step_Inr)
    with Cons.IH [of "(i, c) # owner"] show ?case by (auto simp: image_iff)
  qed simp
  from assms steps [of "[]" names] show "distinct (map (template_id js fs) names)"
    and "None \<notin> template_id js fs ` set names" "Some [] \<notin> template_id js fs ` set names"
    by (auto simp: validate_distinct_chain_ids_def)
qed

section \<open>What a rendered genesis holds\<close>

lemma map_of_filter_key: "map_of xs k = (case filter (\<lambda>p. fst p = k) xs of [] \<Rightarrow> None | p # _ \<Rightarrow> Some (snd p))"
  by (induction xs) auto

lemma map_of_sort_key: "map_of (sort_key fst xs) k = map_of xs k"
  by (simp add: map_of_filter_key [of "sort_key fst xs"] map_of_filter_key [of xs] sort_key_stable)

lemma map_of_map_snd: "map_of (map (\<lambda>(k, v). (k, f v)) xs) k = map_option f (map_of xs k)"
  by (induction xs) auto

definition funds :: genesis_allocation where
  "funds = \<lparr>ga_Balance = genesis_balance, ga_Code = [], ga_Storage = []\<rparr>"

lemma map_of_funded:
  "map_of (foldl (fund_step hex) alloc funded) k =
   (if k \<in> alloc_key hex ` set funded then Some funds else map_of alloc k)"
  by (induction funded arbitrary: alloc) (auto simp: fund_step_def funds_def update_conv')

definition allocated_at :: "(byte_string \<Rightarrow> string) \<Rightarrow> contract_allocation list \<Rightarrow> string \<Rightarrow> genesis_allocation option" where
  "allocated_at hex contracts k =
    map_option contract_entry (find (\<lambda>c. alloc_key hex (co_Address c) = k) contracts)"

lemma contract_step_Inr:
  "contract_step hex alloc c = Inr alloc' \<longleftrightarrow> has_prefix (co_RuntimeCode c) ''0x''
    \<and> 2 < length (co_RuntimeCode c) \<and> map_of alloc (alloc_key hex (co_Address c)) = None
    \<and> alloc' = AList.update (alloc_key hex (co_Address c)) (contract_entry c) alloc"
  by (auto simp: contract_step_def)

lemma map_of_contracts:
  assumes "each (contract_step hex) alloc contracts = Inr alloc'"
  shows "distinct (map (alloc_key hex \<circ> co_Address) contracts)
    \<and> (\<forall>c \<in> set contracts. map_of alloc (alloc_key hex (co_Address c)) = None
         \<and> has_prefix (co_RuntimeCode c) ''0x'' \<and> 2 < length (co_RuntimeCode c))
    \<and> map_of alloc' k = (case allocated_at hex contracts k of Some a \<Rightarrow> Some a | None \<Rightarrow> map_of alloc k)"
  using assms
proof (induction contracts arbitrary: alloc)
  case (Cons c cs)
  let ?k = "alloc_key hex (co_Address c)"
  from Cons.prems have ok: "has_prefix (co_RuntimeCode c) ''0x''" "2 < length (co_RuntimeCode c)"
      "map_of alloc ?k = None"
    and rest: "each (contract_step hex) (AList.update ?k (contract_entry c) alloc) cs = Inr alloc'"
    by (auto simp: contract_step_Inr)
  note IH = Cons.IH [OF rest]
  have fresh: "?k \<noteq> alloc_key hex (co_Address d)" if "d \<in> set cs" for d
    using IH that by (auto simp: update_conv')
  have none: "find (\<lambda>d. alloc_key hex (co_Address d) = ?k) cs = None"
    unfolding find_None_iff using fresh by metis
  have unallocated: "map_of alloc (alloc_key hex (co_Address d)) = None" if "d \<in> set cs" for d
    using IH fresh [OF that] that by (auto simp: update_conv' split: if_splits)
  show ?case using IH ok fresh none unallocated
    by (auto simp: update_conv' allocated_at_def split: option.split)
qed (simp add: allocated_at_def)

definition fee_key :: string where "fee_key = ''feeManagerConfig''"

definition admin_key :: string where "admin_key = ''adminAddresses''"

definition same_but :: "string \<Rightarrow> (string \<times> json) list \<Rightarrow> (string \<times> json) list \<Rightarrow> bool" where
  "same_but k before after \<longleftrightarrow> (\<forall>k'. k' \<noteq> k \<longrightarrow> map_of after k' = map_option through_any (map_of before k'))"

lemma small_number_kept:
  assumes "same_but k before after" "k' \<noteq> k" "\<bar>i\<bar> < 2 ^ 53" "map_of before k' = Some (JInt i)"
  shows "map_of after k' = Some (JInt i)"
proof -
  have "nat \<bar>i\<bar> < 2 ^ 53" using assms(3) by (simp add: nat_less_iff)
  then have "float64_int i = i" by (simp add: float64_int_def Let_def)
  with assms(1,2,4) show ?thesis by (simp add: same_but_def)
qed

lemma map_of_any: "map_of (sort_key fst (map (\<lambda>(k, v). (k, through_any v)) fs)) k = map_option through_any (map_of fs k)"
  by (simp add: map_of_sort_key map_of_map_snd)

lemma inject_admin:
  assumes "inject_fee_manager_admin hex config (Some a) = Inr config'"
  shows "\<exists>before fees after fees'. config = JObject before \<and> map_of before fee_key = Some (JObject fees)
    \<and> config' = JObject after \<and> map_of after fee_key = Some (JObject fees')
    \<and> map_of fees' admin_key = Some (JArray [JString (hex a)])
    \<and> same_but fee_key before after \<and> same_but admin_key fees fees'"
proof -
  from assms obtain before fees where b: "config = JObject before" "map_of before fee_key = Some (JObject fees)"
    "config' = through_any (JObject (AList.update fee_key
       (JObject (AList.update admin_key (JArray [JString (hex a)]) fees)) before))"
    by (cases config) (auto simp: inject_fee_manager_admin_def fee_key_def admin_key_def
        split: option.splits json.splits)
  then show ?thesis
    by (auto simp: same_but_def map_of_any update_conv' simp del: sort_key_simps)
qed

lemma inject_none: "inject_fee_manager_admin hex config None = Inr config' \<Longrightarrow>
    config' = config \<and> (\<forall>fs. config = JObject fs \<longrightarrow> map_of fs fee_key = None)"
  by (auto simp: inject_fee_manager_admin_def fee_key_def split: option.splits if_splits)

text \<open>C35: A rendered genesis allocates exactly what it was asked to. Every funded address holds the
  whole balance and no code; every contract stands at its own address with its bytecode and its
  storage, no contract shares an address with another or with a funded address, and nothing else is
  allocated; the document is otherwise the template's, stamped with the creation time. Without an
  administrator the chain configuration is the template's and declares no fee manager; with one it
  declares the fee manager with exactly that administrator, and every other entry, of the configuration
  and of the fee manager, is the template's after a passage through untyped JSON, which rounds every
  number to a 64-bit float: an integer below \<open>2 ^ 53\<close> is kept, a larger one may be changed.\<close>
theorem genesis_exact:
  assumes "render_genesis js hex template funded contracts admin createdAt = Inr doc"
  shows "\<exists>base config config'. Option.bind (js_parse js template) decode_genesis = Some base
    \<and> gd_Alloc base = [] \<and> gd_Config base = Some config
    \<and> doc = base\<lparr>gd_Config := Some config', gd_Alloc := gd_Alloc doc,
        gd_Timestamp := ''0x'' @ format_hex createdAt\<rparr>
    \<and> (\<forall>k. map_of (gd_Alloc doc) k = (case allocated_at hex contracts k of Some a \<Rightarrow> Some a
        | None \<Rightarrow> if k \<in> alloc_key hex ` set funded then Some funds else None))
    \<and> distinct (map (alloc_key hex \<circ> co_Address) contracts)
    \<and> list_all (\<lambda>c. alloc_key hex (co_Address c) \<notin> alloc_key hex ` set funded
        \<and> has_prefix (co_RuntimeCode c) ''0x'' \<and> 2 < length (co_RuntimeCode c)) contracts
    \<and> (case admin of
        None \<Rightarrow> config' = config \<and> (\<forall>fs. config = JObject fs \<longrightarrow> map_of fs fee_key = None)
      | Some a \<Rightarrow> \<exists>before fees after fees'. config = JObject before \<and> map_of before fee_key = Some (JObject fees)
          \<and> config' = JObject after \<and> map_of after fee_key = Some (JObject fees')
          \<and> map_of fees' admin_key = Some (JArray [JString (hex a)])
          \<and> same_but fee_key before after \<and> same_but admin_key fees fees'
          \<and> (\<forall>k i. k \<noteq> fee_key \<and> \<bar>i\<bar> < 2 ^ 53 \<and> map_of before k = Some (JInt i) \<longrightarrow> map_of after k = Some (JInt i)))"
proof -
  from assms obtain base config config' alloc where
    base: "Option.bind (js_parse js template) decode_genesis = Some base" "gd_Alloc base = []"
      "gd_Config base = Some config"
    and config: "inject_fee_manager_admin hex config admin = Inr config'"
    and alloc: "each (contract_step hex) (foldl (fund_step hex) [] funded) contracts = Inr alloc"
    and doc: "doc = base\<lparr>gd_Config := Some config', gd_Alloc := alloc,
        gd_Timestamp := ''0x'' @ format_hex createdAt\<rparr>"
    by (auto simp: render_genesis_def split: option.splits if_splits)
  note entries = map_of_contracts [OF alloc]
  have "case admin of
        None \<Rightarrow> config' = config \<and> (\<forall>fs. config = JObject fs \<longrightarrow> map_of fs fee_key = None)
      | Some a \<Rightarrow> \<exists>before fees after fees'. config = JObject before \<and> map_of before fee_key = Some (JObject fees)
          \<and> config' = JObject after \<and> map_of after fee_key = Some (JObject fees')
          \<and> map_of fees' admin_key = Some (JArray [JString (hex a)])
          \<and> same_but fee_key before after \<and> same_but admin_key fees fees'
          \<and> (\<forall>k i. k \<noteq> fee_key \<and> \<bar>i\<bar> < 2 ^ 53 \<and> map_of before k = Some (JInt i) \<longrightarrow> map_of after k = Some (JInt i))"
  proof (cases admin)
    case None
    then show ?thesis using inject_none [of hex config config'] config by simp
  next
    case (Some a)
    then obtain before fees after fees' where a: "config = JObject before" "map_of before fee_key = Some (JObject fees)"
      "config' = JObject after" "map_of after fee_key = Some (JObject fees')"
      "map_of fees' admin_key = Some (JArray [JString (hex a)])" "same_but fee_key before after" "same_but admin_key fees fees'"
      using inject_admin [of hex config a config'] config by blast
    then show ?thesis using Some small_number_kept [OF a(6)] by simp
  qed
  moreover have "list_all (\<lambda>c. alloc_key hex (co_Address c) \<notin> alloc_key hex ` set funded
        \<and> has_prefix (co_RuntimeCode c) ''0x'' \<and> 2 < length (co_RuntimeCode c)) contracts"
    using entries by (fastforce simp: list_all_iff map_of_funded split: if_splits)
  moreover have "map_of alloc k = (case allocated_at hex contracts k of Some a \<Rightarrow> Some a
        | None \<Rightarrow> if k \<in> alloc_key hex ` set funded then Some funds else None)" for k
    using entries [of k] by (simp add: map_of_funded split: option.split)
  moreover have "distinct (map (alloc_key hex \<circ> co_Address) contracts)" using entries by blast
  moreover have "gd_Alloc doc = alloc" using doc by simp
  ultimately show ?thesis using base doc
    by - (rule exI [of _ base], rule exI [of _ config], rule exI [of _ config'], simp)
qed

section \<open>What rendering does to large numbers\<close>

lemma admin_rounds_numbers:
  "through_any (JObject [(''chainId'', JInt 9007199254740993)]) = JObject [(''chainId'', JInt 9007199254740992)]"
  by (simp add: float64_int_def bit_length.simps Let_def)

section \<open>The contracts of the feed\<close>

lemma length_hashes [simp]:
  "length (bytes_to_hash b) = 32" "length (small_hash n) = 32" "length zero_hash = 32"
  by (simp_all add: bytes_to_hash_def small_hash_def zero_hash_def)

lemma short_string_pair: "short_string price_feed_pair = Some (the (short_string price_feed_pair))"
  "length (the (short_string price_feed_pair)) = 32"
  by (simp_all add: short_string_def price_feed_pair_def)

lemma snd_go_map: "v \<in> snd ` set (go_map kvs) \<Longrightarrow> v \<in> snd ` set kvs"
proof -
  have "snd ` set (foldl (\<lambda>m (k, v). AList.update k v m) m kvs) \<subseteq> snd ` set m \<union> snd ` set kvs" for m
  proof (induction kvs arbitrary: m)
    case (Cons kv kvs)
    obtain k v where "kv = (k, v)" by (cases kv)
    moreover have "snd ` set (AList.update k v m) \<subseteq> insert v (snd ` set m)"
      by (induction m) auto
    then have "snd ` set (AList.update k v m) \<union> snd ` set kvs \<subseteq> snd ` set m \<union> insert v (snd ` set kvs)"
      by blast
    ultimately show ?case using order_trans [OF Cons.IH [of "AList.update k v m"]] by simp
  qed simp
  from this [of "[]"] show "v \<in> snd ` set (go_map kvs) \<Longrightarrow> v \<in> snd ` set kvs"
    by (auto simp: go_map_def)
qed

lemma last_zero_hash: "v = zero_hash \<Longrightarrow> last v = 0"
  by (simp add: zero_hash_def)

text \<open>Every seeded value of the direct feed is a non-zero hash, as long as the feeder's address is not
  the zero address.\<close>

lemma direct_feed_values:
  assumes "c \<in> set (direct_feed_allocations keccak code feeder)" and "v \<in> snd ` set (co_Storage c)"
  shows "v = bytes_to_hash feeder \<or> v = the (short_string price_feed_pair)
    \<or> v = bytes_to_hash price_feed_aggregator_address \<or> v = small_hash 1"
  using assms by (auto simp: direct_feed_allocations_def)

lemma direct_feed_length:
  "c \<in> set (direct_feed_allocations keccak code feeder) \<Longrightarrow> v \<in> snd ` set (co_Storage c) \<Longrightarrow> length v = 32"
  using direct_feed_values short_string_pair(2) by fastforce

lemma direct_feed_storage:
  assumes "c \<in> set (direct_feed_allocations keccak code feeder)" and "v \<in> snd ` set (co_Storage c)"
    and "length feeder = 20" and "feeder \<noteq> replicate 20 0"
  shows "v \<noteq> zero_hash"
proof -
  have "bytes_to_hash feeder \<noteq> zero_hash"
  proof
    assume "bytes_to_hash feeder = zero_hash"
    then have "replicate 12 0 @ feeder = replicate 12 0 @ replicate 20 0"
      using assms(3) by (simp add: bytes_to_hash_def zero_hash_def flip: replicate_add)
    then show False using assms(4) by simp
  qed
  moreover have "the (short_string price_feed_pair) \<noteq> zero_hash"
    "bytes_to_hash price_feed_aggregator_address \<noteq> zero_hash" "small_hash 1 \<noteq> zero_hash"
    by (auto simp: short_string_def price_feed_pair_def bytes_to_hash_def
        price_feed_aggregator_address_def small_hash_def dest!: last_zero_hash)
  ultimately show ?thesis using direct_feed_values [OF assms(1,2)] by auto
qed

section \<open>Concrete runs\<close>

definition plain_hex :: "byte_string \<Rightarrow> string" where
  "plain_hex b = ''0x'' @ concat (map hex_byte b)"

definition sample_template :: json_text where
  "sample_template = \<lparr>js_parse = (\<lambda>_. Some (JObject [(''config'', JObject [(''chainId'', JInt 99999)])])),
     js_encode = (\<lambda>_. [])\<rparr>"

definition sample_contract :: contract_allocation where
  "sample_contract = \<lparr>co_Address = [0xFE, 0xED], co_RuntimeCode = ''0x60'', co_Storage = [([0], [1])]\<rparr>"

theorem genesis_exact_witness:
  "\<exists>doc. render_genesis sample_template plain_hex [] [[0x12, 0x34]] [sample_contract] None 16 = Inr doc
    \<and> map_of (gd_Alloc doc) ''1234'' = Some funds
    \<and> map_of (gd_Alloc doc) ''feed'' = Some (contract_entry sample_contract)
    \<and> map_of (gd_Alloc doc) ''beef'' = None"
proof -
  have "\<exists>doc. render_genesis sample_template plain_hex [] [[0x12, 0x34]] [sample_contract] None 16 = Inr doc"
    by (simp add: render_genesis_def sample_template_def decode_genesis_def json_raw_def json_field_def
        decode_pairs_def text_fields_def inject_fee_manager_admin_def contract_step_def fund_step_def
        sample_contract_def alloc_key_def plain_hex_def hex_byte_def hex_char_def go_eval)
  then obtain doc where doc:
    "render_genesis sample_template plain_hex [] [[0x12, 0x34]] [sample_contract] None 16 = Inr doc" by blast
  have "map_of (gd_Alloc doc) k = (case allocated_at plain_hex [sample_contract] k of Some a \<Rightarrow> Some a
        | None \<Rightarrow> if k \<in> alloc_key plain_hex ` set [[0x12, 0x34]] then Some funds else None)" for k
    using genesis_exact [OF doc] by blast
  moreover have "alloc_key plain_hex [0x12, 0x34] = ''1234''" "alloc_key plain_hex [0xFE, 0xED] = ''feed''"
    by (simp_all add: alloc_key_def plain_hex_def hex_byte_def hex_char_def go_eval)
  ultimately show ?thesis using doc
    by (intro exI [of _ doc]) (simp add: allocated_at_def sample_contract_def)
qed

end
