(* ===== verification/App_Upgrade.thy ===== *)
theory App_Upgrade
  imports Upgrades Feed_Config Genesis
begin

text \<open>
  Installing the price feed on a running chain, \<^verbatim>\<open>apps/settlement-feed/cmd/oracle/upgrade.go\<close>:
  \<open>upgrade_command\<close> renders the feed's contract accounts into \<^verbatim>\<open>upgrade.json\<close>, which the operator
  then hands to \<^verbatim>\<open>fleet upgrade\<close> (theory Upgrades). The theorem joins the two: what the one renders
  is what the other accepts.
\<close>

section \<open>The command\<close>

definition default_activation_minutes :: int where "default_activation_minutes = 15"

datatype app_upgrade_error =
    BadMinutes string
  | AppManifestUnread
  | AppManifest manifest_error
  | AppFeeder string
  | AppEnvironment config_error
  | AppDeployment feed_config_error
  | AppNoOracleRecord
  | AppCodeEmpty byte_string
  | AppZeroSlot byte_string
  | AppUpgradeExists
  | AppUpgradeNotWritten keygen_error

definition activation_minutes :: "string \<Rightarrow> app_upgrade_error + int" where
  "activation_minutes arg = (if arg = [] then Inr default_activation_minutes
     else case atoi arg of
         None \<Rightarrow> Inl (BadMinutes arg)
       | Some m \<Rightarrow> if m < 1 then Inl (BadMinutes arg) else Inr m)"

text \<open>The product of two durations wraps around in 64 bits; \<open>now\<close> is in nanoseconds.\<close>

definition activation_time :: "int \<Rightarrow> int \<Rightarrow> int" where
  "activation_time now minutes = (now + sint (word_of_int (minutes * 60000000000) :: u64)) div 1000000000"

text \<open>The libraries: \<open>al_address\<close> is \<^verbatim>\<open>HexToAddress\<close>, \<open>al_hex\<close> the checksummed text, \<open>al_id_bytes\<close>
  the 32 bytes of an ID.\<close>

record 'id app_library =
  al_address :: "string \<Rightarrow> byte_string"
  al_hex :: "byte_string \<Rightarrow> string"
  al_keccak :: "byte_string \<Rightarrow> byte_string"
  al_code :: contract_code
  al_id_bytes :: "'id \<Rightarrow> byte_string"

definition storage_json :: "(byte_string \<times> byte_string) list \<Rightarrow> json" where
  "storage_json storage = JObject (sort_key fst (map (\<lambda>(k, v). (k, JString v)) (storage_text storage)))"

definition account_json :: "contract_allocation \<Rightarrow> json" where
  "account_json c = JObject [(''code'', JString (co_RuntimeCode c)), (''storage'', storage_json (co_Storage c))]"

definition account_step ::
  "(byte_string \<Rightarrow> string) \<Rightarrow> (string \<times> json) list \<Rightarrow> contract_allocation
   \<Rightarrow> app_upgrade_error + (string \<times> json) list" where
  "account_step hex accounts c =
    (if co_RuntimeCode c = [] \<or> co_RuntimeCode c = ''0x'' then Inl (AppCodeEmpty (co_Address c))
     else if list_ex (\<lambda>(slot, v). v = zero_hash) (go_map (co_Storage c)) then Inl (AppZeroSlot (co_Address c))
     else Inr (AList.update (hex (co_Address c)) (account_json c) accounts))"

definition upgrade_document :: "int \<Rightarrow> (string \<times> json) list \<Rightarrow> json" where
  "upgrade_document activation accounts = JObject [(''stateUpgrades'', JArray [JObject
     [(''accounts'', JObject (sort_key fst accounts)), (''blockTimestamp'', JInt activation)]])]"

definition oracle_record ::
  "'id id_codec \<Rightarrow> byte_string address_codec \<Rightarrow> (string \<Rightarrow> parsed_url option)
   \<Rightarrow> (string \<times> string) list option \<Rightarrow> (string \<times> string) list option
   \<Rightarrow> app_upgrade_error + ('id, byte_string) feed_deployment" where
  "oracle_record codec ac parse_url env_read state_read =
    (case load_network_environment parse_url env_read of
       Inl e \<Rightarrow> Inl (AppEnvironment e)
     | Inr env \<Rightarrow> (case load_feed_deployment codec ac state_read (net_Network env) of
         Inl e \<Rightarrow> Inl (AppDeployment e)
       | Inr d \<Rightarrow> if feed_has_oracle codec d then Inr d else Inl AppNoOracleRecord))"

definition upgrade_allocations ::
  "'id app_library \<Rightarrow> 'pop public \<Rightarrow> app_upgrade_error + ('id, byte_string) feed_deployment
   \<Rightarrow> app_upgrade_error + contract_allocation list" where
  "upgrade_allocations lib public record = (let feeder = al_address lib (FeederAddress public);
       direct = direct_feed_allocations (al_keccak lib) (al_code lib) feeder in
     if has_oracle public then rbind record (\<lambda>d. Inr (direct @
       [oracle_receiver_allocation (al_code lib) (al_id_bytes lib (fd_OracleChainID d))]))
     else Inr direct)"

definition upgrade_path :: path where "upgrade_path = [''upgrade.json'']"

definition upgrade_command ::
  "json_text \<Rightarrow> ('nid, 'pop) platform \<Rightarrow> 'id app_library \<Rightarrow> (string \<Rightarrow> 'pop public option)
   \<Rightarrow> app_upgrade_error + ('id, byte_string) feed_deployment \<Rightarrow> int \<Rightarrow> file_system \<Rightarrow> string
   \<Rightarrow> app_upgrade_error + file_system" where
  "upgrade_command js env lib decode record now fs arg =
    rbind (activation_minutes arg) (\<lambda>minutes.
    rbind (case fs [''deployment'', ''public.json''] of
        Some (File contents) \<Rightarrow> (case load_public env decode contents of
            Inl e \<Rightarrow> Inl (AppManifest e) | Inr p \<Rightarrow> Inr p)
      | _ \<Rightarrow> Inl AppManifestUnread) (\<lambda>public.
    if \<not> is_hex_address env (FeederAddress public) then Inl (AppFeeder (FeederAddress public))
    else rbind (upgrade_allocations lib public record) (\<lambda>allocations.
    rbind (each (account_step (al_hex lib)) [] allocations) (\<lambda>accounts.
    if fs upgrade_path \<noteq> None then Inl AppUpgradeExists
    else case write_file fs upgrade_path
        (js_encode js (upgrade_document (activation_time now minutes) accounts) @ [CHR 0x0A]) of
      Inl e \<Rightarrow> Inl (AppUpgradeNotWritten e) | Inr fs' \<Rightarrow> Inr fs'))))"

section \<open>Rendered values are not zero\<close>

lemma hex_chars: "list_all (\<lambda>d. (hex_char d = CHR ''0'') = (d = 0) \<and> lower_char (hex_char d) = hex_char d) [0..<16]"
  by code_simp

lemma hex_char_facts: "d < 16 \<Longrightarrow> (hex_char d = CHR ''0'') = (d = 0)" "d < 16 \<Longrightarrow> lower_char (hex_char d) = hex_char d"
  using hex_chars by (auto simp: list_all_iff)

lemma byte_halves: "unat (b :: 8 word) div 16 < 16" "unat b mod 16 < 16"
  using unsigned_less [of b, where 'a = nat] by (simp_all add: less_mult_imp_div_less)

lemma hex_byte_zero: "set (hex_byte b) = {CHR ''0''} \<longleftrightarrow> b = 0"
proof -
  have "set (hex_byte b) = {CHR ''0''} \<longleftrightarrow> unat b div 16 = 0 \<and> unat b mod 16 = 0"
    using hex_char_facts(1) [OF byte_halves(1) [of b]] hex_char_facts(1) [OF byte_halves(2) [of b]]
    by (auto simp: hex_byte_def)
  also have "\<dots> \<longleftrightarrow> unat b = 0" by (metis div_mult_mod_eq add_0 mult_0 div_0 mod_0)
  also have "\<dots> \<longleftrightarrow> b = 0" by (simp add: unat_eq_0)
  finally show ?thesis .
qed

lemma lower_hash_hex: "map lower_char (hash_hex v) = hash_hex v"
proof -
  have "map lower_char (concat (map hex_byte v)) = concat (map hex_byte v)"
    using hex_char_facts(2) [OF byte_halves(1)] hex_char_facts(2) [OF byte_halves(2)]
    by (induction v) (simp_all add: hex_byte_def)
  then show ?thesis by (simp add: hash_hex_def lower_char_def is_upper_def less_eq_char_def)
qed

lemma zero_text_hash: "zero_text (hash_hex v) \<longleftrightarrow> v = replicate (length v) 0"
proof -
  let ?s = "concat (map hex_byte v)"
  have trim: "trim_right (\<lambda>c. c = CHR ''0'') (trim_left (\<lambda>c. c = CHR ''0'') s) = []
      \<longleftrightarrow> (\<forall>c \<in> set s. c = CHR ''0'')" for s
  proof -
    have "(\<forall>c \<in> set (dropWhile p s). p c) \<longleftrightarrow> (\<forall>c \<in> set s. p c)" for p :: "char \<Rightarrow> bool"
      by (induction s) auto
    then show ?thesis by (simp add: trim_left_def trim_right_def)
  qed
  have "zero_text (hash_hex v) \<longleftrightarrow> (\<forall>c \<in> set ?s. c = CHR ''0'')"
    unfolding zero_text_def lower_hash_hex by (simp add: hash_hex_def trim_prefix_def has_prefix_def trim)
  also have "\<dots> \<longleftrightarrow> (\<forall>b \<in> set v. set (hex_byte b) = {CHR ''0''})"
    by (auto simp: hex_byte_def)
  also have "\<dots> \<longleftrightarrow> v = replicate (length v) 0"
    unfolding hex_byte_zero by (induction v) auto
  finally show ?thesis .
qed

section \<open>What is rendered is accepted\<close>

definition account_of :: "contract_allocation \<Rightarrow> account" where
  "account_of c = \<lparr>ac_Code = co_RuntimeCode c,
     ac_Storage = sort_key fst (storage_text (co_Storage c))\<rparr>"

lemma all_some_pairs: "all_some (\<lambda>(k, v). map_option (Pair k) (f v)) (map (\<lambda>(k, x). (k, g x)) xs) =
    (if \<forall>(k, x) \<in> set xs. f (g x) \<noteq> None then Some (map (\<lambda>(k, x). (k, the (f (g x)))) xs) else None)"
  by (induction xs) (auto split: option.splits)

lemma sort_key_map_pairs: "sort_key fst (map (\<lambda>(k, v). (k, f v)) xs) = map (\<lambda>(k, v). (k, f v)) (sort_key fst xs)"
proof -
  have ins: "insort_key fst (a, f b) (map (\<lambda>(k, v). (k, f v)) ys) = map (\<lambda>(k, v). (k, f v)) (insort_key fst (a, b) ys)"
    for a b ys by (induction ys) auto
  show ?thesis by (induction xs) (auto simp: ins)
qed

lemma decode_storage_json: "decode_pairs json_string (storage_json st) = Some (sort_key fst (storage_text st))"
  unfolding decode_pairs_def storage_json_def json_object.simps bind.bind_lunit sort_key_map_pairs all_some_pairs
  by (simp add: case_prod_unfold)

lemma decode_account_json: "decode_account (account_json c) = Some (account_of c)"
proof -
  have "lower_char CHR ''c'' \<noteq> lower_char CHR ''s''" by code_simp
  then show ?thesis
    by (simp add: decode_account_def account_json_def json_field_def decode_storage_json account_of_def)
qed

lemma decode_accounts:
  assumes "\<forall>(k, j) \<in> set accounts. \<exists>c \<in> set cs. j = account_json c"
  shows "\<exists>accs. decode_pairs decode_account (JObject (sort_key fst accounts)) = Some accs
    \<and> (\<forall>k. map_of accs k = map_option (the \<circ> decode_account) (map_of accounts k))
    \<and> (accs = [] \<longleftrightarrow> accounts = []) \<and> snd ` set accs \<subseteq> account_of ` set cs"
proof -
  let ?accs = "map (\<lambda>(k, j). (k, the (decode_account j))) (sort_key fst accounts)"
  have "\<forall>(k, j) \<in> set accounts. decode_account j \<noteq> None" using assms decode_account_json by fastforce
  then have "all_some (\<lambda>(k, v). map_option (Pair k) (decode_account v)) (sort_key fst accounts) = Some ?accs"
    using all_some_pairs [of decode_account "\<lambda>j. j" "sort_key fst accounts"]
    by (auto simp: case_prod_unfold)
  moreover have "map_of ?accs k = map_option (the \<circ> decode_account) (map_of accounts k)" for k
    by (simp add: map_of_map_snd map_of_sort_key comp_def)
  moreover have "snd ` set ?accs \<subseteq> account_of ` set cs"
    using assms decode_account_json by fastforce
  moreover have "?accs = [] \<longleftrightarrow> accounts = []" by (simp flip: length_0_conv)
  ultimately show ?thesis by (intro exI [of _ ?accs]) (simp add: decode_pairs_def)
qed

lemma decode_document:
  assumes "decode_pairs decode_account (JObject (sort_key fst accounts)) = Some accs"
    and "- (2 ^ 63) \<le> t" and "t < 2 ^ 63"
  shows "decode_upgrade (upgrade_document t accounts)
    = Some \<lparr>uf_StateUpgrades = [\<lparr>su_BlockTimestamp = t, su_Accounts = accs\<rparr>], uf_PrecompileUpgrades = []\<rparr>"
proof -
  have "map lower_char ''accounts'' \<noteq> map lower_char ''blockTimestamp''"
    "map lower_char ''stateUpgrades'' \<noteq> map lower_char ''precompileUpgrades''" by code_simp+
  then show ?thesis using assms
    by (simp add: decode_upgrade_def decode_raw_def upgrade_document_def json_field_def decode_state_upgrade_def
        decode_timestamp_def)
qed

definition allocation_ok :: "contract_allocation \<Rightarrow> bool" where
  "allocation_ok c \<longleftrightarrow> co_RuntimeCode c \<notin> {[], ''0x''} \<and> (\<forall>(slot, v) \<in> set (go_map (co_Storage c)). v \<noteq> zero_hash)"

lemma account_step_Inr: "account_step hex accounts c = Inr accounts' \<longleftrightarrow>
    allocation_ok c \<and> accounts' = AList.update (hex (co_Address c)) (account_json c) accounts"
  by (auto simp: account_step_def allocation_ok_def list_ex_iff)

lemma accounts_rendered:
  assumes "each (account_step hex) accounts cs = Inr accounts'" and "inj hex" and "distinct (map co_Address cs)"
  shows "(\<forall>c \<in> set cs. allocation_ok c)
    \<and> (\<forall>k. map_of accounts' k = (case find (\<lambda>c. hex (co_Address c) = k) cs of
          Some c \<Rightarrow> Some (account_json c) | None \<Rightarrow> map_of accounts k))
    \<and> (\<forall>(k, j) \<in> set accounts'. (k, j) \<in> set accounts \<or> (\<exists>c \<in> set cs. j = account_json c))
    \<and> (cs \<noteq> [] \<longrightarrow> accounts' \<noteq> [])"
  using assms(1,3)
proof (induction cs arbitrary: accounts)
  case (Cons c cs)
  let ?a = "AList.update (hex (co_Address c)) (account_json c) accounts"
  from Cons.prems have ok: "allocation_ok c" and rest: "each (account_step hex) ?a cs = Inr accounts'"
    by (auto simp: account_step_Inr)
  have fresh: "find (\<lambda>d. hex (co_Address d) = hex (co_Address c)) cs = None"
    using Cons.prems(2) assms(2) by (auto simp: find_None_iff inj_eq image_iff)
  have "set ?a \<subseteq> insert (hex (co_Address c), account_json c) (set accounts)"
    by (induction accounts) auto
  moreover have "?a \<noteq> []" by (cases accounts) auto
  then have "accounts' \<noteq> []" using Cons.IH [OF rest] rest Cons.prems(2) by (cases "cs = []") auto
  ultimately show ?case using Cons.IH [OF rest] Cons.prems(2) ok fresh
    by (auto simp: update_conv' split: option.split)
qed auto

text \<open>The contracts a manifest asks for: the direct feed's, and the Warp receiver with an oracle chain.\<close>

definition wanted_contracts :: "'id app_library \<Rightarrow> 'pop public \<Rightarrow> 'id \<Rightarrow> contract_allocation list" where
  "wanted_contracts lib public chainID =
     direct_feed_allocations (al_keccak lib) (al_code lib) (al_address lib (FeederAddress public)) @
     (if has_oracle public then [oracle_receiver_allocation (al_code lib) (al_id_bytes lib chainID)] else [])"

lemma wanted_distinct: "distinct (map co_Address (wanted_contracts lib public chainID))"
proof -
  have "last price_feed_aggregator_address \<noteq> last price_feed_address"
    "last receiver_address \<noteq> last price_feed_address" "last price_feed_aggregator_address \<noteq> last receiver_address"
    by (simp_all add: price_feed_aggregator_address_def price_feed_address_def receiver_address_def)
  then show ?thesis
    by (auto simp: wanted_contracts_def direct_feed_allocations_def oracle_receiver_allocation_def)
qed

lemma wanted_length:
  "c \<in> set (wanted_contracts lib public chainID) \<Longrightarrow> v \<in> snd ` set (co_Storage c) \<Longrightarrow>
   length (al_id_bytes lib chainID) = 32 \<Longrightarrow> length v = 32"
  using direct_feed_length [of c "al_keccak lib" "al_code lib" "al_address lib (FeederAddress public)" v]
  by (cases "c \<in> set (direct_feed_allocations (al_keccak lib) (al_code lib) (al_address lib (FeederAddress public)))")
    (auto simp: wanted_contracts_def oracle_receiver_allocation_def split: if_splits)

lemma account_ok:
  assumes "allocation_ok c" and "\<And>v. v \<in> snd ` set (co_Storage c) \<Longrightarrow> length v = 32"
  shows "ac_Code (account_of c) \<notin> {[], ''0x''}
    \<and> list_all (\<lambda>(_, v). \<not> zero_text v) (ac_Storage (account_of c))"
proof -
  have "\<not> zero_text (hash_hex v)" if "(slot, v) \<in> set (go_map (co_Storage c))" for slot v
  proof -
    have "v \<in> snd ` set (co_Storage c)" using that snd_go_map by force
    then have "length v = 32" by (rule assms(2))
    moreover have "v \<noteq> zero_hash" using assms(1) that by (auto simp: allocation_ok_def)
    ultimately show ?thesis by (simp add: zero_text_hash zero_hash_def)
  qed
  then show ?thesis using assms(1)
    by (auto simp: allocation_ok_def account_of_def storage_text_def list_all_iff)
qed

lemma activation_range:
  assumes "0 \<le> now" and "now < 2 ^ 63"
  shows "- (2 ^ 63) \<le> activation_time now minutes \<and> activation_time now minutes < 2 ^ 63"
proof -
  let ?d = "sint (word_of_int (minutes * 60000000000) :: u64)"
  have "- (2 ^ 63) \<le> ?d" "?d < 2 ^ 63"
    using sint_range_size [of "word_of_int (minutes * 60000000000) :: u64"] by (simp_all add: word_size)
  with assms show ?thesis by (simp add: activation_time_def) linarith
qed

text \<open>C34: What the price feed's upgrade command renders, the fleet's upgrade command accepts. When it
  succeeds it has added the file \<^verbatim>\<open>upgrade.json\<close>, which did not exist, and changed nothing else; the file
  holds one state upgrade, at the activation time, that installs exactly the contracts this
  deployment needs, each with its bytecode and storage at its own address: the aggregator and the
  proxy, and the Warp receiver trusting the recorded oracle chain when there is one; and until
  that time the fleet's validation of the file passes.\<close>
theorem rendered_upgrade_installs:
  assumes "upgrade_command js env lib decode record now fs arg = Inr fs'"
    and "\<And>text. fs' upgrade_path = Some (File text) \<Longrightarrow> js_reads_back js text"
    and "inj (al_hex lib)" and "\<And>i. length (al_id_bytes lib i) = 32" and "0 \<le> now" and "now < 2 ^ 63"
  shows "\<exists>minutes contents public chainID fragment e. activation_minutes arg = Inr minutes
    \<and> fs [''deployment'', ''public.json''] = Some (File contents) \<and> load_public env decode contents = Inr public
    \<and> (has_oracle public \<longrightarrow> (\<exists>d. record = Inr d \<and> chainID = fd_OracleChainID d))
    \<and> fs upgrade_path = None \<and> fs' = fs(upgrade_path \<mapsto> File fragment)
    \<and> Option.bind (js_parse js fragment) decode_upgrade
        = Some \<lparr>uf_StateUpgrades = [e], uf_PrecompileUpgrades = []\<rparr>
    \<and> su_BlockTimestamp e = activation_time now minutes
    \<and> (\<forall>k. map_of (su_Accounts e) k = map_option account_of
        (find (\<lambda>c. al_hex lib (co_Address c) = k) (wanted_contracts lib public chainID)))
    \<and> (\<forall>t. t < activation_time now minutes \<longrightarrow> validate_upgrade_contents js fragment t = Inr ())"
proof -
  from assms(1) obtain minutes contents public cs accounts where
    minutes: "activation_minutes arg = Inr minutes"
    and public: "fs [''deployment'', ''public.json''] = Some (File contents)" "load_public env decode contents = Inr public"
    and cs: "upgrade_allocations lib public record = Inr cs"
    and accounts: "each (account_step (al_hex lib)) [] cs = Inr accounts"
    and wrote: "(if fs upgrade_path \<noteq> None then Inl AppUpgradeExists
      else case write_file fs upgrade_path
          (js_encode js (upgrade_document (activation_time now minutes) accounts) @ [CHR 0x0A]) of
        Inl e \<Rightarrow> Inl (AppUpgradeNotWritten e) | Inr fs' \<Rightarrow> Inr fs') = Inr fs'"
    unfolding upgrade_command_def
    by (elim rbind_InrE) (auto simp del: rbind_eq_Inr elim!: rbind_InrE
        split: option.split_asm entry.split_asm sum.split_asm if_split_asm)
  have fs: "fs upgrade_path = None" "write_file fs upgrade_path
        (js_encode js (upgrade_document (activation_time now minutes) accounts) @ [CHR 0x0A]) = Inr fs'"
    using wrote by (auto split: if_splits sum.splits)
  obtain chainID where chain: "cs = wanted_contracts lib public chainID"
    "has_oracle public \<longrightarrow> (\<exists>d. record = Inr d \<and> chainID = fd_OracleChainID d)"
    using cs by (auto simp: upgrade_allocations_def wanted_contracts_def Let_def split: if_splits)
  define fragment where "fragment = js_encode js (upgrade_document (activation_time now minutes) accounts) @ [CHR 0x0A]"
  have dist: "distinct (map co_Address cs)" by (simp add: chain wanted_distinct)
  note rendered = accounts_rendered [OF accounts assms(3) dist]
  have "\<forall>(k, j) \<in> set accounts. \<exists>c \<in> set cs. j = account_json c" using rendered by auto
  from decode_accounts [OF this] obtain accs where accs:
    "decode_pairs decode_account (JObject (sort_key fst accounts)) = Some accs"
    "\<And>k. map_of accs k = map_option (the \<circ> decode_account) (map_of accounts k)"
    "accs = [] \<longleftrightarrow> accounts = []" "snd ` set accs \<subseteq> account_of ` set cs" by blast
  have written: "fs' = fs(upgrade_path \<mapsto> File fragment)"
    using fs(2) by (auto simp: write_file_def fragment_def split: if_splits)
  then have "js_reads_back js fragment" using assms(2) by simp
  then have "js_parse js fragment = Some (upgrade_document (activation_time now minutes) accounts)"
    by (simp add: js_reads_back_def fragment_def)
  then have document: "Option.bind (js_parse js fragment) decode_upgrade = Some \<lparr>uf_StateUpgrades =
      [\<lparr>su_BlockTimestamp = activation_time now minutes, su_Accounts = accs\<rparr>], uf_PrecompileUpgrades = []\<rparr>"
    using decode_document [OF accs(1)] activation_range [OF assms(5,6), of minutes]
    by simp
  have at: "map_of accs k = map_option account_of (find (\<lambda>c. al_hex lib (co_Address c) = k) cs)" for k
    using rendered accs(2) [of k] by (simp add: decode_account_json split: option.split)
  have "cs \<noteq> []" by (simp add: chain wanted_contracts_def direct_feed_allocations_def)
  then have "accs \<noteq> []" using rendered accs(3) by blast
  moreover have "ac_Code a \<notin> {[], ''0x''} \<and> list_all (\<lambda>(_, v). \<not> zero_text v) (ac_Storage a)"
    if "a \<in> snd ` set accs" for a
  proof -
    from that accs(4) obtain c where "c \<in> set cs" "a = account_of c" by blast
    have "allocation_ok c" using rendered \<open>c \<in> set cs\<close> by blast
    then show ?thesis unfolding \<open>a = account_of c\<close>
    proof (rule account_ok)
      fix v assume "v \<in> snd ` set (co_Storage c)"
      then show "length v = 32"
        using wanted_length [of c lib public chainID v] assms(4) chain(1) \<open>c \<in> set cs\<close> by simp
    qed
  qed
  ultimately have ok: "upgrade_ok t \<lparr>su_BlockTimestamp = activation_time now minutes, su_Accounts = accs\<rparr>"
    if "t < activation_time now minutes" for t
    using that by (fastforce simp: upgrade_ok_def list_all_iff)
  have "validate_upgrade_contents js fragment t = Inr ()" if "t < activation_time now minutes" for t
  proof -
    have "check_state_upgrade t (0, \<lparr>su_BlockTimestamp = activation_time now minutes, su_Accounts = accs\<rparr>) = Inr ()"
      unfolding check_state_upgrade_ok by (rule ok [OF that])
    then show ?thesis using document by (simp add: validate_upgrade_contents_def)
  qed
  then show ?thesis using minutes public chain fs(1) document at written
    by (intro exI [of _ minutes] exI [of _ contents] exI [of _ public] exI [of _ chainID] exI [of _ fragment]
        exI [of _ "\<lparr>su_BlockTimestamp = activation_time now minutes, su_Accounts = accs\<rparr>"]) simp
qed

section \<open>A concrete run\<close>

lemma accounts_succeed:
  "\<forall>c \<in> set cs. allocation_ok c \<Longrightarrow> \<exists>accounts'. each (account_step hex) accounts cs = Inr accounts'"
  by (induction cs arbitrary: accounts) (auto simp: account_step_Inr)

lemma wanted_ok:
  assumes "length (al_address lib (FeederAddress public)) = 20"
    and "al_address lib (FeederAddress public) \<noteq> replicate 20 0"
    and "cc_PriceAggregator (al_code lib) \<notin> {[], ''0x''}" and "cc_PriceFeedProxy (al_code lib) \<notin> {[], ''0x''}"
    and "cc_Receiver (al_code lib) \<notin> {[], ''0x''}" and "al_id_bytes lib chainID \<noteq> zero_hash"
  shows "\<forall>c \<in> set (wanted_contracts lib public chainID). allocation_ok c"
proof
  fix c assume c: "c \<in> set (wanted_contracts lib public chainID)"
  have code: "co_RuntimeCode c \<notin> {[], ''0x''}"
    using c assms(3-5) by (auto simp: wanted_contracts_def direct_feed_allocations_def
        oracle_receiver_allocation_def split: if_splits)
  have "bytes_to_hash aggregator_address \<noteq> zero_hash"
    by (auto simp: bytes_to_hash_def aggregator_address_def dest!: last_zero_hash)
  then have "v \<noteq> zero_hash" if "v \<in> snd ` set (co_Storage c)" for v
    using c that assms(1,2,6) direct_feed_storage [of c "al_keccak lib" "al_code lib" "al_address lib (FeederAddress public)" v]
    by (cases "c \<in> set (direct_feed_allocations (al_keccak lib) (al_code lib) (al_address lib (FeederAddress public)))")
      (auto simp: wanted_contracts_def oracle_receiver_allocation_def split: if_splits)
  then show "allocation_ok c" using code snd_go_map [of _ "co_Storage c"] unfolding allocation_ok_def by force
qed

definition sample_app :: "nat app_library" where
  "sample_app = \<lparr>al_address = \<lambda>_. replicate 20 1, al_hex = map (\<lambda>b. char_of (unat b)), al_keccak = \<lambda>_. replicate 32 9,
     al_code = \<lparr>cc_Aggregator = ''0x60'', cc_Receiver = ''0x60'', cc_PriceAggregator = ''0x60'', cc_PriceFeedProxy = ''0x60''\<rparr>,
     al_id_bytes = \<lambda>_. replicate 32 7\<rparr>"

definition sample_app_root :: file_system where
  "sample_app_root = [[] \<mapsto> Dir, [''deployment'', ''public.json''] \<mapsto> File []]"

definition sample_record :: "(nat, byte_string) feed_deployment" where
  "sample_record = (empty_feed_deployment unary_codec \<lparr>ac_zero = [], ac_parse = \<lambda>_. None\<rparr> [])\<lparr>fd_OracleChainID := 4\<rparr>"

text \<open>A JSON library that knows one document.\<close>

definition sample_app_json :: "json \<Rightarrow> json_text" where
  "sample_app_json doc = \<lparr>js_parse = (\<lambda>s. if s = ''doc'' @ [CHR 0x0A] then Some doc else None),
     js_encode = (\<lambda>j. if j = doc then ''doc'' else ''other'')\<rparr>"

lemma inj_char_bytes: "inj (map (\<lambda>b :: 8 word. char_of (unat b)) :: _ \<Rightarrow> string)"
proof (intro inj_mapI injI)
  fix a b :: "8 word"
  assume "(char_of (unat a) :: char) = char_of (unat b)"
  then have "(of_char (char_of (unat a) :: char) :: nat) = of_char (char_of (unat b) :: char)" by simp
  then have "unat a mod 256 = unat b mod 256" by (simp only: of_char_of)
  then show "a = b" using unsigned_less [of a, where 'a = nat] unsigned_less [of b, where 'a = nat]
    by (simp add: word_unat_eq_iff)
qed

theorem rendered_upgrade_installs_witness:
  "\<exists>js fragment e. Option.bind (js_parse js fragment) decode_upgrade
        = Some \<lparr>uf_StateUpgrades = [e], uf_PrecompileUpgrades = []\<rparr>
    \<and> su_BlockTimestamp e = 1900 \<and> validate_upgrade_contents js fragment 1899 = Inr ()"
proof -
  let ?cs = "wanted_contracts sample_app sample_manifest (4 :: nat)"
  have "\<forall>c \<in> set ?cs. allocation_ok c"
    by (rule wanted_ok) (auto simp: sample_app_def zero_hash_def)
  then obtain accounts where accounts: "each (account_step (al_hex sample_app)) [] ?cs = Inr accounts"
    using accounts_succeed by blast
  let ?js = "sample_app_json (upgrade_document 1900 accounts)"
  let ?fs = "sample_app_root(upgrade_path \<mapsto> File (''doc'' @ [CHR 0x0A]))"
  have oracle_chain: "has_oracle sample_manifest"
    by (simp add: has_oracle_def sample_manifest_def sample_node_def chain_name_def effective_chain_def oracle_chain_def)
  have ran: "upgrade_command ?js sample_env sample_app (\<lambda>_. Some sample_manifest) (Inr sample_record) 1000000000000
      sample_app_root [] = Inr ?fs"
    using accounts oracle_chain
    by (simp add: upgrade_command_def activation_minutes_def default_activation_minutes_def sample_app_root_def
        sample_manifest_loads upgrade_allocations_def wanted_contracts_def sample_record_def activation_time_def
        sample_app_json_def upgrade_path_def write_file_def) (simp add: sample_manifest_def sample_env_def has_prefix_def)
  have reread: "js_reads_back ?js c" if "?fs upgrade_path = Some (File c)" for c
    using that by (auto simp: js_reads_back_def sample_app_json_def)
  have "inj (al_hex sample_app)" "\<And>i. length (al_id_bytes sample_app i) = 32"
    using inj_char_bytes by (simp_all add: sample_app_def)
  from rendered_upgrade_installs [OF ran reread this] obtain minutes fragment e where
    "activation_minutes [] = Inr minutes"
    "Option.bind (js_parse ?js fragment) decode_upgrade = Some \<lparr>uf_StateUpgrades = [e], uf_PrecompileUpgrades = []\<rparr>"
    "su_BlockTimestamp e = activation_time 1000000000000 minutes"
    "\<forall>t. t < activation_time 1000000000000 minutes \<longrightarrow> validate_upgrade_contents ?js fragment t = Inr ()"
    by auto
  moreover have "activation_time 1000000000000 15 = 1900" by (simp add: activation_time_def)
  ultimately show ?thesis
    by (intro exI [of _ ?js] exI [of _ fragment] exI [of _ e])
      (auto simp: activation_minutes_def default_activation_minutes_def)
qed

end
