(* ===== verification/Creation.thy ===== *)
theory Creation
  imports Genesis Funding Network_State
begin

text \<open>
  Creating the network, \<^verbatim>\<open>internal/creation/create.go\<close>: the checks before the first transaction,
  the genesis files, and for the management chain, the oracle chain and every further chain the three
  transactions that create its subnet, create the chain and convert the subnet to an L1, each
  retried against a fresh wallet and recorded in \<^verbatim>\<open>network.env\<close> before the next one. The state
  of a run is the deployment's files, the creation state and the trace of what was done; what the
  network answers is a function of that trace, so it may depend on everything that happened before.
\<close>

section \<open>Transactions and traces\<close>

definition initial_balance :: u64 where "initial_balance = 100000000"
definition creation_fee_reserve :: u64 where "creation_fee_reserve = 100000000"

record 'pop conversion_validator =
  cv_NodeID :: byte_string
  cv_Weight :: u64
  cv_Balance :: u64
  cv_Signer :: 'pop
  cv_Owner :: string

datatype ('id, 'pop) create_tx =
    CreateSubnetTx string
  | CreateChainTx 'id string string
  | ConvertTx 'id 'id byte_string "'pop conversion_validator list"

datatype 'id attempt = WalletFailed | BuildFailed | Accepted 'id

datatype ('id, 'pop) create_event =
    Issued "('id, 'pop) create_tx" "'id list" "'id attempt"
  | Waited nat
  | Saved "'id state"
  | WroteGenesis string string

datatype create_error =
    CreateManifestUnread
  | CreateManifest manifest_error
  | CreationOutputExists path
  | CreationOutputUnread path
  | FundingPreflight inspect_error
  | InsufficientFunds u64 u64
  | CreateTemplate template_error
  | CreateGenesis genesis_error
  | CreateIdentities manifest_error
  | GenesisNotWritten path
  | StateNotSaved
  | NoProof string
  | IssueFailed
  | IssueCancelled

text \<open>The libraries and the surroundings: \<open>ce_answer\<close> is the outcome of an attempt, \<open>ce_cancelled\<close> whether
  the context ends during a wait, \<open>ce_save_fails\<close> whether writing the state file fails.\<close>

record ('id, 'nid, 'pop, 'key) creation_env =
  ce_codec :: "'id id_codec"
  ce_platform :: "('nid, 'pop) platform"
  ce_node_bytes :: "'nid \<Rightarrow> byte_string"
  ce_json :: json_text
  ce_render :: "genesis_document \<Rightarrow> string"
  ce_address :: "string \<Rightarrow> byte_string"
  ce_hex :: "byte_string \<Rightarrow> string"
  ce_code :: contract_code
  ce_keys :: "'key key_library"
  ce_now :: int
  ce_out :: path
  ce_answer :: "('id, 'pop) create_event list \<Rightarrow> 'id attempt"
  ce_cancelled :: "('id, 'pop) create_event list \<Rightarrow> bool"
  ce_save_fails :: "('id, 'pop) create_event list \<Rightarrow> bool"

record ('id, 'pop) creation_run =
  cr_files :: file_system
  cr_state :: "'id state"
  cr_trace :: "('id, 'pop) create_event list"

type_synonym ('id, 'pop, 'a) creation =
  "('id, 'pop) creation_run \<Rightarrow> (create_error + 'a) \<times> ('id, 'pop) creation_run"

section \<open>Sequencing\<close>

definition ret :: "'a \<Rightarrow> ('id, 'pop, 'a) creation" where
  "ret x s = (Inr x, s)"

definition check :: "create_error + 'a \<Rightarrow> ('id, 'pop, 'a) creation" where
  "check r s = (r, s)"

definition cbind :: "('id, 'pop, 'a) creation \<Rightarrow> ('a \<Rightarrow> ('id, 'pop, 'b) creation) \<Rightarrow> ('id, 'pop, 'b) creation" where
  "cbind m f s = (case m s of (Inl e, t) \<Rightarrow> (Inl e, t) | (Inr x, t) \<Rightarrow> f x t)"

fun cfor :: "('a \<Rightarrow> ('id, 'pop, unit) creation) \<Rightarrow> 'a list \<Rightarrow> ('id, 'pop, unit) creation" where
  "cfor f [] = ret ()"
| "cfor f (x # xs) = cbind (f x) (\<lambda>_. cfor f xs)"

section \<open>Files and state\<close>

definition require_missing :: "file_system \<Rightarrow> path \<Rightarrow> create_error + unit" where
  "require_missing fs p = (if fs p \<noteq> None then Inl (CreationOutputExists p)
     else case fs (butlast p) of Some (File _) \<Rightarrow> Inl (CreationOutputUnread p) | _ \<Rightarrow> Inr ())"

definition missing :: "path \<Rightarrow> ('id, 'pop, unit) creation" where
  "missing p s = (require_missing (cr_files s) p, s)"

definition write_genesis :: "path \<Rightarrow> string \<Rightarrow> string \<Rightarrow> ('id, 'pop, unit) creation" where
  "write_genesis out name contents s = (case write_file (cr_files s) (out @ [name]) contents of
      Inl e \<Rightarrow> (Inl (GenesisNotWritten (out @ [name])), s)
    | Inr fs \<Rightarrow> (Inr (), s\<lparr>cr_files := fs, cr_trace := cr_trace s @ [WroteGenesis name contents]\<rparr>))"

definition state_path :: "path \<Rightarrow> path" where "state_path out = out @ [''network.env'']"

definition save :: "('id, 'nid, 'pop, 'key) creation_env \<Rightarrow> ('id, 'pop, unit) creation" where
  "save env s = (if ce_save_fails env (cr_trace s) then (Inl StateNotSaved, s)
     else case write_file (cr_files s) (state_path (ce_out env)) (save_state (ce_codec env) (cr_state s)) of
         Inl e \<Rightarrow> (Inl StateNotSaved, s)
       | Inr fs \<Rightarrow> (Inr (), s\<lparr>cr_files := fs, cr_trace := cr_trace s @ [Saved (cr_state s)]\<rparr>))"

definition update_state :: "('id state \<Rightarrow> 'id state) \<Rightarrow> ('id, 'pop, unit) creation" where
  "update_state f s = (Inr (), s\<lparr>cr_state := f (cr_state s)\<rparr>)"

definition read_state :: "('id, 'pop, 'id state) creation" where
  "read_state s = (Inr (cr_state s), s)"

section \<open>Issuing\<close>

definition issue_attempts :: nat where "issue_attempts = 5"

definition issue_backoff :: nat where "issue_backoff = 3"

text \<open>The subnets the rebuilt wallet is asked to know: those recorded so far.\<close>

definition wallet_subnets :: "'id id_codec \<Rightarrow> 'id state \<Rightarrow> 'id list" where
  "wallet_subnets codec s = filter (\<lambda>i. i \<noteq> id_empty codec)
     ([st_ManagerSubnetID s, st_OracleSubnetID s, st_SubnetID s]
       @ map (\<lambda>nr. cr_SubnetID (snd nr)) (sort_key fst (st_Chains s)))"

fun issue_loop ::
  "('id, 'nid, 'pop, 'key) creation_env \<Rightarrow> ('id, 'pop) create_tx \<Rightarrow> nat \<Rightarrow> nat \<Rightarrow> ('id, 'pop, 'id) creation" where
  "issue_loop env tx 0 backoff s = (Inl IssueFailed, s)"
| "issue_loop env tx (Suc n) backoff s =
    (let subnets = wallet_subnets (ce_codec env) (cr_state s); a = ce_answer env (cr_trace s);
         t = s\<lparr>cr_trace := cr_trace s @ [Issued tx subnets a]\<rparr> in
     case a of Accepted i \<Rightarrow> (Inr i, t)
     | _ \<Rightarrow> if n = 0 then (Inl IssueFailed, t)
        else if ce_cancelled env (cr_trace t) then (Inl IssueCancelled, t)
        else issue_loop env tx n (2 * backoff) (t\<lparr>cr_trace := cr_trace t @ [Waited backoff]\<rparr>))"

definition issue_tx ::
  "('id, 'nid, 'pop, 'key) creation_env \<Rightarrow> ('id, 'pop) create_tx \<Rightarrow> ('id, 'pop, 'id) creation" where
  "issue_tx env tx = issue_loop env tx issue_attempts issue_backoff"

text \<open>A transaction, its ID into the state, and the state into the file.\<close>

definition step_tx ::
  "('id, 'nid, 'pop, 'key) creation_env \<Rightarrow> ('id, 'pop) create_tx \<Rightarrow> ('id \<Rightarrow> 'id state \<Rightarrow> 'id state)
   \<Rightarrow> ('id, 'pop, 'id) creation" where
  "step_tx env tx record_id = cbind (issue_tx env tx) (\<lambda>i. cbind (update_state (record_id i)) (\<lambda>_.
     cbind (save env) (\<lambda>_. ret i)))"

section \<open>Validators\<close>

definition conversion_validator ::
  "('nid \<Rightarrow> byte_string) \<Rightarrow> (string \<Rightarrow> u64) \<Rightarrow> string \<Rightarrow> ('nid, 'pop) identity
   \<Rightarrow> create_error + 'pop conversion_validator" where
  "conversion_validator bytes weight owner g = (case id_Proof g of
      None \<Rightarrow> Inl (NoProof (id_Name g))
    | Some proof \<Rightarrow> Inr \<lparr>cv_NodeID = bytes (id_NodeID g), cv_Weight = weight (id_Name g),
        cv_Balance = initial_balance, cv_Signer = proof, cv_Owner = owner\<rparr>)"

definition node_id_less :: "'pop conversion_validator \<Rightarrow> 'pop conversion_validator \<Rightarrow> bool" where
  "node_id_less a b \<longleftrightarrow> cv_NodeID a < cv_NodeID b"

definition conversion_validators ::
  "('nid \<Rightarrow> byte_string) \<Rightarrow> (string \<Rightarrow> u64) \<Rightarrow> string \<Rightarrow> ('nid, 'pop) identity list
   \<Rightarrow> create_error + 'pop conversion_validator list" where
  "conversion_validators bytes weight owner identities =
    rbind (rmap (conversion_validator bytes weight owner) identities) (\<lambda>vs. Inr (go_sort node_id_less vs))"

text \<open>The weights of a chain's validators by identity; an unknown identity reads as 0.\<close>

definition read_weight :: "(string \<rightharpoonup> u64) \<Rightarrow> string \<Rightarrow> u64" where
  "read_weight m k = (case m k of None \<Rightarrow> 0 | Some w \<Rightarrow> w)"

definition chain_weights :: "'pop public \<Rightarrow> string \<Rightarrow> string \<Rightarrow> u64" where
  "chain_weights public chain = read_weight (index_by pn_Identity pn_Weight
     (filter (\<lambda>n. pn_Role n = RoleValidator \<and> chain_name n = chain) (Nodes public)))"

definition chain_identities :: "('nid, 'pop) identity_set \<Rightarrow> string \<Rightarrow> ('nid, 'pop) identity list" where
  "chain_identities s chain = filter (\<lambda>g. id_Role g = RoleValidator \<and> id_Chain g = chain) (set_Nodes s)"

definition chain_validators ::
  "('id, 'nid, 'pop, 'key) creation_env \<Rightarrow> 'pop public \<Rightarrow> ('nid, 'pop) identity_set \<Rightarrow> string \<Rightarrow> string
   \<Rightarrow> create_error + 'pop conversion_validator list" where
  "chain_validators env public identities owner chain = conversion_validators (ce_node_bytes env)
     (chain_weights public chain) owner (chain_identities identities chain)"

definition manager_validators ::
  "('id, 'nid, 'pop, 'key) creation_env \<Rightarrow> 'pop public \<Rightarrow> ('nid, 'pop) identity_set \<Rightarrow> string
   \<Rightarrow> create_error + 'pop conversion_validator list" where
  "manager_validators env public identities owner = conversion_validators (ce_node_bytes env)
     (read_weight (index_by pm_Identity pm_Weight (Managers public))) owner (set_Manager identities)"

section \<open>The chains\<close>

definition create_manager ::
  "('id, 'nid, 'pop, 'key) creation_env \<Rightarrow> 'pop public \<Rightarrow> ('nid, 'pop) identity_set \<Rightarrow> string \<Rightarrow> string
   \<Rightarrow> ('id, 'pop, unit) creation" where
  "create_manager env public identities owner genesis =
    cbind (step_tx env (CreateSubnetTx owner) (\<lambda>i st. st\<lparr>st_ManagerSubnetID := i\<rparr>)) (\<lambda>subnetID.
    cbind (step_tx env (CreateChainTx subnetID genesis ''management'') (\<lambda>i st. st\<lparr>st_ManagerChainID := i\<rparr>)) (\<lambda>chainID.
    cbind (check (manager_validators env public identities owner)) (\<lambda>validators.
    cbind (step_tx env (ConvertTx subnetID chainID manager_address validators)
        (\<lambda>i st. st\<lparr>st_ManagerConvertTxID := i\<rparr>)) (\<lambda>_. ret ()))))"

definition create_oracle ::
  "('id, 'nid, 'pop, 'key) creation_env \<Rightarrow> 'pop public \<Rightarrow> ('nid, 'pop) identity_set \<Rightarrow> string \<Rightarrow> string
   \<Rightarrow> ('id, 'pop, unit) creation" where
  "create_oracle env public identities owner genesis =
    cbind (write_genesis (ce_out env) ''genesis-oracle.json'' genesis) (\<lambda>_.
    cbind (step_tx env (CreateSubnetTx owner) (\<lambda>i st. st\<lparr>st_OracleSubnetID := i\<rparr>)) (\<lambda>subnetID.
    cbind (step_tx env (CreateChainTx subnetID genesis ''oracle'') (\<lambda>i st. st\<lparr>st_OracleChainID := i\<rparr>)) (\<lambda>_.
    cbind (check (chain_validators env public identities owner oracle_chain)) (\<lambda>validators.
    cbind read_state (\<lambda>st.
    cbind (step_tx env (ConvertTx subnetID (st_ManagerChainID st) manager_address validators)
        (\<lambda>i st. st\<lparr>st_OracleConvertTxID := i\<rparr>)) (\<lambda>_. ret ()))))))"

definition set_record :: "string \<Rightarrow> 'id chain_record \<Rightarrow> 'id state \<Rightarrow> 'id state" where
  "set_record chain record st = (if chain = main_chain
     then st\<lparr>st_SubnetID := cr_SubnetID record, st_ChainID := cr_ChainID record,
             st_ConvertTxID := cr_ConvertTxID record\<rparr>
     else st\<lparr>st_Chains := AList.update chain record (st_Chains st)\<rparr>)"

definition chain_tx_name :: "string \<Rightarrow> string" where
  "chain_tx_name chain = (if chain = main_chain then ''benchmark'' else chain)"

definition create_chain ::
  "('id, 'nid, 'pop, 'key) creation_env \<Rightarrow> 'pop public \<Rightarrow> ('nid, 'pop) identity_set \<Rightarrow> string
   \<Rightarrow> (string \<Rightarrow> string) \<Rightarrow> string \<Rightarrow> ('id, 'pop, unit) creation" where
  "create_chain env public identities owner genesisByChain chain = (let e = id_empty (ce_codec env) in
    cbind (check (chain_validators env public identities owner chain)) (\<lambda>validators.
    cbind (step_tx env (CreateSubnetTx owner)
        (\<lambda>i. set_record chain \<lparr>cr_SubnetID = i, cr_ChainID = e, cr_ConvertTxID = e\<rparr>)) (\<lambda>subnetID.
    cbind (step_tx env (CreateChainTx subnetID (genesisByChain chain) (chain_tx_name chain))
        (\<lambda>i. set_record chain \<lparr>cr_SubnetID = subnetID, cr_ChainID = i, cr_ConvertTxID = e\<rparr>)) (\<lambda>chainID.
    cbind read_state (\<lambda>st.
    cbind (step_tx env (ConvertTx subnetID (st_ManagerChainID st) manager_address validators)
        (\<lambda>i. set_record chain \<lparr>cr_SubnetID = subnetID, cr_ChainID = chainID, cr_ConvertTxID = i\<rparr>))
      (\<lambda>_. ret ()))))))"

section \<open>The command\<close>

definition evm_chains :: "'pop public \<Rightarrow> string list" where
  "evm_chains public = filter (\<lambda>c. c \<noteq> oracle_chain) (public_chains public)"

definition render_chain ::
  "('id, 'nid, 'pop, 'key) creation_env \<Rightarrow> file_system \<Rightarrow> 'pop public \<Rightarrow> string \<Rightarrow> create_error + string" where
  "render_chain env fs public chain =
    rbind (map_sum CreateTemplate id (read_template fs (chain_template_path fs chain))) (\<lambda>template.
    rbind (map_sum CreateGenesis id (render_genesis (ce_json env) (ce_hex env) template
        [ce_address env (GenesisAddress public), ce_address env (FeederAddress public)] [] None (ce_now env)))
      (\<lambda>doc. Inr (ce_render env doc)))"

definition render_management ::
  "('id, 'nid, 'pop, 'key) creation_env \<Rightarrow> file_system \<Rightarrow> 'pop public \<Rightarrow> create_error + string" where
  "render_management env fs public =
    rbind (map_sum CreateTemplate id (read_template fs (chain_template_path fs main_chain))) (\<lambda>template.
    rbind (map_sum CreateGenesis id (render_genesis (ce_json env) (ce_hex env) template
        [ce_address env (GenesisAddress public)] [] None (ce_now env))) (\<lambda>doc. Inr (ce_render env doc)))"

definition render_oracle ::
  "('id, 'nid, 'pop, 'key) creation_env \<Rightarrow> file_system \<Rightarrow> 'pop public \<Rightarrow> create_error + string" where
  "render_oracle env fs public = (let feeder = ce_address env (FeederAddress public) in
    rbind (map_sum CreateTemplate id (read_template fs (chain_template_path fs oracle_chain))) (\<lambda>template.
    rbind (map_sum CreateGenesis id (render_genesis (ce_json env) (ce_hex env) template
        [ce_address env (GenesisAddress public), feeder]
        [oracle_aggregator_allocation (ce_code env) feeder] (Some feeder) (ce_now env)))
      (\<lambda>doc. Inr (ce_render env doc))))"

text \<open>The genesis of one chain: the file must be missing, and is written.\<close>

definition publish_chain ::
  "('id, 'nid, 'pop, 'key) creation_env \<Rightarrow> file_system \<Rightarrow> 'pop public \<Rightarrow> string \<Rightarrow> ('id, 'pop, unit) creation" where
  "publish_chain env root public chain =
    cbind (missing (ce_out env @ [genesis_file_name chain])) (\<lambda>_.
    cbind (check (render_chain env root public chain)) (\<lambda>genesis.
      write_genesis (ce_out env) (genesis_file_name chain) genesis))"

definition fresh_state :: "('id, 'nid, 'pop, 'key) creation_env \<Rightarrow> string \<Rightarrow> 'pop public \<Rightarrow> 'id state" where
  "fresh_state env network public = (let e = id_empty (ce_codec env) in
    \<lparr>st_Network = network, st_ManagerSubnetID = e, st_ManagerChainID = e, st_ManagerConvertTxID = e,
     st_OracleSubnetID = e, st_OracleChainID = e, st_OracleConvertTxID = e,
     st_SubnetID = e, st_ChainID = e, st_ConvertTxID = e, st_Chains = [],
     st_ManagerAddress = ce_hex env manager_address, st_GenesisEVMAddress = GenesisAddress public,
     st_FeederEVMAddress = FeederAddress public,
     st_OracleAggregatorAddress = (if has_oracle public then ce_hex env aggregator_address else []),
     st_OracleReceiverAddress = (if has_oracle public then ce_hex env receiver_address else []),
     st_PriceFeedAddress = ce_hex env price_feed_address,
     st_PriceFeedAggregatorAddress = ce_hex env price_feed_aggregator_address\<rparr>)"

text \<open>\<open>root\<close> is the repository's tree, from which the templates are read.\<close>

definition create_network ::
  "('id, 'nid, 'pop, 'key) creation_env \<Rightarrow> environment \<Rightarrow> 'pop public \<Rightarrow> file_system \<Rightarrow> ('id, 'pop, unit) creation" where
  "create_network env environment public root =
    cbind (check (map_sum FundingPreflight id (parse_private_key (ce_keys env) (FundingPrivateKey environment)))) (\<lambda>key.
    let owner = short_id (ce_keys env) key;
        genesisByChain = (\<lambda>c. case render_chain env root public c of Inr g \<Rightarrow> g | Inl _ \<Rightarrow> []) in
    cbind (check (render_management env root public)) (\<lambda>management.
    cbind (check (if has_oracle public then render_oracle env root public else Inr [])) (\<lambda>oracleGenesis.
    cbind (check (map_sum CreateIdentities id (public_identity_set (ce_platform env) public))) (\<lambda>identities.
    cbind (check (map_sum CreateTemplate id (validate_distinct_chain_ids (ce_json env) root (public_chains public)))) (\<lambda>_.
    cbind (missing (ce_out env @ [''genesis-oracle.json''])) (\<lambda>_.
    cbind (cfor (publish_chain env root public) (evm_chains public)) (\<lambda>_.
    cbind (update_state (\<lambda>_. fresh_state env (Network environment) public)) (\<lambda>_.
    cbind (save env) (\<lambda>_.
    cbind (create_manager env public identities owner management) (\<lambda>_.
    cbind (if has_oracle public then create_oracle env public identities owner oracleGenesis else ret ()) (\<lambda>_.
      cfor (create_chain env public identities owner genesisByChain) (evm_chains public))))))))))))"

definition required_fresh_create_balance :: "'pop public \<Rightarrow> u64" where
  "required_fresh_create_balance public =
    word_of_nat (length (filter (\<lambda>n. pn_Role n = RoleValidator) (Nodes public)) + length (Managers public))
      * initial_balance + creation_fee_reserve"

definition funding_preflight ::
  "('id, 'nid, 'pop, 'key) creation_env \<Rightarrow> environment \<Rightarrow> 'pop public \<Rightarrow> create_error + unit" where
  "funding_preflight env environment public = (case inspect_funds (ce_keys env) environment of
      Inl e \<Rightarrow> Inl (FundingPreflight e)
    | Inr i \<Rightarrow> if info_Balance i < required_fresh_create_balance public
        then Inl (InsufficientFunds (info_Balance i) (required_fresh_create_balance public)) else Inr ())"

definition load_manifest ::
  "('id, 'nid, 'pop, 'key) creation_env \<Rightarrow> (string \<Rightarrow> 'pop public option) \<Rightarrow> file_system
   \<Rightarrow> create_error + 'pop public" where
  "load_manifest env decode fs = (case fs (ce_out env @ [''public.json'']) of
      Some (File contents) \<Rightarrow> map_sum CreateManifest id (load_public (ce_platform env) decode contents)
    | _ \<Rightarrow> Inl CreateManifestUnread)"

definition create_command ::
  "('id, 'nid, 'pop, 'key) creation_env \<Rightarrow> environment \<Rightarrow> (string \<Rightarrow> 'pop public option)
   \<Rightarrow> ('id, 'pop, unit) creation" where
  "create_command env environment decode s =
    cbind (missing (state_path (ce_out env))) (\<lambda>_.
    cbind (check (load_manifest env decode (cr_files s))) (\<lambda>public.
    cbind (cfor (\<lambda>c. missing (ce_out env @ [genesis_file_name c])) (public_chains public)) (\<lambda>_.
    cbind (check (funding_preflight env environment public)) (\<lambda>_.
      create_network env environment public (cr_files s))))) s"

end
