(* ===== verification/Creation_Plan.thy ===== *)
theory Creation_Plan
  imports Creation
begin

text \<open>
  What a creation does, whatever the network answers: the plan of transactions (\<open>planned_tx\<close>), the
  invariant that ties the trace, the state and the state file together (\<open>creating\<close>), and the
  triples that carry it through the command.
\<close>

section \<open>Triples\<close>

text \<open>From \<open>P\<close>, a run of \<open>m\<close> ends in \<open>Q\<close> with its result, or fails in \<open>E\<close>.\<close>

definition triple ::
  "(('id, 'pop) creation_run \<Rightarrow> bool) \<Rightarrow> ('id, 'pop, 'a) creation \<Rightarrow>
   ('a \<Rightarrow> ('id, 'pop) creation_run \<Rightarrow> bool) \<Rightarrow> (('id, 'pop) creation_run \<Rightarrow> bool) \<Rightarrow> bool" where
  "triple P m Q E \<longleftrightarrow> (\<forall>s. P s \<longrightarrow> (case m s of (Inl e, t) \<Rightarrow> E t | (Inr x, t) \<Rightarrow> Q x t))"

lemma triple_bind: "triple P m R E \<Longrightarrow> (\<And>x. triple (R x) (f x) Q E) \<Longrightarrow> triple P (cbind m f) Q E"
  unfolding triple_def cbind_def by (fastforce split: prod.splits sum.splits)

lemma triple_ret: "(\<And>s. P s \<Longrightarrow> Q x s) \<Longrightarrow> triple P (ret x) Q E"
  by (simp add: triple_def ret_def)

lemma triple_check:
  "(\<And>s x. P s \<Longrightarrow> r = Inr x \<Longrightarrow> Q x s) \<Longrightarrow> (\<And>s. P s \<Longrightarrow> E s) \<Longrightarrow> triple P (check r) Q E"
  by (auto simp: triple_def check_def split: sum.splits)

lemma triple_pre: "triple P' m Q E \<Longrightarrow> (\<And>s. P s \<Longrightarrow> P' s) \<Longrightarrow> triple P m Q E"
  by (simp add: triple_def)

lemma triple_post: "triple P m Q' E \<Longrightarrow> (\<And>x s. Q' x s \<Longrightarrow> Q x s) \<Longrightarrow> triple P m Q E"
  unfolding triple_def by (fastforce split: prod.splits sum.splits)

lemma triple_ex:
  assumes "\<And>ids. triple (P ids) m Q E"
  shows "triple (\<lambda>s. \<exists>ids. P ids s) m Q E"
  unfolding triple_def
proof (intro allI impI)
  fix s assume "\<exists>ids. P ids s"
  then obtain ids where "P ids s" by blast
  then show "case m s of (Inl e, t) \<Rightarrow> E t | (Inr x, t) \<Rightarrow> Q x t"
    using assms [of ids] unfolding triple_def by simp
qed

lemma triple_for:
  assumes "\<And>k. k < length xs \<Longrightarrow> triple (I k) (f (xs ! k)) (\<lambda>_. I (Suc k)) E"
  shows "triple (I 0) (cfor f xs) (\<lambda>_. I (length xs)) E"
  using assms
proof (induction xs arbitrary: I)
  case Nil
  show ?case by (simp add: triple_ret)
next
  case (Cons x xs)
  show ?case unfolding cfor.simps
  proof (rule triple_bind)
    show "triple (I 0) (f x) (\<lambda>_. I 1) E" using Cons.prems [of 0] by simp
    show "triple (I 1) (cfor f xs) (\<lambda>_. I (length (x # xs))) E"
      using Cons.IH [of "\<lambda>k. I (Suc k)"] Cons.prems [of "Suc _"] by simp
  qed
qed

section \<open>The plan\<close>

record 'pop plan_block =
  pb_Chain :: string
  pb_Genesis :: string
  pb_Name :: string
  pb_Validators :: "'pop conversion_validator list"

text \<open>Transaction \<open>j\<close> of the plan, in terms of the IDs accepted before it.\<close>

definition planned_tx :: "string \<Rightarrow> 'pop plan_block list \<Rightarrow> 'id list \<Rightarrow> nat \<Rightarrow> ('id, 'pop) create_tx" where
  "planned_tx owner blocks ids j = (let b = blocks ! (j div 3); subnet = ids ! (3 * (j div 3)) in
     if j mod 3 = 0 then CreateSubnetTx owner
     else if j mod 3 = 1 then CreateChainTx subnet (pb_Genesis b) (pb_Name b)
     else ConvertTx subnet (ids ! 1) manager_address (pb_Validators b))"

text \<open>What the state records of a chain: its subnet, chain and conversion IDs.\<close>

definition management :: string where "management = ''management''"

definition part_of :: "nat \<Rightarrow> 'id \<Rightarrow> 'id \<Rightarrow> 'id \<Rightarrow> 'id" where
  "part_of p a b c = (if p = 0 then a else if p = 1 then b else c)"

definition recorded :: "'id id_codec \<Rightarrow> 'id state \<Rightarrow> string \<Rightarrow> nat \<Rightarrow> 'id" where
  "recorded codec st c p =
    (if c = management then part_of p (st_ManagerSubnetID st) (st_ManagerChainID st) (st_ManagerConvertTxID st)
     else if c = oracle_chain then part_of p (st_OracleSubnetID st) (st_OracleChainID st) (st_OracleConvertTxID st)
     else if c = main_chain then part_of p (st_SubnetID st) (st_ChainID st) (st_ConvertTxID st)
     else case map_of (st_Chains st) c of None \<Rightarrow> id_empty codec
       | Some r \<Rightarrow> part_of p (cr_SubnetID r) (cr_ChainID r) (cr_ConvertTxID r))"

definition id_at :: "'id id_codec \<Rightarrow> 'id list \<Rightarrow> nat \<Rightarrow> 'id" where
  "id_at codec ids j = (if j < length ids then ids ! j else id_empty codec)"

text \<open>The fields that no transaction changes.\<close>

definition same_settings :: "'id state \<Rightarrow> 'id state \<Rightarrow> bool" where
  "same_settings st base \<longleftrightarrow> st_Network st = st_Network base \<and> st_ManagerAddress st = st_ManagerAddress base
    \<and> st_GenesisEVMAddress st = st_GenesisEVMAddress base \<and> st_FeederEVMAddress st = st_FeederEVMAddress base
    \<and> st_OracleAggregatorAddress st = st_OracleAggregatorAddress base
    \<and> st_OracleReceiverAddress st = st_OracleReceiverAddress base
    \<and> st_PriceFeedAddress st = st_PriceFeedAddress base
    \<and> st_PriceFeedAggregatorAddress st = st_PriceFeedAggregatorAddress base"

text \<open>The state records exactly the accepted IDs, each under the chain it belongs to.\<close>

definition records_ids ::
  "'id id_codec \<Rightarrow> 'id state \<Rightarrow> 'pop plan_block list \<Rightarrow> 'id list \<Rightarrow> 'id state \<Rightarrow> bool" where
  "records_ids codec base blocks ids st \<longleftrightarrow> same_settings st base
    \<and> (\<forall>k < length blocks. \<forall>p < 3. recorded codec st (pb_Chain (blocks ! k)) p = id_at codec ids (3 * k + p))
    \<and> (\<forall>c. c \<notin> pb_Chain ` set blocks \<longrightarrow> (\<forall>p < 3. recorded codec st c p = id_empty codec))
    \<and> distinct (map fst (st_Chains st))
    \<and> fst ` set (st_Chains st) \<subseteq> pb_Chain ` set blocks - {management, oracle_chain, main_chain}"

section \<open>Traces\<close>

text \<open>What is written before transaction \<open>j\<close>: the genesis of every chain but the management and the oracle
  chain, and that of the oracle chain from its own first transaction on. The file holds the bytes that
  the chain is created with. The management chain has no genesis file.\<close>

definition published :: "'pop plan_block list \<Rightarrow> nat \<Rightarrow> ('id, 'pop) create_event list \<Rightarrow> bool" where
  "published blocks j tr \<longleftrightarrow> (\<forall>k < length blocks. pb_Chain (blocks ! k) \<noteq> management
     \<and> (pb_Chain (blocks ! k) = oracle_chain \<longrightarrow> 3 * k \<le> j) \<longrightarrow>
     WroteGenesis (genesis_file_name (pb_Chain (blocks ! k))) (pb_Genesis (blocks ! k)) \<in> set tr)"

lemma published_append [simp]: "published blocks j tr \<Longrightarrow> published blocks j (tr @ evs)"
  by (auto simp: published_def)

lemma published_within:
  assumes "published blocks j tr" "j' div 3 = j div 3"
  shows "published blocks j' tr"
proof -
  have third: "3 * k \<le> i \<longleftrightarrow> k \<le> i div 3" for k i :: nat
    by (simp add: less_eq_div_iff_mult_less_eq mult.commute)
  have "(3 * k \<le> j') = (3 * k \<le> j)" for k unfolding third assms(2) ..
  with assms(1) show ?thesis unfolding published_def by simp
qed

lemma published_next:
  assumes "published blocks (3 * k - 1) tr" "pb_Chain (blocks ! k) \<noteq> oracle_chain"
  shows "published blocks (3 * k) tr"
  unfolding published_def
proof (intro allI impI, elim conjE)
  fix k' assume k': "k' < length blocks" "pb_Chain (blocks ! k') \<noteq> management"
    "pb_Chain (blocks ! k') = oracle_chain \<longrightarrow> 3 * k' \<le> 3 * k"
  with assms(2) have "pb_Chain (blocks ! k') = oracle_chain \<longrightarrow> 3 * k' \<le> 3 * k - 1"
    by (cases "k' = k") auto
  with k' assms(1) show "WroteGenesis (genesis_file_name (pb_Chain (blocks ! k'))) (pb_Genesis (blocks ! k')) \<in> set tr"
    by (simp add: published_def)
qed

fun accepted_of :: "('id, 'pop) create_event \<Rightarrow> (('id, 'pop) create_tx \<times> 'id) list" where
  "accepted_of (Issued tx subnets (Accepted i)) = [(tx, i)]"
| "accepted_of _ = []"

definition accepted :: "('id, 'pop) create_event list \<Rightarrow> (('id, 'pop) create_tx \<times> 'id) list" where
  "accepted tr = concat (map accepted_of tr)"

definition accepted_ids :: "('id, 'pop) create_event list \<Rightarrow> 'id list" where
  "accepted_ids tr = map snd (accepted tr)"

definition last_saved :: "('id, 'pop) create_event list \<Rightarrow> 'id state option" where
  "last_saved tr = foldl (\<lambda>m e. case e of Saved st \<Rightarrow> Some st | _ \<Rightarrow> m) None tr"

text \<open>An attempt is in order when it issues the next transaction of the plan, with the genesis files
  written that belong before it, after a save that records every ID accepted before it, with a wallet
  that knows those subnets.\<close>

definition in_order ::
  "('id, 'nid, 'pop, 'key) creation_env \<Rightarrow> string \<Rightarrow> 'id state \<Rightarrow> 'pop plan_block list \<Rightarrow> ('id, 'pop) create_event list
   \<Rightarrow> ('id, 'pop) create_event \<Rightarrow> bool" where
  "in_order env owner base blocks tr e \<longleftrightarrow> (case e of
      Issued tx subnets a \<Rightarrow> (let ids = accepted_ids tr in length ids < 3 * length blocks \<and> published blocks (length ids) tr
        \<and> tx = planned_tx owner blocks ids (length ids) \<and> a = ce_answer env tr
        \<and> (\<exists>st. last_saved tr = Some st \<and> records_ids (ce_codec env) base blocks ids st
              \<and> subnets = wallet_subnets (ce_codec env) st))
    | _ \<Rightarrow> True)"

definition orderly ::
  "('id, 'nid, 'pop, 'key) creation_env \<Rightarrow> string \<Rightarrow> 'id state \<Rightarrow> 'pop plan_block list \<Rightarrow> ('id, 'pop) create_event list \<Rightarrow> bool" where
  "orderly env owner base blocks tr \<longleftrightarrow>
    list_all (\<lambda>k. in_order env owner base blocks (take k tr) (tr ! k)) [0..<length tr]"

lemma orderly_snoc [simp]:
  "orderly env owner base blocks (tr @ [e]) \<longleftrightarrow>
   orderly env owner base blocks tr \<and> in_order env owner base blocks tr e"
  by (auto simp: orderly_def list_all_iff nth_append less_Suc_eq)

lemma orderly_Nil [simp]: "orderly env owner base blocks []"
  by (simp add: orderly_def)

lemma accepted_ids_snoc [simp]: "accepted_ids (tr @ [e]) = accepted_ids tr @ map snd (accepted_of e)"
  by (simp add: accepted_ids_def accepted_def)

lemma accepted_ids_Nil [simp]: "accepted_ids [] = []"
  by (simp add: accepted_ids_def accepted_def)

lemma last_saved_snoc [simp]:
  "last_saved (tr @ [e]) = (case e of Saved st \<Rightarrow> Some st | _ \<Rightarrow> last_saved tr)"
  by (cases e) (simp_all add: last_saved_def)

text \<open>The same for two events, as the simplifier leaves them.\<close>

lemma snoc_two [simp]:
  "orderly env owner base blocks (tr @ [e, f]) \<longleftrightarrow> orderly env owner base blocks tr
     \<and> in_order env owner base blocks tr e \<and> in_order env owner base blocks (tr @ [e]) f"
  "accepted_ids (tr @ [e, f]) = accepted_ids tr @ map snd (accepted_of e) @ map snd (accepted_of f)"
  "last_saved (tr @ [e, f]) = (case f of Saved st \<Rightarrow> Some st | _ \<Rightarrow> last_saved (tr @ [e]))"
  using orderly_snoc [of env owner base blocks "tr @ [e]" f] accepted_ids_snoc [of "tr @ [e]" f]
    last_saved_snoc [of "tr @ [e]" f] by (simp_all del: last_saved_snoc)

section \<open>One transaction\<close>

text \<open>Between two transactions: the trace is in order, and the state, the last save and the state file
  record exactly the accepted IDs.\<close>

definition creating ::
  "('id, 'nid, 'pop, 'key) creation_env \<Rightarrow> string \<Rightarrow> 'id state \<Rightarrow> 'pop plan_block list \<Rightarrow> 'id list
   \<Rightarrow> ('id, 'pop) creation_run \<Rightarrow> bool" where
  "creating env owner base blocks ids s \<longleftrightarrow> orderly env owner base blocks (cr_trace s)
    \<and> published blocks (length ids - 1) (cr_trace s) \<and> accepted_ids (cr_trace s) = ids \<and> last_saved (cr_trace s) = Some (cr_state s)
    \<and> records_ids (ce_codec env) base blocks ids (cr_state s)
    \<and> cr_files s (state_path (ce_out env)) = Some (File (save_state (ce_codec env) (cr_state s)))"

text \<open>Moreover the genesis files that belong before the next transaction are written.\<close>

definition ready ::
  "('id, 'nid, 'pop, 'key) creation_env \<Rightarrow> string \<Rightarrow> 'id state \<Rightarrow> 'pop plan_block list \<Rightarrow> 'id list
   \<Rightarrow> ('id, 'pop) creation_run \<Rightarrow> bool" where
  "ready env owner base blocks ids s \<longleftrightarrow> creating env owner base blocks ids s
    \<and> published blocks (length ids) (cr_trace s)"

definition in_plan ::
  "('id, 'nid, 'pop, 'key) creation_env \<Rightarrow> string \<Rightarrow> 'id state \<Rightarrow> 'pop plan_block list
   \<Rightarrow> ('id, 'pop) creation_run \<Rightarrow> bool" where
  "in_plan env owner base blocks s \<longleftrightarrow> orderly env owner base blocks (cr_trace s)"

lemma creating_in_plan: "creating env owner base blocks ids s \<Longrightarrow> in_plan env owner base blocks s"
  by (simp add: creating_def in_plan_def)

lemma ready_within:
  assumes "creating env owner base blocks ids s" "(length ids - 1) div 3 = length ids div 3"
  shows "ready env owner base blocks ids s"
  using assms published_within [of blocks "length ids - 1" "cr_trace s" "length ids"]
  by (simp add: ready_def creating_def)

lemma ready_next:
  assumes "creating env owner base blocks ids s" "length ids = 3 * k" "pb_Chain (blocks ! k) \<noteq> oracle_chain"
  shows "ready env owner base blocks ids s"
  using assms published_next [of blocks k "cr_trace s"] by (simp add: ready_def creating_def)

lemma in_order_other [simp]:
  "in_order env owner base blocks tr (Waited b)" "in_order env owner base blocks tr (Saved st)"
  "in_order env owner base blocks tr (WroteGenesis g c)"
  by (simp_all add: in_order_def)

lemma issue_loop_rule:
  assumes "tx = planned_tx owner blocks ids (length ids)" and "length ids < 3 * length blocks"
  shows "triple (ready env owner base blocks ids) (issue_loop env tx n backoff)
    (\<lambda>i s. orderly env owner base blocks (cr_trace s) \<and> published blocks (length ids) (cr_trace s)
      \<and> accepted_ids (cr_trace s) = ids @ [i]
      \<and> records_ids (ce_codec env) base blocks ids (cr_state s)) (in_plan env owner base blocks)"
proof (induction n arbitrary: backoff)
  case 0
  show ?case by (auto simp: triple_def ready_def intro: creating_in_plan)
next
  case (Suc n)
  have next_ok: "in_order env owner base blocks (cr_trace s)
      (Issued tx (wallet_subnets (ce_codec env) (cr_state s)) (ce_answer env (cr_trace s)))"
    if "ready env owner base blocks ids s" for s
    using that assms by (auto simp: in_order_def creating_def ready_def)
  show ?case
    unfolding triple_def
  proof (intro allI impI)
    fix s assume s: "ready env owner base blocks ids s"
    let ?a = "ce_answer env (cr_trace s)"
    let ?t = "s\<lparr>cr_trace := cr_trace s @ [Issued tx (wallet_subnets (ce_codec env) (cr_state s)) ?a]\<rparr>"
    let ?w = "?t\<lparr>cr_trace := cr_trace ?t @ [Waited backoff]\<rparr>"
    show "case issue_loop env tx (Suc n) backoff s of
        (Inl e, t) \<Rightarrow> in_plan env owner base blocks t
      | (Inr i, s) \<Rightarrow> orderly env owner base blocks (cr_trace s) \<and> published blocks (length ids) (cr_trace s)
      \<and> accepted_ids (cr_trace s) = ids @ [i]
          \<and> records_ids (ce_codec env) base blocks ids (cr_state s)"
    proof (cases "\<exists>i. ?a = Accepted i")
      case True
      then show ?thesis using s next_ok [OF s] by (auto simp: creating_def ready_def Let_def)
    next
      case False
      then have a: "?a = WalletFailed \<or> ?a = BuildFailed" by (cases ?a) auto
      then have "ready env owner base blocks ids ?w" "in_plan env owner base blocks ?t"
        using s next_ok [OF s] by (auto simp: creating_def ready_def in_plan_def)
      then show ?thesis using a Suc.IH [of "2 * backoff"] by (auto simp: triple_def Let_def)
    qed
  qed
qed

lemma write_file_at: "write_file fs p c = Inr fs' \<Longrightarrow> fs' = fs(p \<mapsto> File c)"
  by (auto simp: write_file_def split: if_splits)

lemma step_tx_rule:
  assumes "tx = planned_tx owner blocks ids (length ids)" and "length ids < 3 * length blocks"
    and "\<And>i st. records_ids (ce_codec env) base blocks ids st \<Longrightarrow>
      records_ids (ce_codec env) base blocks (ids @ [i]) (f i st)"
  shows "triple (ready env owner base blocks ids) (step_tx env tx f)
    (\<lambda>i. creating env owner base blocks (ids @ [i])) (in_plan env owner base blocks)"
  unfolding step_tx_def issue_tx_def
proof (rule triple_bind [OF issue_loop_rule [OF assms(1,2)]])
  fix i
  let ?P = "\<lambda>s. orderly env owner base blocks (cr_trace s) \<and> published blocks (length ids) (cr_trace s)
      \<and> accepted_ids (cr_trace s) = ids @ [i]
      \<and> records_ids (ce_codec env) base blocks ids (cr_state s)"
  let ?Q = "\<lambda>s. orderly env owner base blocks (cr_trace s) \<and> published blocks (length ids) (cr_trace s)
      \<and> accepted_ids (cr_trace s) = ids @ [i]
      \<and> records_ids (ce_codec env) base blocks (ids @ [i]) (cr_state s)"
  show "triple ?P (cbind (update_state (f i)) (\<lambda>_. cbind (save env) (\<lambda>_. ret i)))
      (\<lambda>i. creating env owner base blocks (ids @ [i])) (in_plan env owner base blocks)"
  proof (rule triple_bind)
    show "triple ?P (update_state (f i)) (\<lambda>_. ?Q) (in_plan env owner base blocks)"
      using assms(3) by (simp add: triple_def update_state_def)
    show "triple ?Q (cbind (save env) (\<lambda>_. ret i)) (\<lambda>i. creating env owner base blocks (ids @ [i]))
        (in_plan env owner base blocks)"
    proof (rule triple_bind)
      show "triple ?Q (save env) (\<lambda>_. creating env owner base blocks (ids @ [i])) (in_plan env owner base blocks)"
        by (auto simp: triple_def save_def creating_def in_plan_def split: sum.splits dest!: write_file_at)
    qed (rule triple_ret)
  qed
qed

section \<open>Recording an ID\<close>

text \<open>An update that records \<open>i\<close> as part \<open>p\<close> of chain \<open>c\<close> and keeps everything else.\<close>

definition records_part :: "'id id_codec \<Rightarrow> string \<Rightarrow> nat \<Rightarrow> 'id \<Rightarrow> 'id state \<Rightarrow> 'id state \<Rightarrow> bool" where
  "records_part codec c p i st st' \<longleftrightarrow> same_settings st' st
    \<and> (\<forall>c' q. q < 3 \<longrightarrow> recorded codec st' c' q = (if c' = c \<and> q = p then i else recorded codec st c' q))
    \<and> (distinct (map fst (st_Chains st)) \<longrightarrow> distinct (map fst (st_Chains st')))
    \<and> fst ` set (st_Chains st') \<subseteq> fst ` set (st_Chains st) \<union> ({c} - {management, oracle_chain, main_chain})"

lemma id_at_snoc: "id_at codec (ids @ [i]) j = (if j = length ids then i else id_at codec ids j)"
  by (auto simp: id_at_def nth_append)

lemma subset_step: "A \<subseteq> B \<union> ({c} - D) \<Longrightarrow> B \<subseteq> E - D \<Longrightarrow> c \<in> E \<Longrightarrow> A \<subseteq> E - D"
  by blast

lemma records_next:
  assumes "records_ids codec base blocks ids st" and "length ids = 3 * k + p" and "p < 3" and "k < length blocks"
    and "distinct (map pb_Chain blocks)" and "records_part codec (pb_Chain (blocks ! k)) p i st st'"
  shows "records_ids codec base blocks (ids @ [i]) st'"
proof -
  let ?c = "pb_Chain (blocks ! k)"
  have mem: "?c \<in> pb_Chain ` set blocks" using assms(4) by simp
  have same: "pb_Chain (blocks ! k') = ?c \<longleftrightarrow> k' = k" if "k' < length blocks" for k'
    using nth_eq_iff_index_eq [OF assms(5)] that assms(4) by simp
  have "same_settings st' base" using assms(1,6)
    by (simp add: records_ids_def records_part_def same_settings_def)
  moreover have "recorded codec st' (pb_Chain (blocks ! k')) q = id_at codec (ids @ [i]) (3 * k' + q)"
    if "k' < length blocks" "q < 3" for k' q
  proof -
    have "3 * k' + q = 3 * k + p \<longleftrightarrow> k' = k \<and> q = p" using that(2) assms(3) by presburger
    then show ?thesis using assms(1,2,6) that same [OF that(1)]
      by (simp add: records_ids_def records_part_def id_at_snoc)
  qed
  moreover have "recorded codec st' c q = id_empty codec" if "c \<notin> pb_Chain ` set blocks" "q < 3" for c q
    using assms(1,6) that mem by (auto simp: records_ids_def records_part_def)
  moreover have "distinct (map fst (st_Chains st'))" using assms(1,6) by (simp add: records_ids_def records_part_def)
  moreover have "fst ` set (st_Chains st') \<subseteq> pb_Chain ` set blocks - {management, oracle_chain, main_chain}"
  proof (rule subset_step)
    show "fst ` set (st_Chains st') \<subseteq> fst ` set (st_Chains st) \<union> ({?c} - {management, oracle_chain, main_chain})"
      using assms(6) by (simp only: records_part_def)
    show "fst ` set (st_Chains st) \<subseteq> pb_Chain ` set blocks - {management, oracle_chain, main_chain}"
      using assms(1) by (simp only: records_ids_def)
  qed (rule mem)
  ultimately show ?thesis unfolding records_ids_def by simp
qed

lemma chain_names: "management \<noteq> oracle_chain" "management \<noteq> main_chain" "oracle_chain \<noteq> main_chain"
  by (simp_all add: management_def oracle_chain_def main_chain_def)

lemma records_named:
  "records_part codec management 0 i st (st\<lparr>st_ManagerSubnetID := i\<rparr>)"
  "records_part codec management 1 i st (st\<lparr>st_ManagerChainID := i\<rparr>)"
  "records_part codec management 2 i st (st\<lparr>st_ManagerConvertTxID := i\<rparr>)"
  "records_part codec oracle_chain 0 i st (st\<lparr>st_OracleSubnetID := i\<rparr>)"
  "records_part codec oracle_chain 1 i st (st\<lparr>st_OracleChainID := i\<rparr>)"
  "records_part codec oracle_chain 2 i st (st\<lparr>st_OracleConvertTxID := i\<rparr>)"
  using chain_names
  by (auto simp: records_part_def recorded_def part_of_def same_settings_def)

lemma part_of_part: "part_of p a b c = (if p = 0 then a else if p = 1 then b else c)"
  by (simp add: part_of_def)

lemma records_set:
  assumes "chain \<noteq> management" and "chain \<noteq> oracle_chain" and "p < 3"
    and "\<forall>q < 3. q \<noteq> p \<longrightarrow> part_of q (cr_SubnetID r) (cr_ChainID r) (cr_ConvertTxID r) = recorded codec st chain q"
    and "i = part_of p (cr_SubnetID r) (cr_ChainID r) (cr_ConvertTxID r)"
  shows "records_part codec chain p i st (set_record chain r st)"
proof -
  have at: "recorded codec (set_record chain r st) c q = (if c = chain
      then part_of q (cr_SubnetID r) (cr_ChainID r) (cr_ConvertTxID r) else recorded codec st c q)" for c q
    using assms(1,2) by (auto simp: recorded_def set_record_def update_conv')
  have "recorded codec (set_record chain r st) c q = (if c = chain \<and> q = p then i else recorded codec st c q)"
    if "q < 3" for c q using assms(4,5) that unfolding at by auto
  moreover have "same_settings (set_record chain r st) st" by (simp add: same_settings_def set_record_def)
  moreover have "fst ` set (st_Chains (set_record chain r st)) \<subseteq> fst ` set (st_Chains st)
      \<union> ({chain} - {management, oracle_chain, main_chain})"
    using assms(1,2) dom_update [of chain r "st_Chains st"]
    by (simp add: set_record_def dom_map_of_conv_image_fst)
  ultimately show ?thesis by (simp add: records_part_def set_record_def distinct_update)
qed

end
