(* ===== verification/Creation_Run.thy ===== *)
theory Creation_Run
  imports Creation_Plan
begin

text \<open>
  The creation command carries out the plan its manifest describes: the plan itself (\<open>plan_blocks\<close>), the
  triples of the three blocks, and the theorems on a whole run.
\<close>

section \<open>The plan of a manifest\<close>

definition rendered :: "create_error + string \<Rightarrow> string" where
  "rendered r = (case r of Inr g \<Rightarrow> g | Inl _ \<Rightarrow> [])"

definition planned_validator ::
  "('id, 'nid, 'pop, 'key) creation_env \<Rightarrow> string \<Rightarrow> string \<Rightarrow> u64 \<Rightarrow> 'pop option \<Rightarrow> 'pop conversion_validator" where
  "planned_validator env owner node weight signer = \<lparr>cv_NodeID = ce_node_bytes env (the (id_parse (ce_platform env) node)),
     cv_Weight = weight, cv_Balance = initial_balance, cv_Signer = the signer, cv_Owner = owner\<rparr>"

definition planned_chain ::
  "('id, 'nid, 'pop, 'key) creation_env \<Rightarrow> 'pop public \<Rightarrow> string \<Rightarrow> string \<Rightarrow> 'pop conversion_validator list" where
  "planned_chain env public owner chain = go_sort node_id_less
     (map (\<lambda>n. planned_validator env owner (pn_NodeID n) (pn_Weight n) (pn_Signer n))
       (filter (\<lambda>n. pn_Role n = RoleValidator \<and> chain_name n = chain) (Nodes public)))"

definition planned_managers ::
  "('id, 'nid, 'pop, 'key) creation_env \<Rightarrow> 'pop public \<Rightarrow> string \<Rightarrow> 'pop conversion_validator list" where
  "planned_managers env public owner = go_sort node_id_less
     (map (\<lambda>m. planned_validator env owner (pm_NodeID m) (pm_Weight m) (pm_Signer m)) (Managers public))"

definition plan_blocks ::
  "('id, 'nid, 'pop, 'key) creation_env \<Rightarrow> file_system \<Rightarrow> 'pop public \<Rightarrow> string \<Rightarrow> 'pop plan_block list" where
  "plan_blocks env root public owner =
    \<lparr>pb_Chain = management, pb_Genesis = rendered (render_management env root public), pb_Name = ''management'',
     pb_Validators = planned_managers env public owner\<rparr>
    # (if has_oracle public then [\<lparr>pb_Chain = oracle_chain, pb_Genesis = rendered (render_oracle env root public),
         pb_Name = ''oracle'', pb_Validators = planned_chain env public owner oracle_chain\<rparr>] else [])
    @ map (\<lambda>c. \<lparr>pb_Chain = c, pb_Genesis = rendered (render_chain env root public c), pb_Name = chain_tx_name c,
         pb_Validators = planned_chain env public owner c\<rparr>) (evm_chains public)"

lemma list_all2_filter:
  "list_all2 R xs ys \<Longrightarrow> (\<And>x y. R x y \<Longrightarrow> P x = Q y) \<Longrightarrow> list_all2 R (filter P xs) (filter Q ys)"
  by (induction rule: list_all2_induct) auto

lemma identity_names_distinct:
  assumes "map f xs = map identity_name [0..<n]"
  shows "distinct (map f xs)"
proof -
  have "inj identity_name" by (rule injI) (metis identity_name_value add_right_cancel)
  then have "inj_on identity_name {0..<n}" by (rule inj_on_subset) simp
  then show ?thesis unfolding assms by (simp add: distinct_map)
qed

text \<open>What the code converts with is what the plan says.\<close>

lemma rmap_validators:
  assumes "list_all2 (\<lambda>x g. \<exists>p. id_Proof g = Some p \<and> f x = \<lparr>cv_NodeID = bytes (id_NodeID g),
      cv_Weight = weight (id_Name g), cv_Balance = initial_balance, cv_Signer = p, cv_Owner = owner\<rparr>) xs gs"
  shows "conversion_validators bytes weight owner gs = Inr (go_sort node_id_less (map f xs))"
proof -
  have "rmap (conversion_validator bytes weight owner) gs = Inr (map f xs)"
    using assms by (induction rule: list_all2_induct) (auto simp: conversion_validator_def)
  then show ?thesis by (simp add: conversion_validators_def)
qed

lemma chain_validators_planned:
  assumes m: "manifest_ok (ce_platform env) public" and i: "public_identity_set (ce_platform env) public = Inr ids"
  shows "chain_validators env public ids owner chain = Inr (planned_chain env public owner chain)"
  unfolding chain_validators_def planned_chain_def
proof (rule rmap_validators)
  let ?P = "\<lambda>n. pn_Role n = RoleValidator \<and> chain_name n = chain"
  let ?ns = "filter ?P (Nodes public)"
  have "list_all2 (\<lambda>n g. public_identity (ce_platform env) n = Inr g) (Nodes public) (set_Nodes ids)"
    using i by (auto simp: public_identity_set_def rmap_Inr_iff elim!: rbind_InrE simp del: rbind_eq_Inr)
  then have "list_all2 (\<lambda>n g. public_identity (ce_platform env) n = Inr g) ?ns (chain_identities ids chain)"
    unfolding chain_identities_def
    by (rule list_all2_filter) (auto simp: public_identity_def split: option.splits)
  moreover have "distinct (map pn_Identity ?ns)"
    using identity_names_distinct m by (auto simp: manifest_ok_def intro: distinct_map_filter)
  moreover have "\<forall>n \<in> set ?ns. \<exists>pop. pn_Signer n = Some pop"
    using m by (auto simp: manifest_ok_def public_node_ok_def)
  ultimately show "list_all2 (\<lambda>n g. \<exists>p. id_Proof g = Some p \<and> planned_validator env owner (pn_NodeID n)
      (pn_Weight n) (pn_Signer n) = \<lparr>cv_NodeID = ce_node_bytes env (id_NodeID g),
      cv_Weight = chain_weights public chain (id_Name g), cv_Balance = initial_balance, cv_Signer = p,
      cv_Owner = owner\<rparr>) ?ns (chain_identities ids chain)"
    by (elim list.rel_mono_strong)
      (auto simp: public_identity_def planned_validator_def chain_weights_def read_weight_def index_by_lookup
        split: option.splits)
qed

lemma manager_validators_planned:
  assumes m: "manifest_ok (ce_platform env) public" and i: "public_identity_set (ce_platform env) public = Inr ids"
  shows "manager_validators env public ids owner = Inr (planned_managers env public owner)"
  unfolding manager_validators_def planned_managers_def
proof (rule rmap_validators)
  have "list_all2 (\<lambda>n g. manager_identity (ce_platform env) n = Inr g) (Managers public) (set_Manager ids)"
    using i by (auto simp: public_identity_set_def rmap_Inr_iff elim!: rbind_InrE simp del: rbind_eq_Inr)
  moreover have "distinct (map pm_Identity (Managers public))"
    using identity_names_distinct m by (auto simp: manifest_ok_def)
  moreover have "\<forall>n \<in> set (Managers public). \<exists>pop. pm_Signer n = Some pop"
    using m by (auto simp: manifest_ok_def)
  ultimately show "list_all2 (\<lambda>n g. \<exists>p. id_Proof g = Some p \<and> planned_validator env owner (pm_NodeID n)
      (pm_Weight n) (pm_Signer n) = \<lparr>cv_NodeID = ce_node_bytes env (id_NodeID g),
      cv_Weight = read_weight (index_by pm_Identity pm_Weight (Managers public)) (id_Name g),
      cv_Balance = initial_balance, cv_Signer = p, cv_Owner = owner\<rparr>) (Managers public) (set_Manager ids)"
    by (elim list.rel_mono_strong)
      (auto simp: manager_identity_def planned_validator_def read_weight_def index_by_lookup split: option.splits)
qed

lemma evm_chains_distinct: "distinct (evm_chains public)"
  by (simp add: evm_chains_def public_chains_def sort_chains_def distinct_first_seen)

lemma evm_chain_names:
  assumes "manifest_ok env public" "c \<in> set (evm_chains public)"
  shows "c \<noteq> management" "c \<noteq> oracle_chain" "valid_chain_name c"
  using assms by (auto simp: evm_chains_def public_chains_def sort_chains_def set_first_seen manifest_ok_def
      public_node_ok_def management_def)

lemma plan_chains_distinct:
  assumes "manifest_ok (ce_platform env) public"
  shows "distinct (map pb_Chain (plan_blocks env root public owner))"
  using evm_chains_distinct [of public] evm_chain_names [OF assms] chain_names
  by (auto simp: plan_blocks_def comp_def)

lemma check_Inr [simp]: "cbind (check (Inr x)) f = f x"
  by (rule ext) (simp add: cbind_def check_def)

section \<open>Blocks\<close>

text \<open>At a block boundary every transaction of the blocks before it is accepted and recorded.\<close>

definition at_block ::
  "('id, 'nid, 'pop, 'key) creation_env \<Rightarrow> string \<Rightarrow> 'id state \<Rightarrow> 'pop plan_block list \<Rightarrow> nat
   \<Rightarrow> ('id, 'pop) creation_run \<Rightarrow> bool" where
  "at_block env owner base blocks k s \<longleftrightarrow> (\<exists>ids. length ids = 3 * k \<and> creating env owner base blocks ids s)"

lemma at_block_rule:
  assumes "\<And>ids. length ids = 3 * k \<Longrightarrow> triple (creating env owner base blocks ids) m Q E"
  shows "triple (at_block env owner base blocks k) m Q E"
  unfolding triple_def
proof (intro allI impI)
  fix s assume "at_block env owner base blocks k s"
  then obtain ids where "length ids = 3 * k" "creating env owner base blocks ids s"
    by (auto simp: at_block_def)
  then show "case m s of (Inl e, t) \<Rightarrow> E t | (Inr x, t) \<Rightarrow> Q x t"
    using assms [of ids] unfolding triple_def by simp
qed

lemma block_end:
  assumes "length ids = 3 * k"
  shows "triple (creating env owner base blocks (ids @ [a, b, c])) (ret ()) (\<lambda>_. at_block env owner base blocks (Suc k)) E"
  by (rule triple_ret) (use assms in \<open>auto simp: at_block_def intro!: exI [of _ "ids @ [a, b, c]"]\<close>)

lemma triple_read:
  "(\<And>st. R st \<Longrightarrow> triple P (f st) Q E) \<Longrightarrow> (\<And>s. P s \<Longrightarrow> R (cr_state s)) \<Longrightarrow> triple P (cbind read_state f) Q E"
  by (simp add: triple_def cbind_def read_state_def)

lemma plan_subnet: "length ids = 3 * k \<Longrightarrow> planned_tx owner blocks ids (length ids) = CreateSubnetTx owner"
  by (simp add: planned_tx_def Let_def)

lemma thirds:
  "(3 * k + 1) div 3 = k" "(3 * k + 1) mod 3 = 1" "(3 * k + 2) div 3 = k" "(3 * k + 2) mod 3 = (2::nat)" for k :: nat
  by presburger+

lemma plan_chain_tx:
  "length ids = 3 * k \<Longrightarrow> planned_tx owner blocks (ids @ [a]) (length (ids @ [a])) =
     CreateChainTx a (pb_Genesis (blocks ! k)) (pb_Name (blocks ! k))"
  using thirds(1,2) [of k] by (simp add: planned_tx_def Let_def nth_append)

lemma plan_convert_tx:
  "length ids = 3 * k \<Longrightarrow> planned_tx owner blocks (ids @ [a, b]) (length (ids @ [a, b])) =
     ConvertTx a ((ids @ [a, b]) ! 1) manager_address (pb_Validators (blocks ! k))"
  using thirds(3,4) [of k] by (simp add: planned_tx_def Let_def nth_append)

lemma subnet_tx:
  assumes "k < length blocks" "distinct (map pb_Chain blocks)" "length ids = 3 * k"
    and "\<And>i st. records_ids (ce_codec env) base blocks ids st
      \<Longrightarrow> records_part (ce_codec env) (pb_Chain (blocks ! k)) 0 i st (f i st)"
  shows "triple (ready env owner base blocks ids) (step_tx env (CreateSubnetTx owner) f)
    (\<lambda>i. creating env owner base blocks (ids @ [i])) (in_plan env owner base blocks)"
proof (rule step_tx_rule)
  show "CreateSubnetTx owner = planned_tx owner blocks ids (length ids)"
    unfolding plan_subnet [OF assms(3)] ..
  show "length ids < 3 * length blocks" using assms(1,3) by simp
  show "records_ids (ce_codec env) base blocks (ids @ [i]) (f i st)"
    if "records_ids (ce_codec env) base blocks ids st" for i st
    by (rule records_next [OF that, of k 0]) (use assms that in simp_all)
qed

lemma plain_subnet_tx:
  assumes "k < length blocks" "distinct (map pb_Chain blocks)" "length ids = 3 * k" "pb_Chain (blocks ! k) \<noteq> oracle_chain"
    and "\<And>i st. records_ids (ce_codec env) base blocks ids st
      \<Longrightarrow> records_part (ce_codec env) (pb_Chain (blocks ! k)) 0 i st (f i st)"
  shows "triple (creating env owner base blocks ids) (step_tx env (CreateSubnetTx owner) f)
    (\<lambda>i. creating env owner base blocks (ids @ [i])) (in_plan env owner base blocks)"
  by (rule triple_pre [OF subnet_tx [OF assms(1-3,5)]]) (simp_all add: ready_next [OF _ assms(3,4)])

lemma chain_tx:
  assumes "k < length blocks" "distinct (map pb_Chain blocks)" "length ids = 3 * k"
    and "genesis = pb_Genesis (blocks ! k)" "name = pb_Name (blocks ! k)"
    and "\<And>i st. records_ids (ce_codec env) base blocks (ids @ [a]) st
      \<Longrightarrow> records_part (ce_codec env) (pb_Chain (blocks ! k)) 1 i st (f i st)"
  shows "triple (creating env owner base blocks (ids @ [a])) (step_tx env (CreateChainTx a genesis name) f)
    (\<lambda>i. creating env owner base blocks (ids @ [a, i])) (in_plan env owner base blocks)"
proof -
  have "triple (creating env owner base blocks (ids @ [a])) (step_tx env (CreateChainTx a genesis name) f)
    (\<lambda>i. creating env owner base blocks ((ids @ [a]) @ [i])) (in_plan env owner base blocks)"
  proof (rule triple_pre [OF step_tx_rule])
    show "ready env owner base blocks (ids @ [a]) s" if "creating env owner base blocks (ids @ [a]) s" for s
      by (rule ready_within [OF that]) (simp add: assms(3))
    show "CreateChainTx a genesis name = planned_tx owner blocks (ids @ [a]) (length (ids @ [a]))"
      unfolding plan_chain_tx [OF assms(3)] assms(4,5) ..
    show "length (ids @ [a]) < 3 * length blocks" using assms(1,3) by simp
    show "records_ids (ce_codec env) base blocks ((ids @ [a]) @ [i]) (f i st)"
      if "records_ids (ce_codec env) base blocks (ids @ [a]) st" for i st
      by (rule records_next [OF that, of k 1]) (use assms that in simp_all)
  qed
  then show ?thesis by simp
qed

lemma convert_tx:
  assumes "k < length blocks" "distinct (map pb_Chain blocks)" "length ids = 3 * k"
    and "manager = (ids @ [a, b]) ! 1" "vs = pb_Validators (blocks ! k)"
    and "\<And>i st. records_ids (ce_codec env) base blocks (ids @ [a, b]) st
      \<Longrightarrow> records_part (ce_codec env) (pb_Chain (blocks ! k)) 2 i st (f i st)"
  shows "triple (creating env owner base blocks (ids @ [a, b])) (step_tx env (ConvertTx a manager manager_address vs) f)
    (\<lambda>i. creating env owner base blocks (ids @ [a, b, i])) (in_plan env owner base blocks)"
proof -
  have "triple (creating env owner base blocks (ids @ [a, b])) (step_tx env (ConvertTx a manager manager_address vs) f)
    (\<lambda>i. creating env owner base blocks ((ids @ [a, b]) @ [i])) (in_plan env owner base blocks)"
  proof (rule triple_pre [OF step_tx_rule])
    show "ready env owner base blocks (ids @ [a, b]) s" if "creating env owner base blocks (ids @ [a, b]) s" for s
      by (rule ready_within [OF that]) (simp add: assms(3), presburger)
    show "ConvertTx a manager manager_address vs = planned_tx owner blocks (ids @ [a, b]) (length (ids @ [a, b]))"
      unfolding plan_convert_tx [OF assms(3)] assms(4,5) ..
    show "length (ids @ [a, b]) < 3 * length blocks" using assms(1,3) by simp
    show "records_ids (ce_codec env) base blocks ((ids @ [a, b]) @ [i]) (f i st)"
      if "records_ids (ce_codec env) base blocks (ids @ [a, b]) st" for i st
      by (rule records_next [OF that, of k 2]) (use assms that in simp_all)
  qed
  then show ?thesis by simp
qed

lemma creating_manager:
  assumes "creating env owner base blocks ids s" "blocks \<noteq> []" "pb_Chain (blocks ! 0) = management" "Suc 0 < length ids"
  shows "st_ManagerChainID (cr_state s) = ids ! Suc 0"
proof -
  have "recorded (ce_codec env) (cr_state s) management 1 = id_at (ce_codec env) ids (3 * 0 + 1)"
    using assms(1,2,3) unfolding creating_def records_ids_def by (metis length_greater_0_conv one_less_numeral_iff semiring_norm(77))
  then show ?thesis using assms(4) by (simp add: recorded_def part_of_def id_at_def)
qed

text \<open>Writing the genesis of the oracle chain makes its block ready.\<close>

lemma write_oracle_rule:
  assumes "k < length blocks" "distinct (map pb_Chain blocks)" "length ids = 3 * k"
    and "blocks ! k = \<lparr>pb_Chain = oracle_chain, pb_Genesis = genesis, pb_Name = name, pb_Validators = vs\<rparr>"
  shows "triple (creating env owner base blocks ids) (write_genesis (ce_out env) ''genesis-oracle.json'' genesis)
    (\<lambda>_. ready env owner base blocks ids) (in_plan env owner base blocks)"
proof -
  have named: "genesis_file_name oracle_chain = ''genesis-oracle.json''"
    by (simp add: genesis_file_name_def oracle_chain_def main_chain_def)
  have same: "k' = k" if "k' < length blocks" "pb_Chain (blocks ! k') = oracle_chain" for k'
    using nth_eq_iff_index_eq [OF assms(2), of k' k] that assms(1,4) by simp
  have "published blocks (3 * k) (tr @ [WroteGenesis ''genesis-oracle.json'' genesis])" if "published blocks (3 * k - 1) tr" for tr
    unfolding published_def
  proof (intro allI impI, elim conjE)
    fix k' assume k': "k' < length blocks" "pb_Chain (blocks ! k') \<noteq> management"
    show "WroteGenesis (genesis_file_name (pb_Chain (blocks ! k'))) (pb_Genesis (blocks ! k'))
        \<in> set (tr @ [WroteGenesis ''genesis-oracle.json'' genesis])"
    proof (cases "pb_Chain (blocks ! k') = oracle_chain")
      case True
      with same k'(1) assms(4) show ?thesis by (simp add: named)
    qed (use that k' in \<open>simp add: published_def\<close>)
  qed
  then show ?thesis
    by (auto simp: triple_def write_genesis_def creating_def ready_def in_plan_def state_path_def assms(3)
        split: sum.splits dest!: write_file_at)
qed

lemma manager_block:
  assumes "blocks \<noteq> []" "distinct (map pb_Chain blocks)"
    and b: "blocks ! 0 = \<lparr>pb_Chain = management, pb_Genesis = genesis, pb_Name = ''management'', pb_Validators = vs\<rparr>"
    and v: "manager_validators env public identities owner = Inr vs"
  shows "triple (at_block env owner base blocks 0) (create_manager env public identities owner genesis)
    (\<lambda>_. at_block env owner base blocks (Suc 0)) (in_plan env owner base blocks)"
  unfolding create_manager_def v check_Inr
proof (rule at_block_rule, goal_cases)
  case (1 ids)
  have k: "0 < length blocks" using assms(1) by simp
  note tx = k assms(2) 1
  show ?case
    apply (rule triple_bind [OF plain_subnet_tx [OF tx]])
      apply (simp add: b chain_names)
     apply (simp add: b records_named)
    apply (rule triple_bind [OF chain_tx [OF tx]])
       apply (simp_all add: b records_named [simplified])
    apply (rule triple_bind [OF convert_tx [OF tx]])
       apply (simp_all add: b records_named nth_append 1)
    apply (rule block_end [OF 1])
    done
qed

lemma oracle_block:
  assumes "Suc 0 < length blocks" "distinct (map pb_Chain blocks)" "pb_Chain (blocks ! 0) = management"
    and b: "blocks ! (Suc 0) = \<lparr>pb_Chain = oracle_chain, pb_Genesis = genesis, pb_Name = ''oracle'', pb_Validators = vs\<rparr>"
    and v: "chain_validators env public identities owner oracle_chain = Inr vs"
  shows "triple (at_block env owner base blocks (Suc 0)) (create_oracle env public identities owner genesis)
    (\<lambda>_. at_block env owner base blocks (Suc (Suc 0))) (in_plan env owner base blocks)"
  unfolding create_oracle_def v check_Inr
proof (rule at_block_rule, goal_cases)
  case (1 ids)
  note tx = assms(1,2) 1
  have "blocks \<noteq> []" using assms(1) by auto
  note manager = creating_manager [OF _ this assms(3)]
  show ?case
    apply (rule triple_bind [OF write_oracle_rule [OF tx b]])
    apply (rule triple_bind [OF subnet_tx [OF tx]])
     apply (simp add: b records_named)
    apply (rule triple_bind [OF chain_tx [OF tx]])
       apply (simp_all add: b records_named [simplified])
    apply (rule triple_read)
     apply (rule triple_bind [OF convert_tx [OF tx]])
        apply assumption
       apply (simp_all add: b records_named)
     apply (rule block_end [OF 1])
    apply (erule manager)
    apply (use 1 in simp)
    done
qed

lemma evm_block:
  assumes "k < length blocks" "0 < k" "distinct (map pb_Chain blocks)" "pb_Chain (blocks ! 0) = management"
    and b: "blocks ! k = \<lparr>pb_Chain = chain, pb_Genesis = genesis chain, pb_Name = chain_tx_name chain, pb_Validators = vs\<rparr>"
    and v: "chain_validators env public identities owner chain = Inr vs"
    and c: "chain \<noteq> management" "chain \<noteq> oracle_chain"
  shows "triple (at_block env owner base blocks k) (create_chain env public identities owner genesis chain)
    (\<lambda>_. at_block env owner base blocks (Suc k)) (in_plan env owner base blocks)"
  unfolding create_chain_def v check_Inr Let_def
proof (rule at_block_rule, goal_cases)
  case (1 ids)
  note tx = assms(1,3) 1
  have "blocks \<noteq> []" using assms(1) by auto
  note manager = creating_manager [OF _ this assms(4)]
  have known: "recorded (ce_codec env) st chain q = id_at (ce_codec env) xs (3 * k + q)"
    if "records_ids (ce_codec env) base blocks xs st" "q < 3" for st q xs
    using that assms(1) b by (auto simp: records_ids_def)
  have set: "records_part (ce_codec env) chain p i st (set_record chain r st)"
    if "records_ids (ce_codec env) base blocks xs st" "p < 3"
      "\<And>q. q < 3 \<Longrightarrow> q \<noteq> p \<Longrightarrow> part_of q (cr_SubnetID r) (cr_ChainID r) (cr_ConvertTxID r) = id_at (ce_codec env) xs (3 * k + q)"
      "i = part_of p (cr_SubnetID r) (cr_ChainID r) (cr_ConvertTxID r)" for xs st p i r
    by (rule records_set [OF c that(2)]) (use that known [OF that(1)] in auto)
  show ?case
    apply (rule triple_bind [OF plain_subnet_tx [OF tx]])
      apply (simp add: b c)
     apply (simp add: b, erule set; use 1 in \<open>simp add: part_of_def id_at_def\<close>)
    apply (rule triple_bind [OF chain_tx [OF tx]])
       apply (simp_all add: b)
     apply (erule set; use 1 in \<open>auto simp: part_of_def id_at_def nth_append\<close>)
    apply (rule triple_read)
     apply (rule triple_bind [OF convert_tx [OF tx]])
        apply assumption
       apply (simp_all add: b)
      apply (erule set; use 1 in \<open>auto simp: part_of_def id_at_def nth_append\<close>)
     apply (rule block_end [OF 1])
    apply (erule manager)
    apply (use 1 assms(2) in simp)
    done
qed

section \<open>The whole command\<close>

definition silent :: "('id, 'pop) create_event list \<Rightarrow> bool" where
  "silent tr \<longleftrightarrow> list_all (\<lambda>e. case e of WroteGenesis _ _ \<Rightarrow> True | _ \<Rightarrow> False) tr"

lemma silent_snoc [simp]: "silent [] \<and> (silent (tr @ [WroteGenesis g c]) \<longleftrightarrow> silent tr)"
  by (simp add: silent_def)

lemma silent_orderly:
  assumes "silent tr"
  shows "orderly env owner base blocks tr" "accepted_ids tr = []"
proof -
  have all: "\<exists>g c. e = WroteGenesis g c" if "e \<in> set tr" for e
  proof -
    have "case e of WroteGenesis _ _ \<Rightarrow> True | _ \<Rightarrow> False"
      using assms that by (simp add: silent_def list_all_iff)
    then show ?thesis by (cases e) simp_all
  qed
  then have "\<exists>g c. tr ! k = WroteGenesis g c" if "k < length tr" for k using that by simp
  then show "orderly env owner base blocks tr" by (fastforce simp: orderly_def list_all_iff)
  have "concat (map accepted_of tr) = []" using all by fastforce
  then show "accepted_ids tr = []" by (simp add: accepted_ids_def accepted_def)
qed

text \<open>The genesis files of the first \<open>k\<close> further chains.\<close>

definition wrote ::
  "('id, 'nid, 'pop, 'key) creation_env \<Rightarrow> file_system \<Rightarrow> 'pop public \<Rightarrow> string list
   \<Rightarrow> ('id, 'pop) creation_run \<Rightarrow> bool" where
  "wrote env root public cs s \<longleftrightarrow> silent (cr_trace s) \<and> (\<forall>c \<in> set cs.
     WroteGenesis (genesis_file_name c) (rendered (render_chain env root public c)) \<in> set (cr_trace s))"

lemma publish_rule:
  "triple (wrote env root public cs) (publish_chain env root public c)
     (\<lambda>_. wrote env root public (cs @ [c])) (\<lambda>s. silent (cr_trace s))"
  by (auto simp: triple_def publish_chain_def cbind_def missing_def check_def write_genesis_def wrote_def
      rendered_def split: sum.splits)

lemma publish_all:
  "triple (\<lambda>s. silent (cr_trace s)) (cfor (publish_chain env root public) cs) (\<lambda>_. wrote env root public cs)
     (\<lambda>s. silent (cr_trace s))"
proof -
  have "triple (wrote env root public (take 0 cs)) (cfor (publish_chain env root public) cs)
      (\<lambda>_. wrote env root public (take (length cs) cs)) (\<lambda>s. silent (cr_trace s))"
  proof (rule triple_for)
    fix k assume "k < length cs"
    then show "triple (wrote env root public (take k cs)) (publish_chain env root public (cs ! k))
        (\<lambda>_. wrote env root public (take (Suc k) cs)) (\<lambda>s. silent (cr_trace s))"
      using publish_rule [of env root public "take k cs" "cs ! k"] by (simp add: take_Suc_conv_app_nth)
  qed
  then have "triple (wrote env root public []) (cfor (publish_chain env root public) cs)
      (\<lambda>_. wrote env root public cs) (\<lambda>s. silent (cr_trace s))" by simp
  then show ?thesis by (rule triple_pre) (simp add: wrote_def)
qed

lemma wrote_published:
  assumes "wrote env root public (evm_chains public) s"
  shows "published (plan_blocks env root public owner) 0 (cr_trace s)"
proof -
  have "WroteGenesis (genesis_file_name (pb_Chain b)) (pb_Genesis b) \<in> set (cr_trace s)"
    if "b \<in> set (plan_blocks env root public owner)" "pb_Chain b \<notin> {management, oracle_chain}" for b
    using assms that by (auto simp: wrote_def plan_blocks_def split: if_splits)
  moreover have "pb_Chain (plan_blocks env root public owner ! 0) = management" by (simp add: plan_blocks_def)
  ultimately show ?thesis unfolding published_def by (metis insert_iff le_zero_eq mult_is_0 nth_mem singletonD zero_neq_numeral)
qed

lemma fresh_records:
  "records_ids codec (fresh_state env network public) blocks [] (fresh_state env network public)"
  if "codec = ce_codec env"
  using that by (auto simp: records_ids_def same_settings_def recorded_def part_of_def id_at_def fresh_state_def Let_def)

lemma triple_err: "triple P m Q E' \<Longrightarrow> (\<And>s. E' s \<Longrightarrow> E s) \<Longrightarrow> triple P m Q E"
  unfolding triple_def by (fastforce split: prod.splits sum.splits)

lemma network_plan:
  fixes env :: "('id, 'nid, 'pop, 'key) creation_env" and root :: file_system
  assumes m: "manifest_ok (ce_platform env) public"
    and key: "parse_private_key (ce_keys env) (FundingPrivateKey environment) = Inr key"
  defines "owner \<equiv> short_id (ce_keys env) key" and "base \<equiv> fresh_state env (Network environment) public"
  defines "blocks \<equiv> plan_blocks env root public owner"
  shows "triple (\<lambda>s. silent (cr_trace s)) (create_network env environment public root)
    (\<lambda>_. at_block env owner base blocks (length blocks)) (in_plan env owner base blocks)"
proof -
  let ?E = "in_plan env owner base blocks" and ?S = "\<lambda>s :: ('id, 'pop) creation_run. silent (cr_trace s)"
  have silent: "?E s" if "?S s" for s using silent_orderly(1) [OF that] by (simp add: in_plan_def)
  have d: "distinct (map pb_Chain blocks)" unfolding blocks_def by (rule plan_chains_distinct [OF m])
  have ne: "blocks \<noteq> []" "pb_Chain (blocks ! 0) = management" by (simp_all add: blocks_def plan_blocks_def)
  have lifted: "triple ?S (cbind (check r) f) Q ?E" if "\<And>x. r = Inr x \<Longrightarrow> triple ?S (f x) Q ?E" for r Q
    and f :: "'x \<Rightarrow> ('id, 'pop, unit) creation"
    using that silent by (cases r) (auto simp: triple_def cbind_def check_def)
  let ?gen = "\<lambda>c. case render_chain env root public c of Inr g \<Rightarrow> g | Inl _ \<Rightarrow> []"
  obtain k where k: "length blocks = k + length (evm_chains public)" "0 < k"
      "k = (if has_oracle public then Suc (Suc 0) else Suc 0)"
    by (simp add: blocks_def plan_blocks_def)
  have evm: "triple (at_block env owner base blocks k)
      (cfor (create_chain env public identities owner ?gen) (evm_chains public))
      (\<lambda>_. at_block env owner base blocks (length blocks)) ?E"
    if i: "public_identity_set (ce_platform env) public = Inr identities" for identities
  proof -
    have "triple (at_block env owner base blocks (k + 0)) (cfor (create_chain env public identities owner ?gen) (evm_chains public))
        (\<lambda>_. at_block env owner base blocks (k + length (evm_chains public))) ?E"
    proof (rule triple_for [where I = "\<lambda>j. at_block env owner base blocks (k + j)"])
      fix j assume j: "j < length (evm_chains public)"
      let ?c = "evm_chains public ! j"
      have "blocks ! (k + j) = \<lparr>pb_Chain = ?c, pb_Genesis = ?gen ?c,
          pb_Name = chain_tx_name ?c, pb_Validators = planned_chain env public owner ?c\<rparr>"
        using j k(3) by (simp add: blocks_def plan_blocks_def nth_append nth_Cons' rendered_def)
      then have "triple (at_block env owner base blocks (k + j)) (create_chain env public identities owner ?gen ?c)
          (\<lambda>_. at_block env owner base blocks (Suc (k + j))) ?E"
        by (rule evm_block [rotated 4])
          (use j k d ne(2) chain_validators_planned [OF m i] evm_chain_names [OF m nth_mem [OF j]] in simp_all)
      then show "triple (at_block env owner base blocks (k + j)) (create_chain env public identities owner ?gen ?c)
          (\<lambda>_. at_block env owner base blocks (k + Suc j)) ?E" by simp
    qed
    then show ?thesis using k(1) by simp
  qed
  have missing: "triple ?S (cbind (missing p) f) Q ?E" if "triple ?S (f ()) Q ?E" for p Q
    and f :: "unit \<Rightarrow> ('id, 'pop, unit) creation"
    using that silent by (auto simp: triple_def cbind_def missing_def split: sum.splits)
  let ?W = "wrote env root public (evm_chains public)"
  have start: "triple (\<lambda>s. ?W s \<and> cr_state s = base) (save env) (\<lambda>_. at_block env owner base blocks 0) ?E"
    using silent silent_orderly wrote_published [of env root public _ owner, folded blocks_def]
      fresh_records [OF refl, of env "Network environment" public blocks, folded base_def]
    by (auto simp: triple_def save_def at_block_def creating_def wrote_def split: sum.splits dest!: write_file_at)
  have blocks_0: "blocks ! 0 = \<lparr>pb_Chain = management, pb_Genesis = rendered (render_management env root public),
      pb_Name = ''management'', pb_Validators = planned_managers env public owner\<rparr>"
    by (simp add: blocks_def plan_blocks_def)
  have blocks_1: "blocks ! Suc 0 = \<lparr>pb_Chain = oracle_chain, pb_Genesis = rendered (render_oracle env root public),
      pb_Name = ''oracle'', pb_Validators = planned_chain env public owner oracle_chain\<rparr>"
    "Suc 0 < length blocks" if "has_oracle public"
    using that by (simp_all add: blocks_def plan_blocks_def)
  have oracle_part: "triple (at_block env owner base blocks (Suc 0))
      (if has_oracle public then create_oracle env public identities owner g else ret ())
      (\<lambda>_. at_block env owner base blocks k) ?E"
    if "public_identity_set (ce_platform env) public = Inr identities"
      "(if has_oracle public then render_oracle env root public else Inr []) = Inr g" for identities g
  proof (cases "has_oracle public")
    case True
    with that have "rendered (render_oracle env root public) = g" by (simp add: rendered_def)
    with oracle_block [OF blocks_1(2) [OF True] d ne(2) blocks_1(1) [OF True] chain_validators_planned [OF m that(1)]]
    show ?thesis using True k(3) by simp
  next
    case False
    then show ?thesis using k(3) by (simp add: triple_ret)
  qed
  show ?thesis
    unfolding create_network_def key map_sum.simps id_apply check_Inr Let_def owner_def [symmetric] base_def [symmetric]
  proof ((rule lifted missing)+, goal_cases)
    case (1 management oracleGenesis identities u)
    have i: "public_identity_set (ce_platform env) public = Inr identities"
      using 1(3) by (cases "public_identity_set (ce_platform env) public") simp_all
    have g: "rendered (render_management env root public) = management"
      using 1(1) by (simp add: rendered_def)
    note manager = manager_block [OF ne(1) d blocks_0 manager_validators_planned [OF m i], unfolded g]
    show ?case
      apply (rule triple_bind [OF triple_err [OF publish_all silent]], assumption)
      apply (rule triple_bind [where R = "\<lambda>_ s. ?W s \<and> cr_state s = base"])
       apply (simp add: triple_def update_state_def wrote_def)
      apply (rule triple_bind [OF start])
      apply (rule triple_bind [OF manager])
      apply (rule triple_bind [OF oracle_part [OF i 1(2)]])
      apply (rule evm [OF i])
      done
  qed
qed

lemma triple_result:
  "triple P m Q E \<Longrightarrow> P s \<Longrightarrow> m s = (r, t) \<Longrightarrow> (case r of Inl e \<Rightarrow> E t | Inr x \<Rightarrow> Q x t)"
  unfolding triple_def by (cases r) fastforce+

text \<open>An accepted transaction is the planned one.\<close>

lemma planned_tx_prefix:
  assumes "j \<le> length ids"
  shows "planned_tx owner blocks (ids @ [i]) j = planned_tx owner blocks ids j"
proof -
  have "3 * (j div 3) < length ids" if "j mod 3 \<noteq> 0" using that assms by presburger
  moreover have "1 < length ids" if "j mod 3 \<noteq> 0" "j mod 3 \<noteq> 1" using that assms by presburger
  ultimately show ?thesis by (simp add: planned_tx_def Let_def nth_append)
qed

lemma accepted_snoc: "accepted (tr @ [e]) = accepted tr @ accepted_of e"
  by (simp add: accepted_def)

lemma orderly_accepted:
  "orderly env owner base blocks tr \<Longrightarrow> map fst (accepted tr) =
     map (planned_tx owner blocks (accepted_ids tr)) [0..<length (accepted_ids tr)]"
proof (induction tr rule: rev_induct)
  case Nil
  then show ?case by (simp add: accepted_def)
next
  case (snoc e tr)
  show ?case
  proof (cases "\<exists>tx ws i. e = Issued tx ws (Accepted i)")
    case True
    then obtain tx ws i where e: "e = Issued tx ws (Accepted i)" by blast
    let ?ids = "accepted_ids tr"
    have "tx = planned_tx owner blocks ?ids (length ?ids)"
      using snoc.prems by (simp add: e in_order_def Let_def)
    then show ?thesis using snoc.IH snoc.prems
      by (simp add: e accepted_snoc planned_tx_prefix)
  next
    case False
    then have "accepted_of e = []" by (cases e rule: accepted_of.cases) auto
    then show ?thesis using snoc.IH snoc.prems by (simp add: accepted_snoc)
  qed
qed

text \<open>An accepted ID is one the network answered with.\<close>

lemma orderly_answers:
  "orderly env owner base blocks tr \<Longrightarrow> i \<in> set (accepted_ids tr) \<Longrightarrow> \<exists>tr'. ce_answer env tr' = Accepted i"
proof (induction tr rule: rev_induct)
  case (snoc e tr)
  show ?case
  proof (cases "i \<in> set (accepted_ids tr)")
    case False
    with snoc.prems obtain tx ws where "e = Issued tx ws (Accepted i)"
      by (cases e rule: accepted_of.cases) auto
    then show ?thesis using snoc.prems(1) by (auto simp: in_order_def Let_def intro: sym)
  qed (use snoc in simp)
qed simp

lemma load_public_ok: "load_public penv decode contents = Inr p \<Longrightarrow> manifest_ok penv p"
  by (auto simp: load_public_def Let_def validate_public_sound elim!: rbind_InrE simp del: rbind_eq_Inr
      split: option.splits)

lemma load_manifest_ok:
  assumes "load_manifest env decode fs = Inr public"
  shows "manifest_ok (ce_platform env) public"
proof -
  from assms obtain contents where "map_sum CreateManifest id (load_public (ce_platform env) decode contents) = Inr public"
    by (auto simp: load_manifest_def split: option.splits entry.splits)
  then show ?thesis using load_public_ok by (cases "load_public (ce_platform env) decode contents") auto
qed

text \<open>A run of the command that issued anything, or wrote anything, passed every check before it.\<close>

lemma command_cases:
  assumes "create_command env environment decode s = (r, t)" "cr_trace s = []"
  shows "r \<noteq> Inr () \<and> cr_trace t = [] \<or> (\<exists>public key. load_manifest env decode (cr_files s) = Inr public
    \<and> manifest_ok (ce_platform env) public
    \<and> parse_private_key (ce_keys env) (FundingPrivateKey environment) = Inr key
    \<and> funding_preflight env environment public = Inr ()
    \<and> cr_files s (state_path (ce_out env)) = None
    \<and> (\<forall>c \<in> set (public_chains public). cr_files s (ce_out env @ [genesis_file_name c]) = None)
    \<and> create_network env environment public (cr_files s) s = (r, t))"
proof -
  have files: "snd (cfor (\<lambda>c. missing (p c)) cs s) = s
      \<and> (fst (cfor (\<lambda>c. missing (p c)) cs s) = Inr () \<longrightarrow> (\<forall>c \<in> set cs. cr_files s (p c) = None))" for p cs
    by (induction cs) (auto simp: ret_def cbind_def missing_def require_missing_def split: option.splits if_splits
        entry.splits)
  show ?thesis
  proof (cases "require_missing (cr_files s) (state_path (ce_out env))")
    case (Inl e)
    then show ?thesis using assms by (auto simp: create_command_def cbind_def missing_def)
  next
    case out: (Inr u)
    show ?thesis
    proof (cases "load_manifest env decode (cr_files s)")
      case (Inl e)
      then show ?thesis using assms out by (auto simp: create_command_def cbind_def missing_def check_def)
    next
      case (Inr public)
      let ?loop = "cfor (\<lambda>c. missing (ce_out env @ [genesis_file_name c])) (public_chains public) s"
      have run: "(r, t) = (case ?loop of (Inl e, t) \<Rightarrow> (Inl e, t) | (Inr x, t) \<Rightarrow>
          cbind (check (funding_preflight env environment public))
            (\<lambda>_. create_network env environment public (cr_files s)) t)"
        using assms(1) out Inr by (simp add: create_command_def cbind_def missing_def check_def)
      have loop: "snd ?loop = s" "fst ?loop = Inr () \<Longrightarrow> \<forall>c \<in> set (public_chains public).
          cr_files s (ce_out env @ [genesis_file_name c]) = None"
        using files [of "\<lambda>c. ce_out env @ [genesis_file_name c]" "public_chains public"] by simp_all
      show ?thesis
      proof (cases "fst ?loop = Inr () \<and> funding_preflight env environment public = Inr ()")
        case True
        then obtain key where "parse_private_key (ce_keys env) (FundingPrivateKey environment) = Inr key"
          by (auto simp: funding_preflight_def inspect_funds_def split: sum.splits)
        moreover have "manifest_ok (ce_platform env) public"
          using Inr by (rule load_manifest_ok)
        moreover have "create_network env environment public (cr_files s) s = (r, t)"
          using run True loop(1) by (cases ?loop) (auto simp: cbind_def check_def split: sum.splits)
        moreover have "cr_files s (state_path (ce_out env)) = None"
          using out by (auto simp: require_missing_def split: if_splits)
        ultimately show ?thesis using Inr True loop(2) by blast
      next
        case False
        then show ?thesis using run loop(1) assms(2)
          by (cases ?loop; cases "fst ?loop"; cases "funding_preflight env environment public")
            (auto simp: cbind_def check_def)
      qed
    qed
  qed
qed

end
