(* ===== verification/Created_Network.thy ===== *)
theory Created_Network
  imports Creation_Run
begin

text \<open>
  The theorems on the creation command: it refines the plan of its manifest, its preflight covers what
  the plan spends, its state file is what the operator commands load, and it succeeds against a
  network that does not fail five times in a row.
\<close>

section \<open>Success\<close>

text \<open>How many attempts have failed since the last one that did not.\<close>

definition failing_run :: "('id, 'pop) create_event list \<Rightarrow> nat" where
  "failing_run tr = foldl (\<lambda>n e. case e of Issued _ _ (Accepted _) \<Rightarrow> 0 | Issued _ _ _ \<Rightarrow> Suc n
     | Waited _ \<Rightarrow> n | _ \<Rightarrow> 0) 0 tr"

lemma failing_run_snoc [simp]:
  "failing_run (tr @ [Issued tx ws a]) = (case a of Accepted _ \<Rightarrow> 0 | _ \<Rightarrow> Suc (failing_run tr))"
  "failing_run (tr @ [Waited b]) = failing_run tr" "failing_run (tr @ [Saved st]) = 0"
  "failing_run (tr @ [WroteGenesis g c]) = 0"
  "failing_run (tr @ [Issued tx ws a, Waited b]) = failing_run (tr @ [Issued tx ws a])"
  by (cases a; simp add: failing_run_def)+

text \<open>The network fails at most four times in a row, nobody cancels, and the disk takes the state.\<close>

definition responsive :: "('id, 'nid, 'pop, 'key) creation_env \<Rightarrow> bool" where
  "responsive env \<longleftrightarrow> (\<forall>tr. \<not> ce_cancelled env tr \<and> \<not> ce_save_fails env tr
     \<and> (4 \<le> failing_run tr \<longrightarrow> (\<exists>i. ce_answer env tr = Accepted i)))"

text \<open>The output directory exists, and no directory is where the state file and the oracle's genesis go;
  other files and directories in it do not matter.\<close>

definition writable :: "('id, 'nid, 'pop, 'key) creation_env \<Rightarrow> ('id, 'pop) creation_run \<Rightarrow> bool" where
  "writable env s \<longleftrightarrow> cr_files s (ce_out env) = Some Dir
     \<and> (\<forall>x \<in> {''network.env'', ''genesis-oracle.json''}. cr_files s (ce_out env @ [x]) \<noteq> Some Dir) \<and> failing_run (cr_trace s) = 0"

abbreviation nothing :: "('id, 'pop) creation_run \<Rightarrow> bool" where "nothing \<equiv> \<lambda>_. False"

lemma issue_loop_succeeds:
  assumes "responsive env" "failing_run (cr_trace s) + n = 5" "0 < n"
    "cr_files s (ce_out env) = Some Dir"
    "\<forall>x \<in> {''network.env'', ''genesis-oracle.json''}. cr_files s (ce_out env @ [x]) \<noteq> Some Dir"
  shows "case issue_loop env tx n b s of (Inl e, t) \<Rightarrow> False | (Inr i, t) \<Rightarrow> writable env t"
  using assms(2-)
proof (induction n arbitrary: b s)
  case (Suc n)
  let ?a = "ce_answer env (cr_trace s)"
  show ?case
  proof (cases "\<exists>i. ?a = Accepted i")
    case True
    then show ?thesis using Suc.prems by (auto simp: writable_def Let_def)
  next
    case False
    then have a: "?a = WalletFailed \<or> ?a = BuildFailed" by (cases ?a) auto
    with assms(1) have "failing_run (cr_trace s) < 4" by (fastforce simp: responsive_def not_le)
    then have "0 < n" using Suc.prems(1) by simp
    then show ?thesis
      using a Suc.IH [of "s\<lparr>cr_trace := cr_trace s @ [Issued tx (wallet_subnets (ce_codec env) (cr_state s)) ?a, Waited b]\<rparr>" "2 * b"]
        Suc.prems assms(1) by (auto simp: Let_def responsive_def)
  qed
qed simp

lemma save_succeeds: "responsive env \<Longrightarrow> triple (writable env) (save env) (\<lambda>_. writable env) nothing"
  by (auto simp: triple_def save_def writable_def write_file_def state_path_def responsive_def)

lemma update_succeeds: "triple (writable env) (update_state f) (\<lambda>_. writable env) nothing"
  by (simp add: triple_def update_state_def writable_def)

lemma step_tx_succeeds:
  assumes "responsive env"
  shows "triple (writable env) (step_tx env tx f) (\<lambda>_. writable env) nothing"
  unfolding step_tx_def issue_tx_def
proof (rule triple_bind)
  show "triple (writable env) (issue_loop env tx issue_attempts issue_backoff) (\<lambda>_. writable env) nothing"
    using issue_loop_succeeds [OF assms] by (simp add: triple_def writable_def issue_attempts_def)
  note save = save_succeeds [OF assms]
  show "triple (writable env) (cbind (update_state (f i)) (\<lambda>_. cbind (save env) (\<lambda>_. ret i))) (\<lambda>_. writable env) nothing" for i
    by (rule triple_bind [OF update_succeeds], rule triple_bind [OF save], rule triple_ret)
qed

text \<open>What the creation needs of its surroundings: a funded key, templates that render, chain IDs that
  differ, and an output directory without the files of an earlier creation. The directories that key
  generation leaves there are no obstacle.\<close>

definition creation_ready ::
  "('id, 'nid, 'pop, 'key) creation_env \<Rightarrow> environment \<Rightarrow> 'pop public \<Rightarrow> file_system \<Rightarrow> bool" where
  "creation_ready env environment public fs \<longleftrightarrow> funding_preflight env environment public = Inr ()
    \<and> (\<exists>g. render_management env fs public = Inr g)
    \<and> (has_oracle public \<longrightarrow> (\<exists>g. render_oracle env fs public = Inr g))
    \<and> list_all (\<lambda>c. \<exists>g. render_chain env fs public c = Inr g) (evm_chains public)
    \<and> validate_distinct_chain_ids (ce_json env) fs (public_chains public) = Inr ()
    \<and> fs (ce_out env) = Some Dir \<and> fs (state_path (ce_out env)) = None \<and> fs (ce_out env @ [''genesis-oracle.json'']) = None
    \<and> list_all (\<lambda>c. fs (ce_out env @ [genesis_file_name c]) = None) (public_chains public)"

lemma genesis_file_name_inj: "genesis_file_name c = genesis_file_name d \<longleftrightarrow> c = d"
  by (auto simp: genesis_file_name_def)

lemma publish_succeeds:
  assumes "list_all (\<lambda>c. \<exists>g. render_chain env root public c = Inr g) cs" "distinct cs"
    "writable env s" "\<forall>c \<in> set cs. cr_files s (ce_out env @ [genesis_file_name c]) = None"
  shows "case cfor (publish_chain env root public) cs s of (Inl e, t) \<Rightarrow> False | (Inr x, t) \<Rightarrow> writable env t"
  using assms
proof (induction cs arbitrary: s)
  case Nil
  then show ?case by (simp add: ret_def)
next
  case (Cons c cs)
  then obtain g where g: "render_chain env root public c = Inr g" by auto
  let ?p = "ce_out env @ [genesis_file_name c]"
  let ?s = "s\<lparr>cr_files := (cr_files s)(?p \<mapsto> File g), cr_trace := cr_trace s @ [WroteGenesis (genesis_file_name c) g]\<rparr>"
  have "publish_chain env root public c s = (Inr (), ?s)"
    using Cons.prems g by (simp add: publish_chain_def cbind_def missing_def check_def write_genesis_def write_file_def
        require_missing_def writable_def)
  moreover have "writable env ?s" using Cons.prems(3) by (auto simp: writable_def)
  moreover have "\<forall>d \<in> set cs. cr_files ?s (ce_out env @ [genesis_file_name d]) = None"
    using Cons.prems by (auto simp: genesis_file_name_inj)
  ultimately show ?case using Cons.IH [of ?s] Cons.prems(1,2) by (simp add: cbind_def)
qed

lemma triple_success: "triple P (check (Inr x)) (\<lambda>_. P) nothing"
  by (simp add: triple_def check_def)

lemma triple_done: "triple P (ret x) (\<lambda>_. P) E"
  by (rule triple_ret)

lemma read_succeeds: "triple P read_state (\<lambda>_. P) nothing"
  by (simp add: triple_def read_state_def)

lemma write_genesis_succeeds:
  "triple (writable env) (write_genesis (ce_out env) ''genesis-oracle.json'' c) (\<lambda>_. writable env) nothing"
  by (auto simp: triple_def write_genesis_def writable_def write_file_def)

lemmas step_rules = triple_bind [OF step_tx_succeeds] triple_bind [OF read_succeeds]
  triple_bind [OF write_genesis_succeeds] triple_done

lemma blocks_succeed:
  assumes "responsive env" "manager_validators env public identities owner = Inr vs"
    "\<And>c. \<exists>ws. chain_validators env public identities owner c = Inr ws"
  shows "triple (writable env) (create_manager env public identities owner g) (\<lambda>_. writable env) nothing"
    and "triple (writable env) (create_oracle env public identities owner g) (\<lambda>_. writable env) nothing"
    and "triple (writable env) (create_chain env public identities owner h c) (\<lambda>_. writable env) nothing"
proof -
  show "triple (writable env) (create_manager env public identities owner g) (\<lambda>_. writable env) nothing"
    unfolding create_manager_def assms(2) check_Inr by (intro step_rules assms(1))
  obtain ws where "chain_validators env public identities owner oracle_chain = Inr ws" using assms(3) by blast
  then show "triple (writable env) (create_oracle env public identities owner g) (\<lambda>_. writable env) nothing"
    by (simp add: create_oracle_def) (intro step_rules assms(1))
  obtain ws where "chain_validators env public identities owner c = Inr ws" using assms(3) by blast
  then show "triple (writable env) (create_chain env public identities owner h c) (\<lambda>_. writable env) nothing"
    by (simp add: create_chain_def Let_def) (intro step_rules assms(1))
qed

lemma network_succeeds:
  assumes m: "manifest_ok (ce_platform env) public" and ready: "creation_ready env environment public root"
    and responsive: "responsive env" and s: "cr_files s = root" "cr_trace s = []"
  shows "\<exists>t. create_network env environment public root s = (Inr (), t)"
proof -
  obtain ids where i: "public_identity_set (ce_platform env) public = Inr ids"
    using manifest_identity_set [OF m] by blast
  obtain key where key: "parse_private_key (ce_keys env) (FundingPrivateKey environment) = Inr key"
    using ready by (auto simp: creation_ready_def funding_preflight_def inspect_funds_def split: sum.splits)
  obtain g where g: "render_management env root public = Inr g" using ready by (auto simp: creation_ready_def)
  obtain h where h: "(if has_oracle public then render_oracle env root public else Inr []) = Inr h"
    using ready by (cases "has_oracle public") (auto simp: creation_ready_def)
  have d: "validate_distinct_chain_ids (ce_json env) root (public_chains public) = Inr ()"
    and out: "list_all (\<lambda>c. root (ce_out env @ [genesis_file_name c]) = None) (public_chains public)"
    "list_all (\<lambda>c. \<exists>g. render_chain env root public c = Inr g) (evm_chains public)"
    "root (ce_out env @ [''genesis-oracle.json'']) = None" and dir: "root (ce_out env) = Some Dir"
    using ready by (auto simp: creation_ready_def)
  have w: "writable env s" using ready s by (auto simp: writable_def creation_ready_def failing_run_def state_path_def)
  let ?owner = "short_id (ce_keys env) key"
  note blocks = blocks_succeed [OF responsive manager_validators_planned [OF m i]
      exI [of "\<lambda>ws. chain_validators env public ids ?owner c = Inr ws" for c, OF chain_validators_planned [OF m i]]]
  have missing: "missing (ce_out env @ [''genesis-oracle.json'']) s = (Inr (), s)"
    using out(3) dir s by (simp add: missing_def require_missing_def)
  have published: "case cfor (publish_chain env root public) (evm_chains public) s of
      (Inl e, t) \<Rightarrow> False | (Inr x, t) \<Rightarrow> writable env t"
    using out s by (intro publish_succeeds w evm_chains_distinct)
      (auto simp: list_all_iff evm_chains_def)
  have "triple (\<lambda>s'. s' = s) (create_network env environment public root) (\<lambda>_. writable env) nothing"
    unfolding create_network_def key i d g h map_sum.simps id_apply check_Inr Let_def
  proof (rule triple_bind [where R = "\<lambda>_ s'. s' = s"], use missing in \<open>simp add: triple_def\<close>,
      rule triple_bind [where R = "\<lambda>_. writable env"], use published in \<open>simp add: triple_def\<close>,
      rule triple_bind [OF update_succeeds], rule triple_bind [OF save_succeeds [OF responsive]],
      rule triple_bind [OF blocks(1)], rule triple_bind [where R = "\<lambda>_. writable env"], goal_cases)
    case 1
    show ?case by (simp add: blocks(2) triple_ret)
  next
    case 2
    show ?case by (rule triple_for [where I = "\<lambda>_. writable env"]) (rule blocks(3))
  qed
  then show ?thesis
    unfolding triple_def by (cases "create_network env environment public root s"; cases "fst (create_network env environment public root s)") auto
qed

text \<open>The whole command, from the files of its output directory.\<close>

lemma command_succeeds:
  assumes load: "load_manifest env decode (cr_files s) = Inr public"
    and ready: "creation_ready env environment public (cr_files s)" and "responsive env" "cr_trace s = []"
  shows "\<exists>t. create_command env environment decode s = (Inr (), t)"
proof -
  have dir: "cr_files s (ce_out env) = Some Dir" "cr_files s (state_path (ce_out env)) = None"
    "list_all (\<lambda>c. cr_files s (ce_out env @ [genesis_file_name c]) = None) (public_chains public)"
    "funding_preflight env environment public = Inr ()"
    using ready by (auto simp: creation_ready_def)
  have "cfor (\<lambda>c. missing (ce_out env @ [genesis_file_name c])) cs s = (Inr (), s)"
    if "list_all (\<lambda>c. cr_files s (ce_out env @ [genesis_file_name c]) = None) cs" for cs
    using that dir(1) by (induction cs) (auto simp: ret_def cbind_def missing_def require_missing_def)
  then show ?thesis
    using network_succeeds [OF load_manifest_ok [OF load] ready assms(3) refl assms(4)] dir load
    by (auto simp: create_command_def cbind_def missing_def require_missing_def check_def state_path_def)
qed

section \<open>What the plan spends\<close>

definition plan_balances :: "'pop plan_block list \<Rightarrow> nat" where
  "plan_balances blocks = sum_list (map (\<lambda>b. sum_list (map (\<lambda>v. unat (cv_Balance v)) (pb_Validators b))) blocks)"

lemma balances_replicate:
  "\<forall>v \<in> set vs. cv_Balance v = initial_balance \<Longrightarrow>
     sum_list (map (\<lambda>v. unat (cv_Balance v)) vs) = unat initial_balance * length vs"
  by (induction vs) auto

lemma planned_balances:
  "sum_list (map (\<lambda>v. unat (cv_Balance v)) (planned_managers env public owner)) =
     unat initial_balance * length (Managers public)"
  "sum_list (map (\<lambda>v. unat (cv_Balance v)) (planned_chain env public owner c)) =
     unat initial_balance * length (filter (\<lambda>n. chain_name n = c) (filter (\<lambda>n. pn_Role n = RoleValidator) (Nodes public)))"
  by (subst balances_replicate; simp add: planned_managers_def planned_chain_def planned_validator_def conj_commute)+

text \<open>Counting by class.\<close>

lemma count_classes:
  assumes "distinct cs" and "\<forall>x \<in> set xs. f x \<in> set cs"
  shows "sum_list (map (\<lambda>c. length (filter (\<lambda>x. f x = c) xs)) cs) = length xs"
  using assms(2)
proof (induction xs)
  case (Cons x xs)
  have "sum_list (map (\<lambda>c. length (filter (\<lambda>y. f y = c) (x # xs))) cs) =
      sum_list (map (\<lambda>c. of_bool (f x = c) + length (filter (\<lambda>y. f y = c) xs)) cs)"
    by (rule arg_cong [of _ _ sum_list]) simp
  also have "\<dots> = sum_list (map (\<lambda>c. of_bool (f x = c)) cs) + length xs"
    using Cons by (simp add: sum_list_addf)
  also have "sum_list (map (\<lambda>c. of_bool (f x = c)) cs) = (1::nat)"
    using assms(1) Cons.prems
    by (simp add: sum_list_distinct_conv_sum_set of_bool_def sum.If_cases Int_def)
  finally show ?case by simp
qed simp

text \<open>Every validator of the manifest is converted once.\<close>

lemma plan_balances_total:
  assumes "manifest_ok penv public"
  shows "plan_balances (plan_blocks env root public owner) = unat initial_balance *
     (length (filter (\<lambda>n. pn_Role n = RoleValidator) (Nodes public)) + length (Managers public))"
proof -
  let ?vs = "filter (\<lambda>n. pn_Role n = RoleValidator) (Nodes public)"
  let ?count = "\<lambda>c. length (filter (\<lambda>n. chain_name n = c) ?vs)"
  let ?cs = "(if has_oracle public then [oracle_chain] else []) @ evm_chains public"
  have "\<forall>n \<in> set ?vs. chain_name n \<noteq> []"
    using assms by (auto simp: manifest_ok_def public_node_ok_def valid_chain_name_def)
  then have "\<forall>n \<in> set ?vs. chain_name n \<in> set ?cs"
    by (auto simp: evm_chains_def public_chains_def sort_chains_def set_first_seen has_oracle_def list_ex_iff)
  moreover have "distinct ?cs" using evm_chains_distinct [of public] by (auto simp: evm_chains_def)
  ultimately have count: "sum_list (map ?count ?cs) = length ?vs" by (intro count_classes)
  have "plan_balances (plan_blocks env root public owner) =
      unat initial_balance * length (Managers public) + unat initial_balance * sum_list (map ?count ?cs)"
    by (simp add: plan_balances_def plan_blocks_def planned_balances comp_def sum_list_const_mult distrib_left)
  then show ?thesis unfolding count by (simp add: distrib_left)
qed

text \<open>The required balance does not wrap for any manifest of a sensible size.\<close>

lemma preflight_exact:
  assumes "manifest_ok penv public" "length (Nodes public) < 2 ^ 32"
  shows "unat (required_fresh_create_balance public) = unat initial_balance *
     (length (filter (\<lambda>n. pn_Role n = RoleValidator) (Nodes public)) + length (Managers public)) + unat creation_fee_reserve"
proof -
  let ?n = "length (filter (\<lambda>n. pn_Role n = RoleValidator) (Nodes public)) + length (Managers public)"
  have "length (filter (\<lambda>n. pn_Role n = RoleValidator) (Nodes public)) \<le> length (Nodes public)" by simp
  moreover have "length (Managers public) \<le> 4" using assms(1) by (auto simp: manifest_ok_def)
  moreover have "length (Nodes public) < 4294967296" using assms(2) by simp
  ultimately have small: "?n < 8589934592" by linarith
  define x where "x = ?n"
  have x: "x < 8589934592" using small by (simp add: x_def)
  then have n: "unat (word_of_nat x :: u64) = x" by (simp add: unsigned_of_nat take_bit_nat_eq_self)
  have b: "unat initial_balance = 100000000" "unat creation_fee_reserve = 100000000"
    by (simp_all add: initial_balance_def creation_fee_reserve_def)
  have "unat (word_of_nat x * initial_balance) = x * 100000000"
    using x by (subst unat_u64_mult_exact) (simp_all add: n b)
  then have "unat (word_of_nat x * initial_balance + creation_fee_reserve) = x * 100000000 + 100000000"
    using x by (subst unat_u64_add_exact) (simp_all add: b)
  then show ?thesis unfolding required_fresh_create_balance_def x_def b by (simp only: mult.commute)
qed

section \<open>The theorems\<close>

text \<open>C13: whatever the network answers, wherever the creation stops, and however often an attempt is
  repeated: every transaction issued is the next one of the plan that the manifest describes (its
  subnet, its chain with the genesis rendered from its template, its conversion under the management
  chain with exactly the manifest's validators, weights and balances), and it is issued only when the
  state file records every ID accepted before it and the genesis files that belong before it hold the
  bytes their chains are created with: before the first transaction those of all chains but the oracle
  chain, whose file is written before its own first transaction, and the management chain, which has no
  file. A creation that succeeds has carried out the whole plan, and the state file holds every ID under
  its own chain.\<close>

theorem creation_refines_plan:
  assumes "create_command env environment decode s = (r, t)" and "cr_trace s = []"
  shows "r \<noteq> Inr () \<and> cr_trace t = [] \<or> (\<exists>public key owner base blocks. load_manifest env decode (cr_files s) = Inr public
    \<and> parse_private_key (ce_keys env) (FundingPrivateKey environment) = Inr key
    \<and> owner = short_id (ce_keys env) key \<and> base = fresh_state env (Network environment) public
    \<and> blocks = plan_blocks env (cr_files s) public owner
    \<and> orderly env owner base blocks (cr_trace t)
    \<and> (r = Inr () \<longrightarrow> (\<exists>ids. length ids = 3 * length blocks \<and> map snd (accepted (cr_trace t)) = ids
        \<and> map fst (accepted (cr_trace t)) = map (planned_tx owner blocks ids) [0..<3 * length blocks]
        \<and> records_ids (ce_codec env) base blocks ids (cr_state t)
        \<and> cr_files t (state_path (ce_out env)) = Some (File (save_state (ce_codec env) (cr_state t))))))"
proof -
  consider "r \<noteq> Inr () \<and> cr_trace t = []" | public key where "load_manifest env decode (cr_files s) = Inr public"
    "manifest_ok (ce_platform env) public" "parse_private_key (ce_keys env) (FundingPrivateKey environment) = Inr key"
    "create_network env environment public (cr_files s) s = (r, t)"
    using command_cases [OF assms] by blast
  then show ?thesis
  proof cases
    case (2 public key)
    let ?owner = "short_id (ce_keys env) key" and ?base = "fresh_state env (Network environment) public"
    let ?blocks = "plan_blocks env (cr_files s) public ?owner"
    have "case r of Inl e \<Rightarrow> in_plan env ?owner ?base ?blocks t
        | Inr x \<Rightarrow> at_block env ?owner ?base ?blocks (length ?blocks) t"
      by (rule triple_result [OF network_plan [OF 2(2,3)] _ 2(4)]) (simp add: assms(2) silent_snoc)
    then have "orderly env ?owner ?base ?blocks (cr_trace t) \<and> (r = Inr () \<longrightarrow>
        (\<exists>ids. length ids = 3 * length ?blocks \<and> creating env ?owner ?base ?blocks ids t))"
      by (auto simp: in_plan_def at_block_def creating_def split: sum.splits)
    then show ?thesis using 2(1,3) orderly_accepted [of env ?owner ?base ?blocks "cr_trace t"]
      by (auto simp: creating_def accepted_ids_def intro!: exI [of _ public])
  qed blast
qed

lemma some_ids:
  assumes "validate_distinct_chain_ids js fs names = Inr u"
  shows "\<exists>ids. map (template_id js fs) names = map Some ids \<and> distinct ids \<and> [] \<notin> set ids"
proof -
  note d = distinct_chain_ids [OF assms]
  define ids where "ids = map (the \<circ> template_id js fs) names"
  have "template_id js fs c = Some (the (template_id js fs c))" if "c \<in> set names" for c
    using d(2) that by (metis imageI option.collapse)
  then have m: "map (template_id js fs) names = map Some ids" by (simp add: ids_def)
  then have "distinct ids" using d(1) by (simp add: distinct_map)
  moreover have "[] \<notin> set ids" using d(3) m by (metis image_eqI list.set_map)
  ultimately show ?thesis using m by blast
qed

text \<open>C14: a creation writes nothing and issues nothing before its checks have passed: the manifest is
  complete and consistent, no output of an earlier creation is in the way, the template of every chain
  gives an EVM chain ID and no two chains the same, and the P-chain address holds at least what the
  whole plan puts into validator balances, plus the fee reserve (for a manifest of fewer than \<open>2 ^ 32\<close>
  nodes, so that the 64-bit product cannot wrap).\<close>

theorem creation_preflight:
  assumes "create_command env environment decode s = (r, t)" and "cr_trace s = []" and "cr_trace t \<noteq> []"
  shows "\<exists>public key funds. load_manifest env decode (cr_files s) = Inr public \<and> manifest_ok (ce_platform env) public
    \<and> cr_files s (state_path (ce_out env)) = None
    \<and> (\<forall>c \<in> set (public_chains public). cr_files s (ce_out env @ [genesis_file_name c]) = None)
    \<and> (\<exists>ids. map (template_id (ce_json env) (cr_files s)) (public_chains public) = map Some ids
        \<and> distinct ids \<and> [] \<notin> set ids)
    \<and> parse_private_key (ce_keys env) (FundingPrivateKey environment) = Inr key
    \<and> inspect_funds (ce_keys env) environment = Inr funds
    \<and> (length (Nodes public) < 2 ^ 32 \<longrightarrow>
        plan_balances (plan_blocks env (cr_files s) public (short_id (ce_keys env) key)) + unat creation_fee_reserve
          \<le> unat (info_Balance funds))"
proof -
  from command_cases [OF assms(1,2)] assms(3) obtain public key where
    m: "load_manifest env decode (cr_files s) = Inr public" "manifest_ok (ce_platform env) public"
    and key: "parse_private_key (ce_keys env) (FundingPrivateKey environment) = Inr key"
    and funds: "funding_preflight env environment public = Inr ()"
    and none: "cr_files s (state_path (ce_out env)) = None"
      "\<forall>c \<in> set (public_chains public). cr_files s (ce_out env @ [genesis_file_name c]) = None"
    and run: "create_network env environment public (cr_files s) s = (r, t)" by blast
  have "\<exists>u. validate_distinct_chain_ids (ce_json env) (cr_files s) (public_chains public) = Inr u"
    using run assms(2,3) key
    by (cases "validate_distinct_chain_ids (ce_json env) (cr_files s) (public_chains public)")
      (auto simp: create_network_def cbind_def check_def Let_def split: prod.splits sum.splits)
  then have ids: "\<exists>ids. map (template_id (ce_json env) (cr_files s)) (public_chains public) = map Some ids
      \<and> distinct ids \<and> [] \<notin> set ids"
    using some_ids by blast
  obtain i where i: "inspect_funds (ce_keys env) environment = Inr i"
      "\<not> info_Balance i < required_fresh_create_balance public"
    using funds by (auto simp: funding_preflight_def split: sum.splits if_splits)
  have "plan_balances (plan_blocks env (cr_files s) public (short_id (ce_keys env) key)) + unat creation_fee_reserve
      \<le> unat (info_Balance i)" if "length (Nodes public) < 2 ^ 32"
    using preflight_exact [OF m(2) that] i(2) by (simp add: plan_balances_total [OF m(2)] word_less_nat_alt)
  with m key none ids i(1) show ?thesis by blast
qed








section \<open>A concrete creation\<close>

text \<open>The example manifest with its oracle chain; the second attempt fails.\<close>

definition creation_sample :: "(nat, string, string, nat) creation_env" where
  "creation_sample = \<lparr>ce_codec = unary_codec, ce_platform = sample_env,
     ce_node_bytes = map (\<lambda>c. word_of_nat (of_char c)),
     ce_json = \<lparr>js_parse = (\<lambda>t. Some (JObject [(''config'', JObject ((''chainId'', JInt (int (length t)))
         # (if t = ''oracle'' then [(''feeManagerConfig'', JObject [])] else [])))])), js_encode = (\<lambda>_. [])\<rparr>,
     ce_render = (\<lambda>_. ''{}''), ce_address = (\<lambda>a. replicate (length a) 0), 
     ce_hex = (\<lambda>a. if length a = 20 then ''0xcontract'' else ''0xfunded''),
     ce_code = \<lparr>cc_Aggregator = ''0x60'', cc_Receiver = ''0x60'', cc_PriceAggregator = ''0x60'', cc_PriceFeedProxy = ''0x60''\<rparr>,
     ce_keys = \<lparr>load_key = (\<lambda>_. Some 7), format_p = (\<lambda>_ _. Some ''P-addr''), evm_text = (\<lambda>_. ''0xb''),
       short_id = (\<lambda>_. ''addr''), unlocked_balance = (\<lambda>_. Some 500000000)\<rparr>,
     ce_now = 16, ce_out = [''out''],
     ce_answer = (\<lambda>tr. if failing_run tr = 0 \<and> length tr = 4 then BuildFailed else Accepted (Suc (length tr))),
     ce_cancelled = (\<lambda>_. False), ce_save_fails = (\<lambda>_. False)\<rparr>"

definition creation_files :: file_system where
  "creation_files = [[] \<mapsto> Dir, [''out''] \<mapsto> Dir, [''out'', ''public.json''] \<mapsto> File [],
     [''out'', ''identities''] \<mapsto> Dir, [''out'', ''manager''] \<mapsto> Dir,
     [''genesis-template.json''] \<mapsto> File ''main'', [''oracle-genesis-template.json''] \<mapsto> File ''oracle'']"

definition creation_start :: "(nat, string) creation_run" where
  "creation_start = \<lparr>cr_files = creation_files, cr_state = sample_state, cr_trace = []\<rparr>"

definition creation_environment :: environment where
  "creation_environment = \<lparr>Network = ''fuji'', PChainAPI = ''http://node'', FundingPrivateKey = ''ab'',
     SSHUser = ''u'', SSHKeyPath = ''k''\<rparr>"

lemma sample_loads: "load_manifest creation_sample (\<lambda>_. Some sample_manifest) creation_files = Inr sample_manifest"
  by (simp add: load_manifest_def creation_sample_def creation_files_def sample_manifest_loads)

lemma sample_responsive: "responsive creation_sample"
  by (simp add: responsive_def creation_sample_def)

lemma creation_sample_chains: "public_chains sample_manifest = [main_chain, oracle_chain]"
  "evm_chains sample_manifest = [main_chain]" "has_oracle sample_manifest"
  by (simp_all add: evm_chains_def has_oracle_def public_chains_def sample_manifest_def sample_node_def chain_name_def
      effective_chain_def sort_chains_def chain_less_def main_chain_def oracle_chain_def go_sort_def)

lemma sample_ready: "creation_ready creation_sample creation_environment sample_manifest creation_files"
proof -
  have path: "chain_template_path creation_files main_chain = [''genesis-template.json'']"
    "chain_template_path creation_files oracle_chain = [''oracle-genesis-template.json'']"
    by (simp_all add: chain_template_path_def regular_file_def creation_files_def main_chain_def oracle_chain_def)
  have read: "read_template creation_files [''genesis-template.json''] = Inr ''main''"
    "read_template creation_files [''oracle-genesis-template.json''] = Inr ''oracle''"
    by (simp_all add: read_template_def creation_files_def)
  have parse: "js_parse (ce_json creation_sample) ''main'' = Some (JObject [(''config'', JObject [(''chainId'', JInt 4)])])"
    "js_parse (ce_json creation_sample) ''oracle'' =
       Some (JObject [(''config'', JObject [(''chainId'', JInt 6), (''feeManagerConfig'', JObject [])])])"
    by (simp_all add: creation_sample_def)
  note json = decode_genesis_def json_raw_def json_field_def decode_pairs_def text_fields_def
    inject_fee_manager_admin_def
  have documents: "\<exists>d. decode_genesis (JObject [(''config'', JObject [(''chainId'', JInt 4)])]) = Some d
      \<and> gd_Config d = Some (JObject [(''chainId'', JInt 4)]) \<and> gd_Alloc d = []"
    "\<exists>d. decode_genesis (JObject [(''config'', JObject [(''chainId'', JInt 6), (''feeManagerConfig'', JObject [])])]) = Some d
      \<and> gd_Config d = Some (JObject [(''chainId'', JInt 6), (''feeManagerConfig'', JObject [])]) \<and> gd_Alloc d = []"
    by (simp_all add: json go_eval)
  have aggregator: "cc_Aggregator (ce_code creation_sample) = ''0x60''" "has_prefix ''0x60'' ''0x''"
    "alloc_key (ce_hex creation_sample) aggregator_address = ''contract''"
    "alloc_key (ce_hex creation_sample) (ce_address creation_sample (GenesisAddress sample_manifest)) = ''funded''"
    "alloc_key (ce_hex creation_sample) (ce_address creation_sample (FeederAddress sample_manifest)) = ''funded''"
    by (simp_all add: creation_sample_def alloc_key_def aggregator_address_def sample_manifest_def go_eval)
  have "\<exists>g. render_management creation_sample creation_files sample_manifest = Inr g"
    using documents(1) by (auto simp: render_management_def path read render_genesis_def parse inject_fee_manager_admin_def)
  moreover have "\<exists>g. render_chain creation_sample creation_files sample_manifest main_chain = Inr g"
    using documents(1) by (auto simp: render_chain_def path read render_genesis_def parse inject_fee_manager_admin_def)
  moreover have "\<exists>g. render_oracle creation_sample creation_files sample_manifest = Inr g"
    using documents(2) aggregator by (auto simp: render_oracle_def path read render_genesis_def parse inject_fee_manager_admin_def
        contract_step_def oracle_aggregator_allocation_def fund_step_def update_conv' Let_def)
  moreover have "validate_distinct_chain_ids (ce_json creation_sample) creation_files [main_chain, oracle_chain] = Inr ()"
    by (simp add: validate_distinct_chain_ids_def chain_id_step_def path read parse template_chain_id_def json_field_def go_eval)
  moreover have "funding_preflight creation_sample creation_environment sample_manifest = Inr ()"
    by (simp add: funding_preflight_def inspect_funds_def parse_private_key_def derive_addresses_def creation_sample_def
        creation_environment_def hex_digit_def is_digit_def less_eq_char_def required_fresh_create_balance_def
        initial_balance_def creation_fee_reserve_def sample_manifest_def sample_node_def)
  ultimately show ?thesis
    by (auto simp: creation_ready_def creation_sample_chains creation_sample_def creation_files_def state_path_def
        genesis_file_name_def main_chain_def oracle_chain_def)
qed

lemma sample_creation:
  "\<exists>t. create_command creation_sample creation_environment (\<lambda>_. Some sample_manifest) creation_start = (Inr (), t)"
  using command_succeeds [of creation_sample "\<lambda>_. Some sample_manifest" creation_start sample_manifest creation_environment]
    sample_loads sample_ready sample_responsive by (simp add: creation_start_def)

definition creation_end :: "(nat, string) creation_run" where
  "creation_end = snd (create_command creation_sample creation_environment (\<lambda>_. Some sample_manifest) creation_start)"

lemma creation_sample_run:
  "create_command creation_sample creation_environment (\<lambda>_. Some sample_manifest) creation_start = (Inr (), creation_end)"
  using sample_creation by (auto simp: creation_end_def)

lemma creation_sample_key:
  "parse_private_key (ce_keys creation_sample) (FundingPrivateKey creation_environment) = Inr 7"
  "short_id (ce_keys creation_sample) 7 = ''addr''"
  by (simp_all add: parse_private_key_def creation_sample_def creation_environment_def hex_digit_def is_digit_def
      less_eq_char_def)

lemma creation_start_simps: "cr_trace creation_start = []" "cr_files creation_start = creation_files"
  by (simp_all add: creation_start_def)

definition creation_plan :: "string plan_block list" where
  "creation_plan = plan_blocks creation_sample creation_files sample_manifest ''addr''"

lemma creation_plan_length: "length creation_plan = 3"
  by (simp add: creation_plan_def plan_blocks_def creation_sample_chains)

theorem creation_refines_plan_witness:
  "\<exists>base ids. length ids = 9 \<and> map snd (accepted (cr_trace creation_end)) = ids
    \<and> orderly creation_sample ''addr'' base creation_plan (cr_trace creation_end)
    \<and> map fst (accepted (cr_trace creation_end)) = map (planned_tx ''addr'' creation_plan ids) [0..<9]"
  using creation_refines_plan [OF creation_sample_run creation_start_simps(1)] creation_plan_length
  by (auto simp: creation_start_simps sample_loads creation_sample_key creation_plan_def)


lemma creation_sample_end:
  "at_block creation_sample ''addr'' (fresh_state creation_sample ''fuji'' sample_manifest) creation_plan 3 creation_end"
proof -
  from command_cases [OF creation_sample_run creation_start_simps(1)]
  have run: "create_network creation_sample creation_environment sample_manifest creation_files creation_start = (Inr (), creation_end)"
    by (simp add: creation_start_simps sample_loads)
  have m: "manifest_ok (ce_platform creation_sample) sample_manifest"
    using load_manifest_ok [OF sample_loads] .
  have "silent (cr_trace creation_start)" by (simp add: creation_start_simps silent_snoc)
  from triple_result [OF network_plan [OF m creation_sample_key(1), of creation_files] this run]
  show ?thesis by (simp add: creation_plan_def [symmetric] creation_sample_key creation_plan_length)
      (simp add: creation_environment_def)
qed

lemma creation_sample_trace: "length (accepted (cr_trace creation_end)) = 9"
  using creation_sample_end by (auto simp: at_block_def creating_def accepted_ids_def)



theorem creation_preflight_witness:
  "(\<exists>ids. map (template_id (ce_json creation_sample) creation_files) [main_chain, oracle_chain] = map Some ids
      \<and> distinct ids \<and> [] \<notin> set ids) \<and> plan_balances creation_plan + 100000000 \<le> 500000000"
proof -
  have "cr_trace creation_end \<noteq> []" using creation_sample_trace by (auto simp: accepted_def)
  from creation_preflight [OF creation_sample_run creation_start_simps(1) this]
  show ?thesis
    by (auto simp: creation_start_simps sample_loads creation_sample_chains creation_sample_key creation_plan_def)
      (auto simp: inspect_funds_def creation_sample_def creation_fee_reserve_def sample_manifest_def
        split: sum.splits elim!: rbind_InrE simp del: rbind_eq_Inr)
qed


end
