(* ===== verification/Pchain_View.thy ===== *)
theory Pchain_View
  imports Deploy Json
begin

text \<open>
  What a follow-only P-chain node shows of itself, \<^verbatim>\<open>internal/fleet/pchainview.go\<close>: its height from the
  log and the metrics, its health check, its replay progress; and freezing it, \<^verbatim>\<open>freeze.go\<close>: the gate
  that compares it with the public API, and the command. One observation of the node is a record of
  reads; the gate reads a world that moves: what a read returns depends on the moment at which the
  round makes it, so that the order of the reads counts. Floating
  point numbers, which only the metrics and the progress line carry, stay with their library.
\<close>

section \<open>The log\<close>

text \<open>The patterns are a quoted key, a colon and a capture. \<open>match_key\<close> matches one at the start of a
  text; a match holds no second key, so the matches of \<^verbatim>\<open>FindAll\<close> are those at all positions.\<close>

definition regexp_space :: "char \<Rightarrow> bool" where
  "regexp_space c \<longleftrightarrow> c \<in> {CHR '' '', CHR 0x09, CHR 0x0A, CHR 0x0C, CHR 0x0D}"

definition match_key :: "string \<Rightarrow> (char \<Rightarrow> bool) \<Rightarrow> string \<Rightarrow> string option" where
  "match_key key capture s = (let k = CHR 0x22 # key @ [CHR 0x22] in
     if \<not> has_prefix s k then None
     else (case trim_left regexp_space (trim_prefix s k) of
         CHR '':'' # t \<Rightarrow> (let m = takeWhile capture (trim_left regexp_space t) in if m = [] then None else Some m)
       | _ \<Rightarrow> None))"

fun find_all :: "(string \<Rightarrow> string option) \<Rightarrow> string \<Rightarrow> string list" where
  "find_all m [] = (case m [] of None \<Rightarrow> [] | Some x \<Rightarrow> [x])"
| "find_all m (c # s) = (case m (c # s) of None \<Rightarrow> find_all m s | Some x \<Rightarrow> x # find_all m s)"

definition find_first :: "(string \<Rightarrow> string option) \<Rightarrow> string \<Rightarrow> string option" where
  "find_first m s = (case find_all m s of [] \<Rightarrow> None | x # _ \<Rightarrow> Some x)"

definition startup_pattern :: "string \<Rightarrow> string option" where
  "startup_pattern = match_key ''lastAcceptedHeight'' is_digit"

definition pct_pattern :: "string \<Rightarrow> string option" where
  "pct_pattern = match_key ''pctComplete'' (\<lambda>c. is_digit c \<or> c = CHR ''.'')"

text \<open>The value of \<^verbatim>\<open>eta\<close> is quoted and must end in a quote.\<close>

definition eta_pattern :: "string \<Rightarrow> string option" where
  "eta_pattern s = (let k = CHR 0x22 # ''eta'' @ [CHR 0x22] in
     if \<not> has_prefix s k then None
     else (case trim_left regexp_space (trim_prefix s k) of
         CHR '':'' # t \<Rightarrow> (case trim_left regexp_space t of
             CHR 0x22 # u \<Rightarrow> (let m = takeWhile (\<lambda>c. c \<noteq> CHR 0x22) u in
               if m = [] \<or> m = u then None else Some m)
           | _ \<Rightarrow> None)
       | _ \<Rightarrow> None))"

definition parse_startup_height :: "string \<Rightarrow> u64 option" where
  "parse_startup_height logs = (let ms = find_all startup_pattern logs in
     if ms = [] then None else parse_uint64 (last ms))"

text \<open>\<^verbatim>\<open>strconv.ParseFloat\<close>, the comparison with zero, the conversion to \<^verbatim>\<open>uint64\<close> and the format
  \<^verbatim>\<open>%.1f\<close>.\<close>

record 'f float_ops =
  fl_parse :: "string \<Rightarrow> 'f option"
  fl_negative :: "'f \<Rightarrow> bool"
  fl_uint :: "'f \<Rightarrow> u64"
  fl_percent :: "'f \<Rightarrow> string"

definition progress_step :: "'f float_ops \<Rightarrow> string \<Rightarrow> string \<Rightarrow> string" where
  "progress_step fl progress line = (case Option.bind (find_first pct_pattern line) (fl_parse fl) of
      None \<Rightarrow> progress
    | Some p \<Rightarrow> (if contains line ''fetching blocks'' then ''fetching'' else ''executing'') @ '' '' @ fl_percent fl p @ ''%''
        @ (case find_first eta_pattern line of None \<Rightarrow> [] | Some eta \<Rightarrow> '', eta '' @ eta))"

definition parse_bootstrap_progress :: "'f float_ops \<Rightarrow> string \<Rightarrow> string" where
  "parse_bootstrap_progress fl logs = foldl (progress_step fl) [] (go_split (CHR 0x0A) logs)"

section \<open>The metrics\<close>

definition accepted_line :: "'f float_ops \<Rightarrow> string \<Rightarrow> u64 option" where
  "accepted_line fl line =
    (if has_prefix line ''#'' then None
     else let (name, labelled, has_labels) = cut (CHR ''{'') line in
       if \<not> has_labels \<or> \<not> has_suffix name ''bs_accepted'' then None
       else let (labels, v, closed) = cut (CHR ''}'') labelled in
         if \<not> closed \<or> \<not> contains labels (''chain='' @ [CHR 0x22, CHR ''P'', CHR 0x22]) then None
         else (case fl_parse fl (trim_space v) of
             None \<Rightarrow> None
           | Some f \<Rightarrow> if fl_negative fl f then None else Some (fl_uint fl f)))"

text \<open>The first usable line decides; without one the process has accepted nothing.\<close>

fun parse_accepted_lines :: "'f float_ops \<Rightarrow> string list \<Rightarrow> u64 \<times> bool" where
  "parse_accepted_lines fl [] = (0, False)"
| "parse_accepted_lines fl (l # ls) = (case accepted_line fl l of
     Some n \<Rightarrow> (n, True) | None \<Rightarrow> parse_accepted_lines fl ls)"

definition parse_accepted_blocks :: "'f float_ops \<Rightarrow> string \<Rightarrow> u64 \<times> bool" where
  "parse_accepted_blocks fl metrics = parse_accepted_lines fl (go_split (CHR 0x0A) metrics)"

section \<open>The health check\<close>

text \<open>The decoded checks: the names with their error text, if any.\<close>

definition decode_check :: "json \<Rightarrow> string option option" where
  "decode_check j = Option.bind (json_object j) (\<lambda>fs. case json_field ''error'' fs of
      JNull \<Rightarrow> Some None | JString s \<Rightarrow> Some (Some s) | _ \<Rightarrow> None)"

definition health_bootstrapped :: "json_text \<Rightarrow> string \<Rightarrow> bool option" where
  "health_bootstrapped js body = Option.bind (js_parse js body) (\<lambda>j.
     Option.bind (json_object j) (\<lambda>fs.
     Option.bind (decode_pairs decode_check (json_field ''checks'' fs)) (\<lambda>checks.
       Some (map_of checks ''bootstrapped'' = Some None))))"

section \<open>One observation\<close>

text \<open>One round: the two log lines, and status and body of the health and metrics pages.\<close>

record node_reads =
  rd_logs :: "string option"
  rd_health :: "(nat \<times> string) option"
  rd_metrics :: "(nat \<times> string) option"

record observation =
  ob_bootstrapped :: bool
  ob_height :: u64
  ob_height_ok :: bool
  ob_progress :: string

datatype observe_error =
    LogsUnreadable
  | HealthUnreadable
  | HealthStatus nat
  | HealthUndecodable
  | MetricsUnreadable
  | MetricsStatus nat

definition observe_pchain :: "'f float_ops \<Rightarrow> json_text \<Rightarrow> node_reads \<Rightarrow> observe_error + observation" where
  "observe_pchain fl js rd = (case rd_logs rd of
      None \<Rightarrow> Inl LogsUnreadable
    | Some logs \<Rightarrow> (case rd_health rd of
        None \<Rightarrow> Inl HealthUnreadable
      | Some (hcode, health) \<Rightarrow>
          if hcode \<noteq> 200 \<and> hcode \<noteq> 503 then Inl (HealthStatus hcode)
          else (case health_bootstrapped js health of
              None \<Rightarrow> Inl HealthUndecodable
            | Some bootstrapped \<Rightarrow> (case rd_metrics rd of
                None \<Rightarrow> Inl MetricsUnreadable
              | Some (mcode, metrics) \<Rightarrow>
                  if mcode \<noteq> 200 then Inl (MetricsStatus mcode)
                  else Inr \<lparr>ob_bootstrapped = bootstrapped,
                    ob_height = (case parse_startup_height logs of None \<Rightarrow> 0
                      | Some h \<Rightarrow> h + fst (parse_accepted_blocks fl metrics)),
                    ob_height_ok = (parse_startup_height logs \<noteq> None),
                    ob_progress = (if bootstrapped then [] else parse_bootstrap_progress fl logs)\<rparr>))))"

section \<open>The freeze gate\<close>

text \<open>The public API: \<open>None\<close> where a call fails; no network environment means no API at all.\<close>

record ('cid, 'id) public_api =
  api_environment :: bool
  api_height :: "u64 option"
  api_validators :: "'cid option \<Rightarrow> ('id \<times> u64) list option"

definition contains_validators :: "('id \<times> u64) list \<Rightarrow> 'id option set \<Rightarrow> bool" where
  "contains_validators vs expected \<longleftrightarrow> expected \<subseteq> Some ` set (map fst vs)"

record freeze_gate =
  fg_upstream :: u64
  fg_local :: u64
  fg_manager :: bool
  fg_chains :: "(string \<times> bool) list"

datatype gate_refusal =
    NotSynchronized u64 u64 u64
  | SetsMissing "string list" u64 u64

definition freeze_check :: "freeze_gate \<Rightarrow> gate_refusal + unit" where
  "freeze_check g =
    (if fg_local g < fg_upstream g
     then Inl (NotSynchronized (fg_local g) (fg_upstream g) (fg_upstream g - fg_local g))
     else let missing = (if fg_manager g then [] else [''management''])
            @ filter (\<lambda>c. map_of (fg_chains g) c = Some False) (sort_chains (map fst (fg_chains g))) in
       if missing = [] then Inr () else Inl (SetsMissing missing (fg_local g) (fg_upstream g)))"

datatype freeze_error =
    NoNetworkEnvironment
  | UpstreamUnreadable
  | NodeUnobservable observe_error
  | HeightUnobservable
  | ManagerSetUnreadable
  | ChainSetUnreadable string
  | Refused gate_refusal
  | NotBootstrapped string
  | ModeUnreadable
  | ModeMixed
  | FreezePrepare prepare_error
  | FreezeFailed failure

text \<open>The round of the gate makes its reads one after the other: \<open>api t\<close> and \<open>rd t\<close> are the public API
  and the node as the read number \<open>t\<close> of the round finds them. First the upstream height, then the node
  itself, then the management set, then the sets of the chains; \<open>order\<close> is the iteration order of the
  map of expected sets.\<close>

definition gate_chain ::
  "(nat \<Rightarrow> ('cid, 'id) public_api) \<Rightarrow> ('id, 'cid, 'pop) prepared \<Rightarrow> nat \<times> string \<Rightarrow> freeze_error + (string \<times> bool)" where
  "gate_chain api pr = (\<lambda>(t, chain). case api_validators (api t) (pr_subnetIDs pr chain) of
      None \<Rightarrow> Inl (ChainSetUnreadable chain)
    | Some vs \<Rightarrow> Inr (chain, contains_validators vs (pr_expected_by_chain pr chain)))"

definition freeze_gate_state ::
  "'f float_ops \<Rightarrow> json_text \<Rightarrow> (nat \<Rightarrow> ('cid, 'id) public_api) \<Rightarrow> (nat \<Rightarrow> node_reads) \<Rightarrow> string list
   \<Rightarrow> ('id, 'cid, 'pop) prepared \<Rightarrow> freeze_error + freeze_gate" where
  "freeze_gate_state fl js api rd order pr =
    (if \<not> api_environment (api 0) then Inl NoNetworkEnvironment
     else case api_height (api 0) of None \<Rightarrow> Inl UpstreamUnreadable
     | Some upstream \<Rightarrow> rbind (map_sum NodeUnobservable id (observe_pchain fl js (rd 1))) (\<lambda>ob.
         if \<not> ob_height_ok ob then Inl HeightUnobservable
         else case api_validators (api 2) (pr_managerSubnetID pr) of None \<Rightarrow> Inl ManagerSetUnreadable
         | Some manager \<Rightarrow> rbind (rmap (gate_chain api pr) (enumerate 3 order)) (\<lambda>visible.
             Inr \<lparr>fg_upstream = upstream, fg_local = ob_height ob,
               fg_manager = contains_validators manager (pr_expected_manager pr), fg_chains = visible\<rparr>)))"

section \<open>Readiness\<close>

definition pchain_ready_once ::
  "'f float_ops \<Rightarrow> json_text \<Rightarrow> (nat \<Rightarrow> ('cid, 'id) public_api) \<Rightarrow> (nat \<Rightarrow> node_reads) \<Rightarrow> string list
   \<Rightarrow> ('id, 'cid, 'pop) prepared \<Rightarrow> freeze_error + u64" where
  "pchain_ready_once fl js api rd order pr =
    (if pr_frozen pr then rbind (map_sum NodeUnobservable id (observe_pchain fl js (rd 0))) (\<lambda>ob.
       if \<not> ob_bootstrapped ob then Inl (NotBootstrapped (ob_progress ob))
       else if \<not> ob_height_ok ob \<or> ob_height ob = 0 then Inl HeightUnobservable
       else Inr (ob_height ob))
     else rbind (freeze_gate_state fl js api rd order pr) (\<lambda>gate.
       rbind (map_sum Refused id (freeze_check gate)) (\<lambda>_. Inr (fg_local gate))))"

text \<open>\<^verbatim>\<open>waitPChainReady\<close>: attempts until the deadline; \<open>rounds\<close> are the reads of each attempt that starts
  before it, and \<open>waits\<close> whether the pause after it is cut short by the context.\<close>

datatype wait_error = WaitExpired "freeze_error option" | WaitCancelled

fun wait_pchain_ready ::
  "'f float_ops \<Rightarrow> json_text \<Rightarrow> string list \<Rightarrow> ('id, 'cid, 'pop) prepared \<Rightarrow> freeze_error option
   \<Rightarrow> ((nat \<Rightarrow> ('cid, 'id) public_api) \<times> (nat \<Rightarrow> node_reads) \<times> bool) list \<Rightarrow> wait_error + u64" where
  "wait_pchain_ready fl js order pr err [] = Inl (WaitExpired err)"
| "wait_pchain_ready fl js order pr err ((api, rd, cancelled) # rounds) =
    (case pchain_ready_once fl js api rd order pr of
       Inr h \<Rightarrow> Inr h
     | Inl e \<Rightarrow> if cancelled then Inl WaitCancelled else wait_pchain_ready fl js order pr (Some e) rounds)"

section \<open>The deployed mode and the command\<close>

text \<open>The mode in the rendered \<^verbatim>\<open>node.json\<close>: \<open>True\<close> for frozen.\<close>

definition probe_pchain_mode :: "json_text \<Rightarrow> string option \<Rightarrow> freeze_error + bool" where
  "probe_pchain_mode js read = (case read of None \<Rightarrow> Inl ModeUnreadable
    | Some text_of \<Rightarrow> (case Option.bind (js_parse js text_of) json_object of
        None \<Rightarrow> Inl ModeUnreadable
      | Some rendered \<Rightarrow> (case (map_of rendered ''bootstrap-ips'', map_of rendered ''bootstrap-ids'') of
          (None, None) \<Rightarrow> Inr False
        | (Some (JString []), Some (JString [])) \<Rightarrow> Inr True
        | _ \<Rightarrow> Inl ModeMixed)))"

definition freeze_pchain ::
  "'f float_ops \<Rightarrow> json_text \<Rightarrow> (nat \<Rightarrow> ('cid, 'id) public_api) \<Rightarrow> (nat \<Rightarrow> node_reads) \<Rightarrow> string option \<Rightarrow> string list
   \<Rightarrow> ('cid, 'pop) surroundings \<Rightarrow> (trace \<Rightarrow> string option) \<Rightarrow> prepare_error + ('id, 'cid, 'pop) prepared
   \<Rightarrow> trace \<times> freeze_error option" where
  "freeze_pchain fl js api rd config order sur database prepared = (case prepared of
      Inl e \<Rightarrow> ([], Some (FreezePrepare e))
    | Inr pr \<Rightarrow> (case probe_pchain_mode js config of
        Inl e \<Rightarrow> ([], Some e)
      | Inr frozen \<Rightarrow>
          (case (if frozen then Inr () else rbind (freeze_gate_state fl js api rd order pr) (\<lambda>gate.
                  map_sum Refused id (freeze_check gate))) of
             Inl e \<Rightarrow> ([], Some e)
           | Inr _ \<Rightarrow> (case bind_outcome (preflight_hosts sur [pr_pchain pr] [])
                 (reconcile_pchain sur database False (pr_pchain pr)) of
               (tr, r) \<Rightarrow> (tr, map_option FreezeFailed r)))))"

section \<open>The height\<close>

lemma observe_Inr:
  assumes "observe_pchain fl js rd = Inr ob"
  obtains logs health mcode metrics where "rd_logs rd = Some logs" "rd_metrics rd = Some (200, metrics)"
    "rd_health rd = Some (mcode, health)" "mcode = 200 \<or> mcode = 503"
    "health_bootstrapped js health = Some (ob_bootstrapped ob)"
    "ob_height_ok ob = (parse_startup_height logs \<noteq> None)"
    "ob_height ob = (case parse_startup_height logs of None \<Rightarrow> 0 | Some h \<Rightarrow> h + fst (parse_accepted_blocks fl metrics))"
  using assms by (auto simp: observe_pchain_def split: option.splits if_splits prod.splits)

section \<open>Freezing\<close>

text \<open>One call of the public API shows the set of a subnet complete; one observation of the node reaches
  an upstream height.\<close>

definition set_visible :: "('cid, 'id) public_api \<Rightarrow> 'cid option \<Rightarrow> 'id option set \<Rightarrow> bool" where
  "set_visible api subnet expected \<longleftrightarrow> (\<exists>vs. api_validators api subnet = Some vs \<and> contains_validators vs expected)"

definition has_reached ::
  "'f float_ops \<Rightarrow> json_text \<Rightarrow> ('cid, 'id) public_api \<Rightarrow> node_reads \<Rightarrow> bool" where
  "has_reached fl js api rd \<longleftrightarrow> (case (api_height api, observe_pchain fl js rd) of
     (Some upstream, Inr ob) \<Rightarrow> ob_height_ok ob \<and> upstream \<le> ob_height ob | _ \<Rightarrow> False)"

text \<open>What must have been seen, and in which order, before the node may be frozen: the node, observed
  after the upstream height was sampled, has reached that height, and every expected set was seen
  complete later still.\<close>

definition seen_in_order ::
  "'f float_ops \<Rightarrow> json_text \<Rightarrow> (nat \<Rightarrow> ('cid, 'id) public_api) \<Rightarrow> (nat \<Rightarrow> node_reads)
   \<Rightarrow> ('id, 'cid, 'pop) prepared \<Rightarrow> bool" where
  "seen_in_order fl js api rd pr \<longleftrightarrow> (\<exists>t t'. t < t' \<and> has_reached fl js (api t) (rd t')
    \<and> (\<exists>u > t'. set_visible (api u) (pr_managerSubnetID pr) (pr_expected_manager pr))
    \<and> (\<forall>c. pr_expected_by_chain pr c \<noteq> {} \<longrightarrow>
        (\<exists>u > t'. set_visible (api u) (pr_subnetIDs pr c) (pr_expected_by_chain pr c))))"

text \<open>The order of the map covers exactly the chains that have validators.\<close>

definition covers_expected :: "('id, 'cid, 'pop) prepared \<Rightarrow> string list \<Rightarrow> bool" where
  "covers_expected pr order \<longleftrightarrow> distinct order \<and> (\<forall>c. c \<in> set order \<longleftrightarrow> pr_expected_by_chain pr c \<noteq> {})"

lemma gate_chains:
  assumes "rmap (gate_chain api pr) (enumerate n order) = Inr visible"
  shows "map fst visible = order"
    and "\<forall>(c, b) \<in> set visible. \<exists>t \<ge> n. \<exists>vs. api_validators (api t) (pr_subnetIDs pr c) = Some vs
      \<and> b = contains_validators vs (pr_expected_by_chain pr c)"
proof -
  have "list_all2 (\<lambda>c v. gate_chain api pr c = Inr v) (enumerate n order) visible" using assms by (simp add: rmap_Inr_iff)
  then have "map fst visible = order \<and> (\<forall>(c, b) \<in> set visible. \<exists>t \<ge> n. \<exists>vs.
      api_validators (api t) (pr_subnetIDs pr c) = Some vs \<and> b = contains_validators vs (pr_expected_by_chain pr c))"
  proof (induction order arbitrary: n visible)
    case (Cons c cs)
    then obtain v vs where v: "visible = v # vs" "gate_chain api pr (n, c) = Inr v"
      "list_all2 (\<lambda>c v. gate_chain api pr c = Inr v) (enumerate (Suc n) cs) vs"
      by (auto simp: list_all2_Cons1)
    from v(2) obtain x where x: "api_validators (api n) (pr_subnetIDs pr c) = Some x"
      "v = (c, contains_validators x (pr_expected_by_chain pr c))" by (auto simp: gate_chain_def split: option.splits)
    have "\<exists>t \<ge> n. \<exists>vs. api_validators (api t) (pr_subnetIDs pr d) = Some vs
        \<and> b = contains_validators vs (pr_expected_by_chain pr d)" if "(d, b) \<in> set vs" for d b
    proof -
      from Cons.IH [OF v(3)] that obtain t ws where "Suc n \<le> t" "api_validators (api t) (pr_subnetIDs pr d) = Some ws"
        "b = contains_validators ws (pr_expected_by_chain pr d)" by fastforce
      then show ?thesis by (intro exI [of _ t]) simp
    qed
    moreover have "\<exists>t \<ge> n. \<exists>vs. api_validators (api t) (pr_subnetIDs pr c) = Some vs
        \<and> contains_validators x (pr_expected_by_chain pr c) = contains_validators vs (pr_expected_by_chain pr c)"
      using x(1) by blast
    ultimately show ?case using Cons.IH [OF v(3)] by (simp add: v(1) x(2)) blast
  qed simp
  then show "map fst visible = order"
    and "\<forall>(c, b) \<in> set visible. \<exists>t \<ge> n. \<exists>vs. api_validators (api t) (pr_subnetIDs pr c) = Some vs
      \<and> b = contains_validators vs (pr_expected_by_chain pr c)" by simp_all
qed

lemma freeze_check_passes:
  assumes "freeze_check g = Inr u" "distinct (map fst (fg_chains g))"
  shows "fg_upstream g \<le> fg_local g" "fg_manager g" "\<forall>(c, b) \<in> set (fg_chains g). b"
proof -
  from assms(1) have g: "\<not> fg_local g < fg_upstream g" "fg_manager g"
    "filter (\<lambda>c. map_of (fg_chains g) c = Some False) (sort_chains (map fst (fg_chains g))) = []"
    by (auto simp: freeze_check_def Let_def split: if_splits)
  then show "fg_upstream g \<le> fg_local g" "fg_manager g" by (simp_all add: not_less)
  show "\<forall>(c, b) \<in> set (fg_chains g). b"
  proof clarify
    fix c b assume cb: "(c, b) \<in> set (fg_chains g)"
    then have "map_of (fg_chains g) c = Some b" using assms(2) by simp
    moreover have "c \<in> set (sort_chains (map fst (fg_chains g)))" using cb by (force simp: sort_chains_def)
    ultimately show b using g(3) by (auto simp: filter_empty_conv)
  qed
qed

lemma gate_passes:
  assumes "rbind (freeze_gate_state fl js api rd order pr) (\<lambda>gate. map_sum Refused id (freeze_check gate)) = Inr u"
    and "covers_expected pr order"
  shows "seen_in_order fl js api rd pr"
proof -
  from assms(1) obtain gate where gate: "freeze_gate_state fl js api rd order pr = Inr gate" "freeze_check gate = Inr u"
    by auto
  from gate(1) obtain upstream ob manager visible where r: "api_height (api 0) = Some upstream"
      "observe_pchain fl js (rd 1) = Inr ob" "ob_height_ok ob" "api_validators (api 2) (pr_managerSubnetID pr) = Some manager"
      "rmap (gate_chain api pr) (enumerate 3 order) = Inr visible"
    and g: "gate = \<lparr>fg_upstream = upstream, fg_local = ob_height ob,
        fg_manager = contains_validators manager (pr_expected_manager pr), fg_chains = visible\<rparr>"
    by (auto simp: freeze_gate_state_def split: if_splits option.splits)
  note chains = gate_chains [OF r(5)]
  have "distinct (map fst visible)" using assms(2) by (simp add: chains(1) covers_expected_def)
  note ok = freeze_check_passes [OF gate(2), unfolded g, simplified, OF this]
  have reached: "has_reached fl js (api 0) (rd 1)" using r ok(1) by (simp add: has_reached_def)
  have manager: "set_visible (api 2) (pr_managerSubnetID pr) (pr_expected_manager pr)"
    using r(4) ok(2) by (auto simp: set_visible_def)
  have "\<exists>u > 1. set_visible (api u) (pr_subnetIDs pr c) (pr_expected_by_chain pr c)"
    if "pr_expected_by_chain pr c \<noteq> {}" for c
  proof -
    from that assms(2) have "c \<in> set (map fst visible)" by (simp add: chains(1) covers_expected_def)
    then obtain b where "(c, b) \<in> set visible" by auto
    then obtain t where "3 \<le> t" "set_visible (api t) (pr_subnetIDs pr c) (pr_expected_by_chain pr c)"
      using chains(2) ok(3) by (fastforce simp: set_visible_def)
    then show ?thesis by (intro exI [of _ t]) simp
  qed
  with reached manager show ?thesis unfolding seen_in_order_def
    by - (rule exI [of _ 0], rule exI [of _ 1], auto intro: exI [of _ 2])
qed

text \<open>C9: freezing changes nothing unless it is safe, whatever the reads return at the moment they are
  made: either the machine already runs the frozen configuration, or the node, observed after the
  upstream height was sampled, had reached the sampled height, and the public API, asked later still,
  showed every expected validator, of the management set and of every chain. Then only the P-chain
  machine is touched, only after its preflight, and its database is never seeded, wiped or replaced.\<close>

theorem freeze_only_when_safe:
  assumes "freeze_pchain fl js api rd config order sur database (Inr pr) = (tr, r)" and "covers_expected pr order"
  shows "(tr \<noteq> [] \<longrightarrow> probe_pchain_mode js config = Inr True \<or> seen_in_order fl js api rd pr)
    \<and> (\<forall>i < length tr. fst (tr ! i) = num (pr_pchain pr)
        \<and> op_of (tr ! i) \<notin> {StageSeed, UploadSeed, UnpackSeed, KillNode, RemoveChainData}
        \<and> (op_of (tr ! i) \<noteq> Preflight \<longrightarrow> succeeded (take i tr) (pr_pchain pr) Preflight))"
proof (cases "tr = []")
  case False
  then have gate: "probe_pchain_mode js config = Inr True \<or> (probe_pchain_mode js config = Inr False \<and>
      (\<exists>u. rbind (freeze_gate_state fl js api rd order pr) (\<lambda>gate. map_sum Refused id (freeze_check gate)) = Inr u))"
    and run: "\<exists>q. bind_outcome (preflight_hosts sur [pr_pchain pr] []) (reconcile_pchain sur database False (pr_pchain pr)) = (tr, q)"
    using assms(1) by (auto simp: freeze_pchain_def split: sum.splits if_splits prod.splits)
  let ?good = "\<lambda>op. op \<notin> {Preflight, StageSeed, UploadSeed, UnpackSeed, KillNode, RemoveChainData}"
  have within: "\<forall>p \<in> set (reconcile_phases sur database False). ops_within ?good (snd p)"
    by (auto simp: reconcile_phases_def package_ops_def identity_ops_def intro!: ops_within_act split: if_splits)
  from run obtain q where "bind_outcome (preflight_hosts sur [pr_pchain pr] []) (reconcile_pchain sur database False (pr_pchain pr)) = (tr, q)"
    by blast
  then have "\<exists>pre post. tr = pre @ post \<and> (\<forall>e \<in> set pre. op_of e = Preflight \<and> fst e = num (pr_pchain pr))
      \<and> (\<forall>e \<in> set post. ?good (op_of e) \<and> fst e = num (pr_pchain pr)) \<and> (post \<noteq> [] \<longrightarrow> succeeded pre (pr_pchain pr) Preflight)"
  proof (cases rule: bind_outcome_cases)
    case (fail e)
    from preflight_events(1) [OF fail(1)] show ?thesis by (intro exI [of _ tr] exI [of _ "[]"]) auto
  next
    case (ok t1)
    from preflight_events [OF ok(1)] have a: "\<forall>e \<in> set t1. op_of e = Preflight \<and> fst e = num (pr_pchain pr)"
      "succeeded t1 (pr_pchain pr) Preflight" by auto
    from run_phases_within [OF ok(2) [unfolded reconcile_pchain_def] within] obtain evs where "tr = t1 @ evs"
      "\<forall>e \<in> set evs. ?good (op_of e) \<and> fst e = num (pr_pchain pr)" by auto
    with a show ?thesis by blast
  qed
  then obtain pre post where tr: "tr = pre @ post" "\<forall>e \<in> set pre. op_of e = Preflight \<and> fst e = num (pr_pchain pr)"
    "\<forall>e \<in> set post. ?good (op_of e) \<and> fst e = num (pr_pchain pr)" "post \<noteq> [] \<longrightarrow> succeeded pre (pr_pchain pr) Preflight"
    by blast
  have "fst (tr ! i) = num (pr_pchain pr) \<and> op_of (tr ! i) \<notin> {StageSeed, UploadSeed, UnpackSeed, KillNode, RemoveChainData}
      \<and> (op_of (tr ! i) \<noteq> Preflight \<longrightarrow> succeeded (take i tr) (pr_pchain pr) Preflight)" if i: "i < length tr" for i
  proof (cases "i < length pre")
    case True
    then have "tr ! i \<in> set pre" by (simp add: tr(1) nth_append)
    then show ?thesis using tr(2) by auto
  next
    case False
    then have "tr ! i \<in> set post" "post \<noteq> []" using i by (auto simp: tr(1) nth_append)
    moreover have "take i tr = pre @ take (i - length pre) post" using False by (simp add: tr(1))
    ultimately show ?thesis using tr(3,4) by auto
  qed
  moreover have "probe_pchain_mode js config = Inr True \<or> seen_in_order fl js api rd pr"
    using gate gate_passes [OF _ assms(2)] by blast
  ultimately show ?thesis by blast
qed simp

section \<open>An example\<close>

text \<open>A node at height 100; the upstream is at 90 when it is sampled.\<close>

definition view_json :: json_text where
  "view_json = \<lparr>js_parse = (\<lambda>s. Some (if s = ''health'' then JObject [(''checks'', JObject [(''bootstrapped'', JObject [])])]
     else JObject [])), js_encode = (\<lambda>_. [])\<rparr>"

definition view_floats :: "int float_ops" where
  "view_floats = \<lparr>fl_parse = atoi, fl_negative = (\<lambda>i. i < 0), fl_uint = word_of_int, fl_percent = itoa\<rparr>"

definition view_reads :: node_reads where
  "view_reads = \<lparr>rd_logs = Some (CHR 0x22 # ''lastAcceptedHeight'' @ [CHR 0x22] @ '': 100''),
     rd_health = Some (503, ''health''), rd_metrics = Some (200, [])\<rparr>"

definition view_api :: "(nat, string) public_api" where
  "view_api = \<lparr>api_environment = True, api_height = Some 90,
     api_validators = (\<lambda>subnet. if subnet = Some 1 then Some [(''m'', 1000)] else Some [(''v'', 100000), (''w'', 1000)])\<rparr>"

definition freezable :: "(string, nat, string) prepared" where
  "freezable = sample_prepared\<lparr>pr_subnetIDs := [main_chain \<mapsto> 4], pr_expected_manager := {Some ''m''},
     pr_expected_by_chain := (\<lambda>c. if c = main_chain then {Some ''v''} else {}), pr_frozen := True\<rparr>"

lemma view_observed: "observe_pchain view_floats view_json view_reads =
    Inr \<lparr>ob_bootstrapped = True, ob_height = 100, ob_height_ok = True, ob_progress = []\<rparr>"
proof -
  have "parse_startup_height (CHR 0x22 # ''lastAcceptedHeight'' @ [CHR 0x22] @ '': 100'') = Some 100"
    by (simp add: parse_startup_height_def startup_pattern_def match_key_def regexp_space_def trim_left_def go_eval)
  moreover have "health_bootstrapped view_json ''health'' = Some True"
    by (simp add: health_bootstrapped_def view_json_def decode_pairs_def decode_check_def json_field_def go_eval)
  moreover have "parse_accepted_blocks view_floats [] = (0, False)"
    by (simp add: parse_accepted_blocks_def accepted_line_def go_eval)
  ultimately show ?thesis by (simp add: observe_pchain_def view_reads_def)
qed

lemma view_gate: "rbind (freeze_gate_state view_floats view_json (\<lambda>_. view_api) (\<lambda>_. view_reads) [main_chain] freezable)
    (\<lambda>gate. map_sum Refused id (freeze_check gate)) = Inr ()"
  by (simp add: freeze_gate_state_def view_observed view_api_def gate_chain_def freezable_def sample_prepared_def
      contains_validators_def freeze_check_def sort_chains_def go_sort_def)

theorem freeze_only_when_safe_witness:
  "\<exists>tr. freeze_pchain view_floats view_json (\<lambda>_. view_api) (\<lambda>_. view_reads) (Some ''config'') [main_chain] sample_sur (\<lambda>_. None) (Inr freezable) = (tr, None)
    \<and> (1, StopNode, True) \<in> set tr \<and> seen_in_order view_floats view_json (\<lambda>_. view_api) (\<lambda>_. view_reads) freezable"
proof -
  have mode: "probe_pchain_mode view_json (Some ''config'') = Inr False"
    by (simp add: probe_pchain_mode_def view_json_def)
  have num: "num (pr_pchain freezable) = 1" "Role (nd_node (pr_pchain freezable)) = RolePChain"
    by (simp_all add: freezable_def sample_prepared_def sample_nodes_def)
  have "\<exists>tr. bind_outcome (preflight_hosts sample_sur [pr_pchain freezable] [])
      (reconcile_pchain sample_sur (\<lambda>_. None) False (pr_pchain freezable)) = (tr, None) \<and> (1, StopNode, True) \<in> set tr"
    by (simp add: preflight_hosts_def reconcile_pchain_def reconcile_phases_def act_def ops_action_def exec_def num
        package_ops_def identity_ops_def sample_sur_def bind_outcome_def)
  then obtain tr where tr: "freeze_pchain view_floats view_json (\<lambda>_. view_api) (\<lambda>_. view_reads) (Some ''config'') [main_chain] sample_sur
      (\<lambda>_. None) (Inr freezable) = (tr, None)" "(1, StopNode, True) \<in> set tr"
    by (auto simp: freeze_pchain_def mode view_gate)
  have "covers_expected freezable [main_chain]" by (simp add: covers_expected_def freezable_def)
  from freeze_only_when_safe [OF tr(1) this] tr(2) mode have "seen_in_order view_floats view_json (\<lambda>_. view_api) (\<lambda>_. view_reads) freezable" by auto
  with tr show ?thesis by blast
qed

text \<open>The order of the two heights is the wrong one for what the comment on it promises. Both heights only
  grow here, the node is ten or twenty blocks behind at every moment, and the gate passes: the local
  height has caught up with a sample that is out of date.\<close>

definition moving_api :: "nat \<Rightarrow> (nat, string) public_api" where
  "moving_api t = view_api\<lparr>api_height := Some (if t = 0 then 90 else 110)\<rparr>"

definition moving_reads :: "nat \<Rightarrow> node_reads" where
  "moving_reads t = (if t = 0 then view_reads\<lparr>rd_logs := Some (CHR 0x22 # ''lastAcceptedHeight'' @ [CHR 0x22] @ '': 80'')\<rparr>
     else view_reads)"

lemma gate_passes_behind:
  "rbind (freeze_gate_state view_floats view_json moving_api moving_reads [main_chain] freezable)
      (\<lambda>gate. map_sum Refused id (freeze_check gate)) = Inr ()
    \<and> \<not> has_reached view_floats view_json (moving_api t) (moving_reads t)"
proof -
  have "parse_startup_height (CHR 0x22 # ''lastAcceptedHeight'' @ [CHR 0x22] @ '': 80'') = Some 80"
    by (simp add: parse_startup_height_def startup_pattern_def match_key_def regexp_space_def trim_left_def go_eval)
  moreover have "health_bootstrapped view_json ''health'' = Some True"
    by (simp add: health_bootstrapped_def view_json_def decode_pairs_def decode_check_def json_field_def go_eval)
  moreover have "parse_accepted_blocks view_floats [] = (0, False)"
    by (simp add: parse_accepted_blocks_def accepted_line_def go_eval)
  ultimately have early: "observe_pchain view_floats view_json (moving_reads 0) =
      Inr \<lparr>ob_bootstrapped = True, ob_height = 80, ob_height_ok = True, ob_progress = []\<rparr>"
    by (simp add: observe_pchain_def moving_reads_def view_reads_def)
  have late: "observe_pchain view_floats view_json (moving_reads (Suc n)) =
      Inr \<lparr>ob_bootstrapped = True, ob_height = 100, ob_height_ok = True, ob_progress = []\<rparr>" for n
    by (simp add: moving_reads_def view_observed)
  have "rbind (freeze_gate_state view_floats view_json moving_api moving_reads [main_chain] freezable)
      (\<lambda>gate. map_sum Refused id (freeze_check gate)) = Inr ()"
    by (simp add: freeze_gate_state_def late moving_api_def view_api_def gate_chain_def freezable_def sample_prepared_def
      contains_validators_def freeze_check_def sort_chains_def go_sort_def)
  moreover have "\<not> has_reached view_floats view_json (moving_api t) (moving_reads t)"
    by (cases t) (simp_all add: has_reached_def early late moving_api_def)
  ultimately show ?thesis by blast
qed

end
