(* ===== verification/Fleet_Status.thy ===== *)
theory Fleet_Status
  imports Pchain_View
begin

text \<open>
  \<^verbatim>\<open>fleet status\<close>, \<^verbatim>\<open>internal/fleet/status.go\<close>: the probe of every L1 machine and of the P-chain machine,
  the rows of the two tables, the list of failures and the exit code. The probes run concurrently and
  only read, so their results are functions of what the machines and the public API answer.
\<close>

section \<open>States\<close>

definition status_na :: string where "status_na = ''-''"
definition status_unknown :: string where "status_unknown = ''?''"
definition status_up :: string where "status_up = ''up''"
definition status_down :: string where "status_down = ''down''"
definition status_failed :: string where "status_failed = ''failed''"
definition status_not_installed :: string where "status_not_installed = ''not installed''"

definition collapse_service_state :: "bool \<Rightarrow> string \<Rightarrow> string \<Rightarrow> string" where
  "collapse_service_state present active enabled =
    (if \<not> present then status_not_installed
     else if trim_space active = ''active'' \<or> trim_space active = ''activating'' then status_up
     else if trim_space active = ''failed'' then status_failed
     else if trim_space enabled = ''failed'' then status_failed
     else status_down)"

text \<open>The output of the service probe: presence, activity, boot intent.\<close>

definition probe_service :: "string option \<Rightarrow> (bool \<times> string \<times> string) option" where
  "probe_service read = Option.bind read (\<lambda>out. case go_fields out of
     present # active # rest \<Rightarrow> Some (present = ''present'', active, case rest of [] \<Rightarrow> [] | e # _ \<Rightarrow> e)
   | _ \<Rightarrow> None)"

section \<open>JSON-RPC\<close>

text \<open>A response is its status and its body; \<open>first_value\<close> decodes the first JSON value of the body.\<close>

type_synonym response = "(nat \<times> string) option"

definition status_rpc :: "(string \<Rightarrow> json option) \<Rightarrow> response \<Rightarrow> json option" where
  "status_rpc first_value response = Option.bind response (\<lambda>(code, body).
     if code \<noteq> 200 then None
     else Option.bind (Option.bind (first_value body) json_object) (\<lambda>fs.
       if json_raw ''error'' fs \<notin> {None, Some JNull} then None else json_raw ''result'' fs))"

definition runtime_node_id :: "(string \<Rightarrow> json option) \<Rightarrow> response \<Rightarrow> string option" where
  "runtime_node_id first_value response = Option.bind (status_rpc first_value response) (\<lambda>j.
     Option.bind (json_object j) (\<lambda>fs. Option.bind (json_string (json_field ''nodeID'' fs)) (\<lambda>i.
       if i = [] then None else Some i)))"

definition hex_value :: "char \<Rightarrow> nat option" where
  "hex_value c = (if is_digit c then Some (digit_val c)
     else if CHR ''a'' \<le> lower_char c \<and> lower_char c \<le> CHR ''f'' then Some (of_char (lower_char c) - 87) else None)"

definition parse_hex :: "string \<Rightarrow> u64 option" where
  "parse_hex s = (if s = [] then None else Option.bind (all_some hex_value s) (\<lambda>ds.
     let n = foldl (\<lambda>acc d. 16 * acc + d) 0 ds in if n < 2 ^ 64 then Some (word_of_nat n) else None))"

definition status_l1_height :: "(string \<Rightarrow> json option) \<Rightarrow> response \<Rightarrow> u64 option" where
  "status_l1_height first_value response = Option.bind (status_rpc first_value response) (\<lambda>j.
     Option.bind (json_string j) (\<lambda>raw. parse_hex (trim_prefix raw ''0x'')))"

section \<open>One L1 machine\<close>

datatype status_failure =
    TargetFailed int fleet_error
  | ServiceUnreadable int
  | NodeIDUnreadable int
  | NotCreatedYet int
  | HeightUnreadable int
  | NotInSet int string string string
  | ModeUnread int
  | PublicEnvironment
  | UpstreamHeightUnread
  | ManagerSetUnread
  | ChainSetUnread string
  | ObservationFailed int observe_error
  | NoStartupHeight int

record status_probe =
  sp_node :: node
  sp_identity :: string
  sp_expected :: string
  sp_state :: string
  sp_height :: string
  sp_runtime :: string
  sp_answered :: bool
  sp_drift :: bool
  sp_failures :: "status_failure list"

text \<open>What the machines answer, by number: the service probe, the node ID and height calls, and for
  the P-chain machine its configuration and one round of observation.\<close>

record status_world =
  sw_first :: "string \<Rightarrow> json option"
  sw_service :: "int \<Rightarrow> string option"
  sw_info :: "int \<Rightarrow> response"
  sw_height :: "int \<Rightarrow> response"
  sw_config :: "string option"
  sw_reads :: node_reads
  sw_json :: json_text

definition probe_node_status ::
  "status_world \<Rightarrow> ('cid, 'pop) inventory \<Rightarrow> node \<Rightarrow> status_probe" where
  "probe_node_status w iv n =
    (let p0 = \<lparr>sp_node = n, sp_identity = status_unknown, sp_expected = [], sp_state = status_unknown,
        sp_height = status_na, sp_runtime = [], sp_answered = False, sp_drift = False, sp_failures = []\<rparr> in
     case target iv n of Inl e \<Rightarrow> p0\<lparr>sp_failures := [TargetFailed (Number n) e]\<rparr>
     | Inr t \<Rightarrow> (let p1 = p0\<lparr>sp_identity := pn_Identity (nd_identity t), sp_expected := pn_NodeID (nd_identity t)\<rparr> in
       case probe_service (sw_service w (Number n)) of
         None \<Rightarrow> p1\<lparr>sp_failures := [ServiceUnreadable (Number n)]\<rparr>
       | Some (present, active, enabled) \<Rightarrow>
          (let p2 = p1\<lparr>sp_state := collapse_service_state present active enabled\<rparr> in
           if sp_state p2 \<noteq> status_up then p2
           else let p3 = (case runtime_node_id (sw_first w) (sw_info w (Number n)) of
                  None \<Rightarrow> p2\<lparr>sp_failures := [NodeIDUnreadable (Number n)]\<rparr>
                | Some i \<Rightarrow> p2\<lparr>sp_answered := True, sp_runtime := i, sp_drift := (i \<noteq> sp_expected p2)\<rparr>);
                  p4 = p3\<lparr>sp_height := status_unknown\<rparr> in
              if \<not> inv_created iv then p4\<lparr>sp_failures := sp_failures p4 @ [NotCreatedYet (Number n)]\<rparr>
              else (case status_l1_height (sw_first w) (sw_height w (Number n)) of
                  None \<Rightarrow> p4\<lparr>sp_answered := False, sp_failures := sp_failures p4 @ [HeightUnreadable (Number n)]\<rparr>
                | Some h \<Rightarrow> p4\<lparr>sp_height := itoa_nat (unat h)\<rparr>))))"

definition fatal_probe :: "string \<Rightarrow> bool \<Rightarrow> bool \<Rightarrow> bool" where
  "fatal_probe state answered drift \<longleftrightarrow> drift \<or> state = status_up \<and> \<not> answered"

section \<open>The P-chain machine\<close>

record pchain_probe =
  pp_number :: int
  pp_state :: string
  pp_mode :: string
  pp_bootstrapped :: bool
  pp_progress :: string
  pp_watch :: bool
  pp_local_ok :: bool
  pp_local :: u64
  pp_upstream_ok :: bool
  pp_upstream :: u64
  pp_created :: bool
  pp_sets_ok :: bool
  pp_recorded :: bool
  pp_manager :: bool
  pp_visible :: "(string \<times> bool) list"
  pp_weights :: "string \<rightharpoonup> u64"
  pp_failures :: "status_failure list"
  pp_note :: bool

definition frozen_mode :: string where "frozen_mode = ''frozen''"
definition follow_mode :: string where "follow_mode = ''follow''"

definition recorded_validator_sets ::
  "('cid, 'pop) inventory \<Rightarrow> pchain_probe \<Rightarrow> pchain_probe" where
  "recorded_validator_sets iv p = (if \<not> inv_created iv then p
     else p\<lparr>pp_sets_ok := True, pp_recorded := True, pp_manager := True,
       pp_visible := map (\<lambda>c. (c, True)) (inv_chains iv),
       pp_weights := foldl (\<lambda>m n. m(pn_NodeID n \<mapsto> pn_Weight n)) (pp_weights p)
         (filter (\<lambda>n. pn_Role n = RoleValidator) (Nodes (inv_public iv)))\<rparr>)"

definition chain_set ::
  "('cid, 'id) public_api \<Rightarrow> ('cid, 'pop) inventory \<Rightarrow> string \<Rightarrow> string + string \<times> ('id \<times> u64) list" where
  "chain_set api iv chain = (case api_validators api (inv_subnetIDs iv chain) of
      None \<Rightarrow> Inl chain | Some vs \<Rightarrow> Inr (chain, vs))"

text \<open>The node IDs of the manifest that parse.\<close>

definition known_ids :: "(string \<Rightarrow> 'id option) \<Rightarrow> string list \<Rightarrow> 'id option set" where
  "known_ids parse texts = set (filter (\<lambda>i. i \<noteq> None) (map parse texts))"

definition expected_of :: "(string \<Rightarrow> 'id option) \<Rightarrow> 'pop public \<Rightarrow> string \<Rightarrow> 'id option set" where
  "expected_of parse p chain = known_ids parse (map pn_NodeID
     (filter (\<lambda>n. pn_Role n = RoleValidator \<and> chain_name n = chain) (Nodes p)))"

definition weigh :: "('id \<Rightarrow> string) \<Rightarrow> (string \<rightharpoonup> u64) \<Rightarrow> string \<times> ('id \<times> u64) list \<Rightarrow> (string \<rightharpoonup> u64)" where
  "weigh show_id m cv = foldl (\<lambda>m (i, w). m(show_id i \<mapsto> w)) m (snd cv)"

definition probe_public_validator_sets ::
  "('id, 'pop) platform \<Rightarrow> ('cid, 'id) public_api \<Rightarrow> ('cid, 'pop) inventory \<Rightarrow> pchain_probe \<Rightarrow> pchain_probe" where
  "probe_public_validator_sets pf api iv p = (case api_validators api (inv_managerSubnetID iv) of
      None \<Rightarrow> p\<lparr>pp_failures := pp_failures p @ [ManagerSetUnread]\<rparr>
    | Some manager \<Rightarrow> (case rmap (chain_set api iv) (inv_chains iv) of
        Inl chain \<Rightarrow> p\<lparr>pp_failures := pp_failures p @ [ChainSetUnread chain]\<rparr>
      | Inr sets \<Rightarrow> p\<lparr>pp_sets_ok := True,
          pp_manager := contains_validators manager
            (known_ids (id_parse pf) (map pm_NodeID (Managers (inv_public iv)))),
          pp_visible := map (\<lambda>(c, vs). (c, contains_validators vs (expected_of (id_parse pf) (inv_public iv) c))) sets,
          pp_weights := foldl (weigh (id_string pf)) (pp_weights p) sets\<rparr>))"

definition probe_public_pchain ::
  "('id, 'pop) platform \<Rightarrow> ('cid, 'id) public_api \<Rightarrow> ('cid, 'pop) inventory \<Rightarrow> bool \<Rightarrow> pchain_probe \<Rightarrow> pchain_probe" where
  "probe_public_pchain pf api iv read_height p =
    (if \<not> api_environment api then p\<lparr>pp_failures := pp_failures p @ [PublicEnvironment]\<rparr>
     else let p1 = (if inv_created iv then probe_public_validator_sets pf api iv p else p) in
       if \<not> read_height then p1
       else (case api_height api of
           None \<Rightarrow> p1\<lparr>pp_failures := pp_failures p1 @ [UpstreamHeightUnread]\<rparr>
         | Some h \<Rightarrow> p1\<lparr>pp_upstream_ok := True, pp_upstream := h\<rparr>))"

definition observe_status ::
  "'f float_ops \<Rightarrow> status_world \<Rightarrow> node \<Rightarrow> pchain_probe \<Rightarrow> pchain_probe" where
  "observe_status fl w n p = (case observe_pchain fl (sw_json w) (sw_reads w) of
      Inl e \<Rightarrow> p\<lparr>pp_failures := pp_failures p @ [ObservationFailed (Number n) e]\<rparr>
    | Inr ob \<Rightarrow> (let p1 = p\<lparr>pp_bootstrapped := ob_bootstrapped ob, pp_progress := ob_progress ob,
          pp_local_ok := ob_height_ok ob, pp_local := ob_height ob\<rparr>;
          p2 = (if ob_height_ok ob then p1
            else if ob_bootstrapped ob then p1\<lparr>pp_note := True\<rparr>
            else p1\<lparr>pp_failures := pp_failures p1 @ [NoStartupHeight (Number n)]\<rparr>) in
        p2\<lparr>pp_watch := \<not> ob_bootstrapped ob\<rparr>))"

definition empty_probe :: "('cid, 'pop) inventory \<Rightarrow> pchain_probe" where
  "empty_probe iv = \<lparr>pp_number = Number (pchain_node iv), pp_state = status_unknown, pp_mode = [],
     pp_bootstrapped = False, pp_progress = [], pp_watch = False, pp_local_ok = False, pp_local = 0,
     pp_upstream_ok = False, pp_upstream = 0, pp_created = inv_created iv, pp_sets_ok = False,
     pp_recorded = False, pp_manager = False, pp_visible = [], pp_weights = Map.empty, pp_failures = [],
     pp_note = False\<rparr>"

definition probe_pchain_status ::
  "'f float_ops \<Rightarrow> ('id, 'pop) platform \<Rightarrow> ('cid, 'id) public_api \<Rightarrow> status_world \<Rightarrow> ('cid, 'pop) inventory \<Rightarrow> pchain_probe" where
  "probe_pchain_status fl pf api w iv =
    (let n = pchain_node iv; p0 = empty_probe iv in
     case target iv n of
       Inl e \<Rightarrow> probe_public_pchain pf api iv False (p0\<lparr>pp_failures := [TargetFailed (Number n) e]\<rparr>)
     | Inr _ \<Rightarrow> (case probe_service (sw_service w (Number n)) of
         None \<Rightarrow> probe_public_pchain pf api iv False (p0\<lparr>pp_failures := [ServiceUnreadable (Number n)]\<rparr>)
       | Some (present, active, enabled) \<Rightarrow>
          (let p1 = p0\<lparr>pp_state := collapse_service_state present active enabled\<rparr>;
               p2 = (if pp_state p1 \<noteq> status_up then p1
                 else case probe_pchain_mode (sw_json w) (sw_config w) of
                     Inl _ \<Rightarrow> p1\<lparr>pp_failures := pp_failures p1 @ [ModeUnread (Number n)]\<rparr>
                   | Inr frozen \<Rightarrow> p1\<lparr>pp_mode := (if frozen then frozen_mode else follow_mode)\<rparr>);
               p3 = (if pp_mode p2 = frozen_mode then recorded_validator_sets iv p2
                 else probe_public_pchain pf api iv (pp_mode p2 = follow_mode) p2) in
           if pp_state p3 \<noteq> status_up then p3 else observe_status fl w n p3)))"

definition pchain_unhealthy :: "pchain_probe \<Rightarrow> bool" where
  "pchain_unhealthy p \<longleftrightarrow> pp_state p = status_up \<and> (pp_mode p = [] \<or> \<not> pp_local_ok p \<and> \<not> pp_bootstrapped p)"

section \<open>The tables\<close>

record pchain_row =
  pr_number :: int
  pr_mode :: string
  pr_local :: string
  pr_upstream :: string
  pr_lag :: string
  pr_l1State :: string
  pr_ready :: string

definition show_u64 :: "u64 \<Rightarrow> string" where
  "show_u64 w = itoa_nat (unat w)"

definition l1_state :: "pchain_probe \<Rightarrow> string" where
  "l1_state p = (if \<not> pp_created p then status_na else if \<not> pp_sets_ok p then status_unknown
     else let all = foldl (\<lambda>b (_, v). b \<and> v) (pp_manager p) (pp_visible p);
              any = foldl (\<lambda>b (_, v). b \<or> v) (pp_manager p) (pp_visible p) in
       if all then ''complete'' else if any then ''partial'' else ''missing'')"

text \<open>The following mode returns early while a height is missing.\<close>

definition pchain_status_row :: "pchain_probe \<Rightarrow> pchain_row" where
  "pchain_status_row p =
    (let r0 = \<lparr>pr_number = pp_number p, pr_mode = status_na, pr_local = status_na, pr_upstream = status_na,
        pr_lag = status_na, pr_l1State = status_na, pr_ready = status_na\<rparr> in
     if pp_state p \<noteq> status_up then r0
     else let r1 = r0\<lparr>pr_mode := status_unknown, pr_ready := ''no'',
            pr_local := (if pp_local_ok p then show_u64 (pp_local p) else status_unknown),
            pr_l1State := l1_state p\<rparr>;
          replaying = (\<lambda>r. if \<not> pp_bootstrapped p \<and> pp_mode p \<noteq> []
            then r\<lparr>pr_mode := ''bootstrapping'' @ (if pp_progress p = [] then [] else '' '' @ pp_progress p)\<rparr> else r) in
       if pp_mode p = frozen_mode then replaying (r1\<lparr>pr_mode := frozen_mode, pr_ready := status_na\<rparr>)
       else if pp_mode p = follow_mode then
         (let r2 = r1\<lparr>pr_upstream := (if pp_upstream_ok p then show_u64 (pp_upstream p) else status_unknown),
              pr_lag := status_unknown\<rparr> in
          if \<not> pp_upstream_ok p \<or> \<not> pp_local_ok p then r2
          else let lag = (if pp_local p < pp_upstream p then pp_upstream p - pp_local p else 0);
                   synced = pp_bootstrapped p \<and> pp_upstream p \<le> pp_local p in
            replaying (r2\<lparr>pr_lag := show_u64 lag, pr_mode := (if synced then ''synced'' else ''catching-up''),
              pr_ready := (if synced \<and> pr_l1State r2 = ''complete'' then ''yes'' else ''no'')\<rparr>))
       else replaying (r1\<lparr>pr_upstream := status_unknown, pr_lag := status_unknown\<rparr>))"

record status_row =
  sr_number :: int
  sr_dc :: string
  sr_role :: role
  sr_chain :: string
  sr_id :: string
  sr_weight :: string
  sr_state :: string
  sr_height :: string

definition status_weight :: "('cid, 'pop) inventory \<Rightarrow> pchain_probe \<Rightarrow> status_probe \<Rightarrow> string \<times> status_failure list" where
  "status_weight iv pc p =
    (if Role (sp_node p) \<noteq> RoleValidator \<or> \<not> inv_created iv then (status_na, [])
     else case pp_weights pc (sp_expected p) of
         Some w \<Rightarrow> (show_u64 w, [])
       | None \<Rightarrow> (status_unknown, if pp_sets_ok pc
           then [NotInSet (Number (sp_node p)) (sp_identity p) (sp_expected p) (chain_of_node (sp_node p))] else []))"

definition status_row_of :: "('cid, 'pop) inventory \<Rightarrow> pchain_probe \<Rightarrow> status_probe \<Rightarrow> status_row" where
  "status_row_of iv pc p = \<lparr>sr_number = Number (sp_node p), sr_dc = DC (sp_node p), sr_role = Role (sp_node p),
     sr_chain = chain_of_node (sp_node p), sr_id = sp_identity p, sr_weight = fst (status_weight iv pc p),
     sr_state = sp_state p, sr_height = sp_height p\<rparr>"

definition intended_up_count :: "status_row list \<Rightarrow> nat" where
  "intended_up_count rows = length (filter (\<lambda>r. sr_state r = ''up'') rows)"

section \<open>The command\<close>

record status_report =
  rp_rows :: "status_row list"
  rp_intended :: nat
  rp_pchain :: pchain_row
  rp_recorded :: bool
  rp_note :: bool
  rp_watch :: bool
  rp_drifts :: "(int \<times> string \<times> string \<times> string) list"
  rp_failures :: "status_failure list"
  rp_fatal :: nat

definition fleet_status ::
  "'f float_ops \<Rightarrow> ('id, 'pop) platform \<Rightarrow> ('cid, 'id) public_api \<Rightarrow> status_world \<Rightarrow> ('cid, 'pop) inventory \<Rightarrow> status_report" where
  "fleet_status fl pf api w iv =
    (let pc = probe_pchain_status fl pf api w iv;
         probes = map (probe_node_status w iv) (l1_nodes iv);
         rows = map (status_row_of iv pc) probes in
     \<lparr>rp_rows = rows, rp_intended = intended_up_count rows, rp_pchain = pchain_status_row pc,
       rp_recorded = pp_recorded pc, rp_note = pp_note pc, rp_watch = pp_watch pc,
       rp_drifts = map (\<lambda>p. (Number (sp_node p), sp_runtime p, sp_identity p, sp_expected p)) (filter sp_drift probes),
       rp_failures = concat (map (\<lambda>p. snd (status_weight iv pc p) @ sp_failures p) probes) @ pp_failures pc,
       rp_fatal = length (filter (\<lambda>p. fatal_probe (sp_state p) (sp_answered p) (sp_drift p)) probes)
         + (if pp_created pc \<and> \<not> pp_sets_ok pc then 1 else 0) + (if pchain_unhealthy pc then 1 else 0)\<rparr>)"

definition status_exit_ok :: "status_report \<Rightarrow> bool" where
  "status_exit_ok r \<longleftrightarrow> rp_fatal r = 0"

section \<open>What decides the exit code\<close>

lemmas state_names = status_na_def status_unknown_def status_up_def status_down_def status_failed_def
  status_not_installed_def frozen_mode_def follow_mode_def

text \<open>The unit of a machine is up.\<close>

definition machine_up :: "status_world \<Rightarrow> ('cid, 'pop) inventory \<Rightarrow> node \<Rightarrow> bool" where
  "machine_up w iv n \<longleftrightarrow> (case (target iv n, probe_service (sw_service w (Number n))) of
     (Inr _, Some (present, active, enabled)) \<Rightarrow> collapse_service_state present active enabled = status_up | _ \<Rightarrow> False)"

text \<open>An L1 machine serves the identity that placement assigns to it, and its chain once there is one.\<close>

definition serves_placement :: "status_world \<Rightarrow> ('cid, 'pop) inventory \<Rightarrow> node \<Rightarrow> bool" where
  "serves_placement w iv n \<longleftrightarrow> (\<exists>t. target iv n = Inr t
     \<and> runtime_node_id (sw_first w) (sw_info w (Number n)) = Some (pn_NodeID (nd_identity t)))
   \<and> (inv_created iv \<longrightarrow> status_l1_height (sw_first w) (sw_height w (Number n)) \<noteq> None)"

definition sets_readable :: "('cid, 'id) public_api \<Rightarrow> ('cid, 'pop) inventory \<Rightarrow> bool" where
  "sets_readable api iv \<longleftrightarrow> api_environment api \<and> api_validators api (inv_managerSubnetID iv) \<noteq> None \<and>
     (\<forall>c \<in> set (inv_chains iv). api_validators api (inv_subnetIDs iv c) \<noteq> None)"

definition runs_frozen :: "status_world \<Rightarrow> ('cid, 'pop) inventory \<Rightarrow> bool" where
  "runs_frozen w iv \<longleftrightarrow> machine_up w iv (pchain_node iv) \<and> probe_pchain_mode (sw_json w) (sw_config w) = Inr True"

definition pchain_observable :: "'f float_ops \<Rightarrow> status_world \<Rightarrow> bool" where
  "pchain_observable fl w \<longleftrightarrow> (case (probe_pchain_mode (sw_json w) (sw_config w), observe_pchain fl (sw_json w) (sw_reads w)) of
     (Inr _, Inr ob) \<Rightarrow> ob_height_ok ob \<or> ob_bootstrapped ob | _ \<Rightarrow> False)"

lemma fatal_machine:
  "(let p = probe_node_status w iv n in fatal_probe (sp_state p) (sp_answered p) (sp_drift p))
   \<longleftrightarrow> machine_up w iv n \<and> \<not> serves_placement w iv n"
proof (cases "machine_up w iv n")
  case True
  then obtain t present active enabled where t: "target iv n = Inr t"
    "probe_service (sw_service w (Number n)) = Some (present, active, enabled)"
    "collapse_service_state present active enabled = status_up"
    by (auto simp: machine_up_def split: sum.splits option.splits)
  then show ?thesis
    by (auto simp: probe_node_status_def fatal_probe_def serves_placement_def machine_up_def Let_def
        split: option.splits)
next
  case False
  moreover have "status_unknown \<noteq> status_up" by (simp add: state_names)
  ultimately show ?thesis
    by (auto simp: probe_node_status_def fatal_probe_def machine_up_def Let_def
        split: option.splits sum.splits)
qed

lemma chain_sets_readable:
  "(\<exists>sets. rmap (chain_set api iv) cs = Inr sets) \<longleftrightarrow> (\<forall>c \<in> set cs. api_validators api (inv_subnetIDs iv c) \<noteq> None)"
proof (induction cs)
  case (Cons c cs)
  then show ?case by (auto simp: chain_set_def split: option.splits)
qed simp

lemma public_sets_fields [simp]:
  "pp_number (probe_public_validator_sets pf api iv p) = pp_number p"
  "pp_state (probe_public_validator_sets pf api iv p) = pp_state p"
  "pp_mode (probe_public_validator_sets pf api iv p) = pp_mode p"
  "pp_bootstrapped (probe_public_validator_sets pf api iv p) = pp_bootstrapped p"
  "pp_local_ok (probe_public_validator_sets pf api iv p) = pp_local_ok p"
  "pp_created (probe_public_validator_sets pf api iv p) = pp_created p"
  by (simp_all add: probe_public_validator_sets_def split: option.split sum.split)

lemma public_fields [simp]:
  "pp_number (probe_public_pchain pf api iv rh p) = pp_number p"
  "pp_state (probe_public_pchain pf api iv rh p) = pp_state p"
  "pp_mode (probe_public_pchain pf api iv rh p) = pp_mode p"
  "pp_bootstrapped (probe_public_pchain pf api iv rh p) = pp_bootstrapped p"
  "pp_local_ok (probe_public_pchain pf api iv rh p) = pp_local_ok p"
  "pp_created (probe_public_pchain pf api iv rh p) = pp_created p"
  by (simp_all add: probe_public_pchain_def Let_def split: option.split)

lemma public_sets_ok:
  "\<not> pp_sets_ok p \<Longrightarrow> pp_sets_ok (probe_public_pchain pf api iv rh p) \<longleftrightarrow> inv_created iv \<and> sets_readable api iv"
  using chain_sets_readable [of api iv "inv_chains iv"]
  by (auto simp: probe_public_pchain_def probe_public_validator_sets_def sets_readable_def Let_def
      split: option.splits sum.splits)

lemma recorded_fields [simp]:
  "pp_state (recorded_validator_sets iv p) = pp_state p"
  "pp_mode (recorded_validator_sets iv p) = pp_mode p"
  "pp_bootstrapped (recorded_validator_sets iv p) = pp_bootstrapped p"
  "pp_local_ok (recorded_validator_sets iv p) = pp_local_ok p"
  "pp_created (recorded_validator_sets iv p) = pp_created p"
  "pp_sets_ok (recorded_validator_sets iv p) \<longleftrightarrow> inv_created iv \<or> pp_sets_ok p"
  by (simp_all add: recorded_validator_sets_def)

lemma observe_fields [simp]:
  "pp_number (observe_status fl w n p) = pp_number p"
  "pp_state (observe_status fl w n p) = pp_state p"
  "pp_mode (observe_status fl w n p) = pp_mode p"
  "pp_created (observe_status fl w n p) = pp_created p"
  "pp_sets_ok (observe_status fl w n p) = pp_sets_ok p"
  "pp_manager (observe_status fl w n p) = pp_manager p"
  "pp_visible (observe_status fl w n p) = pp_visible p"
  "pp_upstream_ok (observe_status fl w n p) = pp_upstream_ok p"
  "pp_upstream (observe_status fl w n p) = pp_upstream p"
  by (simp_all add: observe_status_def Let_def split: sum.split)

lemma observe_values:
  "pp_bootstrapped (observe_status fl w n p) = (case observe_pchain fl (sw_json w) (sw_reads w) of
     Inl _ \<Rightarrow> pp_bootstrapped p | Inr ob \<Rightarrow> ob_bootstrapped ob)"
  "pp_local_ok (observe_status fl w n p) = (case observe_pchain fl (sw_json w) (sw_reads w) of
     Inl _ \<Rightarrow> pp_local_ok p | Inr ob \<Rightarrow> ob_height_ok ob)"
  "pp_local (observe_status fl w n p) = (case observe_pchain fl (sw_json w) (sw_reads w) of
     Inl _ \<Rightarrow> pp_local p | Inr ob \<Rightarrow> ob_height ob)"
  by (simp_all add: observe_status_def Let_def split: sum.split)

text \<open>The mode the probe carries: empty when the machine is not up or its configuration does not say.\<close>

definition probed_mode :: "status_world \<Rightarrow> ('cid, 'pop) inventory \<Rightarrow> string" where
  "probed_mode w iv = (if \<not> machine_up w iv (pchain_node iv) then []
     else case probe_pchain_mode (sw_json w) (sw_config w) of Inl _ \<Rightarrow> []
       | Inr frozen \<Rightarrow> if frozen then frozen_mode else follow_mode)"

lemma mode_names: "frozen_mode \<noteq> []" "follow_mode \<noteq> []" "frozen_mode \<noteq> follow_mode"
  by (simp_all add: state_names)

lemma probed_frozen: "probed_mode w iv = frozen_mode \<longleftrightarrow> runs_frozen w iv"
  using mode_names by (auto simp: probed_mode_def runs_frozen_def split: sum.split)

lemma probe_up:
  assumes "machine_up w iv (pchain_node iv)"
  obtains p where "probe_pchain_status fl pf api w iv = observe_status fl w (pchain_node iv)
      (if runs_frozen w iv then recorded_validator_sets iv p
       else probe_public_pchain pf api iv (probed_mode w iv = follow_mode) p)"
    "pp_state p = status_up" "pp_mode p = probed_mode w iv" "pp_created p = inv_created iv" "\<not> pp_sets_ok p"
    "\<not> pp_bootstrapped p" "\<not> pp_local_ok p" "\<not> pp_upstream_ok p"
proof -
  from assms obtain t present active enabled where t: "target iv (pchain_node iv) = Inr t"
    "probe_service (sw_service w (Number (pchain_node iv))) = Some (present, active, enabled)"
    "collapse_service_state present active enabled = status_up"
    by (auto simp: machine_up_def split: sum.splits option.splits)
  define p where "p = (case probe_pchain_mode (sw_json w) (sw_config w) of
      Inl _ \<Rightarrow> (empty_probe iv)\<lparr>pp_state := status_up, pp_failures := [ModeUnread (Number (pchain_node iv))]\<rparr>
    | Inr frozen \<Rightarrow> (empty_probe iv)\<lparr>pp_state := status_up, pp_mode := (if frozen then frozen_mode else follow_mode)\<rparr>)"
  have mode: "pp_mode p = probed_mode w iv"
    using assms by (simp add: p_def probed_mode_def empty_probe_def split: sum.split)
  have fields: "pp_state p = status_up" "pp_created p = inv_created iv" "\<not> pp_sets_ok p" "\<not> pp_bootstrapped p"
    "\<not> pp_local_ok p" "\<not> pp_upstream_ok p"
    by (simp_all add: p_def empty_probe_def split: sum.split)
  have "probe_pchain_status fl pf api w iv = observe_status fl w (pchain_node iv)
      (if pp_mode p = frozen_mode then recorded_validator_sets iv p
       else probe_public_pchain pf api iv (pp_mode p = follow_mode) p)"
    using fields(1) by (simp add: probe_pchain_status_def t Let_def p_def empty_probe_def split: sum.split)
  then show ?thesis using that [of p] fields by (simp add: mode probed_frozen)
qed

lemma probe_not_up:
  assumes "\<not> machine_up w iv (pchain_node iv)"
  obtains p where "probe_pchain_status fl pf api w iv = probe_public_pchain pf api iv False p"
    "pp_state p \<noteq> status_up" "pp_created p = inv_created iv" "\<not> pp_sets_ok p"
proof -
  have modes: "[] \<noteq> frozen_mode" "[] \<noteq> follow_mode" "status_unknown \<noteq> status_up" by (simp_all add: state_names)
  let ?n = "pchain_node iv"
  show ?thesis
  proof (cases "target iv ?n")
    case (Inl e)
    show ?thesis
      by (rule that [of "(empty_probe iv)\<lparr>pp_failures := [TargetFailed (Number ?n) e]\<rparr>"])
        (simp_all add: probe_pchain_status_def Inl empty_probe_def modes Let_def)
  next
    case (Inr t)
    show ?thesis
    proof (cases "probe_service (sw_service w (Number ?n))")
      case None
      show ?thesis
        by (rule that [of "(empty_probe iv)\<lparr>pp_failures := [ServiceUnreadable (Number ?n)]\<rparr>"])
          (simp_all add: probe_pchain_status_def Inr None empty_probe_def modes Let_def)
    next
      case (Some s)
      obtain present active enabled where s: "s = (present, active, enabled)" by (cases s)
      then have "collapse_service_state present active enabled \<noteq> status_up"
        using assms Inr Some by (simp add: machine_up_def)
      then show ?thesis
        by (intro that [of "(empty_probe iv)\<lparr>pp_state := collapse_service_state present active enabled\<rparr>"])
          (simp_all add: probe_pchain_status_def Inr Some s empty_probe_def modes Let_def)
    qed
  qed
qed

lemma fatal_sets:
  "(let p = probe_pchain_status fl pf api w iv in pp_created p \<and> \<not> pp_sets_ok p)
   \<longleftrightarrow> inv_created iv \<and> \<not> (runs_frozen w iv \<or> sets_readable api iv)"
proof (cases "machine_up w iv (pchain_node iv)")
  case True
  then obtain p where "probe_pchain_status fl pf api w iv = observe_status fl w (pchain_node iv)
      (if runs_frozen w iv then recorded_validator_sets iv p
       else probe_public_pchain pf api iv (probed_mode w iv = follow_mode) p)"
    "pp_created p = inv_created iv" "\<not> pp_sets_ok p" by (rule probe_up)
  then show ?thesis by (auto simp add: public_sets_ok Let_def)
next
  case False
  then obtain p where "probe_pchain_status fl pf api w iv = probe_public_pchain pf api iv False p"
    "pp_created p = inv_created iv" "\<not> pp_sets_ok p" by (rule probe_not_up)
  then show ?thesis using False by (auto simp add: public_sets_ok Let_def runs_frozen_def)
qed

lemma fatal_pchain:
  "pchain_unhealthy (probe_pchain_status fl pf api w iv)
   \<longleftrightarrow> machine_up w iv (pchain_node iv) \<and> \<not> pchain_observable fl w"
proof (cases "machine_up w iv (pchain_node iv)")
  case True
  then obtain p where p: "probe_pchain_status fl pf api w iv = observe_status fl w (pchain_node iv)
      (if runs_frozen w iv then recorded_validator_sets iv p
       else probe_public_pchain pf api iv (probed_mode w iv = follow_mode) p)"
    "pp_state p = status_up" "pp_mode p = probed_mode w iv" "\<not> pp_bootstrapped p" "\<not> pp_local_ok p" by (rule probe_up)
  then show ?thesis using True
    by (auto simp: pchain_unhealthy_def observe_values pchain_observable_def probed_mode_def mode_names split: sum.splits)
next
  case False
  then obtain p where "probe_pchain_status fl pf api w iv = probe_public_pchain pf api iv False p"
    "pp_state p \<noteq> status_up" by (rule probe_not_up)
  then show ?thesis using False by (simp add: pchain_unhealthy_def)
qed

text \<open>C10: the exit code of \<^verbatim>\<open>fleet status\<close> is a health probe: it is zero exactly when every L1 machine
  whose unit is up serves the identity that placement assigns to it and, once the network exists, its
  chain; the validator sets of a created network are known, from the records of a frozen fleet or
  from the public API; and a P-chain machine that is up shows its mode and either its height or a
  passed bootstrap check. A frozen fleet needs no public API, and machines that are down pass.\<close>

theorem status_exit_exact:
  "status_exit_ok (fleet_status fl pf api w iv) \<longleftrightarrow>
    (\<forall>n \<in> set (l1_nodes iv). \<not> machine_up w iv n \<or> serves_placement w iv n)
    \<and> (\<not> inv_created iv \<or> runs_frozen w iv \<or> sets_readable api iv)
    \<and> (\<not> machine_up w iv (pchain_node iv) \<or> pchain_observable fl w)"
proof -
  let ?pc = "probe_pchain_status fl pf api w iv"
  have "status_exit_ok (fleet_status fl pf api w iv) \<longleftrightarrow>
      (\<forall>n \<in> set (l1_nodes iv). \<not> (let p = probe_node_status w iv n in fatal_probe (sp_state p) (sp_answered p) (sp_drift p)))
      \<and> \<not> (let p = ?pc in pp_created p \<and> \<not> pp_sets_ok p) \<and> \<not> pchain_unhealthy ?pc"
    by (simp add: status_exit_ok_def fleet_status_def Let_def filter_empty_conv)
  then show ?thesis unfolding fatal_machine fatal_sets fatal_pchain by blast
qed

section \<open>Ready to freeze\<close>

lemma all_visible:
  "foldl (\<lambda>b (_, v). b \<and> v) b vs \<longleftrightarrow> b \<and> (\<forall>(c, v) \<in> set vs. v)"
  by (induction vs arbitrary: b) auto

lemma l1_state_complete:
  "l1_state p = ''complete'' \<longleftrightarrow> pp_created p \<and> pp_sets_ok p \<and> pp_manager p \<and> (\<forall>(c, v) \<in> set (pp_visible p). v)"
  unfolding l1_state_def all_visible Let_def by (simp add: state_names)

lemma row_ready:
  assumes "pp_state p = status_up"
  shows "pr_ready (pchain_status_row p) = ''yes'' \<longleftrightarrow> pp_mode p = follow_mode \<and> pp_upstream_ok p \<and> pp_local_ok p
    \<and> pp_bootstrapped p \<and> pp_upstream p \<le> pp_local p \<and> l1_state p = ''complete''"
  using assms mode_names by (auto simp: pchain_status_row_def Let_def status_na_def)

text \<open>What a public probe leaves for the row.\<close>

lemma public_probe_ready:
  assumes "\<not> pp_sets_ok p" "\<not> pp_upstream_ok p" "inv_created iv"
  shows "(let q = probe_public_pchain pf api iv True p in
      pp_upstream_ok q \<and> pp_sets_ok q \<and> pp_manager q \<and> (\<forall>(c, v) \<in> set (pp_visible q). v) \<and> pp_upstream q \<le> h)
    \<longleftrightarrow> api_environment api \<and> (\<exists>u. api_height api = Some u \<and> u \<le> h)
      \<and> (\<exists>vs. api_validators api (inv_managerSubnetID iv) = Some vs
          \<and> contains_validators vs (known_ids (id_parse pf) (map pm_NodeID (Managers (inv_public iv)))))
      \<and> (\<forall>c \<in> set (inv_chains iv). \<exists>vs. api_validators api (inv_subnetIDs iv c) = Some vs
          \<and> contains_validators vs (expected_of (id_parse pf) (inv_public iv) c))"
proof -
  have sets: "(\<forall>c \<in> set cs. \<exists>vs. api_validators api (inv_subnetIDs iv c) = Some vs \<and> contains_validators vs (e c))
    \<longleftrightarrow> (\<exists>sets. rmap (chain_set api iv) cs = Inr sets \<and> (\<forall>(c, vs) \<in> set sets. contains_validators vs (e c)))" for cs e
  proof (induction cs)
    case (Cons c cs)
    then show ?case by (auto simp: chain_set_def split: option.splits)
  qed simp
  show ?thesis unfolding sets using assms
    by (auto simp: probe_public_pchain_def probe_public_validator_sets_def Let_def split: option.splits sum.splits)
qed

lemma known_ids_all: "\<forall>t \<in> set ts. parse t \<noteq> None \<Longrightarrow> known_ids parse ts = parse ` set ts"
  by (auto simp: known_ids_def)

lemma expected_agrees:
  assumes "manifest_ok pf p"
  shows "expected_of (id_parse pf) p c = expected_validators (id_parse pf) p c"
    and "known_ids (id_parse pf) (map pm_NodeID (Managers p)) = (\<lambda>m. id_parse pf (pm_NodeID m)) ` set (Managers p)"
proof -
  have n: "\<forall>n \<in> set (Nodes p). id_parse pf (pn_NodeID n) \<noteq> None"
    and m: "\<forall>m \<in> set (Managers p). id_parse pf (pm_NodeID m) \<noteq> None"
    using assms by (simp_all add: manifest_ok_def public_node_ok_def)
  have "expected_of (id_parse pf) p c = id_parse pf ` set (map pn_NodeID
      (filter (\<lambda>n. pn_Role n = RoleValidator \<and> chain_name n = c) (Nodes p)))"
    unfolding expected_of_def by (rule known_ids_all) (use n in simp)
  then show "expected_of (id_parse pf) p c = expected_validators (id_parse pf) p c"
    by (simp add: expected_validators_def image_image)
  show "known_ids (id_parse pf) (map pm_NodeID (Managers p)) = (\<lambda>m. id_parse pf (pm_NodeID m)) ` set (Managers p)"
    using known_ids_all [of "map pm_NodeID (Managers p)" "id_parse pf"] m by (simp add: image_image)
qed

text \<open>The gate, read off its inputs.\<close>

lemma freeze_check_Inr:
  assumes "distinct (map fst (fg_chains g))"
  shows "freeze_check g = Inr () \<longleftrightarrow> fg_upstream g \<le> fg_local g \<and> fg_manager g \<and> (\<forall>(c, b) \<in> set (fg_chains g). b)"
proof
  assume "freeze_check g = Inr ()"
  from freeze_check_passes [OF this assms] show "fg_upstream g \<le> fg_local g \<and> fg_manager g \<and> (\<forall>(c, b) \<in> set (fg_chains g). b)"
    by blast
next
  assume a: "fg_upstream g \<le> fg_local g \<and> fg_manager g \<and> (\<forall>(c, b) \<in> set (fg_chains g). b)"
  then have "map_of (fg_chains g) c \<noteq> Some False" for c by (auto dest: map_of_SomeD)
  with a show "freeze_check g = Inr ()" by (simp add: freeze_check_def not_less)
qed

lemma gate_chains_pass:
  "(\<exists>visible. rmap (gate_chain (\<lambda>_. api) pr) (enumerate n cs) = Inr visible \<and> (\<forall>(c, b) \<in> set visible. b))
   \<longleftrightarrow> (\<forall>c \<in> set cs. \<exists>vs. api_validators api (pr_subnetIDs pr c) = Some vs
          \<and> contains_validators vs (pr_expected_by_chain pr c))"
proof (induction cs arbitrary: n)
  case (Cons c cs)
  show ?case using Cons.IH [of "Suc n"] by (auto simp: gate_chain_def split: option.splits)
qed simp

text \<open>The gate of \<^verbatim>\<open>freeze\<close> passes, where nothing changes between its reads.\<close>

definition gate_open ::
  "'f float_ops \<Rightarrow> json_text \<Rightarrow> ('cid, 'id) public_api \<Rightarrow> node_reads \<Rightarrow> string list
   \<Rightarrow> ('id, 'cid, 'pop) prepared \<Rightarrow> bool" where
  "gate_open fl js api rd order pr \<longleftrightarrow> rbind (freeze_gate_state fl js (\<lambda>_. api) (\<lambda>_. rd) order pr)
     (\<lambda>gate. map_sum Refused id (freeze_check gate)) = Inr ()"

lemma gate_open_iff:
  assumes "distinct order"
  shows "gate_open fl js api rd order pr \<longleftrightarrow> api_environment api
    \<and> (\<exists>u ob. api_height api = Some u \<and> observe_pchain fl js rd = Inr ob \<and> ob_height_ok ob \<and> u \<le> ob_height ob)
    \<and> (\<exists>vs. api_validators api (pr_managerSubnetID pr) = Some vs \<and> contains_validators vs (pr_expected_manager pr))
    \<and> (\<forall>c \<in> set order. \<exists>vs. api_validators api (pr_subnetIDs pr c) = Some vs
          \<and> contains_validators vs (pr_expected_by_chain pr c))"
proof -
  have check: "freeze_check \<lparr>fg_upstream = u, fg_local = h, fg_manager = m, fg_chains = visible\<rparr> = Inr ()
      \<longleftrightarrow> u \<le> h \<and> m \<and> (\<forall>(c, b) \<in> set visible. b)"
    if "rmap (gate_chain (\<lambda>_. api) pr) (enumerate 3 order) = Inr visible" for u h m visible
    using freeze_check_Inr [of "\<lparr>fg_upstream = u, fg_local = h, fg_manager = m, fg_chains = visible\<rparr>"]
      gate_chains(1) [OF that] assms by simp
  show ?thesis unfolding gate_chains_pass [symmetric, where n = 3]
    by (cases "api_height api"; cases "observe_pchain fl js rd"; cases "api_validators api (pr_managerSubnetID pr)";
        cases "rmap (gate_chain (\<lambda>_. api) pr) (enumerate 3 order)")
      (auto simp: gate_open_def freeze_gate_state_def check simp del: rbind_eq_Inr)
qed

lemma prepare_records:
  assumes "prepare libs sur executable files mode includeL1 = Inr pr" "load_inventory libs (sur_codec sur) files = Inr iv"
  shows "inv_created iv" "pr_managerSubnetID pr = inv_managerSubnetID iv" "pr_subnetIDs pr = inv_subnetIDs iv"
    "pr_expected_by_chain pr = expected_of (id_parse (lib_platform libs)) (inv_public iv)"
    "pr_expected_manager pr = known_ids (id_parse (lib_platform libs)) (map pm_NodeID (Managers (inv_public iv)))"
proof -
  from assms(1) obtain iv' where iv': "prepare_inventory libs (sur_codec sur) files = Inr iv'"
    and pr: "pr_managerSubnetID pr = inv_managerSubnetID iv'" "pr_subnetIDs pr = inv_subnetIDs iv'"
      "pr_expected_by_chain pr = expected_validators (id_parse (lib_platform libs)) (inv_public iv')"
      "pr_expected_manager pr = (\<lambda>m. id_parse (lib_platform libs) (pm_NodeID m)) ` set (Managers (inv_public iv'))"
    by (auto simp: prepare_def split: if_splits)
  from prepare_inventory_loads [OF iv'] assms(2) have "iv' = iv" "inv_created iv" by auto
  moreover have "manifest_ok (lib_platform libs) (inv_public iv)"
    using load_inventory_ok [OF assms(2)] by (simp add: iv_ok_def)
  ultimately show "inv_created iv" "pr_managerSubnetID pr = inv_managerSubnetID iv" "pr_subnetIDs pr = inv_subnetIDs iv"
    "pr_expected_by_chain pr = expected_of (id_parse (lib_platform libs)) (inv_public iv)"
    "pr_expected_manager pr = known_ids (id_parse (lib_platform libs)) (map pm_NodeID (Managers (inv_public iv)))"
    using pr by (auto simp: expected_agrees)
qed

text \<open>C11: the ready-to-freeze cell of \<^verbatim>\<open>fleet status\<close> agrees with the gate of \<^verbatim>\<open>freeze\<close>, two separate
  computations over the same reads, which do not change meanwhile: for a created fleet whose P-chain machine is up and follows the
  network, the cell says yes exactly when the gate would let the freeze through and the node's
  bootstrap check passes as well.\<close>

theorem ready_cell_is_freeze_gate:
  assumes "prepare libs sur executable files mode includeL1 = Inr pr"
    and "load_inventory libs (sur_codec sur) files = Inr iv"
    and "distinct order" "set order = set (inv_chains iv)"
    and "machine_up w iv (pchain_node iv)" "probe_pchain_mode (sw_json w) (sw_config w) = Inr False"
  shows "pr_ready (rp_pchain (fleet_status fl (lib_platform libs) api w iv)) = ''yes'' \<longleftrightarrow>
    gate_open fl (sw_json w) api (sw_reads w) order pr
    \<and> (\<exists>ob. observe_pchain fl (sw_json w) (sw_reads w) = Inr ob \<and> ob_bootstrapped ob)"
proof -
  let ?pf = "lib_platform libs" and ?pc = "probe_pchain_status fl (lib_platform libs) api w iv"
  have mode: "\<not> runs_frozen w iv" "probed_mode w iv = follow_mode"
    using assms(5,6) by (simp_all add: runs_frozen_def probed_mode_def)
  from assms(5) obtain p where p: "?pc = observe_status fl w (pchain_node iv) (probe_public_pchain ?pf api iv True p)"
    "pp_state p = status_up" "pp_mode p = follow_mode" "pp_created p = inv_created iv" "\<not> pp_sets_ok p"
    "\<not> pp_bootstrapped p" "\<not> pp_local_ok p" "\<not> pp_upstream_ok p"
    by (rule probe_up [where fl = fl and pf = "lib_platform libs" and api = api]) (use mode in auto)
  note rec = prepare_records [OF assms(1,2)]
  let ?q = "probe_public_pchain ?pf api iv True p"
  have "pr_ready (pchain_status_row ?pc) = ''yes'' \<longleftrightarrow> (\<exists>ob. observe_pchain fl (sw_json w) (sw_reads w) = Inr ob
      \<and> ob_bootstrapped ob \<and> ob_height_ok ob \<and> pp_upstream_ok ?q \<and> pp_sets_ok ?q \<and> pp_manager ?q
      \<and> (\<forall>(c, v) \<in> set (pp_visible ?q). v) \<and> pp_upstream ?q \<le> ob_height ob)"
    using p rec(1) by (subst row_ready) (auto simp: l1_state_complete observe_values split: sum.splits)
  also have "\<dots> \<longleftrightarrow> gate_open fl (sw_json w) api (sw_reads w) order pr
      \<and> (\<exists>ob. observe_pchain fl (sw_json w) (sw_reads w) = Inr ob \<and> ob_bootstrapped ob)"
  proof (cases "observe_pchain fl (sw_json w) (sw_reads w)")
    case (Inr ob)
    show ?thesis using public_probe_ready [OF p(5,8) rec(1), of ?pf api "ob_height ob", unfolded Let_def]
      unfolding gate_open_iff [OF assms(3)] rec(2-5) assms(4) Inr sum.inject by blast
  qed simp
  finally show ?thesis by (simp add: fleet_status_def Let_def)
qed

section \<open>An example\<close>

text \<open>Only the P-chain machine and one validator are up; the validator serves the given node ID.\<close>

definition status_first :: "string \<Rightarrow> string \<Rightarrow> json option" where
  "status_first served body = Some (JObject [(''result'',
     if body = ''height'' then JString ''0x2a'' else JObject [(''nodeID'', JString served)])])"

definition status_sample :: "string \<Rightarrow> bool \<Rightarrow> status_world" where
  "status_sample served frozen = \<lparr>sw_first = status_first served,
     sw_service = (\<lambda>n. Some (if n \<le> 2 then ''present active enabled'' else ''present inactive disabled'')),
     sw_info = (\<lambda>_. Some (200, ''info'')), sw_height = (\<lambda>_. Some (200, ''height'')), sw_config = Some ''config'',
     sw_reads = view_reads,
     sw_json = (if frozen then view_json\<lparr>js_parse := (\<lambda>s. if s = ''config''
         then Some (JObject [(''bootstrap-ips'', JString []), (''bootstrap-ids'', JString [])]) else js_parse view_json s)\<rparr>
       else view_json)\<rparr>"

definition status_api :: "bool \<Rightarrow> (nat, string) public_api" where
  "status_api up = \<lparr>api_environment = up, api_height = Some 90, api_validators = (\<lambda>subnet.
     Some (if subnet = Some 1 then [(''manager'', 1000)]
       else if subnet = Some 3 then [(''nodeb'', 100000), (''nodef'', 100000)] else [(''noded'', 1000)]))\<rparr>"

lemma sample_service:
  "probe_service (Some ''present active enabled'') = Some (True, ''active'', ''enabled'')"
  "probe_service (Some ''present inactive disabled'') = Some (True, ''inactive'', ''disabled'')"
  by (simp_all add: probe_service_def go_eval)

lemma sample_collapse:
  "collapse_service_state True ''active'' ''enabled'' = status_up"
  "collapse_service_state True ''inactive'' ''disabled'' = status_down"
  by (simp_all add: collapse_service_state_def go_eval)

lemma full_pchain: "pchain_node full_iv = sample_nodes ! 0"
  by (simp add: pchain_node_def full_iv_def sample_iv_def base_inventory_def sample_nodes_def)

lemma full_targets: "n \<in> set sample_nodes \<Longrightarrow> \<exists>t. target full_iv n = Inr t"
  "\<exists>t. target full_iv (sample_nodes ! 1) = Inr t \<and> pn_NodeID (nd_identity t) = ''nodeb''"
proof -
  show "\<exists>t. target full_iv n = Inr t" if "n \<in> set sample_nodes"
    using full_identity [OF that] by (auto simp: prepare_identity_def target_def)
  show "\<exists>t. target full_iv (sample_nodes ! 1) = Inr t \<and> pn_NodeID (nd_identity t) = ''nodeb''"
    by (simp add: target_def assigned_def full_iv_def sample_iv_def base_inventory_def sample_nodes_def
        sample_placement_def sample_manifest_def sample_node_def index_by_def)
qed

lemma sample_up:
  "n \<in> set sample_nodes \<Longrightarrow> machine_up (status_sample served frozen) full_iv n \<longleftrightarrow> Number n \<le> 2"
  using full_targets(1) [of n]
  by (auto simp: machine_up_def status_sample_def sample_service sample_collapse status_up_def status_down_def)

lemma sample_serves:
  "serves_placement (status_sample served frozen) full_iv (sample_nodes ! 1) \<longleftrightarrow> served = ''nodeb'' \<and> served \<noteq> []"
proof -
  have "runtime_node_id (status_first served) (Some (200, ''info'')) = (if served = [] then None else Some served)"
    by (simp add: runtime_node_id_def status_rpc_def status_first_def json_raw_def json_field_def go_eval)
  moreover have "status_l1_height (status_first served) (Some (200, ''height'')) = Some 42"
    by (simp add: status_l1_height_def status_rpc_def status_first_def json_raw_def parse_hex_def hex_value_def go_eval)
  ultimately show ?thesis using full_targets(2) by (auto simp: serves_placement_def status_sample_def)
qed

lemma sample_modes:
  "probe_pchain_mode (sw_json (status_sample served frozen)) (sw_config (status_sample served frozen)) = Inr frozen"
  "observe_pchain view_floats (sw_json (status_sample served frozen)) (sw_reads (status_sample served frozen)) =
     Inr \<lparr>ob_bootstrapped = True, ob_height = 100, ob_height_ok = True, ob_progress = []\<rparr>"
proof -
  show "probe_pchain_mode (sw_json (status_sample served frozen)) (sw_config (status_sample served frozen)) = Inr frozen"
    by (simp add: probe_pchain_mode_def status_sample_def view_json_def)
  have "health_bootstrapped (sw_json (status_sample served frozen)) ''health'' = health_bootstrapped view_json ''health''"
    by (simp add: health_bootstrapped_def status_sample_def)
  then show "observe_pchain view_floats (sw_json (status_sample served frozen)) (sw_reads (status_sample served frozen)) =
     Inr \<lparr>ob_bootstrapped = True, ob_height = 100, ob_height_ok = True, ob_progress = []\<rparr>"
    using view_observed by (simp add: observe_pchain_def view_reads_def status_sample_def)
qed

text \<open>Offline and frozen, the fleet is healthy while the validator serves its own identity.\<close>

theorem status_exit_exact_witness:
  "status_exit_ok (fleet_status view_floats sample_env (status_api False) (status_sample ''nodeb'' True) full_iv)
   \<and> \<not> status_exit_ok (fleet_status view_floats sample_env (status_api False) (status_sample ''noded'' True) full_iv)"
proof -
  have l1: "set (l1_nodes full_iv) = set (tl sample_nodes)" "inv_created full_iv"
    by (auto simp: l1_nodes_def full_iv_def sample_iv_def base_inventory_def sample_nodes_def)
  have only: "n = sample_nodes ! 1 \<longleftrightarrow> Number n \<le> 2" if "n \<in> set (tl sample_nodes)" for n
    using that by (auto simp: sample_nodes_def)
  have member: "sample_nodes ! 0 \<in> set sample_nodes" "set (tl sample_nodes) \<subseteq> set sample_nodes"
    "sample_nodes ! 1 \<in> set (tl sample_nodes)" "Number (sample_nodes ! 0) = 1" "Number (sample_nodes ! 1) = 2"
    by (auto simp: sample_nodes_def)
  have frozen: "runs_frozen (status_sample served True) full_iv" "pchain_observable view_floats (status_sample served True)" for served
    using member by (simp_all add: runs_frozen_def sample_modes sample_up full_pchain pchain_observable_def)
  have l1_ok: "(\<forall>n \<in> set (l1_nodes full_iv). \<not> machine_up (status_sample served True) full_iv n
      \<or> serves_placement (status_sample served True) full_iv n) \<longleftrightarrow> served = ''nodeb''" for served
  proof -
    have "\<not> machine_up (status_sample served True) full_iv n \<or> serves_placement (status_sample served True) full_iv n
        \<longleftrightarrow> n \<noteq> sample_nodes ! 1 \<or> served = ''nodeb''" if "n \<in> set (tl sample_nodes)" for n
      using only [OF that] that member(2) sample_serves [of served True] by (auto simp: sample_up)
    then show ?thesis using member(3) l1(1) by auto
  qed
  show ?thesis unfolding status_exit_exact l1_ok using frozen by simp
qed

lemma full_expected:
  "expected_of (id_parse sample_env) (inv_public full_iv) main_chain = {Some ''nodeb'', Some ''nodef''}"
  "expected_of (id_parse sample_env) (inv_public full_iv) oracle_chain = {Some ''noded''}"
  "known_ids (id_parse sample_env) (map pm_NodeID (Managers (inv_public full_iv))) = {Some ''manager''}"
proof -
  have p: "inv_public full_iv = sample_manifest" by (simp add: full_iv_def sample_iv_def base_inventory_def)
  show "expected_of (id_parse sample_env) (inv_public full_iv) main_chain = {Some ''nodeb'', Some ''nodef''}"
    "expected_of (id_parse sample_env) (inv_public full_iv) oracle_chain = {Some ''noded''}"
    "known_ids (id_parse sample_env) (map pm_NodeID (Managers (inv_public full_iv))) = {Some ''manager''}"
    unfolding p by (simp_all add: expected_of_def known_ids_def sample_manifest_def sample_node_def sample_env_def
        chain_name_def effective_chain_def main_chain_def oracle_chain_def)
qed

lemma full_api:
  "api_validators (status_api up) (inv_managerSubnetID full_iv) = Some [(''manager'', 1000)]"
  "api_validators (status_api up) (inv_subnetIDs full_iv main_chain) = Some [(''nodeb'', 100000), (''nodef'', 100000)]"
  "api_validators (status_api up) (inv_subnetIDs full_iv oracle_chain) = Some [(''noded'', 1000)]"
  "api_environment (status_api up) = up" "api_height (status_api up) = Some 90"
  by (simp_all add: status_api_def full_iv_def main_chain_def oracle_chain_def)

theorem ready_cell_is_freeze_gate_witness:
  "pr_ready (rp_pchain (fleet_status view_floats sample_env (status_api True) (status_sample [] False) full_iv)) = ''yes''
   \<and> pr_ready (rp_pchain (fleet_status view_floats sample_env (status_api False) (status_sample [] False) full_iv)) \<noteq> ''yes''"
proof -
  from sample_prepares obtain pr where pr: "prepare sample_libs full_sur (\<lambda>_. True) sample_fleet_files ''frozen'' True = Inr pr" ..
  have load: "load_inventory sample_libs (sur_codec full_sur) sample_fleet_files = Inr full_iv"
    using prepare_inventory_loads [OF sample_prepares_inventory] by (simp add: full_sur_def sample_sur_def)
  have chains: "inv_chains full_iv = [main_chain, oracle_chain]"
    using sample_chains by (simp add: full_iv_def sample_iv_def base_inventory_def main_chain_def oracle_chain_def)
  then have d: "distinct (inv_chains full_iv)" by (simp add: main_chain_def oracle_chain_def)
  have up: "machine_up (status_sample [] False) full_iv (pchain_node full_iv)"
    using sample_up [of "sample_nodes ! 0"] by (simp add: full_pchain sample_nodes_def)
  note rec = prepare_records [OF pr load]
  have lib: "lib_platform sample_libs = sample_env" by (simp add: sample_libs_def)
  have ob: "observe_pchain view_floats view_json view_reads =
     Inr \<lparr>ob_bootstrapped = True, ob_height = 100, ob_height_ok = True, ob_progress = []\<rparr>" by (rule view_observed)
  have gate: "gate_open view_floats (sw_json (status_sample [] False)) (status_api up) (sw_reads (status_sample [] False))
      (inv_chains full_iv) pr \<longleftrightarrow> up" for up
    unfolding gate_open_iff [OF d] unfolding rec(2-5) chains sample_modes(2) lib
    by (simp add: full_api full_expected contains_validators_def)
  have "pr_ready (rp_pchain (fleet_status view_floats sample_env (status_api api_up) (status_sample [] False) full_iv)) = ''yes''
      \<longleftrightarrow> api_up" for api_up
    using ready_cell_is_freeze_gate [OF pr load d refl up sample_modes(1), of view_floats "status_api api_up"]
    unfolding gate lib sample_modes(2) sum.inject by (metis observation.select_convs(1))
  then show ?thesis by blast
qed

end
