(* ===== verification/Spec2Isabelle.thy ===== *)
theory Spec2Isabelle
  imports Place_Command Set_Weight Pchain_Archive App_Install Price_Feed Bombard Ingress App_Upgrade Created_Network Fleet_Status
begin

text \<open>
  The verification library of avalanche-benchmark, a Go program that creates Avalanche L1 chains, runs
  them on a fleet of machines without internet access, moves validator identities and weights between
  machines for failover drills, loads the chains, and feeds prices to them.

  \<^bold>\<open>The program.\<close> Four commands share the files of a deployment directory. \<^verbatim>\<open>cmd/l1\<close> generates keys and the
  manifest \<^verbatim>\<open>public.json\<close>, creates the management, main, oracle and further chains on the P-chain, records
  them in \<^verbatim>\<open>network.env\<close>, and later reports, tops up, re-weights or disables their validators. \<^verbatim>\<open>cmd/fleet\<close>
  installs, starts, stops, upgrades and observes the nodes over ssh, from the inventory \<^verbatim>\<open>nodes.ini\<close>,
  the manifest, the state file and the placement of identities on machines. \<^verbatim>\<open>cmd/bombard\<close> sends a load of
  transactions to every node of a chain. \<^verbatim>\<open>apps/settlement-feed\<close> publishes prices: a feeder writes them to
  an aggregator contract, and a relay carries them from the oracle chain to the main chain as signed
  Warp messages. They meet in those files: what one command writes is read by the loaders of the others.
\<close>

text \<open>
  \<^bold>\<open>Shared ground.\<close> \<open>Go_Prelude\<close> has the language and standard library the sources use: results as sums
  with the error on the left (\<open>rbind\<close>, \<open>each\<close> for a loop that stops at the first error), strings as lists of
  bytes, \<^verbatim>\<open>strings\<close> and \<^verbatim>\<open>strconv\<close>, checked \<^verbatim>\<open>uint64\<close> arithmetic, file systems as maps from paths, and the
  locale \<open>go_less\<close> (what \<^verbatim>\<open>sort.Slice\<close> needs of a comparison; interpreted for chains, node numbers and
  report rows). \<open>Json\<close> has JSON values and the decoding of a struct field.

  \<^bold>\<open>Configuration and deployment files.\<close> \<open>Config\<close>: \<^verbatim>\<open>internal/config\<close>, the environment and the inventory
  parser with its structural rules. \<open>Identity\<close>: \<^verbatim>\<open>internal/identity\<close>, letter names (locale \<open>numbering\<close>) and key
  files. \<open>Manifest\<close>: \<^verbatim>\<open>internal/creation/public.go\<close>. \<open>Network_State\<close>: \<^verbatim>\<open>internal/creation/state.go\<close> and the
  loader of \<^verbatim>\<open>internal/weights\<close>. \<open>Placement\<close>: \<^verbatim>\<open>internal/placement\<close> and \<^verbatim>\<open>internal/keygen\<close>. \<open>Funding\<close>:
  \<^verbatim>\<open>internal/funding\<close>. \<open>Feed_Config\<close>: \<^verbatim>\<open>config.go\<close> and \<^verbatim>\<open>keys.go\<close> of the feed. The lemmas state what every
  accepted file guarantees, that the validators accept exactly their contract, and the round trips
  between what one command saves and another loads.

  \<^bold>\<open>The fleet\<close>, \<^verbatim>\<open>internal/fleet\<close>. \<open>Fleet_Inventory\<close> (\<^verbatim>\<open>inventory.go\<close>, ports), \<open>Fleet_Place\<close> (the planners of
  \<^verbatim>\<open>place.go\<close> and \<^verbatim>\<open>lifecycle.go\<close>), \<open>Remote_Layout\<close> (\<^verbatim>\<open>layout.go\<close>), \<open>Address_Book\<close> (rendering in \<^verbatim>\<open>deploy.go\<close>,
  \<^verbatim>\<open>targets.go\<close>), \<open>Lifecycle\<close> (\<^verbatim>\<open>lifecycle.go\<close> and the phase engine), \<open>Deploy\<close> (\<^verbatim>\<open>deploy.go\<close>, \<^verbatim>\<open>preflight.go\<close>),
  \<open>Place_Command\<close> (\<^verbatim>\<open>place.go\<close>), \<open>Upgrades\<close> (\<^verbatim>\<open>upgrade.go\<close>), \<open>App_Install\<close> (\<^verbatim>\<open>app.go\<close>), \<open>Pchain_Archive\<close>
  (archives in \<^verbatim>\<open>deploy.go\<close>), \<open>Pchain_View\<close> (\<^verbatim>\<open>pchainview.go\<close>, \<^verbatim>\<open>freeze.go\<close>), \<open>Fleet_Status\<close> (\<^verbatim>\<open>status.go\<close>). A command
  is a function that extends a trace of remote operations, each with the machine, the operation and
  whether it succeeded. Whether it succeeds, and what a probe answers, is an arbitrary function of the
  trace so far, so a theorem holds for every pattern of failures. The locale \<open>node_action\<close> is what the
  phase engine asks of an action, \<open>complete_action\<close> adds that success means the whole list of operations
  was done; both are interpreted on the code's actions, and the orderings of the commands rest on them.
  In the freeze gate every read also carries its position in the round, so that the theorem can say
  which was made first. In \<open>Fleet_Status\<close> a whole status round is taken as one moment.
\<close>

text \<open>
  \<^bold>\<open>Chain creation\<close>, \<^verbatim>\<open>internal/creation\<close>. \<open>Genesis\<close>: \<^verbatim>\<open>genesis.go\<close>, the templates and contract accounts of
  \<^verbatim>\<open>create.go\<close>. \<open>Creation\<close>: the command, in a monad over the state with the events of the run; the outcome of
  an attempt, a cancellation and a failing save are functions of the events so far. \<open>Creation_Plan\<close> and
  \<open>Creation_Run\<close> hold the abstract specification (the plan of transactions of a manifest) and the
  refinement proof; \<open>Created_Network\<close> the resulting theorems, with a complete example run.

  \<^bold>\<open>Validators\<close>. \<open>Pchain_Read\<close> (the two copies of the height-consistent read), \<open>Fees\<close> (\<^verbatim>\<open>internal/weights\<close>,
  \<^verbatim>\<open>internal/topup\<close>, \<^verbatim>\<open>internal/destroy\<close>), \<open>Conversion_Search\<close> (\<^verbatim>\<open>findConversionHeight\<close>), \<open>Set_Weight\<close>
  (\<^verbatim>\<open>internal/setweight\<close>).

  \<^bold>\<open>The load generator\<close>, \<^verbatim>\<open>cmd/bombard\<close>. \<open>Bombard\<close>: tracker, issuer, workers, watchers, monitor and
  resubmission as interleavings of the relation \<open>bombard_run\<close>; \<open>Ingress\<close>: discovery, routing, block watchers.

  \<^bold>\<open>The price feed\<close>, \<^verbatim>\<open>apps/settlement-feed\<close>. \<open>Relay_Codec\<close> (\<^verbatim>\<open>payload.go\<close>, \<^verbatim>\<open>predicate.go\<close>), \<open>Relay_Sign\<close>
  (\<^verbatim>\<open>p2psign.go\<close>, relation \<open>sign_run\<close>), \<open>Relay\<close> (\<^verbatim>\<open>relay.go\<close>, \<^verbatim>\<open>epoch.go\<close>, \<^verbatim>\<open>evm.go\<close>, relation \<open>relay_run\<close>),
  \<open>Price_Feed\<close> (\<^verbatim>\<open>feed.go\<close>, relation \<open>feed_run\<close>), \<open>App_Upgrade\<close> (\<^verbatim>\<open>cmd/oracle/upgrade.go\<close>). The relations have one
  rule per event; their invariants are proved by rule induction and hold for every order of events.
  Channel operations and the atomic counters beside them are separate steps of the feeder, so its
  gauge is stated with the lag it really has.
\<close>

text \<open>
  \<^bold>\<open>Bounds and loops.\<close> Integers the program computes with have their width: \<open>u64\<close> for \<^verbatim>\<open>uint64\<close>, with the
  wrap-around where the code has it; \<open>int\<close> and \<open>nat\<close> stand for \<^verbatim>\<open>big.Int\<close> and for \<^verbatim>\<open>int\<close> values that a bound in
  the code keeps small. Loops are structural or have a measure (the bisection and the scan of
  \<open>Conversion_Search\<close> on the circle of 64-bit heights, the letter names of \<open>Identity\<close>). Retry loops count
  down the constant of the code: ten reads at a height, five attempts at a transaction. The loops that may
  wait for ever (\<open>verify_weight\<close>, \<open>wait_receipt\<close>, \<open>poll_visibility\<close>) are partial functions of an infinite
  sequence of answers, with \<open>None\<close> for a wait that never ends; no theorem uses fuel. The long-running
  processes are relations, and a theorem about them holds after every finite run; that a signature
  collection comes to an end is a bound on the steps of \<open>sign_run\<close>.

  \<^bold>\<open>Parameters.\<close> What is not code of the repository is an argument: JSON text, dotenv, URL, address and
  ID syntax, Keccak, certificates, BLS, the Warp and block codecs, the wallet, the RPC clients, the tar
  reader, the clock and the random generator. Where a theorem needs a law of one of them, the law is a
  hypothesis that states documented behaviour, and the witness instantiates it.

  \<^bold>\<open>Not modelled.\<close> Argument parsing and usage texts of the four commands; printed lines, tables, metrics
  registration and the terminal display of bombard; the text of the remote shell commands and with it
  ssh and rsync (each is one operation of the trace; of the process patterns only the pattern itself
  is modelled, as POSIX reads it, not the quotes of the command around it); dialling and sender pools;
  the I/O errors the comments of the theories name; delays, except where their number matters. Reads that
  the code spreads over several atomics in the load generator's monitor are one step (\<open>Bombard\<close>), and
  taking a waiter and delivering its reply are one step (\<open>Relay_Sign\<close>). Floating point is a parameter,
  apart from the rounding of untyped JSON numbers in \<open>Genesis\<close>.
\<close>

end
